(* ===== verification/Prelude.thy ===== *)
theory Prelude
  imports Complex_Main "HOL-Library.Multiset"
begin

text \<open>
  What the components share: identifiers, the result type of fallible operations
  (an \<open>error + 'a\<close> sum with sequencing \<open>bindr\<close> and a fallible loop \<open>foldr_r\<close>),
  the two SQL aggregations the services rely on (\<open>SUM\<close> over a filter and
  \<open>GROUP BY\<close>), and the insertion order of a Python \<open>dict\<close>'s keys.
\<close>

named_theorems inr_elims \<comment> \<open>inversion of a successful result\<close>

section \<open>Identifiers\<close>

text \<open>
  A UUID is its 128-bit value. \<open>str\<close> of a UUID is fixed-width hexadecimal, so ordering
  UUIDs by their string form is the numeric order.
\<close>

type_synonym uuid = nat

section \<open>Fallible operations\<close>

definition bindr :: "'e + 'a \<Rightarrow> ('a \<Rightarrow> 'e + 'b) \<Rightarrow> 'e + 'b" where
  "bindr m f = (case m of Inl e \<Rightarrow> Inl e | Inr x \<Rightarrow> f x)"

lemma bindr_simps [simp]:
  "bindr (Inl e) f = Inl e"
  "bindr (Inr x) f = f x"
  by (simp_all add: bindr_def)

lemma bindr_Inr [inr_elims]: "bindr m f = Inr y \<longleftrightarrow> (\<exists>x. m = Inr x \<and> f x = Inr y)"
  by (cases m) simp_all

lemma bindr_Inl: "bindr m f = Inl e \<longleftrightarrow> m = Inl e \<or> (\<exists>x. m = Inr x \<and> f x = Inl e)"
  by (cases m) simp_all

lemma if_Inl_Inr [inr_elims]: "(if b then Inl e else r) = Inr y \<longleftrightarrow> \<not> b \<and> r = Inr y"
  by simp

text \<open>A \<open>for\<close> loop whose body may raise: it stops at the first error.\<close>

fun foldr_r :: "('a \<Rightarrow> 's \<Rightarrow> 'e + 's) \<Rightarrow> 'a list \<Rightarrow> 's \<Rightarrow> 'e + 's" where
  "foldr_r f [] s = Inr s"
| "foldr_r f (x # xs) s = bindr (f x s) (foldr_r f xs)"

lemma foldr_r_append: "foldr_r f (xs @ ys) s = bindr (foldr_r f xs s) (foldr_r f ys)"
  by (induction xs arbitrary: s) (auto simp: bindr_def split: sum.split)

lemma foldr_r_invariant:
  assumes "foldr_r f xs s = Inr t" and "P s"
    and "\<And>x s t. x \<in> set xs \<Longrightarrow> P s \<Longrightarrow> f x s = Inr t \<Longrightarrow> P t"
  shows "P t"
  using assms
proof (induction xs arbitrary: s)
  case Nil
  then show ?case by simp
next
  case (Cons x xs)
  from Cons.prems(1) obtain u where u: "f x s = Inr u" and rest: "foldr_r f xs u = Inr t"
    by (auto simp: bindr_Inr)
  from Cons.prems(3) [OF _ Cons.prems(2) u] have "P u" by simp
  show ?case by (rule Cons.IH [OF rest \<open>P u\<close>]) (use Cons.prems(3) in auto)
qed

lemma foldr_r_trans:
  assumes "foldr_r f xs s = Inr t" and "R s s"
    and "\<And>x s' t'. x \<in> set xs \<Longrightarrow> R s s' \<Longrightarrow> f x s' = Inr t' \<Longrightarrow> R s t'"
  shows "R s t"
  using assms(1)
  by (rule foldr_r_invariant [where P = "R s"]) (use assms(2,3) in auto)

section \<open>SQL aggregation\<close>

text \<open>\<open>COALESCE(SUM(v), 0) WHERE P\<close>: the sum of no rows is 0.\<close>

definition sum_where :: "('r \<Rightarrow> 'v :: comm_monoid_add) \<Rightarrow> ('r \<Rightarrow> bool) \<Rightarrow> 'r list \<Rightarrow> 'v" where
  "sum_where v P rows = sum_list (map v (filter P rows))"

lemma sum_where_simps [simp]:
  "sum_where v P [] = 0"
  "sum_where v P (r # rs) = (if P r then v r else 0) + sum_where v P rs"
  "sum_where v P (rs @ rs') = sum_where v P rs + sum_where v P rs'"
  by (simp_all add: sum_where_def)

lemma sum_where_cong:
  "(\<And>r. r \<in> set rows \<Longrightarrow> P r = Q r) \<Longrightarrow> (\<And>r. r \<in> set rows \<Longrightarrow> Q r \<Longrightarrow> v r = w r)
   \<Longrightarrow> sum_where v P rows = sum_where w Q rows"
  by (induction rows) auto

lemma sum_where_none: "(\<And>r. r \<in> set rows \<Longrightarrow> \<not> P r) \<Longrightarrow> sum_where v P rows = 0"
  by (induction rows) auto

lemma sum_where_nonneg:
  fixes v :: "'r \<Rightarrow> 'v :: ordered_comm_monoid_add"
  shows "(\<And>r. r \<in> set rows \<Longrightarrow> P r \<Longrightarrow> 0 \<le> v r) \<Longrightarrow> 0 \<le> sum_where v P rows"
  by (induction rows) (auto intro: add_nonneg_nonneg)

text \<open>
  \<open>SELECT key, SUM(v) \<dots> WHERE P GROUP BY key\<close>: one row per distinct key of the
  selected rows. SQL leaves their order open and no caller relies on it.
\<close>

definition group_sum ::
    "('r \<Rightarrow> 'k) \<Rightarrow> ('r \<Rightarrow> 'v :: comm_monoid_add) \<Rightarrow> ('r \<Rightarrow> bool) \<Rightarrow> 'r list \<Rightarrow> ('k \<times> 'v) list" where
  "group_sum key v P rows =
     map (\<lambda>k. (k, sum_where v (\<lambda>r. P r \<and> key r = k) rows)) (remdups (map key (filter P rows)))"

lemma distinct_group_sum [simp]: "distinct (map fst (group_sum key v P rows))"
  by (simp add: group_sum_def comp_def)

lemma group_sum_iff:
  "(k, q) \<in> set (group_sum key v P rows) \<longleftrightarrow>
     (\<exists>r \<in> set rows. P r \<and> key r = k) \<and> q = sum_where v (\<lambda>r. P r \<and> key r = k) rows"
  by (auto simp: group_sum_def)

lemma map_of_tabulate:
  "map_of (map (\<lambda>k. (k, h k)) ks) k = (if k \<in> set ks then Some (h k) else None)"
  by (induction ks) auto

lemma map_of_group_sum:
  "map_of (group_sum key v P rows) k =
     (if \<exists>r \<in> set rows. P r \<and> key r = k
      then Some (sum_where v (\<lambda>r. P r \<and> key r = k) rows) else None)"
  by (auto simp: group_sum_def map_of_tabulate)

text \<open>
  Splitting a \<open>SUM\<close> by a key: the total is the sum of the groups.
\<close>

lemma sum_where_split:
  fixes v :: "'r \<Rightarrow> 'v :: comm_monoid_add"
  assumes "finite K" and "\<And>r. r \<in> set rows \<Longrightarrow> P r \<Longrightarrow> key r \<in> K"
  shows "sum_where v P rows = (\<Sum>k \<in> K. sum_where v (\<lambda>r. P r \<and> key r = k) rows)"
  using assms(2)
proof (induction rows)
  case Nil
  show ?case by simp
next
  case (Cons r rows)
  have "(\<Sum>k \<in> K. if P r \<and> key r = k then v r else 0) = (if P r then v r else 0)"
    using assms(1) Cons.prems [of r] by (cases "P r") simp_all
  then show ?case using Cons by (simp add: sum.distrib)
qed

section \<open>Dictionaries\<close>

text \<open>The keys of a \<open>dict\<close> filled in the order of a list: each at its first occurrence.\<close>

definition dict_keys :: "'k list \<Rightarrow> 'k list" where
  "dict_keys ks = rev (remdups (rev ks))"

lemma dict_keys_simps [simp]:
  "set (dict_keys ks) = set ks" "distinct (dict_keys ks)" "dict_keys [] = []"
  by (simp_all add: dict_keys_def)

text \<open>A loop over the keys of a \<open>defaultdict\<close> sum is the sum over the list that filled it.\<close>

lemma sum_list_dict_keys:
  fixes v :: "'r \<Rightarrow> 'v :: comm_monoid_add"
  shows "sum_list (map (\<lambda>k. sum_where v (\<lambda>r. P r \<and> key r = k) rows) (dict_keys (map key rows)))
       = sum_where v P rows"
proof -
  have "sum_list (map (\<lambda>k. sum_where v (\<lambda>r. P r \<and> key r = k) rows) (dict_keys (map key rows)))
      = (\<Sum>k \<in> key ` set rows. sum_where v (\<lambda>r. P r \<and> key r = k) rows)"
    by (subst sum_list_distinct_conv_sum_set) simp_all
  also have "\<dots> = sum_where v P rows"
    by (rule sum_where_split [symmetric]) auto
  finally show ?thesis .
qed

lemma set_map_filter: "set (List.map_filter f xs) = {y. \<exists>x \<in> set xs. f x = Some y}"
  by (force simp: List.map_filter_def)

end
