(* ===== verification/Decimal28.thy ===== *)
theory Decimal28
  imports Prelude
begin

text \<open>
  Python's \<open>decimal.Decimal\<close> in the default context, and PostgreSQL's
  \<open>NUMERIC(18,6)\<close>. A finite \<open>Decimal\<close> is the rational it denotes. The result of
  \<open>+\<close>, \<open>-\<close>, \<open>*\<close> and \<open>/\<close> is the exact result rounded to 28
  significant digits, ties to even (\<open>dec\<close>); the exponent limits of the context are
  out of reach of the program's numbers and are not modelled. A \<open>NUMERIC(18,6)\<close>
  column rounds what is stored to six decimal places, ties away from zero, and refuses
  values of more than twelve integer digits (\<open>numeric_18_6\<close>).

  The lemmas: \<open>dec\<close> is monotone, symmetric, and leaves every value of at most 28
  digits unchanged; quantities on the \<open>NUMERIC(18,6)\<close> grid are stored unchanged.
\<close>

section \<open>Digits\<close>

fun ndigits :: "nat \<Rightarrow> nat" where
  "ndigits n = (if n < 10 then 1 else Suc (ndigits (n div 10)))"

declare ndigits.simps [simp del]

lemma ndigits_pos: "0 < ndigits n"
  by (subst ndigits.simps) simp

lemma ndigits_bounds:
  "0 < n \<Longrightarrow> 10 ^ (ndigits n - 1) \<le> n \<and> n < 10 ^ ndigits n"
proof (induction n rule: ndigits.induct)
  case (1 n)
  show ?case
  proof (cases "n < 10")
    case True
    with "1.prems" show ?thesis by (simp add: ndigits.simps [of n])
  next
    case False
    define d where "d = ndigits (n div 10)"
    from False have *: "ndigits n = Suc d" by (simp add: ndigits.simps [of n] d_def)
    from "1.IH" False have lo: "10 ^ (d - 1) \<le> n div 10" and hi: "n div 10 < 10 ^ d"
      by (auto simp: d_def)
    have "0 < d" by (simp add: d_def ndigits_pos)
    then have "10 ^ d = 10 * (10::nat) ^ (d - 1)" by (cases d) simp_all
    with lo have "10 ^ d \<le> n" by linarith
    moreover from hi have "n < 10 * 10 ^ d" by linarith
    ultimately show ?thesis by (simp add: *)
  qed
qed

text \<open>Python's \<open>adjusted()\<close>: the exponent of the most significant digit.\<close>

definition adjusted :: "rat \<Rightarrow> int" where
  "adjusted x = (let a = \<bar>x\<bar> in
     if 1 \<le> a then int (ndigits (nat \<lfloor>a\<rfloor>)) - 1
     else - int (ndigits (nat (\<lceil>1 / a\<rceil> - 1))))"

lemma adjusted_minus [simp]: "adjusted (- x) = adjusted x"
  by (simp add: adjusted_def)

lemma adjusted_bounds:
  assumes "x \<noteq> 0"
  shows "10 powi adjusted x \<le> \<bar>x\<bar> \<and> \<bar>x\<bar> < 10 powi (adjusted x + 1)"
proof (cases "1 \<le> \<bar>x\<bar>")
  case True
  define n where "n = nat \<lfloor>\<bar>x\<bar>\<rfloor>"
  define d where "d = ndigits n"
  from True have "0 < n" by (simp add: n_def le_floor_iff zero_less_nat_eq)
  then have "10 ^ (d - 1) \<le> n" "n < 10 ^ d" and d: "0 < d"
    using ndigits_bounds [of n] by (auto simp: d_def ndigits_pos)
  then have "(10::rat) ^ (d - 1) \<le> of_nat n" "of_nat (Suc n) \<le> (10::rat) ^ d"
    by (metis of_nat_le_iff of_nat_numeral of_nat_power)
       (metis Suc_leI \<open>n < 10 ^ d\<close> of_nat_le_iff of_nat_numeral of_nat_power)
  moreover have "of_nat n \<le> \<bar>x\<bar>" "\<bar>x\<bar> < of_nat (Suc n)"
    using True by (simp_all add: n_def) linarith+
  moreover have "adjusted x = int (d - 1)"
    using True d by (simp add: adjusted_def d_def n_def of_nat_diff)
  moreover have "(10::rat) powi (int (d - 1) + 1) = 10 ^ d"
    using d by (simp add: power_int_def nat_add_distrib)
  ultimately show ?thesis
    by (simp only: power_int_of_nat) linarith
next
  case False
  define y where "y = 1 / \<bar>x\<bar>"
  define n where "n = nat (\<lceil>y\<rceil> - 1)"
  define d where "d = ndigits n"
  from False assms have y: "1 < y" by (simp add: y_def)
  then have "0 < n" by (simp add: n_def)
  then have "10 ^ (d - 1) \<le> n" "n < 10 ^ d" and d: "0 < d"
    using ndigits_bounds [of n] by (auto simp: d_def ndigits_pos)
  then have "(10::rat) ^ (d - 1) \<le> of_nat n" "of_nat (Suc n) \<le> (10::rat) ^ d"
    by (metis of_nat_le_iff of_nat_numeral of_nat_power)
       (metis Suc_leI \<open>n < 10 ^ d\<close> of_nat_le_iff of_nat_numeral of_nat_power)
  moreover have "of_nat n < y" "y \<le> of_nat (Suc n)"
    using y by (simp_all add: n_def) linarith+
  ultimately have lo: "10 ^ (d - 1) < y" and hi: "y \<le> 10 ^ d"
    by linarith+
  have x: "\<bar>x\<bar> = 1 / y" using assms by (simp add: y_def)
  have adj: "adjusted x = - int d"
    using False by (simp add: adjusted_def d_def n_def y_def)
  have "(10::rat) powi (- int d) = 1 / 10 ^ d"
    by (simp add: power_int_minus field_simps)
  moreover have "(10::rat) powi (- int d + 1) = 1 / 10 ^ (d - 1)"
  proof -
    have "- int d + 1 = - int (d - 1)" using d by simp
    then show ?thesis by (simp only: power_int_minus power_int_of_nat inverse_eq_divide)
  qed
  moreover have "1 / 10 ^ d \<le> 1 / y" using hi y by (simp add: frac_le)
  moreover have "1 / y < 1 / 10 ^ (d - 1)"
    using lo y by (intro divide_strict_left_mono) simp_all
  ultimately show ?thesis by (simp add: adj x)
qed

lemma adjusted_mono:
  assumes "0 < x" and "x \<le> y"
  shows "adjusted x \<le> adjusted y"
proof (rule ccontr)
  assume "\<not> adjusted x \<le> adjusted y"
  then have "(10::rat) powi (adjusted y + 1) \<le> 10 powi adjusted x"
    by (intro power_int_increasing) simp_all
  with adjusted_bounds [of x] adjusted_bounds [of y] assms show False by simp
qed

section \<open>Half-even rounding to 28 digits\<close>

definition half_even :: "rat \<Rightarrow> int" where
  "half_even y = (let f = \<lfloor>y\<rfloor>; r = y - of_int f in
     if r < 1 / 2 then f else if 1 / 2 < r then f + 1 else if even f then f else f + 1)"

lemma half_even_of_int [simp]: "half_even (of_int k) = k"
  by (simp add: half_even_def)

lemma half_even_minus: "half_even (- y) = - half_even y"
proof (cases "y = of_int \<lfloor>y\<rfloor>")
  case True
  then show ?thesis by (metis half_even_of_int of_int_minus)
next
  case False
  then have f: "\<lfloor>- y\<rfloor> = - \<lfloor>y\<rfloor> - 1"
    by (metis ceiling_altdef ceiling_def add.commute diff_minus_eq_add minus_add_distrib
        minus_minus uminus_add_conv_diff)
  show ?thesis by (auto simp: half_even_def f Let_def)
qed

lemma half_even_mono: "x \<le> y \<Longrightarrow> half_even x \<le> half_even y"
proof -
  assume xy: "x \<le> y"
  then have fl: "\<lfloor>x\<rfloor> \<le> \<lfloor>y\<rfloor>" by (rule floor_mono)
  show ?thesis
  proof (cases "\<lfloor>x\<rfloor> = \<lfloor>y\<rfloor>")
    case True
    with xy show ?thesis by (auto simp: half_even_def Let_def)
  next
    case False
    with fl have "\<lfloor>x\<rfloor> + 1 \<le> \<lfloor>y\<rfloor>" by simp
    moreover have "half_even x \<le> \<lfloor>x\<rfloor> + 1" "\<lfloor>y\<rfloor> \<le> half_even y"
      by (auto simp: half_even_def Let_def)
    ultimately show ?thesis by simp
  qed
qed

definition dec :: "rat \<Rightarrow> rat" where
  "dec x = (if x = 0 then 0
     else let e = adjusted x - 27 in of_int (half_even (x / 10 powi e)) * 10 powi e)"

lemma dec_0 [simp]: "dec 0 = 0"
  by (simp add: dec_def)

lemma dec_minus: "dec (- x) = - dec x"
  by (simp add: dec_def half_even_minus Let_def)

lemma dec_fixed:
  assumes "x = of_int k * 10 powi e" and "\<bar>k\<bar> < 10 ^ 28"
  shows "dec x = x"
proof (cases "x = 0")
  case False
  define e' where "e' = adjusted x - 27"
  have "of_int \<bar>k\<bar> < (10::rat) ^ 28"
    using assms(2) by (metis of_int_less_iff of_int_numeral of_int_power)
  then have "\<bar>x\<bar> < 10 ^ 28 * 10 powi e"
    by (simp add: assms(1) abs_mult)
  also have "\<dots> = 10 powi (28 + e)" by (simp add: power_int_add)
  finally have "(10::rat) powi adjusted x < 10 powi (28 + e)"
    using adjusted_bounds [OF False] by linarith
  then have "adjusted x < 28 + e"
    by (metis not_less one_le_numeral power_int_increasing)
  then have "e' \<le> e" by (simp add: e'_def)
  then obtain n where n: "e = e' + int n" using zle_iff_zadd by auto
  have "x / 10 powi e' = of_int (k * 10 ^ n)"
    by (simp add: assms(1) n power_int_add)
  then have "half_even (x / 10 powi e') = k * 10 ^ n" by (metis half_even_of_int)
  then show ?thesis
    using False by (simp add: dec_def Let_def flip: e'_def) (simp add: assms(1) n power_int_add)
qed simp

lemma dec_of_int: "\<bar>k\<bar> < 10 ^ 28 \<Longrightarrow> dec (of_int k) = of_int k"
  by (rule dec_fixed [of _ k 0]) simp_all

lemma dec_nonneg_bounds:
  assumes "0 < x"
  shows "10 powi adjusted x \<le> dec x \<and> dec x \<le> 10 powi (adjusted x + 1)"
proof -
  define a where "a = adjusted x"
  let ?m = "x / 10 powi (a - 27)"
  from adjusted_bounds [of x] assms
  have lo: "10 powi a \<le> x" and hi: "x \<le> 10 powi (a + 1)" by (simp_all add: a_def)
  have e1: "(10::rat) powi a = 10 powi (a - 27) * 10 ^ 27"
    using power_int_add [of "10::rat" "a - 27" 27] by simp
  have e2: "(10::rat) powi (a + 1) = 10 powi (a - 27) * 10 ^ 28"
    using power_int_add [of "10::rat" "a - 27" 28] by (simp add: add.commute)
  have "of_int (10 ^ 27) \<le> ?m" "?m \<le> of_int (10 ^ 28)"
    using lo hi unfolding e1 e2 by (simp_all add: field_simps)
  then have "half_even (of_int (10 ^ 27)) \<le> half_even ?m"
    "half_even ?m \<le> half_even (of_int (10 ^ 28))"
    by (simp_all only: half_even_mono)
  then have b: "10 ^ 27 \<le> half_even ?m" "half_even ?m \<le> 10 ^ 28"
    by (simp_all only: half_even_of_int)
  have "of_int (10 ^ 27) \<le> (of_int (half_even ?m) :: rat)"
    "of_int (half_even ?m) \<le> (of_int (10 ^ 28) :: rat)"
    using b by (simp_all only: of_int_le_iff)
  then have c: "10 ^ 27 \<le> (of_int (half_even ?m) :: rat)" "of_int (half_even ?m) \<le> (10 ^ 28 :: rat)"
    by simp_all
  have pos: "0 \<le> (10::rat) powi (a - 27)" by simp
  have "dec x = of_int (half_even ?m) * 10 powi (a - 27)"
    using assms by (simp add: dec_def a_def Let_def)
  with mult_right_mono [OF c(1) pos] mult_right_mono [OF c(2) pos] show ?thesis
    by (simp only: e1 e2 a_def [symmetric] mult.commute)
qed

lemma dec_mono_pos:
  assumes "0 < x" and "x \<le> y"
  shows "dec x \<le> dec y"
proof (cases "adjusted x = adjusted y")
  case True
  let ?p = "(10::rat) powi (adjusted y - 27)"
  have "x / ?p \<le> y / ?p" using assms by (simp add: divide_right_mono)
  then have "of_int (half_even (x / ?p)) \<le> (of_int (half_even (y / ?p)) :: rat)"
    by (simp add: half_even_mono)
  then show ?thesis
    using assms True by (simp add: dec_def Let_def mult_right_mono)
next
  case False
  with adjusted_mono [OF assms] have "adjusted x + 1 \<le> adjusted y" by simp
  then have "(10::rat) powi (adjusted x + 1) \<le> 10 powi adjusted y"
    by (intro power_int_increasing) simp_all
  with dec_nonneg_bounds [of x] dec_nonneg_bounds [of y] assms show ?thesis by linarith
qed

lemma dec_pos: "0 < x \<Longrightarrow> 0 < dec x"
  using dec_nonneg_bounds [of x] by (metis less_le_trans zero_less_numeral zero_less_power_int)

lemma dec_mono: "x \<le> y \<Longrightarrow> dec x \<le> dec y"
proof -
  assume xy: "x \<le> y"
  consider "0 < x" | "x \<le> 0" "0 \<le> y" | "y < 0" using xy by linarith
  then show ?thesis
  proof cases
    case 1
    then show ?thesis using xy by (rule dec_mono_pos)
  next
    case 2
    have "dec x \<le> 0" using dec_pos [of "- x"] 2 by (cases "x = 0") (auto simp: dec_minus)
    moreover have "0 \<le> dec y" using dec_pos [of y] 2 by (cases "y = 0") auto
    ultimately show ?thesis by linarith
  next
    case 3
    with xy dec_mono_pos [of "- y" "- x"] show ?thesis by (simp add: dec_minus)
  qed
qed

lemma dec_nonneg: "0 \<le> x \<Longrightarrow> 0 \<le> dec x"
  using dec_mono [of 0 x] by simp

definition dec_add :: "rat \<Rightarrow> rat \<Rightarrow> rat" where "dec_add a b = dec (a + b)"
definition dec_sub :: "rat \<Rightarrow> rat \<Rightarrow> rat" where "dec_sub a b = dec (a - b)"
definition dec_mul :: "rat \<Rightarrow> rat \<Rightarrow> rat" where "dec_mul a b = dec (a * b)"
definition dec_div :: "rat \<Rightarrow> rat \<Rightarrow> rat" where "dec_div a b = dec (a / b)"

section \<open>NUMERIC(18,6)\<close>

definition on_grid :: "rat \<Rightarrow> bool" where
  "on_grid x \<longleftrightarrow> of_int \<lfloor>x * 10 ^ 6\<rfloor> = x * 10 ^ 6"

definition round_6 :: "rat \<Rightarrow> rat" where
  "round_6 x = (if 0 \<le> x then of_int \<lfloor>x * 10 ^ 6 + 1 / 2\<rfloor> / 10 ^ 6
                else - (of_int \<lfloor>(- x) * 10 ^ 6 + 1 / 2\<rfloor> / 10 ^ 6))"

definition fits_18_6 :: "rat \<Rightarrow> bool" where
  "fits_18_6 x \<longleftrightarrow> \<bar>round_6 x\<bar> < 10 ^ 12"

lemma on_gridI: "x * 10 ^ 6 = of_int k \<Longrightarrow> on_grid x"
  by (simp add: on_grid_def)

lemma on_gridE:
  assumes "on_grid x"
  obtains k where "x * 10 ^ 6 = of_int k"
  using assms by (metis on_grid_def)

lemma on_grid_0 [simp]: "on_grid 0"
  by (simp add: on_grid_def)

lemma on_grid_of_int [simp]: "on_grid (of_int k)"
  by (rule on_gridI [of _ "k * 10 ^ 6"]) simp

lemma on_grid_of_nat [simp]: "on_grid (of_nat k)"
  by (metis of_int_of_nat_eq on_grid_of_int)

lemma on_grid_add: "on_grid x \<Longrightarrow> on_grid y \<Longrightarrow> on_grid (x + y)"
  by (elim on_gridE) (rule on_gridI, simp add: algebra_simps flip: of_int_add)

lemma on_grid_minus [simp]: "on_grid (- x) \<longleftrightarrow> on_grid x"
proof -
  have "on_grid (- y)" if "on_grid y" for y
    using that by (elim on_gridE) (rule on_gridI, simp flip: of_int_minus)
  from this [of x] this [of "- x"] show ?thesis by auto
qed

lemma on_grid_diff: "on_grid x \<Longrightarrow> on_grid y \<Longrightarrow> on_grid (x - y)"
  using on_grid_add [of x "- y"] by simp

lemma on_grid_min: "on_grid x \<Longrightarrow> on_grid y \<Longrightarrow> on_grid (min x y)"
  by (simp add: min_def)

lemma on_grid_sum_where:
  "(\<And>r. r \<in> set rows \<Longrightarrow> on_grid (v r)) \<Longrightarrow> on_grid (sum_where v P rows)"
  by (induction rows) (auto intro: on_grid_add)

lemma round_6_grid: "on_grid x \<Longrightarrow> round_6 x = x"
proof -
  have *: "\<lfloor>of_int k + 1 / 2 :: rat\<rfloor> = k" for k by linarith
  assume "on_grid x"
  then obtain k where k: "x * 10 ^ 6 = of_int k" by (rule on_gridE)
  then have "x = of_int k / 10 ^ 6" by (simp add: field_simps)
  moreover have "(- x) * 10 ^ 6 = of_int (- k)" using k by simp
  ultimately show ?thesis
    using * [of k] * [of "- k"] by (simp only: round_6_def k) simp
qed

lemma on_grid_round_6 [simp]: "on_grid (round_6 x)"
proof -
  have "on_grid (of_int k / 10 ^ 6)" for k by (rule on_gridI [of _ k]) simp
  then show ?thesis by (simp add: round_6_def)
qed

lemma round_6_of_int [simp]: "round_6 (of_int k) = of_int k"
  by (simp add: round_6_grid)

text \<open>
  Ledger quantities have at most six decimal places; up to ten to the 22 in magnitude,
  decimal arithmetic on them is exact, so their sums and differences are written with
  the plain operations.
\<close>

lemma dec_grid:
  assumes "on_grid x" and "\<bar>x\<bar> < 10 ^ 22"
  shows "dec x = x"
proof -
  obtain k where k: "x * 10 ^ 6 = of_int k" using assms(1) by (rule on_gridE)
  have "\<bar>x\<bar> * 10 ^ 6 < 10 ^ 22 * 10 ^ 6" using assms(2) by simp
  then have "of_int \<bar>k\<bar> < (of_int (10 ^ 28) :: rat)"
    using k by (simp add: abs_mult flip: of_int_abs)
  then have "\<bar>k\<bar> < 10 ^ 28" by (simp only: of_int_less_iff)
  moreover have "x = of_int k * 10 powi (- 6)"
    using k by (simp add: power_int_minus field_simps)
  ultimately show ?thesis by (rule dec_fixed [rotated])
qed

text \<open>Evaluation takes the short way for the values that occur: no rounding on the grid.\<close>

lemma dec_code [code]:
  "dec x = (if \<bar>x\<bar> < 10000000000000000000000 \<and> on_grid x then x
     else if x = 0 then 0
     else let e = adjusted x - 27 in of_int (half_even (x / 10 powi e)) * 10 powi e)"
  using dec_grid [of x] by (simp add: dec_def)

end
