(* ===== verification/Schema.thy ===== *)
theory Schema
  imports Decimal28
begin

text \<open>
  The tables (SQLAlchemy models under \<open>backend/app/domain/*/models.py\<close>) as records, the
  errors of the services as datatypes, and the database as one record of tables.

  A table read by primary key (\<open>db.get\<close>) is a map from ids; a table read by scans is
  the list of its rows in insertion order. Columns no modelled operation reads or
  writes (audit timestamps, free-text descriptions) are left out. \<open>held_locks\<close> are the
  transaction-scoped advisory locks in acquisition order, \<open>next_uuid\<close> is the supply
  behind \<open>uuid.uuid4\<close> (every new id is fresh), \<open>clock\<close> is what \<open>utcnow()\<close> reads.
\<close>

section \<open>Rows\<close>

record workspace =
  ws_id :: uuid
  ws_serial_tracking_enabled :: bool
  ws_active_currencies :: "string list option"

datatype part_type = Linked | Local | Meta | Sub_assembly

record part =
  p_id :: uuid
  p_workspace_id :: uuid
  p_part_type :: part_type
  p_name :: string
  p_attrition_percentage :: rat
  p_attrition_min_quantity :: rat
  p_unit_of_measure :: string
  p_default_storage_location_id :: "uuid option"
  p_default_storage_mandatory :: bool
  p_serialized :: bool
  p_archived_at :: "nat option"

record storage_location =
  sl_id :: uuid
  sl_workspace_id :: uuid
  sl_archived_at :: "nat option"
  sl_name :: string
  sl_single_part_only :: bool
  sl_existing_parts_only :: bool
  sl_is_full :: bool

type_synonym date = "int \<times> int \<times> int" \<comment> \<open>year, month, day\<close>

datatype source_type = Manual | Split | Purchase | From_build

record lot =
  lot_id :: uuid
  lot_workspace_id :: uuid
  lot_part_id :: "uuid option"
  lot_name :: "string option"
  lot_serial_number :: "string option"
  lot_parent_lot_id :: "uuid option"
  lot_description :: "string option"
  lot_comments :: "string option"
  lot_expiration_date :: "date option"
  lot_source_type :: source_type
  lot_source_order_id :: "uuid option"
  lot_source_build_id :: "uuid option"
  lot_purchase_quantity :: "rat option"
  lot_purchase_unit_cost :: "rat option"
  lot_purchase_currency :: "string option"
  lot_created_by :: "uuid option"

text \<open>The column defaults of a new lot.\<close>

definition blank_lot :: lot where
  "blank_lot = \<lparr>lot_id = 0, lot_workspace_id = 0, lot_part_id = None, lot_name = None,
     lot_serial_number = None, lot_parent_lot_id = None, lot_description = None,
     lot_comments = None, lot_expiration_date = None, lot_source_type = Manual,
     lot_source_order_id = None, lot_source_build_id = None, lot_purchase_quantity = None,
     lot_purchase_unit_cost = None, lot_purchase_currency = None, lot_created_by = None\<rparr>"

datatype stock_status = On_hand | Reserved

datatype operation_type =
  Op_add | Op_remove | Op_move_out | Op_move_in | Op_adjust | Op_receive
| Op_reserve | Op_release | Op_build_consume | Op_build_produce

record stock_entry =
  se_id :: uuid
  se_workspace_id :: uuid
  se_part_id :: "uuid option"
  se_lot_id :: "uuid option"
  se_storage_location_id :: "uuid option"
  se_quantity_delta :: rat
  se_unit :: string
  se_status :: stock_status
  se_unit_price :: "rat option"
  se_currency :: "string option"
  se_operation_type :: operation_type
  se_related_entry_id :: "uuid option"
  se_order_id :: "uuid option"
  se_order_entry_id :: "uuid option"
  se_project_id :: "uuid option"
  se_build_id :: "uuid option"
  se_build_stage_id :: "uuid option"
  se_comments :: "string option"
  se_bag_signature :: "string option"
  se_occurred_at :: nat
  se_created_by :: "uuid option"

definition DEFAULT_UNIT :: string where "DEFAULT_UNIT = ''pcs''"

text \<open>The column defaults of a new ledger row.\<close>

definition blank_entry :: stock_entry where
  "blank_entry = \<lparr>se_id = 0, se_workspace_id = 0, se_part_id = None, se_lot_id = None,
     se_storage_location_id = None, se_quantity_delta = 0, se_unit = DEFAULT_UNIT,
     se_status = On_hand, se_unit_price = None, se_currency = None, se_operation_type = Op_add,
     se_related_entry_id = None, se_order_id = None, se_order_entry_id = None,
     se_project_id = None, se_build_id = None, se_build_stage_id = None, se_comments = None,
     se_bag_signature = None, se_occurred_at = 0, se_created_by = None\<rparr>"

datatype order_status = Draft | Open | Partial | Received | Order_cancelled

record order =
  o_id :: uuid
  o_workspace_id :: uuid
  o_name :: string
  o_status :: order_status
  o_received_on :: "nat option"
  o_currency :: "string option"
  o_archived_at :: "nat option"
  o_updated_by :: "uuid option"

record order_entry =
  oe_id :: uuid
  oe_workspace_id :: uuid
  oe_order_id :: uuid
  oe_part_id :: "uuid option"
  oe_quantity_ordered :: rat
  oe_quantity_received :: rat
  oe_unit_price :: "rat option"
  oe_currency :: "string option"
  oe_order_index :: nat
  oe_updated_by :: "uuid option"

record project =
  pr_id :: uuid
  pr_workspace_id :: uuid
  pr_associated_subassembly_part_id :: "uuid option"

datatype entry_type = Et_part | Et_meta_part | Et_non_part | Et_unmatched

record project_entry =
  pe_id :: uuid
  pe_workspace_id :: uuid
  pe_project_id :: uuid
  pe_entry_type :: entry_type
  pe_part_id :: "uuid option"
  pe_quantity :: rat
  pe_attrition_pct :: rat
  pe_dnp :: bool
  pe_order_index :: int

datatype build_status = Planned | In_progress | Complete | Cancelled

record build =
  b_id :: uuid
  b_workspace_id :: uuid
  b_name :: string
  b_project_id :: uuid
  b_quantity :: nat
  b_status :: build_status
  b_started_at :: "nat option"
  b_completed_at :: "nat option"
  b_output_lot_id :: "uuid option"
  b_archived_at :: "nat option"
  b_updated_by :: "uuid option"

datatype stage_status = St_planned | St_in_progress | St_complete

record build_stage =
  bs_id :: uuid
  bs_workspace_id :: uuid
  bs_build_id :: uuid
  bs_name :: string
  bs_sequence :: int
  bs_status :: stage_status
  bs_started_at :: "nat option"
  bs_completed_at :: "nat option"
  bs_archived_at :: "nat option"
  bs_created_at :: nat

record build_stage_line =
  bsl_id :: uuid
  bsl_workspace_id :: uuid
  bsl_build_stage_id :: uuid
  bsl_project_entry_id :: uuid
  bsl_portion_pct :: rat
  bsl_archived_at :: "nat option"

datatype direction = One_way | Bidirectional

record part_substitute =
  ps_workspace_id :: uuid
  ps_part_id :: uuid
  ps_substitute_part_id :: uuid
  ps_direction :: direction

record part_meta_member =
  pm_workspace_id :: uuid
  pm_meta_part_id :: uuid
  pm_part_id :: uuid

section \<open>Text columns\<close>

text \<open>
  PostgreSQL's text types hold every character but NUL, which the driver refuses when the
  parameter is bound (the \<open>DataError\<close> that \<open>decode_text\<close> in domain/eda/storage.py guards
  its uploads against; the JSON routes have no such guard). \<open>String(n)\<close> also bounds the
  length.
\<close>

definition no_nul :: "string \<Rightarrow> bool" where
  "no_nul s \<longleftrightarrow> CHR 0x00 \<notin> set s"

definition fits_varchar :: "nat \<Rightarrow> string \<Rightarrow> bool" where
  "fits_varchar n s \<longleftrightarrow> length s \<le> n \<and> no_nul s"

lemma no_nul_simps [simp]:
  "no_nul []" "no_nul (c # s) \<longleftrightarrow> c \<noteq> CHR 0x00 \<and> no_nul s" "no_nul (s @ t) \<longleftrightarrow> no_nul s \<and> no_nul t"
  by (auto simp: no_nul_def)

section \<open>Errors\<close>

text \<open>What the database raises, by the column type, constraint or trigger that refuses.\<close>

datatype db_error =
  Data_error                 \<comment> \<open>a value does not fit its column type, or a text holds a NUL\<close>
| Workspace_isolation        \<comment> \<open>SQLSTATE WS001, migrations 0064 and 0076\<close>
| Unit_mismatch              \<comment> \<open>migration 0077\<close>
| Stock_nonneg               \<comment> \<open>\<open>ck_stock_nonneg\<close>, migration 0013\<close>
| Check_violation            \<comment> \<open>a table's CHECK constraint\<close>
| Not_null                   \<comment> \<open>a NULL in a NOT NULL column\<close>

datatype storage_constraint = Single_part_only | Existing_parts_only

text \<open>One constructor per message of \<open>StockError\<close>.\<close>

datatype stock_error =
  Part_not_found
| Storage_location_not_found
| Storage_location_archived
| Storage_location_full
| Default_storage_required
| Serialized_one_at_a_time
| Serialized_needs_serial
| Invalid_expiration_date
| Lot_not_found
| Insufficient_stock rat rat      \<comment> \<open>have, want\<close>
| Destination_not_found
| Destination_archived
| Destination_full
| Source_storage_not_found
| Source_lot_not_found
| Insufficient_stock_at_source rat rat

datatype order_error =
  Order_is_cancelled
| Order_entry_not_in_order uuid
| Entry_without_part
| Over_receives uuid rat rat      \<comment> \<open>entry, outstanding, want\<close>
| Order_part_not_in_workspace
| Serialized_one_per_line
| Serialized_requires_serial
| Order_storage_not_in_workspace
| Order_storage_archived
| Order_storage_full

datatype build_error =
  Build_is build_status
| Build_archived
| Build_insufficient uuid rat rat \<comment> \<open>part, have, want\<close>
| Entry_not_in_project uuid
| Entry_has_no_part uuid
| Entry_is_dnp uuid
| Entry_not_in_stage uuid
| Entry_missing_part uuid
| Not_a_candidate uuid uuid       \<comment> \<open>part, entry\<close>
| Build_lot_not_in_workspace uuid
| Build_storage_not_in_workspace uuid
| Under_consumed uuid int int     \<comment> \<open>entry, need, supplied\<close>
| Subassembly_not_in_workspace
| Output_storage_not_in_workspace
| Output_storage_archived_or_full
| Entry_listed_twice uuid
| Over_committed uuid rat
| Sequence_already_used int
| Stage_already_complete uuid
| Stage_out_of_order uuid uuid    \<comment> \<open>earlier stage, wanted stage\<close>
| Nothing_to_consume uuid
| Staging_not_found
| Staging_archived
| Staging_full

text \<open>What the routes raise themselves, by \<open>ErrorCodes\<close>.\<close>

datatype resource = R_part | R_order | R_order_entry | R_project | R_build | R_build_stage

datatype http_error =
  Not_found resource
| Forbidden
| Build_read_only
| Quantity_after_stage
| Build_has_stages
| Ordered_below_received
| Delete_received_entry

datatype error =
  DbError db_error
| StockError stock_error
| StockConflictError storage_constraint uuid
| OrderError order_error
| BuildError build_error
| HttpError http_error

section \<open>Advisory locks\<close>

text \<open>
  The keys of \<open>pg_advisory_xact_lock\<close>: one per (workspace, part), one per (workspace,
  storage location), one per workspace's category tree. The linear order is the
  acquisition order the service documents: part locks by id, then storage locks.
\<close>

datatype lock_key = Part_lock uuid uuid | Storage_lock uuid uuid | Category_tree_lock uuid

fun lock_rank :: "lock_key \<Rightarrow> nat \<times> uuid \<times> uuid" where
  "lock_rank (Part_lock ws p) = (0, ws, p)"
| "lock_rank (Storage_lock ws l) = (1, ws, l)"
| "lock_rank (Category_tree_lock ws) = (2, ws, 0)"

fun rank_le :: "nat \<times> uuid \<times> uuid \<Rightarrow> nat \<times> uuid \<times> uuid \<Rightarrow> bool" where
  "rank_le (a, b, c) (a', b', c') \<longleftrightarrow> a < a' \<or> a = a' \<and> (b < b' \<or> b = b' \<and> c \<le> c')"

lemma lock_rank_inj: "lock_rank a = lock_rank b \<longleftrightarrow> a = b"
  by (cases a; cases b) auto

lemma rank_le_order:
  "rank_le r r" "rank_le r s \<Longrightarrow> rank_le s t \<Longrightarrow> rank_le r t"
  "rank_le r s \<Longrightarrow> rank_le s r \<Longrightarrow> r = s" "rank_le r s \<or> rank_le s r"
  by (cases r; cases s; cases t; auto)+

instantiation lock_key :: linorder
begin

definition less_eq_lock_key :: "lock_key \<Rightarrow> lock_key \<Rightarrow> bool" where
  "a \<le> b \<longleftrightarrow> rank_le (lock_rank a) (lock_rank b)"

definition less_lock_key :: "lock_key \<Rightarrow> lock_key \<Rightarrow> bool" where
  "a < b \<longleftrightarrow> a \<le> b \<and> \<not> b \<le> (a :: lock_key)"

instance
proof
  fix a b c :: lock_key
  show "(a < b) = (a \<le> b \<and> \<not> b \<le> a)" by (simp add: less_lock_key_def)
  show "a \<le> a" by (simp add: less_eq_lock_key_def rank_le_order)
  show "a \<le> b \<Longrightarrow> b \<le> c \<Longrightarrow> a \<le> c"
    unfolding less_eq_lock_key_def by (rule rank_le_order(2))
  show "a \<le> b \<Longrightarrow> b \<le> a \<Longrightarrow> a = b"
    unfolding less_eq_lock_key_def using rank_le_order(3) lock_rank_inj by blast
  show "a \<le> b \<or> b \<le> a" unfolding less_eq_lock_key_def by (rule rank_le_order(4))
qed

end

lemma part_before_storage [simp]:
  "Part_lock ws p < Storage_lock ws' l" "\<not> Storage_lock ws' l \<le> Part_lock ws p"
  by (simp_all add: less_lock_key_def less_eq_lock_key_def)

lemma part_lock_le [simp]: "Part_lock ws p \<le> Part_lock ws q \<longleftrightarrow> p \<le> q"
  by (simp add: less_eq_lock_key_def)

lemma part_lock_less [simp]: "Part_lock ws p < Part_lock ws q \<longleftrightarrow> p < q"
  by (auto simp: less_lock_key_def)

section \<open>The database\<close>

record db =
  workspaces :: "uuid \<rightharpoonup> workspace"
  parts :: "uuid \<rightharpoonup> part"
  storages :: "uuid \<rightharpoonup> storage_location"
  lots :: "uuid \<rightharpoonup> lot"
  stock_entries :: "stock_entry list"
  orders :: "uuid \<rightharpoonup> order"
  order_entries :: "order_entry list"
  projects :: "uuid \<rightharpoonup> project"
  project_entries :: "project_entry list"
  builds :: "uuid \<rightharpoonup> build"
  build_stages :: "build_stage list"
  build_stage_lines :: "build_stage_line list"
  part_substitutes :: "part_substitute list"
  part_meta_members :: "part_meta_member list"
  held_locks :: "lock_key list"
  next_uuid :: uuid
  clock :: nat

definition empty_db :: db where
  "empty_db = \<lparr>workspaces = Map.empty, parts = Map.empty, storages = Map.empty,
     lots = Map.empty, stock_entries = [], orders = Map.empty, order_entries = [],
     projects = Map.empty, project_entries = [], builds = Map.empty, build_stages = [],
     build_stage_lines = [], part_substitutes = [], part_meta_members = [], held_locks = [],
     next_uuid = 1000, clock = 0\<rparr>"

end
