(* ===== verification/Ledger.thy ===== *)
theory Ledger
  imports Schema
begin

text \<open>
  The append-only stock ledger: the \<open>INSERT\<close> into \<open>stock_entries\<close> with its column
  types and its triggers (migrations 0013, 0064, 0076, 0077), the roll-ups of
  \<open>backend/app/domain/stock/service.py\<close> (every one a \<open>SUM(quantity_delta)\<close>), and the
  ledger invariant \<open>ledger_ok\<close>.

  The locale \<open>stock_ledger\<close> is the contract the services rely on when they write
  rows: posting changes exactly one balance, by exactly the posted amount, and no
  balance is ever negative. It is interpreted on the model's own insert at the end.
\<close>

named_theorems ledger_simps

section \<open>Workspace membership\<close>

definition part_in_ws :: "db \<Rightarrow> uuid \<Rightarrow> uuid \<Rightarrow> bool" where
  "part_in_ws d ws p = (case parts d p of None \<Rightarrow> False | Some x \<Rightarrow> p_workspace_id x = ws)"

definition lot_in_ws :: "db \<Rightarrow> uuid \<Rightarrow> uuid \<Rightarrow> bool" where
  "lot_in_ws d ws l = (case lots d l of None \<Rightarrow> False | Some x \<Rightarrow> lot_workspace_id x = ws)"

definition storage_in_ws :: "db \<Rightarrow> uuid \<Rightarrow> uuid \<Rightarrow> bool" where
  "storage_in_ws d ws s = (case storages d s of None \<Rightarrow> False | Some x \<Rightarrow> sl_workspace_id x = ws)"

definition opt_ok :: "('a \<Rightarrow> bool) \<Rightarrow> 'a option \<Rightarrow> bool" where
  "opt_ok P x = (case x of None \<Rightarrow> True | Some y \<Rightarrow> P y)"

lemma opt_ok_simps [simp]: "opt_ok P None" "opt_ok P (Some y) = P y"
  by (simp_all add: opt_ok_def)

lemma opt_ok_mono: "opt_ok P x \<Longrightarrow> (\<And>y. P y \<Longrightarrow> Q y) \<Longrightarrow> opt_ok Q x"
  by (cases x) simp_all

section \<open>The insert and its triggers\<close>

text \<open>Migration 0064, the \<open>INSERT\<close> branch of the trigger function.\<close>

definition check_stock_entries_workspace_fks :: "db \<Rightarrow> stock_entry \<Rightarrow> bool" where
  "check_stock_entries_workspace_fks d e =
     (let ws = se_workspace_id e in
      (case se_part_id e of None \<Rightarrow> False | Some p \<Rightarrow> part_in_ws d ws p) \<and>
      opt_ok (lot_in_ws d ws) (se_lot_id e) \<and>
      opt_ok (storage_in_ws d ws) (se_storage_location_id e) \<and>
      opt_ok (\<lambda>r. \<exists>x \<in> set (stock_entries d). se_id x = r \<and> se_workspace_id x = ws)
        (se_related_entry_id e) \<and>
      opt_ok (\<lambda>o'. case orders d o' of None \<Rightarrow> False | Some x \<Rightarrow> o_workspace_id x = ws) (se_order_id e) \<and>
      opt_ok (\<lambda>r. \<exists>x \<in> set (order_entries d). oe_id x = r \<and> oe_workspace_id x = ws)
        (se_order_entry_id e) \<and>
      opt_ok (\<lambda>p. case projects d p of None \<Rightarrow> False | Some x \<Rightarrow> pr_workspace_id x = ws)
        (se_project_id e) \<and>
      opt_ok (\<lambda>b. case builds d b of None \<Rightarrow> False | Some x \<Rightarrow> b_workspace_id x = ws) (se_build_id e))"

text \<open>Migration 0076.\<close>

definition check_stock_entries_build_stage_workspace :: "db \<Rightarrow> stock_entry \<Rightarrow> bool" where
  "check_stock_entries_build_stage_workspace d e =
     opt_ok (\<lambda>s. \<exists>x \<in> set (build_stages d). bs_id x = s \<and> bs_workspace_id x = se_workspace_id e)
       (se_build_stage_id e)"

text \<open>Migration 0077: silent for a missing part and for a part of another workspace.\<close>

definition check_stock_entry_unit_matches_part :: "db \<Rightarrow> stock_entry \<Rightarrow> bool" where
  "check_stock_entry_unit_matches_part d e =
     (case se_part_id e of None \<Rightarrow> True | Some p \<Rightarrow>
       (case parts d p of None \<Rightarrow> True | Some x \<Rightarrow>
          p_workspace_id x = se_workspace_id e \<longrightarrow> se_unit e = p_unit_of_measure x))"

text \<open>
  Migration 0013. The comparison \<open>part_id = NEW.part_id\<close> is not true for a NULL
  part, so the sum is then over no rows; lot and storage compare with
  \<open>IS NOT DISTINCT FROM\<close>.
\<close>

definition check_stock_nonneg :: "stock_entry list \<Rightarrow> stock_entry \<Rightarrow> bool" where
  "check_stock_nonneg rows new =
     (0 \<le> sum_where se_quantity_delta
        (\<lambda>e. se_workspace_id e = se_workspace_id new
           \<and> se_part_id e \<noteq> None \<and> se_part_id e = se_part_id new
           \<and> se_status e = se_status new
           \<and> se_lot_id e = se_lot_id new
           \<and> se_storage_location_id e = se_storage_location_id new) rows)"

text \<open>
  The column types: \<open>Numeric(18, 6)\<close>, \<open>String(3)\<close>, \<open>String(64)\<close>, \<open>String(16)\<close>, and
  \<open>Text\<close> for the comments.
\<close>

definition entry_fits :: "stock_entry \<Rightarrow> bool" where
  "entry_fits e \<longleftrightarrow> fits_18_6 (se_quantity_delta e) \<and> opt_ok fits_18_6 (se_unit_price e)
     \<and> opt_ok (fits_varchar 3) (se_currency e) \<and> opt_ok (fits_varchar 64) (se_bag_signature e)
     \<and> fits_varchar 16 (se_unit e) \<and> opt_ok no_nul (se_comments e)"

definition stored_entry :: "stock_entry \<Rightarrow> stock_entry" where
  "stored_entry e = e\<lparr>se_quantity_delta := round_6 (se_quantity_delta e),
                     se_unit_price := map_option round_6 (se_unit_price e)\<rparr>"

text \<open>
  \<open>db.add(entry); db.flush()\<close>: column types, then the \<open>BEFORE INSERT\<close> triggers in
  the alphabetical order PostgreSQL fires them, then the row, then the
  \<open>AFTER INSERT\<close> trigger over the table with the new row in it.
\<close>

definition insert_entry :: "stock_entry \<Rightarrow> db \<Rightarrow> error + db" where
  "insert_entry e d =
     (let row = stored_entry e; rows = stock_entries d @ [row] in
      if \<not> entry_fits e then Inl (DbError Data_error)
      else if \<not> check_stock_entries_build_stage_workspace d row then Inl (DbError Workspace_isolation)
      else if \<not> check_stock_entry_unit_matches_part d row then Inl (DbError Unit_mismatch)
      else if \<not> check_stock_entries_workspace_fks d row then Inl (DbError Workspace_isolation)
      else if \<not> check_stock_nonneg rows row then Inl (DbError Stock_nonneg)
      else Inr (d\<lparr>stock_entries := rows\<rparr>))"

text \<open>A row constructed without an id takes a fresh one (\<open>default=uuid.uuid4\<close>).\<close>

definition new_uuid :: "db \<Rightarrow> uuid \<times> db" where
  "new_uuid d = (next_uuid d, d\<lparr>next_uuid := Suc (next_uuid d)\<rparr>)"

definition add_entry :: "stock_entry \<Rightarrow> db \<Rightarrow> error + stock_entry \<times> db" where
  "add_entry e d =
     (let (i, d1) = new_uuid d; e' = e\<lparr>se_id := i\<rparr> in
      bindr (insert_entry e' d1) (\<lambda>d2. Inr (e', d2)))"

text \<open>A new lot: \<open>String(200)\<close> names and serials, \<open>Text\<close> description and comments,
  \<open>Numeric(18, 6)\<close> and \<open>String(3)\<close> purchase columns.\<close>

definition lot_fits :: "lot \<Rightarrow> bool" where
  "lot_fits l \<longleftrightarrow> opt_ok (fits_varchar 200) (lot_name l) \<and> opt_ok (fits_varchar 200) (lot_serial_number l)
     \<and> opt_ok no_nul (lot_description l) \<and> opt_ok no_nul (lot_comments l)
     \<and> opt_ok fits_18_6 (lot_purchase_quantity l) \<and> opt_ok fits_18_6 (lot_purchase_unit_cost l)
     \<and> opt_ok (fits_varchar 3) (lot_purchase_currency l)"

definition add_lot :: "lot \<Rightarrow> db \<Rightarrow> error + lot \<times> db" where
  "add_lot l d =
     (let (i, d1) = new_uuid d; l' = l\<lparr>lot_id := i\<rparr> in
      if \<not> lot_fits l then Inl (DbError Data_error)
      else Inr (l', d1\<lparr>lots := (lots d1)(i \<mapsto>
        l'\<lparr>lot_purchase_quantity := map_option round_6 (lot_purchase_quantity l),
           lot_purchase_unit_cost := map_option round_6 (lot_purchase_unit_cost l)\<rparr>)\<rparr>))"

section \<open>Roll-ups\<close>

text \<open>
  With \<open>bucket_match\<close> a missing storage or lot means the NULL bucket; without it, a
  missing one means no filter on that column.
\<close>

definition current_quantity ::
    "db \<Rightarrow> uuid \<Rightarrow> uuid \<Rightarrow> uuid option \<Rightarrow> uuid option \<Rightarrow> stock_status \<Rightarrow> bool \<Rightarrow> rat" where
  "current_quantity d ws part sto lot st bucket_match =
     sum_where se_quantity_delta
       (\<lambda>e. se_workspace_id e = ws \<and> se_part_id e = Some part \<and> se_status e = st \<and>
         (if bucket_match then se_storage_location_id e = sto \<and> se_lot_id e = lot
          else (sto \<noteq> None \<longrightarrow> se_storage_location_id e = sto) \<and> (lot \<noteq> None \<longrightarrow> se_lot_id e = lot)))
       (stock_entries d)"

definition bulk_current_quantities :: "db \<Rightarrow> uuid \<Rightarrow> uuid list \<Rightarrow> stock_status \<Rightarrow> (uuid \<rightharpoonup> rat)" where
  "bulk_current_quantities d ws part_ids st =
     (if part_ids = [] then Map.empty
      else map_of (map (\<lambda>(k, q). (the k, q))
        (group_sum se_part_id se_quantity_delta
          (\<lambda>e. se_workspace_id e = ws \<and> se_status e = st \<and> se_part_id e \<in> Some ` set part_ids)
          (stock_entries d))))"

definition bulk_current_quantities_by_lot ::
    "db \<Rightarrow> uuid \<Rightarrow> uuid list option \<Rightarrow> stock_status \<Rightarrow> (uuid \<rightharpoonup> rat)" where
  "bulk_current_quantities_by_lot d ws lot_ids st =
     (if lot_ids = Some [] then Map.empty
      else map_of (map (\<lambda>(k, q). (the k, q))
        (group_sum se_lot_id se_quantity_delta
          (\<lambda>e. se_workspace_id e = ws \<and> se_status e = st \<and> se_lot_id e \<noteq> None
             \<and> (case lot_ids of None \<Rightarrow> True | Some ls \<Rightarrow> se_lot_id e \<in> Some ` set ls))
          (stock_entries d))))"

text \<open>\<open>(storage, lot, quantity)\<close> rows; buckets that net to zero are dropped.\<close>

definition stock_summary_for_part ::
    "db \<Rightarrow> uuid \<Rightarrow> uuid \<Rightarrow> stock_status \<Rightarrow> ((uuid option \<times> uuid option) \<times> rat) list" where
  "stock_summary_for_part d ws part st =
     filter (\<lambda>(_, q). q \<noteq> 0)
       (group_sum (\<lambda>e. (se_storage_location_id e, se_lot_id e)) se_quantity_delta
         (\<lambda>e. se_workspace_id e = ws \<and> se_part_id e = Some part \<and> se_status e = st)
         (stock_entries d))"

text \<open>Per part, the \<open>(storage, lot, unit)\<close> buckets with a positive balance.\<close>

definition bulk_stock_by_location ::
    "db \<Rightarrow> uuid \<Rightarrow> uuid list \<Rightarrow> stock_status \<Rightarrow> uuid \<Rightarrow> ((uuid option \<times> uuid option \<times> string) \<times> rat) list" where
  "bulk_stock_by_location d ws part_ids st part =
     (if part_ids = [] then []
      else map (\<lambda>((_, k), q). (k, q)) (filter (\<lambda>((p, _), q). p = Some part \<and> \<not> q \<le> 0)
       (group_sum (\<lambda>e. (se_part_id e, se_storage_location_id e, se_lot_id e, se_unit e)) se_quantity_delta
         (\<lambda>e. se_workspace_id e = ws \<and> se_status e = st \<and> se_part_id e \<in> Some ` set part_ids)
         (stock_entries d))))"

definition total_for_part :: "db \<Rightarrow> uuid \<Rightarrow> uuid \<Rightarrow> stock_status \<Rightarrow> rat" where
  "total_for_part d ws part st = current_quantity d ws part None None st False"

definition reserved_quantity :: "db \<Rightarrow> uuid \<Rightarrow> uuid \<Rightarrow> rat" where
  "reserved_quantity d ws part =
     sum_where se_quantity_delta
       (\<lambda>e. se_workspace_id e = ws \<and> se_part_id e = Some part \<and> se_status e = Reserved) (stock_entries d)"

definition available_quantity :: "db \<Rightarrow> uuid \<Rightarrow> uuid \<Rightarrow> rat" where
  "available_quantity d ws part =
     current_quantity d ws part None None On_hand False - reserved_quantity d ws part"

text \<open>\<open>((part, lot), quantity)\<close> rows of one location, zero balances dropped.\<close>

definition stock_for_storage ::
    "db \<Rightarrow> uuid \<Rightarrow> uuid \<Rightarrow> stock_status \<Rightarrow> ((uuid option \<times> uuid option) \<times> rat) list" where
  "stock_for_storage d ws sto st =
     filter (\<lambda>(_, q). q \<noteq> 0)
       (group_sum (\<lambda>e. (se_part_id e, se_lot_id e)) se_quantity_delta
         (\<lambda>e. se_workspace_id e = ws \<and> se_storage_location_id e = Some sto \<and> se_status e = st)
         (stock_entries d))"

section \<open>Histories\<close>

text \<open>
  \<open>ORDER BY occurred_at DESC LIMIT n\<close>. SQL leaves the order of equal times open; the
  model keeps them in insertion order.
\<close>

definition history :: "(stock_entry \<Rightarrow> bool) \<Rightarrow> nat \<Rightarrow> db \<Rightarrow> stock_entry list" where
  "history P n d = take n (sort_key (\<lambda>e. - int (se_occurred_at e)) (filter P (stock_entries d)))"

definition history_for_part :: "db \<Rightarrow> uuid \<Rightarrow> uuid \<Rightarrow> nat \<Rightarrow> stock_entry list" where
  "history_for_part d ws part n = history (\<lambda>e. se_workspace_id e = ws \<and> se_part_id e = Some part) n d"

definition history_for_lot :: "db \<Rightarrow> uuid \<Rightarrow> uuid \<Rightarrow> nat \<Rightarrow> stock_entry list" where
  "history_for_lot d ws lot n = history (\<lambda>e. se_workspace_id e = ws \<and> se_lot_id e = Some lot) n d"

definition history_for_storage :: "db \<Rightarrow> uuid \<Rightarrow> uuid \<Rightarrow> nat \<Rightarrow> stock_entry list" where
  "history_for_storage d ws sto n =
     history (\<lambda>e. se_workspace_id e = ws \<and> se_storage_location_id e = Some sto) n d"

definition history_global :: "db \<Rightarrow> uuid \<Rightarrow> nat \<Rightarrow> stock_entry list" where
  "history_global d ws n = history (\<lambda>e. se_workspace_id e = ws) n d"

section \<open>The ledger invariant\<close>

definition row_ok :: "db \<Rightarrow> stock_entry \<Rightarrow> bool" where
  "row_ok d e \<longleftrightarrow> on_grid (se_quantity_delta e)
     \<and> opt_ok (part_in_ws d (se_workspace_id e)) (se_part_id e)
     \<and> opt_ok (lot_in_ws d (se_workspace_id e)) (se_lot_id e)
     \<and> opt_ok (storage_in_ws d (se_workspace_id e)) (se_storage_location_id e)
     \<and> check_stock_entry_unit_matches_part d e"

definition nonneg_balances :: "db \<Rightarrow> bool" where
  "nonneg_balances d \<longleftrightarrow> (\<forall>ws p sto lot st. 0 \<le> current_quantity d ws p sto lot st True)"

definition fresh_ids :: "db \<Rightarrow> bool" where
  "fresh_ids d \<longleftrightarrow> distinct (map se_id (stock_entries d))
     \<and> (\<forall>e \<in> set (stock_entries d). se_id e < next_uuid d) \<and> (\<forall>l. next_uuid d \<le> l \<longrightarrow> lots d l = None)"

definition ledger_ok :: "db \<Rightarrow> bool" where
  "ledger_ok d \<longleftrightarrow> nonneg_balances d \<and> (\<forall>e \<in> set (stock_entries d). row_ok d e) \<and> fresh_ids d"

text \<open>
  What every ledger write keeps: rows are only ever appended, lots only ever created,
  locks only ever acquired, and no other table changes.
\<close>

definition same_catalog :: "db \<Rightarrow> db \<Rightarrow> bool" where
  "same_catalog d d' \<longleftrightarrow> workspaces d' = workspaces d \<and> parts d' = parts d \<and> storages d' = storages d
     \<and> projects d' = projects d \<and> project_entries d' = project_entries d
     \<and> part_substitutes d' = part_substitutes d \<and> part_meta_members d' = part_meta_members d
     \<and> clock d' = clock d"

definition appends :: "db \<Rightarrow> db \<Rightarrow> stock_entry list \<Rightarrow> bool" where
  "appends d d' new \<longleftrightarrow> same_catalog d d' \<and> stock_entries d' = stock_entries d @ new
     \<and> lots d \<subseteq>\<^sub>m lots d' \<and> next_uuid d \<le> next_uuid d' \<and> set (held_locks d) \<subseteq> set (held_locks d')"

section \<open>Lemmas\<close>

subsection \<open>What an insert does\<close>

lemma stored_entry_simps [simp]:
  "se_id (stored_entry e) = se_id e" "se_workspace_id (stored_entry e) = se_workspace_id e"
  "se_part_id (stored_entry e) = se_part_id e" "se_lot_id (stored_entry e) = se_lot_id e"
  "se_storage_location_id (stored_entry e) = se_storage_location_id e"
  "se_quantity_delta (stored_entry e) = round_6 (se_quantity_delta e)"
  "se_unit (stored_entry e) = se_unit e" "se_status (stored_entry e) = se_status e"
  "se_operation_type (stored_entry e) = se_operation_type e"
  "se_related_entry_id (stored_entry e) = se_related_entry_id e"
  "se_order_id (stored_entry e) = se_order_id e"
  "se_order_entry_id (stored_entry e) = se_order_entry_id e"
  "se_project_id (stored_entry e) = se_project_id e"
  "se_build_id (stored_entry e) = se_build_id e"
  "se_build_stage_id (stored_entry e) = se_build_stage_id e"
  "se_occurred_at (stored_entry e) = se_occurred_at e"
  "se_unit_price (stored_entry e) = map_option round_6 (se_unit_price e)"
  "stored_entry (e\<lparr>se_related_entry_id := r\<rparr>) = (stored_entry e)\<lparr>se_related_entry_id := r\<rparr>"
  "stored_entry (e\<lparr>se_id := i\<rparr>) = (stored_entry e)\<lparr>se_id := i\<rparr>"
  by (simp_all add: stored_entry_def)

lemma new_uuid_simps [simp]:
  "fst (new_uuid d) = next_uuid d" "snd (new_uuid d) = d\<lparr>next_uuid := Suc (next_uuid d)\<rparr>"
  by (simp_all add: new_uuid_def)

lemma insert_entry_Inr [inr_elims]:
  "insert_entry e d = Inr d' \<longleftrightarrow>
     entry_fits e \<and> check_stock_entries_build_stage_workspace d (stored_entry e)
     \<and> check_stock_entry_unit_matches_part d (stored_entry e)
     \<and> check_stock_entries_workspace_fks d (stored_entry e)
     \<and> check_stock_nonneg (stock_entries d @ [stored_entry e]) (stored_entry e)
     \<and> d' = d\<lparr>stock_entries := stock_entries d @ [stored_entry e]\<rparr>"
  by (auto simp: insert_entry_def Let_def)

lemma add_entry_Inr [inr_elims]:
  "add_entry e d = Inr (e', d') \<longleftrightarrow>
     e' = e\<lparr>se_id := next_uuid d\<rparr>
     \<and> insert_entry e' (d\<lparr>next_uuid := Suc (next_uuid d)\<rparr>) = Inr d'"
  by (auto simp: add_entry_def new_uuid_def bindr_Inr Let_def)

lemma add_lot_Inr [inr_elims]:
  "add_lot l d = Inr (l', d') \<longleftrightarrow> lot_fits l \<and> l' = l\<lparr>lot_id := next_uuid d\<rparr>
     \<and> d' = d\<lparr>next_uuid := Suc (next_uuid d), lots := (lots d)(next_uuid d \<mapsto>
        l'\<lparr>lot_purchase_quantity := map_option round_6 (lot_purchase_quantity l),
           lot_purchase_unit_cost := map_option round_6 (lot_purchase_unit_cost l)\<rparr>)\<rparr>"
  by (auto simp: add_lot_def new_uuid_def Let_def)

subsection \<open>Balances\<close>

definition counts_for ::
    "stock_entry \<Rightarrow> uuid \<Rightarrow> uuid \<Rightarrow> uuid option \<Rightarrow> uuid option \<Rightarrow> stock_status \<Rightarrow> bool \<Rightarrow> bool" where
  "counts_for e ws part sto lot st bucket_match \<longleftrightarrow>
     se_workspace_id e = ws \<and> se_part_id e = Some part \<and> se_status e = st \<and>
       (if bucket_match then se_storage_location_id e = sto \<and> se_lot_id e = lot
        else (sto \<noteq> None \<longrightarrow> se_storage_location_id e = sto) \<and> (lot \<noteq> None \<longrightarrow> se_lot_id e = lot))"

lemma current_quantity_alt:
  "current_quantity d ws part sto lot st bm =
     sum_where se_quantity_delta (\<lambda>e. counts_for e ws part sto lot st bm) (stock_entries d)"
  by (simp add: current_quantity_def counts_for_def)

lemma current_quantity_cong:
  "stock_entries d' = stock_entries d \<Longrightarrow> current_quantity d' = current_quantity d"
  by (simp add: current_quantity_def fun_eq_iff)

lemma current_quantity_append:
  "stock_entries d' = stock_entries d @ rows \<Longrightarrow>
   current_quantity d' ws part sto lot st bm = current_quantity d ws part sto lot st bm
     + sum_where se_quantity_delta (\<lambda>e. counts_for e ws part sto lot st bm) rows"
  by (simp add: current_quantity_alt)

lemma check_stock_nonneg_bucket:
  "se_part_id row = Some p \<Longrightarrow> stock_entries d = rows \<Longrightarrow>
   check_stock_nonneg rows row \<longleftrightarrow> 0 \<le> current_quantity d (se_workspace_id row) p
      (se_storage_location_id row) (se_lot_id row) (se_status row) True"
  by (auto simp: check_stock_nonneg_def current_quantity_alt counts_for_def
      intro!: arg_cong [where f = "(\<le>) 0"] sum_where_cong)

lemma reserved_quantity_alt:
  "reserved_quantity d ws p = current_quantity d ws p None None Reserved False"
  by (simp add: reserved_quantity_def current_quantity_def)

lemma on_grid_current_quantity:
  "\<forall>e \<in> set (stock_entries d). on_grid (se_quantity_delta e)
   \<Longrightarrow> on_grid (current_quantity d ws part sto lot st bm)"
  by (simp add: current_quantity_def on_grid_sum_where)

lemma ledger_ok_on_grid:
  "ledger_ok d \<Longrightarrow> on_grid (current_quantity d ws part sto lot st bm)"
  by (rule on_grid_current_quantity) (simp add: ledger_ok_def row_ok_def)

lemma ledger_ok_nonneg: "ledger_ok d \<Longrightarrow> 0 \<le> current_quantity d ws p sto lot st True"
  by (simp add: ledger_ok_def nonneg_balances_def)

subsection \<open>Every insert keeps the invariant\<close>

lemma in_ws_cong:
  "parts d' = parts d \<Longrightarrow> part_in_ws d' = part_in_ws d"
  "lots d' = lots d \<Longrightarrow> lot_in_ws d' = lot_in_ws d"
  "storages d' = storages d \<Longrightarrow> storage_in_ws d' = storage_in_ws d"
  by (simp_all add: part_in_ws_def lot_in_ws_def storage_in_ws_def fun_eq_iff)

lemma row_ok_mono:
  "row_ok d e \<Longrightarrow> parts d' = parts d \<Longrightarrow> storages d' = storages d \<Longrightarrow> lots d \<subseteq>\<^sub>m lots d' \<Longrightarrow> row_ok d' e"
  by (auto simp: row_ok_def part_in_ws_def storage_in_ws_def lot_in_ws_def opt_ok_def
      check_stock_entry_unit_matches_part_def map_le_def dom_def split: option.splits)

lemma insert_entry_ledger_ok:
  assumes ok: "ledger_ok d" and ins: "insert_entry e d = Inr d'"
    and fresh: "se_id e \<notin> se_id ` set (stock_entries d)" "se_id e < next_uuid d"
  shows "ledger_ok d'"
proof -
  from ins have d': "d' = d\<lparr>stock_entries := stock_entries d @ [stored_entry e]\<rparr>"
    and unit: "check_stock_entry_unit_matches_part d (stored_entry e)"
    and fks: "check_stock_entries_workspace_fks d (stored_entry e)"
    and nn: "check_stock_nonneg (stock_entries d @ [stored_entry e]) (stored_entry e)"
    by (auto simp: insert_entry_Inr)
  from fks obtain p where p: "se_part_id e = Some p"
    by (auto simp: check_stock_entries_workspace_fks_def Let_def split: option.splits)
  have rows: "row_ok d x" if "x \<in> set (stock_entries d)" for x
    using ok that by (simp add: ledger_ok_def)
  have new: "row_ok d (stored_entry e)"
    using fks unit
    by (simp add: row_ok_def check_stock_entries_workspace_fks_def Let_def p)
  have "0 \<le> current_quantity d' ws q sto lot st True" for ws q sto lot st
  proof (cases "counts_for (stored_entry e) ws q sto lot st True")
    case True
    then show ?thesis
      using nn check_stock_nonneg_bucket [of "stored_entry e" p d'] p
      by (simp add: d' counts_for_def)
  next
    case False
    then show ?thesis
      using ledger_ok_nonneg [OF ok] by (simp add: current_quantity_alt d')
  qed
  moreover have "row_ok d' x" if "x \<in> set (stock_entries d')" for x
    using that rows new row_ok_mono [of d x d'] by (auto simp: d')
  moreover have "fresh_ids d'"
    using ok fresh by (auto simp: ledger_ok_def fresh_ids_def d' image_iff)
  ultimately show ?thesis by (simp add: ledger_ok_def nonneg_balances_def)
qed

lemma row_ok_cong:
  assumes "parts d' = parts d" "storages d' = storages d" "lots d' = lots d"
  shows "row_ok d' = row_ok d"
proof
  fix e
  note c = in_ws_cong(1) [of d' d, OF assms(1)] in_ws_cong(2) [of d' d, OF assms(3)]
    in_ws_cong(3) [of d' d, OF assms(2)]
  show "row_ok d' e = row_ok d e"
    by (simp only: row_ok_def check_stock_entry_unit_matches_part_def c assms(1))
qed

lemma ledger_ok_cong:
  assumes "stock_entries d' = stock_entries d" "parts d' = parts d" "storages d' = storages d"
    "lots d' = lots d" "next_uuid d' = next_uuid d"
  shows "ledger_ok d' \<longleftrightarrow> ledger_ok d"
  using assms
  by (simp add: ledger_ok_def fresh_ids_def nonneg_balances_def current_quantity_def
      row_ok_cong [of d' d])

lemma ledger_ok_new_uuid: "ledger_ok d \<Longrightarrow> ledger_ok (d\<lparr>next_uuid := Suc (next_uuid d)\<rparr>)"
  by (auto simp: ledger_ok_def fresh_ids_def less_Suc_eq nonneg_balances_def current_quantity_def
      row_ok_cong [of "d\<lparr>next_uuid := Suc (next_uuid d)\<rparr>" d])

lemma ledger_ok_locks [simp]: "ledger_ok (d\<lparr>held_locks := ls\<rparr>) \<longleftrightarrow> ledger_ok d"
  by (rule ledger_ok_cong) simp_all

lemma add_entry_ledger_ok:
  assumes "ledger_ok d" and "add_entry e d = Inr (e', d')"
  shows "ledger_ok d'"
proof -
  from assms(2) have e': "e' = e\<lparr>se_id := next_uuid d\<rparr>"
    and ins: "insert_entry e' (d\<lparr>next_uuid := Suc (next_uuid d)\<rparr>) = Inr d'"
    by (auto simp: add_entry_Inr)
  show ?thesis
  proof (rule insert_entry_ledger_ok [OF ledger_ok_new_uuid [OF assms(1)] ins])
    show "se_id e' \<notin> se_id ` set (stock_entries (d\<lparr>next_uuid := Suc (next_uuid d)\<rparr>))"
      using assms(1) by (auto simp: e' ledger_ok_def fresh_ids_def)
    show "se_id e' < next_uuid (d\<lparr>next_uuid := Suc (next_uuid d)\<rparr>)" by (simp add: e')
  qed
qed

lemma add_lot_ledger_ok:
  assumes ok: "ledger_ok d" and add: "add_lot l d = Inr (l', d')"
  shows "ledger_ok d'"
proof -
  from add obtain x where d': "d' = d\<lparr>next_uuid := Suc (next_uuid d), lots := (lots d)(next_uuid d \<mapsto> x)\<rparr>"
    by (auto simp: add_lot_Inr)
  have le: "lots d \<subseteq>\<^sub>m lots d'"
    using ok by (auto simp: d' map_le_def ledger_ok_def fresh_ids_def)
  have "row_ok d' e" if "e \<in> set (stock_entries d)" for e
    using ok that by (intro row_ok_mono [OF _ _ _ le]) (auto simp: d' ledger_ok_def)
  moreover have "fresh_ids d'"
    using ok by (auto simp: ledger_ok_def fresh_ids_def d')
  ultimately show ?thesis
    using ok by (auto simp: ledger_ok_def nonneg_balances_def d' current_quantity_def)
qed

subsection \<open>What writes keep\<close>

lemma same_catalog_refl [simp]: "same_catalog d d"
  by (simp add: same_catalog_def)

lemma same_catalog_trans: "same_catalog a b \<Longrightarrow> same_catalog b c \<Longrightarrow> same_catalog a c"
  by (simp add: same_catalog_def)

lemma appends_refl [simp]: "appends d d []"
  by (simp add: appends_def)

lemma appends_trans: "appends a b xs \<Longrightarrow> appends b c ys \<Longrightarrow> appends a c (xs @ ys)"
  by (auto simp: appends_def elim: same_catalog_trans map_le_trans)

lemma appends_current_quantity:
  "appends d d' new \<Longrightarrow> current_quantity d' ws p sto lot st bm = current_quantity d ws p sto lot st bm
     + sum_where se_quantity_delta (\<lambda>e. counts_for e ws p sto lot st bm) new"
  by (simp add: appends_def current_quantity_append)

lemma add_entry_appends:
  "add_entry e d = Inr (e', d') \<Longrightarrow> appends d d' [stored_entry e']"
  by (auto simp: add_entry_Inr insert_entry_Inr appends_def same_catalog_def)

lemma insert_entry_appends:
  "insert_entry e d = Inr d' \<Longrightarrow> appends d d' [stored_entry e]"
  by (auto simp: insert_entry_Inr appends_def same_catalog_def)

lemma add_lot_appends:
  "ledger_ok d \<Longrightarrow> add_lot l d = Inr (l', d') \<Longrightarrow> appends d d' []"
  by (auto simp: add_lot_Inr appends_def same_catalog_def map_le_def ledger_ok_def fresh_ids_def)

lemma appends_locks: "set (held_locks d) \<subseteq> set ls \<Longrightarrow> appends d (d\<lparr>held_locks := ls\<rparr>) []"
  by (simp add: appends_def same_catalog_def)

subsection \<open>When an insert succeeds\<close>

lemma checks_stored_entry [simp]:
  "check_stock_entries_workspace_fks d (stored_entry e) = check_stock_entries_workspace_fks d e"
  "check_stock_entries_build_stage_workspace d (stored_entry e)
     = check_stock_entries_build_stage_workspace d e"
  "check_stock_entry_unit_matches_part d (stored_entry e) = check_stock_entry_unit_matches_part d e"
  by (simp_all add: check_stock_entries_workspace_fks_def check_stock_entries_build_stage_workspace_def
      check_stock_entry_unit_matches_part_def stored_entry_def cong: option.case_cong)

lemma insert_entry_succeeds:
  assumes "entry_fits e" and "check_stock_entries_build_stage_workspace d e"
    and "check_stock_entry_unit_matches_part d e" and "check_stock_entries_workspace_fks d e"
    and "se_part_id e = Some p"
    and "0 \<le> current_quantity d (se_workspace_id e) p (se_storage_location_id e) (se_lot_id e)
              (se_status e) True + round_6 (se_quantity_delta e)"
  shows "insert_entry e d = Inr (d\<lparr>stock_entries := stock_entries d @ [stored_entry e]\<rparr>)"
proof -
  have "check_stock_nonneg (stock_entries d @ [stored_entry e]) (stored_entry e)"
    using assms(5,6)
    by (subst check_stock_nonneg_bucket [where p = p and d = "d\<lparr>stock_entries := stock_entries d @ [stored_entry e]\<rparr>"])
       (simp_all add: current_quantity_alt counts_for_def)
  with assms show ?thesis by (simp add: insert_entry_Inr)
qed

section \<open>The contract of a ledger\<close>

text \<open>
  What a client of the ledger may rely on, whatever the rows look like: \<open>post\<close> either
  refuses or changes the balance of the row's own bucket by the row's amount, and no
  bucket is ever below zero.
\<close>

locale stock_ledger =
  fixes post :: "'e \<Rightarrow> 'd \<Rightarrow> 'x + 'd"
    and balance :: "'d \<Rightarrow> 'b \<Rightarrow> rat"
    and bucket :: "'e \<Rightarrow> 'b option"
    and amount :: "'e \<Rightarrow> rat"
    and good :: "'d \<Rightarrow> bool"
    and postable :: "'e \<Rightarrow> 'd \<Rightarrow> bool"
  assumes post_balance: "post e d = Inr d' \<Longrightarrow>
      balance d' b = balance d b + (if bucket e = Some b then amount e else 0)"
    and post_good: "good d \<Longrightarrow> postable e d \<Longrightarrow> post e d = Inr d' \<Longrightarrow> good d'"
    and good_nonneg: "good d \<Longrightarrow> 0 \<le> balance d b"
begin

text \<open>No overdraft: a withdrawal larger than the balance is refused.\<close>

lemma no_overdraft:
  assumes "good d" and "postable e d" and "bucket e = Some b" and "balance d b + amount e < 0"
  shows "\<exists>x. post e d = Inl x"
proof (cases "post e d")
  case (Inr d')
  with assms post_good have "good d'" by blast
  then have "0 \<le> balance d' b" by (rule good_nonneg)
  with post_balance [OF Inr, of b] assms(3,4) show ?thesis by simp
qed blast

text \<open>Posting a list of rows adds up what it posts, bucket by bucket.\<close>

lemma post_all_balance:
  "foldr_r post es d = Inr d' \<Longrightarrow>
   balance d' b = balance d b + sum_where amount (\<lambda>e. bucket e = Some b) es"
proof (induction es arbitrary: d)
  case (Cons e es)
  then obtain d1 where "post e d = Inr d1" "foldr_r post es d1 = Inr d'"
    by (auto simp: bindr_Inr)
  with Cons.IH [of d1] post_balance [of e d d1 b] show ?case by simp
qed simp

text \<open>
  A transfer (two rows of opposite amount) conserves the total of every set of buckets
  that holds both ends.
\<close>

lemma transfer_conserves:
  assumes "post e d = Inr d1" and "post e' d1 = Inr d2"
    and "bucket e = Some b" and "bucket e' = Some b'" and "amount e' = - amount e"
    and "finite B" and "b \<in> B" and "b' \<in> B"
  shows "(\<Sum>k \<in> B. balance d2 k) = (\<Sum>k \<in> B. balance d k)"
proof -
  have "balance d2 k = balance d k + (if k = b then amount e else 0)
      + (if k = b' then - amount e else 0)" for k
    using post_balance [OF assms(1), of k] post_balance [OF assms(2), of k] assms(3-5)
    by auto
  then have "(\<Sum>k \<in> B. balance d2 k) =
      (\<Sum>k \<in> B. balance d k) + (\<Sum>k \<in> B. if k = b then amount e else 0)
      + (\<Sum>k \<in> B. if k = b' then - amount e else 0)"
    by (simp add: sum.distrib)
  with assms(6-8) show ?thesis by simp
qed

end

text \<open>The provider: a bucket is (workspace, part, storage, lot, status).\<close>

type_synonym bucket = "uuid \<times> uuid \<times> uuid option \<times> uuid option \<times> stock_status"

definition bucket_of :: "stock_entry \<Rightarrow> bucket option" where
  "bucket_of e = map_option (\<lambda>p. (se_workspace_id e, p, se_storage_location_id e, se_lot_id e, se_status e))
     (se_part_id e)"

fun bucket_balance :: "db \<Rightarrow> bucket \<Rightarrow> rat" where
  "bucket_balance d (ws, p, sto, lot, st) = current_quantity d ws p sto lot st True"

definition posted_amount :: "stock_entry \<Rightarrow> rat" where
  "posted_amount e = round_6 (se_quantity_delta e)"

definition new_row_id :: "stock_entry \<Rightarrow> db \<Rightarrow> bool" where
  "new_row_id e d \<longleftrightarrow> se_id e \<notin> se_id ` set (stock_entries d) \<and> se_id e < next_uuid d"

lemma counts_for_bucket:
  "counts_for e ws p sto lot st True \<longleftrightarrow> bucket_of e = Some (ws, p, sto, lot, st)"
  by (auto simp: counts_for_def bucket_of_def)

interpretation ledger: stock_ledger insert_entry bucket_balance bucket_of posted_amount ledger_ok new_row_id
proof
  fix e d d' and b :: bucket
  assume "insert_entry e d = Inr d'"
  from insert_entry_appends [OF this]
  show "bucket_balance d' b = bucket_balance d b + (if bucket_of e = Some b then posted_amount e else 0)"
    by (cases b) (auto simp: appends_current_quantity counts_for_bucket posted_amount_def bucket_of_def)
next
  fix e d d'
  assume "ledger_ok d" "new_row_id e d" "insert_entry e d = Inr d'"
  then show "ledger_ok d'" by (auto simp: new_row_id_def intro: insert_entry_ledger_ok)
next
  fix d :: db and b
  assume "ledger_ok d"
  then show "0 \<le> bucket_balance d b" by (cases b) (simp add: ledger_ok_nonneg)
qed


end
