(* ===== verification/Locks.thy ===== *)
theory Locks
  imports Ledger
begin

text \<open>
  The transaction-scoped advisory locks of the stock services
  (\<open>backend/app/domain/stock/service.py\<close>): acquisition, the sorted multi-part
  acquisition, and why sorted acquisition cannot deadlock. Transactions are modelled as
  a step relation: each has a list of keys still to take and a set of keys it holds
  until it commits; a key is granted when no other transaction holds it.

  The locale \<open>lock_discipline\<close> is the contract "every transaction takes its keys in
  ascending order"; under it some transaction can always move and every run ends with
  all transactions committed.
\<close>

section \<open>Acquisition\<close>

text \<open>\<open>pg_advisory_xact_lock\<close>: re-entrant inside a transaction, released at its end.\<close>

definition acquire :: "lock_key \<Rightarrow> db \<Rightarrow> db" where
  "acquire k d = (if k \<in> set (held_locks d) then d else d\<lparr>held_locks := held_locks d @ [k]\<rparr>)"

definition lock_for_stock_write :: "uuid \<Rightarrow> uuid \<Rightarrow> db \<Rightarrow> db" where
  "lock_for_stock_write ws p = acquire (Part_lock ws p)"

definition lock_parts_for_stock_write :: "uuid \<Rightarrow> uuid list \<Rightarrow> db \<Rightarrow> db" where
  "lock_parts_for_stock_write ws part_ids d =
     fold (lock_for_stock_write ws) (sort (remdups part_ids)) d"

definition lock_for_storage_constraint :: "uuid \<Rightarrow> uuid \<Rightarrow> db \<Rightarrow> db" where
  "lock_for_storage_constraint ws sto = acquire (Storage_lock ws sto)"

lemma acquire_frame [simp]:
  "stock_entries (acquire k d) = stock_entries d" "parts (acquire k d) = parts d"
  "storages (acquire k d) = storages d" "lots (acquire k d) = lots d"
  "workspaces (acquire k d) = workspaces d" "next_uuid (acquire k d) = next_uuid d"
  "clock (acquire k d) = clock d" "orders (acquire k d) = orders d"
  "order_entries (acquire k d) = order_entries d" "projects (acquire k d) = projects d"
  "project_entries (acquire k d) = project_entries d" "builds (acquire k d) = builds d"
  "build_stages (acquire k d) = build_stages d" "build_stage_lines (acquire k d) = build_stage_lines d"
  "part_substitutes (acquire k d) = part_substitutes d"
  "part_meta_members (acquire k d) = part_meta_members d"
  by (simp_all add: acquire_def)

lemma acquire_held [simp]: "set (held_locks (acquire k d)) = insert k (set (held_locks d))"
  by (auto simp: acquire_def)

lemma acquire_appends: "appends d (acquire k d) []"
  by (simp add: appends_def same_catalog_def subset_insertI)

lemma acquire_ledger_ok [simp]: "ledger_ok (acquire k d) \<longleftrightarrow> ledger_ok d"
  by (rule ledger_ok_cong) simp_all

lemma acquire_current_quantity [simp]: "current_quantity (acquire k d) = current_quantity d"
  by (rule current_quantity_cong) simp

lemma fold_lock_frame:
  "appends d (fold (lock_for_stock_write ws) ps d) []
   \<and> set (held_locks (fold (lock_for_stock_write ws) ps d)) = set (held_locks d) \<union> Part_lock ws ` set ps
   \<and> (ledger_ok (fold (lock_for_stock_write ws) ps d) \<longleftrightarrow> ledger_ok d)"
proof (induction ps arbitrary: d)
  case (Cons p ps)
  let ?d = "lock_for_stock_write ws p d"
  let ?r = "fold (lock_for_stock_write ws) ps ?d"
  have "appends d ?d []" by (simp add: lock_for_stock_write_def acquire_appends)
  moreover from Cons [of ?d] have "appends ?d ?r []" by blast
  ultimately have "appends d ?r ([] @ [])" by (rule appends_trans)
  moreover from Cons [of ?d]
  have "set (held_locks ?r) = set (held_locks ?d) \<union> Part_lock ws ` set ps" by blast
  then have "set (held_locks ?r) = set (held_locks d) \<union> Part_lock ws ` set (p # ps)"
    by (simp add: lock_for_stock_write_def)
  moreover from Cons [of ?d] have "ledger_ok ?r \<longleftrightarrow> ledger_ok ?d" by blast
  moreover have "ledger_ok ?d \<longleftrightarrow> ledger_ok d" by (simp add: lock_for_stock_write_def)
  ultimately show ?case by simp
qed simp

lemma lock_parts_frame:
  "appends d (lock_parts_for_stock_write ws ps d) []"
  "set (held_locks (lock_parts_for_stock_write ws ps d)) = set (held_locks d) \<union> Part_lock ws ` set ps"
  "ledger_ok (lock_parts_for_stock_write ws ps d) \<longleftrightarrow> ledger_ok d"
  using fold_lock_frame [of d ws "sort (remdups ps)"] by (simp_all add: lock_parts_for_stock_write_def)

lemma held_fold_lock:
  assumes "distinct ps" and "\<forall>p \<in> set ps. Part_lock ws p \<notin> set (held_locks d)"
  shows "held_locks (fold (lock_for_stock_write ws) ps d) = held_locks d @ map (Part_lock ws) ps"
  using assms
proof (induction ps arbitrary: d)
  case (Cons p ps)
  let ?d = "d\<lparr>held_locks := held_locks d @ [Part_lock ws p]\<rparr>"
  have "lock_for_stock_write ws p d = ?d"
    using Cons.prems(2) by (simp add: lock_for_stock_write_def acquire_def)
  moreover have "held_locks (fold (lock_for_stock_write ws) ps ?d) = held_locks ?d @ map (Part_lock ws) ps"
    using Cons.prems by (intro Cons.IH) auto
  ultimately show ?case by simp
qed simp

text \<open>The keys a fresh transaction takes for a set of parts, in order.\<close>

definition part_lock_order :: "uuid \<Rightarrow> uuid list \<Rightarrow> lock_key list" where
  "part_lock_order ws ps = map (Part_lock ws) (sort (remdups ps))"

lemma lock_parts_order:
  "held_locks d = [] \<Longrightarrow> held_locks (lock_parts_for_stock_write ws ps d) = part_lock_order ws ps"
  by (simp add: lock_parts_for_stock_write_def held_fold_lock part_lock_order_def)

lemma sorted_part_lock_order: "sorted (part_lock_order ws ps)"
  by (simp add: part_lock_order_def sorted_map sorted_sort)

text \<open>Locks already held make a second acquisition a no-op.\<close>

lemma fold_lock_reentrant:
  "Part_lock ws ` set ps \<subseteq> set (held_locks d) \<Longrightarrow> fold (lock_for_stock_write ws) ps d = d"
  by (induction ps) (auto simp: lock_for_stock_write_def acquire_def)

section \<open>Transactions contending for locks\<close>

text \<open>\<open>held t\<close> are the keys transaction \<open>t\<close> holds, \<open>todo t\<close> what it still takes.\<close>

type_synonym ('t, 'k) lock_state = "('t \<Rightarrow> 'k set) \<times> ('t \<Rightarrow> 'k list)"

inductive lock_step :: "('t, 'k) lock_state \<Rightarrow> ('t, 'k) lock_state \<Rightarrow> bool" where
  grant: "todo t = k # ks \<Longrightarrow> \<forall>u. u \<noteq> t \<longrightarrow> k \<notin> held u \<Longrightarrow>
    lock_step (held, todo) (held(t := insert k (held t)), todo(t := ks))"
| commit: "todo t = [] \<Longrightarrow> held t \<noteq> {} \<Longrightarrow> lock_step (held, todo) (held(t := {}), todo)"

inductive_cases lock_stepE: "lock_step (held, todo) s"

inductive lock_reachable :: "('t \<Rightarrow> 'k list) \<Rightarrow> ('t, 'k) lock_state \<Rightarrow> bool" for program where
  start: "lock_reachable program (\<lambda>_. {}, program)"
| step: "lock_reachable program s \<Longrightarrow> lock_step s s' \<Longrightarrow> lock_reachable program s'"

definition finished :: "('t, 'k) lock_state \<Rightarrow> bool" where
  "finished s \<longleftrightarrow> (\<forall>t. fst s t = {} \<and> snd s t = [])"

definition deadlocked :: "('t, 'k) lock_state \<Rightarrow> bool" where
  "deadlocked s \<longleftrightarrow> \<not> finished s \<and> (\<nexists>s'. lock_step s s')"

locale lock_discipline =
  fixes program :: "'t \<Rightarrow> 'k :: linorder list" and T :: "'t set"
  assumes finite_T: "finite T"
    and idle: "t \<notin> T \<Longrightarrow> program t = []"
    and ascending: "sorted (program t)"
begin

definition disciplined :: "('t, 'k) lock_state \<Rightarrow> bool" where
  "disciplined s \<longleftrightarrow>
     (\<forall>t. t \<notin> T \<longrightarrow> fst s t = {} \<and> snd s t = []) \<and>
     (\<forall>t. sorted (snd s t) \<and> (\<forall>k \<in> fst s t. \<forall>k' \<in> set (snd s t). k \<le> k')) \<and>
     (\<forall>t u. t \<noteq> u \<longrightarrow> fst s t \<inter> fst s u = {})"

lemma disciplined_start: "disciplined (\<lambda>_. {}, program)"
  by (simp add: disciplined_def idle ascending)

lemma disciplined_step:
  assumes "disciplined s" and "lock_step s s'"
  shows "disciplined s'"
  using assms(2,1)
proof (induction rule: lock_step.induct)
  case (grant todo t k ks held)
  then have t: "t \<in> T" by (auto simp: disciplined_def)
  from grant have "sorted (k # ks)" by (metis disciplined_def snd_conv)
  then have "sorted ks" "\<forall>x \<in> set ks. k \<le> x" by auto
  with grant t show ?case by (auto simp: disciplined_def)
next
  case (commit todo t held)
  then show ?case by (auto simp: disciplined_def)
qed

lemma disciplined_reachable: "lock_reachable program s \<Longrightarrow> disciplined s"
  by (induction rule: lock_reachable.induct) (auto intro: disciplined_start disciplined_step)

text \<open>
  If no transaction can move, every unfinished one waits for a key held by another
  whose own wanted key is larger: the largest wanted key has no such holder.
\<close>

lemma disciplined_progress:
  assumes d: "disciplined s" and open_txn: "\<not> finished s"
  shows "\<exists>s'. lock_step s s'"
proof (rule ccontr)
  assume stuck: "\<nexists>s'. lock_step s s'"
  obtain held todo where s: "s = (held, todo)" by (cases s)
  have blocked: "\<exists>u. u \<noteq> t \<and> hd (todo t) \<in> held u" if "todo t \<noteq> []" for t
  proof (rule ccontr)
    assume "\<not> ?thesis"
    then have "lock_step s (held(t := insert (hd (todo t)) (held t)), todo(t := tl (todo t)))"
      unfolding s using that by (intro lock_step.grant) auto
    with stuck show False by blast
  qed
  have waiting: "todo t \<noteq> []" if "held t \<noteq> {}" for t
    using stuck that lock_step.commit [of todo t held] by (auto simp: s)
  define W where "W = {t. todo t \<noteq> []}"
  have "W \<subseteq> T" using d by (auto simp: W_def disciplined_def s)
  then have finW: "finite W" by (rule finite_subset) (rule finite_T)
  have "W \<noteq> {}" using open_txn waiting by (auto simp: W_def finished_def s)
  then have "Max ((\<lambda>u. hd (todo u)) ` W) \<in> (\<lambda>u. hd (todo u)) ` W" using finW by simp
  then obtain t where t: "t \<in> W" and t_max: "hd (todo t) = Max ((\<lambda>u. hd (todo u)) ` W)" by auto
  have max: "\<forall>u \<in> W. hd (todo u) \<le> hd (todo t)" using finW by (simp add: t_max)
  from t blocked obtain u where u: "u \<noteq> t" "hd (todo t) \<in> held u" by (auto simp: W_def)
  then have uW: "u \<in> W" using waiting by (auto simp: W_def)
  then have nonempty: "todo u \<noteq> []" by (simp add: W_def)
  from d u nonempty have le: "hd (todo t) \<le> hd (todo u)" by (auto simp: disciplined_def s)
  with max uW have eq: "hd (todo u) = hd (todo t)" by (simp add: order.antisym)
  from blocked [OF nonempty] obtain v where "v \<noteq> u" "hd (todo u) \<in> held v" by blast
  then have "hd (todo t) \<in> held u \<inter> held v" using u eq by simp
  moreover from d \<open>v \<noteq> u\<close> have "held u \<inter> held v = {}"
    unfolding disciplined_def s fst_conv by metis
  ultimately show False by simp
qed

lemma no_deadlock: "lock_reachable program s \<Longrightarrow> \<not> deadlocked s"
  unfolding deadlocked_def using disciplined_reachable disciplined_progress by metis

definition remaining_work :: "('t, 'k) lock_state \<Rightarrow> nat" where
  "remaining_work s = (\<Sum>t \<in> T. 2 * length (snd s t) + (if fst s t = {} then 0 else 1))"

lemma step_decreases_work:
  assumes "disciplined s" and "lock_step s s'"
  shows "remaining_work s' < remaining_work s"
  using assms(2,1)
proof (induction rule: lock_step.induct)
  case (grant todo t k ks held)
  then have t: "t \<in> T" by (auto simp: disciplined_def)
  show ?case
    unfolding remaining_work_def
    by (rule sum_strict_mono_ex1) (use finite_T t grant in \<open>auto intro!: bexI [of _ t]\<close>)
next
  case (commit todo t held)
  then have t: "t \<in> T" by (auto simp: disciplined_def)
  show ?case
    unfolding remaining_work_def
    by (rule sum_strict_mono_ex1) (use finite_T t commit in \<open>auto intro!: bexI [of _ t]\<close>)
qed

text \<open>From every reachable state the transactions can all be driven to commit.\<close>

lemma all_commit:
  assumes "lock_reachable program s"
  shows "\<exists>s'. lock_step\<^sup>*\<^sup>* s s' \<and> finished s'"
  using assms
proof (induction "remaining_work s" arbitrary: s rule: less_induct)
  case less
  show ?case
  proof (cases "finished s")
    case False
    from less.prems have d: "disciplined s" by (rule disciplined_reachable)
    with False obtain s1 where s1: "lock_step s s1" using disciplined_progress by blast
    then have "remaining_work s1 < remaining_work s" "lock_reachable program s1"
      using step_decreases_work [OF d] less.prems by (auto intro: lock_reachable.step)
    then obtain s' where "lock_step\<^sup>*\<^sup>* s1 s'" "finished s'" using less.hyps by blast
    with s1 show ?thesis by (meson converse_rtranclp_into_rtranclp)
  qed blast
qed

end

text \<open>
  The provider: any finite number of concurrent transactions, each calling
  \<open>lock_parts_for_stock_write\<close> on its own list of parts and then, if it writes to a
  constrained location, taking that one storage lock.
\<close>

definition stock_lock_program :: "uuid \<Rightarrow> uuid list \<times> uuid option \<Rightarrow> lock_key list" where
  "stock_lock_program ws r =
     part_lock_order ws (fst r) @ (case snd r of None \<Rightarrow> [] | Some l \<Rightarrow> [Storage_lock ws l])"

lemma sorted_stock_lock_program: "sorted (stock_lock_program ws r)"
  using sorted_part_lock_order [of ws "fst r"]
  by (auto simp: stock_lock_program_def sorted_append part_lock_order_def less_imp_le split: option.split)

interpretation stock_txns: lock_discipline
  "\<lambda>t :: nat. if t < n then stock_lock_program ws (req t) else []" "{..<n}"
  for ws req n
  by unfold_locales (auto simp: sorted_stock_lock_program)

end
