(* ===== verification/PyText.thy ===== *)
theory PyText
  imports Prelude
begin

text \<open>
  The parts of Python's \<open>str\<close> and \<open>datetime.date\<close> the services use. A character is a
  code point below 256.
\<close>

section \<open>Whitespace\<close>

definition is_space :: "char \<Rightarrow> bool" where
  "is_space c = (let n = (of_char c :: nat) in
     9 \<le> n \<and> n \<le> 13 \<or> 28 \<le> n \<and> n \<le> 32 \<or> n = 133 \<or> n = 160)"

definition strip :: "string \<Rightarrow> string" where
  "strip s = rev (dropWhile is_space (rev (dropWhile is_space s)))"

lemma strip_blank_iff: "strip s = [] \<longleftrightarrow> (\<forall>c \<in> set s. is_space c)"
  by (auto simp: strip_def dropWhile_eq_Nil_conv dest: set_dropWhileD)
     (metis dropWhile_eq_Nil_conv in_set_conv_decomp set_dropWhileD set_rev takeWhile_dropWhile_id
        Un_iff set_append set_takeWhileD)

section \<open>Case\<close>

definition lower_char :: "char \<Rightarrow> char" where
  "lower_char c = (let n = (of_char c :: nat) in
     if 65 \<le> n \<and> n \<le> 90 \<or> 192 \<le> n \<and> n \<le> 222 \<and> n \<noteq> 215 then char_of (n + 32) else c)"

text \<open>\<open>str.casefold\<close> on code points below 256; the micro sign folds to a code point above and
  equals nothing else here.\<close>

definition casefold :: "string \<Rightarrow> string" where
  "casefold s = concat (map (\<lambda>c. if c = CHR 0xDF then ''ss'' else [lower_char c]) s)"

section \<open>\<open>date.fromisoformat\<close>\<close>

definition digit_val :: "char \<Rightarrow> int option" where
  "digit_val c = (let n = (of_char c :: int) in if 48 \<le> n \<and> n \<le> 57 then Some (n - 48) else None)"

fun digits_val :: "int \<Rightarrow> string \<Rightarrow> int option" where
  "digits_val acc [] = Some acc"
| "digits_val acc (c # cs) = (case digit_val c of None \<Rightarrow> None | Some v \<Rightarrow> digits_val (10 * acc + v) cs)"

definition leap_year :: "int \<Rightarrow> bool" where
  "leap_year y \<longleftrightarrow> y mod 4 = 0 \<and> (y mod 100 \<noteq> 0 \<or> y mod 400 = 0)"

definition days_in_month :: "int \<Rightarrow> int \<Rightarrow> int" where
  "days_in_month y m =
     (if m = 2 then (if leap_year y then 29 else 28) else if m \<in> {4, 6, 9, 11} then 30 else 31)"

definition valid_date :: "int \<times> int \<times> int \<Rightarrow> bool" where
  "valid_date = (\<lambda>(y, m, d). 1 \<le> y \<and> y \<le> 9999 \<and> 1 \<le> m \<and> m \<le> 12 \<and> 1 \<le> d \<and> d \<le> days_in_month y m)"

text \<open>Days before January 1st of year \<open>y\<close>, as \<open>datetime\<close> counts ordinals.\<close>

definition days_before_year :: "int \<Rightarrow> int" where
  "days_before_year y = (let p = y - 1 in p * 365 + p div 4 - p div 100 + p div 400)"

fun month_day :: "nat \<Rightarrow> int \<Rightarrow> int \<Rightarrow> int \<Rightarrow> int \<times> int \<times> int" where
  "month_day 0 y m r = (y, m, r + 1)"
| "month_day (Suc k) y m r =
     (if r < days_in_month y m then (y, m, r + 1)
      else if m = 12 then month_day k (y + 1) 1 (r - days_in_month y m)
      else month_day k y (m + 1) (r - days_in_month y m))"

text \<open>The first Monday of ISO year \<open>y\<close> (\<open>_isoweek1monday\<close>), as an offset that may precede the year.\<close>

definition isoweek1monday :: "int \<Rightarrow> int" where
  "isoweek1monday y =
     (let firstday = days_before_year y + 1; firstweekday = (firstday + 6) mod 7;
          week1monday = firstday - firstweekday
      in if 3 < firstweekday then week1monday + 7 else week1monday)"

definition isoweek_to_gregorian :: "int \<Rightarrow> int \<Rightarrow> int \<Rightarrow> (int \<times> int \<times> int) option" where
  "isoweek_to_gregorian y w d =
     (let first_weekday = (days_before_year y + 1) mod 7;
          week53 = (first_weekday = 4 \<or> first_weekday = 3 \<and> leap_year y);
          ord = isoweek1monday y + (w - 1) * 7 + (d - 1)
      in if \<not> (1 \<le> y \<and> y \<le> 9999) then None
         else if \<not> (1 \<le> w \<and> (w \<le> 52 \<or> w = 53 \<and> week53)) then None
         else if \<not> (1 \<le> d \<and> d \<le> 7) then None
         else if ord < 1 then None
         else let rel = ord - (days_before_year y + 1) in
           let r = (if ord < days_before_year y + 1
             then month_day 12 (y - 1) 1 (ord - 1 - days_before_year (y - 1))
             else month_day 24 y 1 rel)
           in if valid_date r then Some r else None)"

definition parse_two :: "string \<Rightarrow> int option" where
  "parse_two s = (if length s = 2 then digits_val 0 s else None)"

definition fromisoformat :: "string \<Rightarrow> (int \<times> int \<times> int) option" where
  "fromisoformat s =
     (if length s \<notin> {7, 8, 10} then None else
      case digits_val 0 (take 4 s) of None \<Rightarrow> None | Some y \<Rightarrow>
      let sep = (s ! 4 = CHR ''-''); r = drop (if sep then 5 else 4) s in
      if take 1 r = ''W'' then
        (case parse_two (take 2 (drop 1 r)) of None \<Rightarrow> None | Some w \<Rightarrow>
          let r2 = drop 3 r in
          (if r2 = [] then isoweek_to_gregorian y w 1
           else if (take 1 r2 = ''-'') \<noteq> sep then None
           else let r3 = (if sep then drop 1 r2 else r2) in
             if length r3 \<noteq> 1 then None
             else (case digits_val 0 r3 of None \<Rightarrow> None | Some d \<Rightarrow> isoweek_to_gregorian y w d)))
      else
        (case parse_two (take 2 r) of None \<Rightarrow> None | Some m \<Rightarrow>
          let r2 = drop 2 r in
          if (take 1 r2 = ''-'') \<noteq> sep then None
          else (case parse_two (if sep then drop 1 r2 else r2) of None \<Rightarrow> None | Some d \<Rightarrow>
            if valid_date (y, m, d) then Some (y, m, d) else None)))"

section \<open>\<open>str(uuid)\<close>\<close>

fun hex_fixed :: "nat \<Rightarrow> nat \<Rightarrow> string" where
  "hex_fixed 0 n = []"
| "hex_fixed (Suc k) n = hex_fixed k (n div 16) @ [''0123456789abcdef'' ! (n mod 16)]"

definition uuid_str :: "uuid \<Rightarrow> string" where
  "uuid_str u = (let h = hex_fixed 32 u in
     take 8 h @ ''-'' @ take 4 (drop 8 h) @ ''-'' @ take 4 (drop 12 h) @ ''-''
       @ take 4 (drop 16 h) @ ''-'' @ drop 20 h)"

lemma fromisoformat_examples:
  "fromisoformat ''2024-02-29'' = Some (2024, 2, 29)" "fromisoformat ''2023-02-29'' = None"
  "fromisoformat ''20240131'' = Some (2024, 1, 31)" "fromisoformat ''2020-W53-5'' = Some (2021, 1, 1)"
  "fromisoformat ''2026W01'' = Some (2025, 12, 29)" "fromisoformat ''2021-W53'' = None"
  by code_simp+

end
