(* ===== verification/StockRules.thy ===== *)
theory StockRules
  imports Locks PyText
begin

text \<open>
  Storage-location rules of \<open>backend/app/domain/stock/service.py\<close>: the two location
  constraints checked before a write (\<open>enforce_storage_constraints\<close>) and the check
  before a constraint is switched on (\<open>validate_storage_constraint_flag_update\<close>), with
  the workspace-scoped lookups (\<open>_belongs\<close>) and the unit stamp (\<open>unit_for_part\<close>).
\<close>

section \<open>Lookups\<close>

text \<open>\<open>db.get\<close> followed by \<open>_belongs\<close>: the row, if it exists in the workspace.\<close>

definition belonging_part :: "db \<Rightarrow> uuid \<Rightarrow> uuid \<Rightarrow> part option" where
  "belonging_part d ws p =
     (case parts d p of None \<Rightarrow> None | Some x \<Rightarrow> if p_workspace_id x = ws then Some x else None)"

definition belonging_storage :: "db \<Rightarrow> uuid \<Rightarrow> uuid \<Rightarrow> storage_location option" where
  "belonging_storage d ws s =
     (case storages d s of None \<Rightarrow> None | Some x \<Rightarrow> if sl_workspace_id x = ws then Some x else None)"

definition belonging_lot :: "db \<Rightarrow> uuid \<Rightarrow> uuid \<Rightarrow> lot option" where
  "belonging_lot d ws l =
     (case lots d l of None \<Rightarrow> None | Some x \<Rightarrow> if lot_workspace_id x = ws then Some x else None)"

text \<open>A caller-supplied optional reference is acceptable when absent or in the workspace.\<close>

definition foreign_storage :: "db \<Rightarrow> uuid \<Rightarrow> uuid option \<Rightarrow> bool" where
  "foreign_storage d ws s = (case s of None \<Rightarrow> False | Some i \<Rightarrow> belonging_storage d ws i = None)"

definition foreign_lot :: "db \<Rightarrow> uuid \<Rightarrow> uuid option \<Rightarrow> bool" where
  "foreign_lot d ws l = (case l of None \<Rightarrow> False | Some i \<Rightarrow> belonging_lot d ws i = None)"

definition unit_for_part :: "part option \<Rightarrow> string" where
  "unit_for_part part =
     (case part of None \<Rightarrow> DEFAULT_UNIT
      | Some p \<Rightarrow> if p_unit_of_measure p = [] then DEFAULT_UNIT else p_unit_of_measure p)"

section \<open>Location constraints\<close>

text \<open>\<open>db.refresh\<close>: the row as the table has it now.\<close>

definition refresh_storage :: "db \<Rightarrow> storage_location \<Rightarrow> storage_location" where
  "refresh_storage d s = (case storages d (sl_id s) of None \<Rightarrow> s | Some s' \<Rightarrow> s')"

definition has_prior_positive_entry :: "db \<Rightarrow> uuid \<Rightarrow> uuid \<Rightarrow> uuid \<Rightarrow> bool" where
  "has_prior_positive_entry d ws sto part \<longleftrightarrow>
     (\<exists>e \<in> set (stock_entries d). se_workspace_id e = ws \<and> se_storage_location_id e = Some sto
        \<and> se_part_id e = Some part \<and> 0 < se_quantity_delta e)"

definition enforce_storage_constraints ::
    "uuid \<Rightarrow> storage_location \<Rightarrow> uuid \<Rightarrow> db \<Rightarrow> error + db" where
  "enforce_storage_constraints ws storage part d =
     (let d1 = lock_for_storage_constraint ws (sl_id storage) d;
          s = refresh_storage d1 storage;
          other_parts = filter (\<lambda>((p, _), _). p \<noteq> Some part) (stock_for_storage d1 ws (sl_id s) On_hand)
      in if sl_single_part_only s \<and> other_parts \<noteq> []
         then Inl (StockConflictError Single_part_only (sl_id s))
         else if sl_existing_parts_only s \<and> \<not> has_prior_positive_entry d1 ws (sl_id s) part
         then Inl (StockConflictError Existing_parts_only (sl_id s))
         else Inr d1)"

text \<open>A requested flag is \<open>Some True\<close>, \<open>Some False\<close> or absent.\<close>

definition validate_storage_constraint_flag_update ::
    "uuid \<Rightarrow> storage_location \<Rightarrow> bool option \<Rightarrow> bool option \<Rightarrow> db \<Rightarrow> error + db" where
  "validate_storage_constraint_flag_update ws storage req_single req_existing d =
     (let enable = (\<lambda>s. (req_single = Some True \<and> \<not> sl_single_part_only s,
                          req_existing = Some True \<and> \<not> sl_existing_parts_only s))
      in if enable storage = (False, False) then Inr d
      else let d1 = lock_for_storage_constraint ws (sl_id storage) d;
               s = refresh_storage d1 storage;
               (enable_single, enable_existing) = enable s
      in if \<not> enable_single \<and> \<not> enable_existing then Inr d1
      else let current_part_ids = remdups (map (\<lambda>((p, _), _). p)
                 (filter (\<lambda>(_, q). 0 < q) (stock_for_storage d1 ws (sl_id s) On_hand)));
               prior = (\<lambda>p. \<exists>e \<in> set (stock_entries d1). se_workspace_id e = ws
                 \<and> se_storage_location_id e = Some (sl_id s) \<and> se_part_id e \<noteq> None
                 \<and> se_part_id e = p \<and> 0 < se_quantity_delta e)
      in if enable_single \<and> 1 < length current_part_ids
         then Inl (StockConflictError Single_part_only (sl_id s))
         else if enable_existing \<and> (\<exists>p \<in> set current_part_ids. \<not> prior p)
         then Inl (StockConflictError Existing_parts_only (sl_id s))
         else Inr d1)"

section \<open>Lemmas\<close>

lemma belonging_part_Some [simp]:
  "belonging_part d ws p = Some x \<longleftrightarrow> parts d p = Some x \<and> p_workspace_id x = ws"
  by (auto simp: belonging_part_def split: option.splits)

lemma belonging_storage_Some [simp]:
  "belonging_storage d ws s = Some x \<longleftrightarrow> storages d s = Some x \<and> sl_workspace_id x = ws"
  by (auto simp: belonging_storage_def split: option.splits)

lemma belonging_lot_Some [simp]:
  "belonging_lot d ws l = Some x \<longleftrightarrow> lots d l = Some x \<and> lot_workspace_id x = ws"
  by (auto simp: belonging_lot_def split: option.splits)

lemma part_in_ws_iff: "part_in_ws d ws p \<longleftrightarrow> (\<exists>x. belonging_part d ws p = Some x)"
  by (auto simp: part_in_ws_def split: option.splits)

lemma storage_in_ws_iff: "storage_in_ws d ws s \<longleftrightarrow> (\<exists>x. belonging_storage d ws s = Some x)"
  by (auto simp: storage_in_ws_def split: option.splits)

lemma lot_in_ws_iff: "lot_in_ws d ws l \<longleftrightarrow> (\<exists>x. belonging_lot d ws l = Some x)"
  by (auto simp: lot_in_ws_def split: option.splits)

lemma foreign_storage_iff: "\<not> foreign_storage d ws s \<longleftrightarrow> opt_ok (storage_in_ws d ws) s"
  by (cases s) (auto simp: foreign_storage_def storage_in_ws_iff)

lemma foreign_lot_iff: "\<not> foreign_lot d ws l \<longleftrightarrow> opt_ok (lot_in_ws d ws) l"
  by (cases l) (auto simp: foreign_lot_def lot_in_ws_iff)

lemma unit_for_part_Some: "p_unit_of_measure p \<noteq> [] \<Longrightarrow> unit_for_part (Some p) = p_unit_of_measure p"
  by (simp add: unit_for_part_def)

text \<open>The catalog's rows are stored under their own ids and every unit fits its column.\<close>

definition catalog_ok :: "db \<Rightarrow> bool" where
  "catalog_ok d \<longleftrightarrow>
     (\<forall>p x. parts d p = Some x \<longrightarrow> p_id x = p \<and> p_unit_of_measure x \<noteq> [] \<and> length (p_unit_of_measure x) \<le> 16)
     \<and> (\<forall>s x. storages d s = Some x \<longrightarrow> sl_id x = s)"

lemma catalog_ok_part:
  "catalog_ok d \<Longrightarrow> parts d p = Some x \<Longrightarrow>
   p_id x = p \<and> unit_for_part (Some x) = p_unit_of_measure x \<and> length (unit_for_part (Some x)) \<le> 16"
  by (auto simp: catalog_ok_def unit_for_part_Some)

lemma catalog_ok_cong: "parts d' = parts d \<Longrightarrow> storages d' = storages d \<Longrightarrow> catalog_ok d' \<longleftrightarrow> catalog_ok d"
  by (simp add: catalog_ok_def)

lemma catalog_ok_appends: "catalog_ok d \<Longrightarrow> appends d d' new \<Longrightarrow> catalog_ok d'"
  using catalog_ok_cong [of d' d] by (simp add: appends_def same_catalog_def)

lemma enforce_Inr:
  assumes "enforce_storage_constraints ws storage part d = Inr d'"
  shows "d' = lock_for_storage_constraint ws (sl_id storage) d"
  using assms by (auto simp: enforce_storage_constraints_def Let_def split: if_splits)

lemma enforce_appends: "enforce_storage_constraints ws storage part d = Inr d' \<Longrightarrow> appends d d' []"
  by (auto dest!: enforce_Inr simp: lock_for_storage_constraint_def acquire_appends)

lemma enforce_ledger_ok:
  "enforce_storage_constraints ws storage part d = Inr d' \<Longrightarrow> ledger_ok d' \<longleftrightarrow> ledger_ok d"
  by (auto dest!: enforce_Inr simp: lock_for_storage_constraint_def)

lemma stock_for_storage_cong:
  "stock_entries d' = stock_entries d \<Longrightarrow> stock_for_storage d' = stock_for_storage d"
  by (simp add: stock_for_storage_def fun_eq_iff)

text \<open>
  The parts on a shelf: those with a bucket there that does not net to zero.
\<close>

definition parts_at :: "db \<Rightarrow> uuid \<Rightarrow> uuid \<Rightarrow> uuid option set" where
  "parts_at d ws sto = (\<lambda>x. fst (fst x)) ` set (stock_for_storage d ws sto On_hand)"

lemma stock_for_storage_iff:
  "((p, lot), q) \<in> set (stock_for_storage d ws sto st) \<longleftrightarrow>
     q = sum_where se_quantity_delta (\<lambda>e. se_workspace_id e = ws \<and> se_storage_location_id e = Some sto
           \<and> se_status e = st \<and> se_part_id e = p \<and> se_lot_id e = lot) (stock_entries d) \<and> q \<noteq> 0"
proof -
  let ?P = "\<lambda>e. se_workspace_id e = ws \<and> se_storage_location_id e = Some sto \<and> se_status e = st"
  let ?s = "sum_where se_quantity_delta (\<lambda>e. ?P e \<and> (se_part_id e, se_lot_id e) = (p, lot)) (stock_entries d)"
  have s: "?s = sum_where se_quantity_delta (\<lambda>e. se_workspace_id e = ws
      \<and> se_storage_location_id e = Some sto \<and> se_status e = st \<and> se_part_id e = p \<and> se_lot_id e = lot)
      (stock_entries d)"
    by (rule sum_where_cong) auto
  have "?s \<noteq> 0 \<Longrightarrow> \<exists>e \<in> set (stock_entries d). ?P e \<and> (se_part_id e, se_lot_id e) = (p, lot)"
    using sum_where_none [of "stock_entries d" "\<lambda>e. ?P e \<and> (se_part_id e, se_lot_id e) = (p, lot)"] by blast
  then show ?thesis
    by (auto simp: stock_for_storage_def group_sum_iff s)
qed

lemma parts_at_Some:
  "Some p \<in> parts_at d ws sto \<longleftrightarrow> (\<exists>lot. current_quantity d ws p (Some sto) lot On_hand True \<noteq> 0)"
proof -
  have "current_quantity d ws p (Some sto) lot On_hand True =
      sum_where se_quantity_delta (\<lambda>e. se_workspace_id e = ws \<and> se_storage_location_id e = Some sto
           \<and> se_status e = On_hand \<and> se_part_id e = Some p \<and> se_lot_id e = lot) (stock_entries d)" for lot
    unfolding current_quantity_def by (rule sum_where_cong) auto
  moreover have "Some p \<in> parts_at d ws sto \<longleftrightarrow>
      (\<exists>lot q. ((Some p, lot), q) \<in> set (stock_for_storage d ws sto On_hand))"
    by (force simp: parts_at_def image_iff)
  ultimately show ?thesis by (simp add: stock_for_storage_iff)
qed

lemma stock_for_storage_acquire [simp]: "stock_for_storage (acquire k d) = stock_for_storage d"
  by (rule stock_for_storage_cong) simp

lemma enforce_single_part_only:
  assumes "enforce_storage_constraints ws storage part d = Inr d'"
    and "storages d (sl_id storage) = Some storage" and "sl_single_part_only storage"
  shows "parts_at d ws (sl_id storage) \<subseteq> {Some part}"
  using assms
  by (auto simp: enforce_storage_constraints_def Let_def refresh_storage_def parts_at_def filter_empty_conv
      lock_for_storage_constraint_def split: if_splits prod.splits)

end
