(* ===== verification/StockOps.thy ===== *)
theory StockOps
  imports StockRules
begin

text \<open>
  The stock operations of \<open>backend/app/domain/stock/service.py\<close>: \<open>add_stock\<close>,
  \<open>remove_stock\<close>, \<open>move_stock\<close>, \<open>move_quantity\<close> and \<open>adjust_stock\<close>, each a function
  from the database to an error or the written rows with the new database. A raised
  exception rolls the request's transaction back, so an \<open>Inl\<close> carries no database.
\<close>

section \<open>Payloads\<close>

datatype price_mode = No_price | Per_component | Entire_lot

record price_input =
  pi_mode :: price_mode
  pi_unit_price :: "rat option"
  pi_total_price :: "rat option"
  pi_currency :: "string option"

record lot_input =
  li_name :: "string option"
  li_comments :: "string option"
  li_expiration_date :: "string option"
  li_serial_number :: "string option"

record add_stock_in =
  as_part_id :: uuid
  as_quantity :: int
  as_storage_location_id :: "uuid option"
  as_price :: "price_input option"
  as_lot :: "lot_input option"
  as_comments :: "string option"
  as_bag_signature :: "string option"

record remove_stock_in =
  rs_part_id :: uuid
  rs_quantity :: int
  rs_storage_location_id :: "uuid option"
  rs_lot_id :: "uuid option"
  rs_comments :: "string option"

record move_stock_in =
  ms_part_id :: uuid
  ms_source_storage_location_id :: "uuid option"
  ms_source_lot_id :: "uuid option"
  ms_destination_storage_location_id :: uuid
  ms_quantity :: int
  ms_split_lot :: bool
  ms_comments :: "string option"

record adjust_stock_in =
  aj_part_id :: uuid
  aj_storage_location_id :: "uuid option"
  aj_lot_id :: "uuid option"
  aj_actual_quantity :: int
  aj_comments :: "string option"

section \<open>Adding\<close>

text \<open>The storage block: no storage given is no check.\<close>

definition add_stock_storage :: "uuid \<Rightarrow> add_stock_in \<Rightarrow> db \<Rightarrow> error + storage_location option \<times> db" where
  "add_stock_storage ws pl d =
     (case as_storage_location_id pl of None \<Rightarrow> Inr (None, d)
      | Some i \<Rightarrow>
        (case belonging_storage d ws i of None \<Rightarrow> Inl (StockError Storage_location_not_found)
         | Some storage \<Rightarrow>
           if sl_archived_at storage \<noteq> None then Inl (StockError Storage_location_archived)
           else if sl_is_full storage then Inl (StockError Storage_location_full)
           else bindr (enforce_storage_constraints ws storage (as_part_id pl) d)
                  (\<lambda>d1. Inr (Some storage, d1))))"

text \<open>Serialized parts in a workspace that tracks serials: one unit, with a serial number.\<close>

definition add_stock_serial_error :: "db \<Rightarrow> uuid \<Rightarrow> part \<Rightarrow> add_stock_in \<Rightarrow> stock_error option" where
  "add_stock_serial_error d ws part pl =
     (case workspaces d ws of None \<Rightarrow> None
      | Some w \<Rightarrow>
        if ws_serial_tracking_enabled w \<and> p_serialized part then
          if as_quantity pl \<noteq> 1 then Some Serialized_one_at_a_time
          else (case as_lot pl of None \<Rightarrow> Some Serialized_needs_serial
                | Some l \<Rightarrow> if strip (case li_serial_number l of None \<Rightarrow> [] | Some s \<Rightarrow> s) = []
                           then Some Serialized_needs_serial else None)
        else None)"

definition add_stock_price :: "add_stock_in \<Rightarrow> rat option \<times> string option" where
  "add_stock_price pl =
     (case as_price pl of None \<Rightarrow> (None, None)
      | Some p \<Rightarrow>
        if pi_mode p = No_price then (None, None)
        else (if pi_mode p = Per_component \<and> pi_unit_price p \<noteq> None then pi_unit_price p
              else if pi_mode p = Entire_lot \<and> pi_total_price p \<noteq> None
              then Some (dec_div (the (pi_total_price p)) (of_int (as_quantity pl)))
              else None, pi_currency p))"

text \<open>
  A lot is created when the payload names one or a unit price is known. An empty
  expiration string counts as none.
\<close>

definition add_stock_lot ::
    "uuid \<Rightarrow> uuid option \<Rightarrow> part \<Rightarrow> add_stock_in \<Rightarrow> rat option \<Rightarrow> string option \<Rightarrow> db
     \<Rightarrow> error + lot option \<times> db" where
  "add_stock_lot ws user part pl unit_price currency d =
     (if as_lot pl = None \<and> unit_price = None then Inr (None, d)
      else
        let text = (case as_lot pl of None \<Rightarrow> None | Some l \<Rightarrow> li_expiration_date l);
            given = (text \<noteq> None \<and> text \<noteq> Some []);
            expiry = (if given then fromisoformat (the text) else None)
        in if given \<and> expiry = None then Inl (StockError Invalid_expiration_date)
        else bindr (add_lot (blank_lot\<lparr>
               lot_workspace_id := ws,
               lot_part_id := Some (p_id part),
               lot_name := Option.bind (as_lot pl) li_name,
               lot_comments := Option.bind (as_lot pl) li_comments,
               lot_expiration_date := expiry,
               lot_serial_number := Option.bind (as_lot pl) li_serial_number,
               lot_source_type := Manual,
               lot_purchase_quantity := Some (of_int (as_quantity pl)),
               lot_purchase_unit_cost := unit_price,
               lot_purchase_currency := currency,
               lot_created_by := user\<rparr>) d) (\<lambda>(l, d1). Inr (Some l, d1)))"

definition add_stock :: "uuid \<Rightarrow> uuid option \<Rightarrow> add_stock_in \<Rightarrow> db \<Rightarrow> error + stock_entry \<times> db" where
  "add_stock ws user pl d0 =
     (let d = lock_for_stock_write ws (as_part_id pl) d0 in
      case belonging_part d ws (as_part_id pl) of None \<Rightarrow> Inl (StockError Part_not_found)
      | Some part \<Rightarrow>
        bindr (add_stock_storage ws pl d) (\<lambda>(storage, d1).
        if p_default_storage_mandatory part \<and> p_default_storage_location_id part \<noteq> None
             \<and> map_option sl_id storage \<noteq> p_default_storage_location_id part
        then Inl (StockError Default_storage_required)
        else case add_stock_serial_error d1 ws part pl of Some e \<Rightarrow> Inl (StockError e)
        | None \<Rightarrow>
          let (unit_price, currency) = add_stock_price pl in
          bindr (add_stock_lot ws user part pl unit_price currency d1) (\<lambda>(lot, d2).
          add_entry (blank_entry\<lparr>
            se_workspace_id := ws,
            se_part_id := Some (p_id part),
            se_lot_id := map_option lot_id lot,
            se_storage_location_id := map_option sl_id storage,
            se_quantity_delta := of_int (as_quantity pl),
            se_unit := unit_for_part (Some part),
            se_status := On_hand,
            se_unit_price := unit_price,
            se_currency := currency,
            se_operation_type := Op_add,
            se_comments := as_comments pl,
            se_bag_signature := as_bag_signature pl,
            se_occurred_at := clock d2,
            se_created_by := user\<rparr>) d2)))"

section \<open>Removing\<close>

definition remove_stock :: "uuid \<Rightarrow> uuid option \<Rightarrow> remove_stock_in \<Rightarrow> db \<Rightarrow> error + stock_entry \<times> db" where
  "remove_stock ws user pl d0 =
     (let d = lock_for_stock_write ws (rs_part_id pl) d0 in
      case belonging_part d ws (rs_part_id pl) of None \<Rightarrow> Inl (StockError Part_not_found)
      | Some part \<Rightarrow>
        if foreign_storage d ws (rs_storage_location_id pl)
        then Inl (StockError Storage_location_not_found)
        else if foreign_lot d ws (rs_lot_id pl) then Inl (StockError Lot_not_found)
        else let available = current_quantity d ws (p_id part) (rs_storage_location_id pl)
                   (rs_lot_id pl) On_hand True in
        if available < of_int (rs_quantity pl)
        then Inl (StockError (Insufficient_stock available (of_int (rs_quantity pl))))
        else add_entry (blank_entry\<lparr>
          se_workspace_id := ws,
          se_part_id := Some (p_id part),
          se_lot_id := rs_lot_id pl,
          se_storage_location_id := rs_storage_location_id pl,
          se_quantity_delta := - of_int (rs_quantity pl),
          se_unit := unit_for_part (Some part),
          se_status := On_hand,
          se_operation_type := Op_remove,
          se_comments := rs_comments pl,
          se_occurred_at := clock d,
          se_created_by := user\<rparr>) d)"

section \<open>Moving\<close>

definition prepare_move ::
    "uuid \<Rightarrow> uuid \<Rightarrow> rat \<Rightarrow> uuid option \<Rightarrow> uuid option \<Rightarrow> uuid \<Rightarrow> db
     \<Rightarrow> error + (part \<times> storage_location) \<times> db" where
  "prepare_move ws part_id quantity src_sto src_lot dest_id d0 =
     (let d = lock_for_stock_write ws part_id d0 in
      case belonging_part d ws part_id of None \<Rightarrow> Inl (StockError Part_not_found)
      | Some part \<Rightarrow>
      case belonging_storage d ws dest_id of None \<Rightarrow> Inl (StockError Destination_not_found)
      | Some dest \<Rightarrow>
        if sl_archived_at dest \<noteq> None then Inl (StockError Destination_archived)
        else if sl_is_full dest then Inl (StockError Destination_full)
        else if foreign_storage d ws src_sto then Inl (StockError Source_storage_not_found)
        else if foreign_lot d ws src_lot then Inl (StockError Source_lot_not_found)
        else let available = current_quantity d ws part_id src_sto src_lot On_hand True in
        if available < quantity then Inl (StockError (Insufficient_stock_at_source available quantity))
        else bindr (enforce_storage_constraints ws dest part_id d) (\<lambda>d1. Inr ((part, dest), d1)))"

text \<open>
  The back-pointer of the pair: \<open>UPDATE stock_entries SET related_entry_id\<close>, with the
  \<open>UPDATE\<close> branch of the workspace trigger on that column.
\<close>

definition set_related_entry :: "uuid \<Rightarrow> uuid \<Rightarrow> uuid \<Rightarrow> db \<Rightarrow> error + db" where
  "set_related_entry ws i r d =
     (if \<exists>x \<in> set (stock_entries d). se_id x = r \<and> se_workspace_id x = ws
      then Inr (d\<lparr>stock_entries := map (\<lambda>e. if se_id e = i then e\<lparr>se_related_entry_id := Some r\<rparr> else e)
                                      (stock_entries d)\<rparr>)
      else Inl (DbError Workspace_isolation))"

text \<open>
  Both rows take ids up front; the OUT row is written first, then the IN row that
  points at it, then the back-pointer.
\<close>

definition write_move_pair ::
    "uuid \<Rightarrow> uuid option \<Rightarrow> part \<Rightarrow> rat \<Rightarrow> uuid option \<Rightarrow> uuid option \<Rightarrow> uuid \<Rightarrow> uuid option
     \<Rightarrow> string option \<Rightarrow> uuid option \<Rightarrow> uuid option \<Rightarrow> db \<Rightarrow> error + (stock_entry \<times> stock_entry) \<times> db" where
  "write_move_pair ws user part quantity src_sto src_lot dest_sto dest_lot comments build_id stage_id d0 =
     (let (out_id, d1) = new_uuid d0; (in_id, d2) = new_uuid d1;
          common = blank_entry\<lparr>
            se_workspace_id := ws,
            se_part_id := Some (p_id part),
            se_unit := unit_for_part (Some part),
            se_status := On_hand,
            se_build_id := build_id,
            se_build_stage_id := stage_id,
            se_comments := comments,
            se_occurred_at := clock d0,
            se_created_by := user\<rparr>;
          out_entry = common\<lparr>
            se_id := out_id,
            se_lot_id := src_lot,
            se_storage_location_id := src_sto,
            se_quantity_delta := - quantity,
            se_operation_type := Op_move_out,
            se_related_entry_id := None\<rparr>;
          in_entry = common\<lparr>
            se_id := in_id,
            se_lot_id := dest_lot,
            se_storage_location_id := Some dest_sto,
            se_quantity_delta := quantity,
            se_operation_type := Op_move_in,
            se_related_entry_id := Some out_id\<rparr>
      in bindr (insert_entry out_entry d2) (\<lambda>d3.
         bindr (insert_entry in_entry d3) (\<lambda>d4.
         bindr (set_related_entry ws out_id in_id d4) (\<lambda>d5.
         Inr ((out_entry\<lparr>se_related_entry_id := Some in_id\<rparr>, in_entry), d5)))))"

definition move_quantity ::
    "uuid \<Rightarrow> uuid option \<Rightarrow> uuid \<Rightarrow> rat \<Rightarrow> uuid option \<Rightarrow> uuid option \<Rightarrow> uuid \<Rightarrow> string option
     \<Rightarrow> uuid option \<Rightarrow> uuid option \<Rightarrow> db \<Rightarrow> error + (stock_entry \<times> stock_entry) \<times> db" where
  "move_quantity ws user part_id quantity src_sto src_lot dest_id comments build_id stage_id d =
     bindr (prepare_move ws part_id quantity src_sto src_lot dest_id d) (\<lambda>((part, _), d1).
     write_move_pair ws user part quantity src_sto src_lot dest_id src_lot comments build_id stage_id d1)"

text \<open>\<open>f"{src_lot.name or 'lot'}-split"\<close>\<close>

definition split_lot_name :: "lot \<Rightarrow> string" where
  "split_lot_name l =
     (case lot_name l of None \<Rightarrow> ''lot'' | Some n \<Rightarrow> if n = [] then ''lot'' else n) @ ''-split''"

definition move_stock ::
    "uuid \<Rightarrow> uuid option \<Rightarrow> move_stock_in \<Rightarrow> db \<Rightarrow> error + (stock_entry \<times> stock_entry) \<times> db" where
  "move_stock ws user pl d =
     (let quantity = of_int (ms_quantity pl); src_sto = ms_source_storage_location_id pl;
          src_lot = ms_source_lot_id pl in
      bindr (prepare_move ws (ms_part_id pl) quantity src_sto src_lot
               (ms_destination_storage_location_id pl) d) (\<lambda>((part, dest), d1).
      if ms_split_lot pl \<and> src_lot \<noteq> None then
        (case belonging_lot d1 ws (the src_lot) of None \<Rightarrow> Inl (StockError Source_lot_not_found)
         | Some src \<Rightarrow>
           bindr (add_lot (blank_lot\<lparr>
               lot_workspace_id := ws,
               lot_part_id := Some (ms_part_id pl),
               lot_name := Some (split_lot_name src),
               lot_parent_lot_id := Some (lot_id src),
               lot_description := lot_description src,
               lot_comments := Some (''split from '' @ uuid_str (lot_id src)),
               lot_expiration_date := lot_expiration_date src,
               lot_source_type := Split,
               lot_purchase_quantity := Some quantity,
               lot_purchase_unit_cost := lot_purchase_unit_cost src,
               lot_purchase_currency := lot_purchase_currency src,
               lot_created_by := user\<rparr>) d1) (\<lambda>(new_lot, d2).
           write_move_pair ws user part quantity src_sto src_lot (sl_id dest) (Some (lot_id new_lot))
             (ms_comments pl) None None d2))
      else write_move_pair ws user part quantity src_sto src_lot (sl_id dest) src_lot
             (ms_comments pl) None None d1))"

section \<open>Adjusting\<close>

definition adjust_stock ::
    "uuid \<Rightarrow> uuid option \<Rightarrow> adjust_stock_in \<Rightarrow> db \<Rightarrow> error + stock_entry option \<times> db" where
  "adjust_stock ws user pl d0 =
     (let d = lock_for_stock_write ws (aj_part_id pl) d0 in
      case belonging_part d ws (aj_part_id pl) of None \<Rightarrow> Inl (StockError Part_not_found)
      | Some part \<Rightarrow>
        if foreign_storage d ws (aj_storage_location_id pl)
        then Inl (StockError Storage_location_not_found)
        else if foreign_lot d ws (aj_lot_id pl) then Inl (StockError Lot_not_found)
        else let current = current_quantity d ws (p_id part) (aj_storage_location_id pl)
                   (aj_lot_id pl) On_hand True;
                 delta = of_int (aj_actual_quantity pl) - current in
        if delta = 0 then Inr (None, d)
        else bindr (add_entry (blank_entry\<lparr>
          se_workspace_id := ws,
          se_part_id := Some (p_id part),
          se_lot_id := aj_lot_id pl,
          se_storage_location_id := aj_storage_location_id pl,
          se_quantity_delta := delta,
          se_unit := unit_for_part (Some part),
          se_status := On_hand,
          se_operation_type := Op_adjust,
          se_comments := aj_comments pl,
          se_occurred_at := clock d,
          se_created_by := user\<rparr>) d) (\<lambda>(e, d1). Inr (Some e, d1)))"

section \<open>What each operation does\<close>

text \<open>An operation that only appends one ledger row (and perhaps a lot and locks).\<close>

lemma lock_for_stock_write_frame [simp]:
  "ledger_ok (lock_for_stock_write ws p d) \<longleftrightarrow> ledger_ok d"
  "current_quantity (lock_for_stock_write ws p d) = current_quantity d"
  "stock_entries (lock_for_stock_write ws p d) = stock_entries d"
  "parts (lock_for_stock_write ws p d) = parts d" "storages (lock_for_stock_write ws p d) = storages d"
  "lots (lock_for_stock_write ws p d) = lots d" "clock (lock_for_stock_write ws p d) = clock d"
  "workspaces (lock_for_stock_write ws p d) = workspaces d"
  "builds (lock_for_stock_write ws p d) = builds d"
  "build_stages (lock_for_stock_write ws p d) = build_stages d"
  "next_uuid (lock_for_stock_write ws p d) = next_uuid d"
  by (simp_all add: lock_for_stock_write_def)

lemma lock_for_stock_write_appends: "appends d (lock_for_stock_write ws p d) []"
  by (simp add: lock_for_stock_write_def acquire_appends)

lemma belonging_cong:
  "parts d' = parts d \<Longrightarrow> belonging_part d' = belonging_part d"
  "storages d' = storages d \<Longrightarrow> belonging_storage d' = belonging_storage d"
  "lots d' = lots d \<Longrightarrow> belonging_lot d' = belonging_lot d"
  by (simp_all add: belonging_part_def belonging_storage_def belonging_lot_def fun_eq_iff)

lemma belonging_part_None:
  "belonging_part d ws p = None \<longleftrightarrow> (\<forall>x. parts d p = Some x \<longrightarrow> p_workspace_id x \<noteq> ws)"
  by (auto simp: belonging_part_def split: option.split)

lemma foreign_cong:
  "storages d' = storages d \<Longrightarrow> foreign_storage d' = foreign_storage d"
  "lots d' = lots d \<Longrightarrow> foreign_lot d' = foreign_lot d"
  by (auto simp: foreign_storage_def foreign_lot_def belonging_storage_def belonging_lot_def fun_eq_iff
      split: option.split)

lemma belonging_lock [simp]:
  "belonging_part (lock_for_stock_write ws p d) = belonging_part d"
  "belonging_storage (lock_for_stock_write ws p d) = belonging_storage d"
  "belonging_lot (lock_for_stock_write ws p d) = belonging_lot d"
  "foreign_storage (lock_for_stock_write ws p d) = foreign_storage d"
  "foreign_lot (lock_for_stock_write ws p d) = foreign_lot d"
  by (rule belonging_cong foreign_cong; simp)+

lemma add_stock_storage_effect:
  assumes "add_stock_storage ws pl d = Inr (s, d1)"
  shows "appends d d1 []" and "ledger_ok d1 \<longleftrightarrow> ledger_ok d"
    and "\<forall>x. s = Some x \<longrightarrow> as_storage_location_id pl \<noteq> None
           \<and> storages d (the (as_storage_location_id pl)) = Some x \<and> sl_workspace_id x = ws
           \<and> enforce_storage_constraints ws x (as_part_id pl) d = Inr d1"
    and "s = None \<Longrightarrow> as_storage_location_id pl = None"
  using assms
  by (auto simp: add_stock_storage_def bindr_Inr enforce_ledger_ok intro: enforce_appends
      split: option.splits if_splits)

lemma add_stock_lot_effect:
  assumes "ledger_ok d" and "add_stock_lot ws user part pl up cur d = Inr (l, d1)"
  shows "ledger_ok d1" and "appends d d1 []" and "stock_entries d1 = stock_entries d"
    and "storages d1 = storages d" and "parts d1 = parts d" and "clock d1 = clock d"
    and "l = None \<longleftrightarrow> as_lot pl = None \<and> up = None"
    and "\<And>x. l = Some x \<Longrightarrow> lot_id x = next_uuid d \<and> lot_in_ws d1 ws (lot_id x)"
  using assms
  by (auto simp: add_stock_lot_def Let_def bindr_Inr lot_in_ws_def
      intro: add_lot_ledger_ok add_lot_appends split: if_splits prod.splits)
     (auto simp: add_lot_Inr)

abbreviation added_row ::
    "uuid \<Rightarrow> uuid option \<Rightarrow> add_stock_in \<Rightarrow> part \<Rightarrow> storage_location option \<Rightarrow> lot option \<Rightarrow> nat \<Rightarrow> stock_entry"
  where "added_row ws user pl part s l now \<equiv> blank_entry\<lparr>
            se_workspace_id := ws,
            se_part_id := Some (p_id part),
            se_lot_id := map_option lot_id l,
            se_storage_location_id := map_option sl_id s,
            se_quantity_delta := of_int (as_quantity pl),
            se_unit := unit_for_part (Some part),
            se_status := On_hand,
            se_unit_price := fst (add_stock_price pl),
            se_currency := snd (add_stock_price pl),
            se_operation_type := Op_add,
            se_comments := as_comments pl,
            se_bag_signature := as_bag_signature pl,
            se_occurred_at := now,
            se_created_by := user\<rparr>"

lemma add_stock_Inr:
  "add_stock ws user pl d0 = Inr (e, d') \<longleftrightarrow>
     (\<exists>part s d1 l d2. parts d0 (as_part_id pl) = Some part \<and> p_workspace_id part = ws
       \<and> add_stock_storage ws pl (lock_for_stock_write ws (as_part_id pl) d0) = Inr (s, d1)
       \<and> (p_default_storage_mandatory part \<and> p_default_storage_location_id part \<noteq> None \<longrightarrow>
           map_option sl_id s = p_default_storage_location_id part)
       \<and> add_stock_serial_error d1 ws part pl = None
       \<and> add_stock_lot ws user part pl (fst (add_stock_price pl)) (snd (add_stock_price pl)) d1 = Inr (l, d2)
       \<and> add_entry (added_row ws user pl part s l (clock d2)) d2 = Inr (e, d'))"
  (is "?L = ?R")
proof (cases "belonging_part d0 ws (as_part_id pl)")
  case None
  then have "\<not> ?L" by (simp add: add_stock_def Let_def)
  moreover from None have "\<not> ?R" by (auto simp: belonging_part_None)
  ultimately show ?thesis by blast
next
  case (Some part)
  then have p: "parts d0 (as_part_id pl) = Some part" "p_workspace_id part = ws" by simp_all
  have L: "?L \<longleftrightarrow> (\<exists>s d1. add_stock_storage ws pl (lock_for_stock_write ws (as_part_id pl) d0) = Inr (s, d1)
       \<and> (p_default_storage_mandatory part \<and> p_default_storage_location_id part \<noteq> None \<longrightarrow>
           map_option sl_id s = p_default_storage_location_id part)
       \<and> add_stock_serial_error d1 ws part pl = None
       \<and> (\<exists>l d2. add_stock_lot ws user part pl (fst (add_stock_price pl)) (snd (add_stock_price pl)) d1 = Inr (l, d2)
         \<and> add_entry (added_row ws user pl part s l (clock d2)) d2 = Inr (e, d')))"
    unfolding add_stock_def Let_def belonging_lock Some option.case
    by (cases "add_stock_storage ws pl (lock_for_stock_write ws (as_part_id pl) d0)")
       (auto simp: case_prod_unfold bindr_Inr split: option.split)
  show ?thesis unfolding L by (simp add: p)
qed

lemma add_stock_effect:
  assumes ok: "ledger_ok d" and add: "add_stock ws user pl d = Inr (e, d')"
  shows "ledger_ok d'" and "appends d d' [stored_entry e]"
proof -
  let ?d = "lock_for_stock_write ws (as_part_id pl) d"
  from add obtain part s d1 l d2 where
    st: "add_stock_storage ws pl ?d = Inr (s, d1)"
    and lt: "add_stock_lot ws user part pl (fst (add_stock_price pl)) (snd (add_stock_price pl)) d1 = Inr (l, d2)"
    and en: "add_entry (added_row ws user pl part s l (clock d2)) d2 = Inr (e, d')"
    unfolding add_stock_Inr by blast
  have ok1: "ledger_ok d1" using add_stock_storage_effect(2) [OF st] ok by simp
  note lot = add_stock_lot_effect [OF ok1 lt]
  show "ledger_ok d'" by (rule add_entry_ledger_ok [OF lot(1) en])
  have "appends d ?d []" by (rule lock_for_stock_write_appends)
  from appends_trans [OF this add_stock_storage_effect(1) [OF st]]
  have "appends d d1 []" by simp
  from appends_trans [OF appends_trans [OF this lot(2)] add_entry_appends [OF en]]
  show "appends d d' [stored_entry e]" by simp
qed

lemma remove_stock_Inr:
  "remove_stock ws user pl d0 = Inr (e, d') \<longleftrightarrow>
     (\<exists>part. parts d0 (rs_part_id pl) = Some part \<and> p_workspace_id part = ws
       \<and> \<not> foreign_storage d0 ws (rs_storage_location_id pl) \<and> \<not> foreign_lot d0 ws (rs_lot_id pl)
       \<and> of_int (rs_quantity pl) \<le> current_quantity d0 ws (p_id part) (rs_storage_location_id pl)
                   (rs_lot_id pl) On_hand True
       \<and> add_entry (blank_entry\<lparr>
          se_workspace_id := ws,
          se_part_id := Some (p_id part),
          se_lot_id := rs_lot_id pl,
          se_storage_location_id := rs_storage_location_id pl,
          se_quantity_delta := - of_int (rs_quantity pl),
          se_unit := unit_for_part (Some part),
          se_status := On_hand,
          se_operation_type := Op_remove,
          se_comments := rs_comments pl,
          se_occurred_at := clock d0,
          se_created_by := user\<rparr>) (lock_for_stock_write ws (rs_part_id pl) d0) = Inr (e, d'))"
  by (auto simp: remove_stock_def Let_def not_less belonging_part_None split: option.splits if_split_asm)

lemma remove_stock_effect:
  assumes ok: "ledger_ok d" and rem: "remove_stock ws user pl d = Inr (e, d')"
  shows "ledger_ok d'" and "appends d d' [stored_entry e]"
proof -
  let ?d = "lock_for_stock_write ws (rs_part_id pl) d"
  from rem obtain e0 where en: "add_entry e0 ?d = Inr (e, d')" unfolding remove_stock_Inr by blast
  show "ledger_ok d'" by (rule add_entry_ledger_ok [OF _ en]) (simp add: ok)
  from appends_trans [OF lock_for_stock_write_appends add_entry_appends [OF en]]
  show "appends d d' [stored_entry e]" by simp
qed

section \<open>When an operation succeeds\<close>

text \<open>
  A row of a part of the workspace, in that part's unit, with references of the
  workspace and an amount the column can hold: what the services always write.
\<close>

definition build_in_ws :: "db \<Rightarrow> uuid \<Rightarrow> uuid \<Rightarrow> bool" where
  "build_in_ws d ws b = (case builds d b of None \<Rightarrow> False | Some x \<Rightarrow> b_workspace_id x = ws)"

definition writable_row :: "db \<Rightarrow> stock_entry \<Rightarrow> bool" where
  "writable_row d e \<longleftrightarrow> entry_fits e
     \<and> (\<exists>p x. se_part_id e = Some p \<and> parts d p = Some x \<and> p_workspace_id x = se_workspace_id e
            \<and> se_unit e = p_unit_of_measure x)
     \<and> \<not> foreign_storage d (se_workspace_id e) (se_storage_location_id e)
     \<and> \<not> foreign_lot d (se_workspace_id e) (se_lot_id e)
     \<and> se_order_id e = None \<and> se_order_entry_id e = None \<and> se_project_id e = None
     \<and> opt_ok (build_in_ws d (se_workspace_id e)) (se_build_id e)
     \<and> check_stock_entries_build_stage_workspace d e
     \<and> opt_ok (\<lambda>r. \<exists>x \<in> set (stock_entries d). se_id x = r \<and> se_workspace_id x = se_workspace_id e)
        (se_related_entry_id e)"

lemma writable_row_checks:
  assumes "writable_row d e"
  shows "entry_fits e" "check_stock_entries_build_stage_workspace d e"
    "check_stock_entry_unit_matches_part d e" "check_stock_entries_workspace_fks d e"
    "\<exists>p. se_part_id e = Some p"
  using assms
  by (auto simp: writable_row_def build_in_ws_def [abs_def] check_stock_entry_unit_matches_part_def part_in_ws_def
      check_stock_entries_workspace_fks_def foreign_storage_iff foreign_lot_iff split: option.splits)

lemma insert_writable:
  assumes "writable_row d e" and "se_part_id e = Some p"
    and "0 \<le> current_quantity d (se_workspace_id e) p (se_storage_location_id e) (se_lot_id e)
              (se_status e) True + round_6 (se_quantity_delta e)"
  shows "insert_entry e d = Inr (d\<lparr>stock_entries := stock_entries d @ [stored_entry e]\<rparr>)"
  using assms writable_row_checks [OF assms(1)] by (intro insert_entry_succeeds)

lemma writable_row_cong:
  assumes "parts d' = parts d" "storages d' = storages d" "lots d' = lots d" "builds d' = builds d"
    "build_stages d' = build_stages d" "stock_entries d' = stock_entries d"
  shows "writable_row d' e \<longleftrightarrow> writable_row d e"
  unfolding writable_row_def build_in_ws_def [abs_def] check_stock_entries_build_stage_workspace_def assms
    foreign_cong(1) [OF assms(2)] foreign_cong(2) [OF assms(3)] ..

lemma add_writable:
  assumes "writable_row d (e\<lparr>se_id := next_uuid d\<rparr>)" and "se_part_id e = Some p"
    and "0 \<le> current_quantity d (se_workspace_id e) p (se_storage_location_id e) (se_lot_id e)
              (se_status e) True + round_6 (se_quantity_delta e)"
  shows "\<exists>d'. add_entry e d = Inr (e\<lparr>se_id := next_uuid d\<rparr>, d')"
proof -
  let ?d = "d\<lparr>next_uuid := Suc (next_uuid d)\<rparr>"
  let ?e = "e\<lparr>se_id := next_uuid d\<rparr>"
  have "insert_entry ?e ?d = Inr (?d\<lparr>stock_entries := stock_entries ?d @ [stored_entry ?e]\<rparr>)"
  proof (rule insert_writable)
    show "writable_row ?d ?e" using assms(1) writable_row_cong [of ?d d] by simp
    show "se_part_id ?e = Some p" using assms(2) by simp
    show "0 \<le> current_quantity ?d (se_workspace_id ?e) p (se_storage_location_id ?e) (se_lot_id ?e)
              (se_status ?e) True + round_6 (se_quantity_delta ?e)"
      using assms(3) current_quantity_cong [of ?d d] by simp
  qed
  then show ?thesis by (auto simp: add_entry_Inr)
qed

text \<open>An integer fits a \<open>Numeric(18, 6)\<close> column exactly below ten to the twelve.\<close>

lemma fits_of_int: "fits_18_6 (of_int n) \<longleftrightarrow> \<bar>n\<bar> < 10 ^ 12"
  unfolding fits_18_6_def round_6_of_int by (metis of_int_abs of_int_less_iff of_int_numeral of_int_power)

definition row_like :: "uuid \<Rightarrow> part \<Rightarrow> uuid option \<Rightarrow> uuid option \<Rightarrow> rat \<Rightarrow> stock_status \<Rightarrow> stock_entry \<Rightarrow> bool" where
  "row_like ws part sto lot q st e \<longleftrightarrow> se_workspace_id e = ws \<and> se_part_id e = Some (p_id part)
     \<and> se_storage_location_id e = sto \<and> se_lot_id e = lot \<and> se_quantity_delta e = q \<and> se_status e = st
     \<and> se_unit e = unit_for_part (Some part)"

lemma check_unit_iff:
  "check_stock_entry_unit_matches_part d e \<longleftrightarrow>
     (\<forall>p x. se_part_id e = Some p \<longrightarrow> parts d p = Some x \<longrightarrow> p_workspace_id x = se_workspace_id e
        \<longrightarrow> se_unit e = p_unit_of_measure x)"
  by (auto simp: check_stock_entry_unit_matches_part_def split: option.split)

lemma set_related_entry_ledger_ok:
  "ledger_ok d \<Longrightarrow> set_related_entry ws i r d = Inr d' \<Longrightarrow> ledger_ok d'"
proof -
  assume ok: "ledger_ok d" and s: "set_related_entry ws i r d = Inr d'"
  let ?f = "\<lambda>e. if se_id e = i then e\<lparr>se_related_entry_id := Some r\<rparr> else e"
  from s have d': "d' = d\<lparr>stock_entries := map ?f (stock_entries d)\<rparr>"
    by (auto simp: set_related_entry_def split: if_split_asm)
  have "row_ok d' = row_ok d" by (rule row_ok_cong) (simp_all add: d')
  then have f: "row_ok d' (?f e) \<longleftrightarrow> row_ok d e" "se_id (?f e) = se_id e" for e
    by (simp_all add: row_ok_def check_unit_iff)
  have c: "counts_for (?f e) ws p sto lot st bm = counts_for e ws p sto lot st bm"
    "se_quantity_delta (?f e) = se_quantity_delta e" for e ws p sto lot st bm
    by (simp_all add: counts_for_def)
  have sum: "sum_where se_quantity_delta (\<lambda>e. counts_for e ws p sto lot st bm) (map ?f xs)
      = sum_where se_quantity_delta (\<lambda>e. counts_for e ws p sto lot st bm) xs" for ws p sto lot st bm xs
    by (induction xs) (simp_all only: list.map sum_where_simps c)
  have q: "current_quantity d' ws p sto lot st bm = current_quantity d ws p sto lot st bm"
    for ws p sto lot st bm
    using sum by (simp add: current_quantity_alt d')
  have ids: "map se_id (stock_entries d') = map se_id (stock_entries d)" by (simp add: d' f(2))
  have lt: "(\<forall>e \<in> set (stock_entries d'). se_id e < next_uuid d') \<longleftrightarrow> (\<forall>e \<in> set (stock_entries d). se_id e < next_uuid d)"
  proof -
    have all: "(\<forall>e \<in> set (stock_entries x). se_id e < n)
        \<longleftrightarrow> (\<forall>j \<in> set (map se_id (stock_entries x)). j < n)" for x n by simp
    have "next_uuid d' = next_uuid d" by (simp add: d')
    then show ?thesis unfolding all ids by simp
  qed
  have "stock_entries d' = map ?f (stock_entries d)" by (simp add: d')
  then have rows: "\<forall>e \<in> set (stock_entries d'). row_ok d' e"
    using ok f(1) by (auto simp only: ledger_ok_def set_map ball_simps)
  have lots: "lots d' = lots d" "next_uuid d' = next_uuid d" by (simp_all add: d')
  show ?thesis
    unfolding ledger_ok_def nonneg_balances_def q fresh_ids_def ids
    using rows lt ok by (auto simp: ledger_ok_def nonneg_balances_def fresh_ids_def lots)
qed

lemma write_move_pair_effect:
  assumes ok: "ledger_ok d"
    and w: "write_move_pair ws user part q src_sto src_lot dest_sto dest_lot comments b s d = Inr ((out, inn), d')"
  shows "ledger_ok d'" and "appends d d' [stored_entry out, stored_entry inn]"
    and "row_like ws part src_sto src_lot (- q) On_hand out"
    and "row_like ws part (Some dest_sto) dest_lot q On_hand inn"
    and "se_related_entry_id out = Some (se_id inn)" "se_related_entry_id inn = Some (se_id out)"
    and "se_operation_type out = Op_move_out" "se_operation_type inn = Op_move_in"
    and "se_build_id out = b" "se_build_id inn = b"
proof -
  let ?i = "next_uuid d"
  let ?d2 = "d\<lparr>next_uuid := Suc (Suc ?i)\<rparr>"
  let ?o0 = "out\<lparr>se_related_entry_id := None\<rparr>"
  from w obtain d3 d4 where
    i1: "insert_entry ?o0 ?d2 = Inr d3" and i2: "insert_entry inn d3 = Inr d4"
    and i3: "set_related_entry ws ?i (Suc ?i) d4 = Inr d'"
    and out: "out\<lparr>se_related_entry_id := None\<rparr> = blank_entry\<lparr>se_workspace_id := ws,
            se_part_id := Some (p_id part), se_unit := unit_for_part (Some part), se_status := On_hand,
            se_build_id := b, se_build_stage_id := s, se_comments := comments, se_occurred_at := clock d,
            se_created_by := user, se_id := ?i, se_lot_id := src_lot, se_storage_location_id := src_sto,
            se_quantity_delta := - q, se_operation_type := Op_move_out, se_related_entry_id := None\<rparr>"
    and out': "se_related_entry_id out = Some (Suc ?i)" "se_id out = ?i"
    and inn: "inn = blank_entry\<lparr>se_workspace_id := ws,
            se_part_id := Some (p_id part), se_unit := unit_for_part (Some part), se_status := On_hand,
            se_build_id := b, se_build_stage_id := s, se_comments := comments, se_occurred_at := clock d,
            se_created_by := user, se_id := Suc ?i, se_lot_id := dest_lot, se_storage_location_id := Some dest_sto,
            se_quantity_delta := q, se_operation_type := Op_move_in, se_related_entry_id := Some ?i\<rparr>"
    by (auto simp: write_move_pair_def new_uuid_def bindr_Inr blank_entry_def Let_def)
  have ids: "\<And>e. e \<in> set (stock_entries d) \<Longrightarrow> se_id e < ?i"
    using ok by (simp add: ledger_ok_def fresh_ids_def)
  have ok2: "ledger_ok ?d2"
    using ledger_ok_new_uuid [OF ledger_ok_new_uuid [OF ok]] by simp
  have ok3: "ledger_ok d3"
    by (rule insert_entry_ledger_ok [OF ok2 i1]) (use ids out' in force)+
  have d3: "d3 = ?d2\<lparr>stock_entries := stock_entries d @ [stored_entry ?o0]\<rparr>"
    using i1 by (simp add: insert_entry_Inr)
  have ok4: "ledger_ok d4"
    by (rule insert_entry_ledger_ok [OF ok3 i2])
       (use ids out' in \<open>force simp: d3 inn blank_entry_def\<close>)+
  show "ledger_ok d'" by (rule set_related_entry_ledger_ok [OF ok4 i3])
  have d4: "d4 = d3\<lparr>stock_entries := stock_entries d3 @ [stored_entry inn]\<rparr>"
    using i2 by (simp add: insert_entry_Inr)
  let ?f = "\<lambda>e. if se_id e = ?i then e\<lparr>se_related_entry_id := Some (Suc ?i)\<rparr> else e"
  have "map ?f (stock_entries d) = stock_entries d"
    by (rule map_idI) (use ids in force)
  moreover have "stored_entry ?o0\<lparr>se_related_entry_id := Some (Suc ?i)\<rparr> = stored_entry out"
    using out' by (cases out) (simp add: stored_entry_def)
  ultimately have "d' = ?d2\<lparr>stock_entries := stock_entries d @ [stored_entry out, stored_entry inn]\<rparr>"
    using i3 out' by (auto simp: set_related_entry_def d4 d3 inn blank_entry_def split: if_split_asm)
  then show "appends d d' [stored_entry out, stored_entry inn]"
    by (simp add: appends_def same_catalog_def)
  have o: "out = ?o0\<lparr>se_related_entry_id := Some (Suc ?i)\<rparr>" using out' by simp
  show "row_like ws part src_sto src_lot (- q) On_hand out" "se_operation_type out = Op_move_out"
    "se_build_id out = b"
    by (subst o; simp add: out row_like_def)+
  show "row_like ws part (Some dest_sto) dest_lot q On_hand inn" "se_operation_type inn = Op_move_in"
    "se_build_id inn = b"
    by (simp_all add: inn row_like_def)
  show "se_related_entry_id out = Some (se_id inn)" "se_related_entry_id inn = Some (se_id out)"
    by (simp_all add: out' inn)
qed

lemma prepare_move_Inr:
  "prepare_move ws p q src_sto src_lot dest_id d0 = Inr ((part, dest), d1) \<longleftrightarrow>
     parts d0 p = Some part \<and> p_workspace_id part = ws
     \<and> storages d0 dest_id = Some dest \<and> sl_workspace_id dest = ws
     \<and> sl_archived_at dest = None \<and> \<not> sl_is_full dest
     \<and> \<not> foreign_storage d0 ws src_sto \<and> \<not> foreign_lot d0 ws src_lot
     \<and> q \<le> current_quantity d0 ws p src_sto src_lot On_hand True
     \<and> enforce_storage_constraints ws dest p (lock_for_stock_write ws p d0) = Inr d1"
  (is "?L \<longleftrightarrow> ?R")
proof (cases "belonging_part d0 ws p")
  case None
  then have "\<not> ?L" by (simp add: prepare_move_def Let_def)
  moreover from None have "\<not> ?R" by (auto simp: belonging_part_None)
  ultimately show ?thesis by blast
next
  case (Some x)
  note p = this
  then have px: "parts d0 p = Some x" "p_workspace_id x = ws" by simp_all
  show ?thesis
  proof (cases "belonging_storage d0 ws dest_id")
    case None
    have "\<not> ?L" unfolding prepare_move_def Let_def belonging_lock p None option.case by simp
    moreover from None have "\<not> ?R" by (auto simp: belonging_storage_def)
    ultimately show ?thesis by blast
  next
    case (Some y)
    then have "storages d0 dest_id = Some y" "sl_workspace_id y = ws" by simp_all
    then show ?thesis
      unfolding prepare_move_def Let_def belonging_lock p Some option.case
      using px by (auto simp: bindr_Inr not_less)
  qed
qed

lemma round_6_minus [simp]: "round_6 (- x) = - round_6 x"
proof (cases x "0 :: rat" rule: linorder_cases)
  case equal
  have "\<lfloor>1 / 2 :: rat\<rfloor> = 0" by linarith
  with equal show ?thesis by (simp add: round_6_def)
qed (simp_all add: round_6_def)

text \<open>What a location accepts: the two constraints, read off the stored flags.\<close>

definition location_accepts :: "db \<Rightarrow> uuid \<Rightarrow> storage_location \<Rightarrow> uuid \<Rightarrow> bool" where
  "location_accepts d ws s p \<longleftrightarrow>
     (sl_single_part_only s \<longrightarrow> parts_at d ws (sl_id s) \<subseteq> {Some p})
     \<and> (sl_existing_parts_only s \<longrightarrow> has_prior_positive_entry d ws (sl_id s) p)"

lemma enforce_accepts:
  assumes "storages d (sl_id s) = Some s"
  shows "(\<exists>d'. enforce_storage_constraints ws s p d = Inr d') \<longleftrightarrow> location_accepts d ws s p"
proof -
  have "refresh_storage (lock_for_storage_constraint ws (sl_id s) d) s = s"
    "has_prior_positive_entry (lock_for_storage_constraint ws (sl_id s) d) = has_prior_positive_entry d"
    "stock_for_storage (lock_for_storage_constraint ws (sl_id s) d) = stock_for_storage d"
    using assms by (simp_all add: refresh_storage_def lock_for_storage_constraint_def
        has_prior_positive_entry_def fun_eq_iff)
  moreover have "filter (\<lambda>((x, _), _). x \<noteq> Some p) (stock_for_storage d ws (sl_id s) On_hand) = []
      \<longleftrightarrow> parts_at d ws (sl_id s) \<subseteq> {Some p}"
    by (auto simp: filter_empty_conv parts_at_def)
  ultimately show ?thesis
    by (simp add: enforce_storage_constraints_def Let_def location_accepts_def)
qed

lemma location_accepts_lock [simp]:
  "location_accepts (lock_for_stock_write w q d) = location_accepts d"
  by (simp add: location_accepts_def has_prior_positive_entry_def parts_at_def fun_eq_iff
      stock_for_storage_cong [of "lock_for_stock_write w q d" d])

text \<open>The effect of a pair of rows on the balances.\<close>

lemma pair_balance:
  assumes "appends d d' [stored_entry out, stored_entry inn]"
    and "row_like ws part src_sto src_lot (- q) On_hand out"
    and "row_like ws part dst_sto dst_lot q On_hand inn"
  shows "bucket_balance d' b = bucket_balance d b
      - (if b = (ws, p_id part, src_sto, src_lot, On_hand) then round_6 q else 0)
      + (if b = (ws, p_id part, dst_sto, dst_lot, On_hand) then round_6 q else 0)"
  using assms(2,3)
  by (cases b) (auto simp: appends_current_quantity [OF assms(1)] counts_for_bucket bucket_of_def row_like_def)

lemma move_quantity_effect:
  assumes ok: "ledger_ok d" "catalog_ok d"
    and m: "move_quantity ws user p q src_sto src_lot dest_id comments b s d = Inr ((out, inn), d')"
  obtains part dest where
    "parts d p = Some part" "p_workspace_id part = ws" "p_id part = p"
    "storages d dest_id = Some dest" "sl_archived_at dest = None" "\<not> sl_is_full dest"
    "q \<le> current_quantity d ws p src_sto src_lot On_hand True"
    "ledger_ok d'" "appends d d' [stored_entry out, stored_entry inn]"
    "row_like ws part src_sto src_lot (- q) On_hand out"
    "row_like ws part (Some dest_id) src_lot q On_hand inn"
    "se_related_entry_id out = Some (se_id inn)" "se_related_entry_id inn = Some (se_id out)"
    "location_accepts d ws dest p"
proof -
  from m obtain part dest d1 where pm: "prepare_move ws p q src_sto src_lot dest_id d = Inr ((part, dest), d1)"
    and w: "write_move_pair ws user part q src_sto src_lot dest_id src_lot comments b s d1 = Inr ((out, inn), d')"
    by (auto simp: move_quantity_def bindr_Inr)
  from pm have e: "enforce_storage_constraints ws dest p (lock_for_stock_write ws p d) = Inr d1"
    by (simp add: prepare_move_Inr)
  have ok1: "ledger_ok d1" using enforce_ledger_ok [OF e] ok by simp
  have a1: "appends d d1 []"
    using appends_trans [OF lock_for_stock_write_appends enforce_appends [OF e]] by simp
  note w' = write_move_pair_effect [OF ok1 w]
  have "appends d d' [stored_entry out, stored_entry inn]" using appends_trans [OF a1 w'(2)] by simp
  moreover from pm ok have dest: "storages d dest_id = Some dest" "sl_id dest = dest_id"
    by (auto simp: prepare_move_Inr catalog_ok_def)
  with e enforce_accepts [of "lock_for_stock_write ws p d" dest ws p]
  have "location_accepts d ws dest p" by auto
  ultimately show thesis
    using pm w' catalog_ok_part [OF ok(2)] by (intro that) (auto simp: prepare_move_Inr)
qed

lemma ledger_frame [simp]:
  "belonging_part (d\<lparr>stock_entries := x0\<rparr>) = belonging_part d" "belonging_part (d\<lparr>next_uuid := x1\<rparr>) = belonging_part d" "belonging_part (d\<lparr>held_locks := x2\<rparr>) = belonging_part d"
  "belonging_storage (d\<lparr>stock_entries := x0\<rparr>) = belonging_storage d" "belonging_storage (d\<lparr>next_uuid := x1\<rparr>) = belonging_storage d" "belonging_storage (d\<lparr>held_locks := x2\<rparr>) = belonging_storage d"
  "belonging_lot (d\<lparr>stock_entries := x0\<rparr>) = belonging_lot d" "belonging_lot (d\<lparr>next_uuid := x1\<rparr>) = belonging_lot d" "belonging_lot (d\<lparr>held_locks := x2\<rparr>) = belonging_lot d"
  "foreign_storage (d\<lparr>stock_entries := x0\<rparr>) = foreign_storage d" "foreign_storage (d\<lparr>next_uuid := x1\<rparr>) = foreign_storage d" "foreign_storage (d\<lparr>held_locks := x2\<rparr>) = foreign_storage d"
  "foreign_lot (d\<lparr>stock_entries := x0\<rparr>) = foreign_lot d" "foreign_lot (d\<lparr>next_uuid := x1\<rparr>) = foreign_lot d" "foreign_lot (d\<lparr>held_locks := x2\<rparr>) = foreign_lot d"
  "build_in_ws (d\<lparr>stock_entries := x0\<rparr>) = build_in_ws d" "build_in_ws (d\<lparr>next_uuid := x1\<rparr>) = build_in_ws d" "build_in_ws (d\<lparr>held_locks := x2\<rparr>) = build_in_ws d"
  "part_in_ws (d\<lparr>stock_entries := x0\<rparr>) = part_in_ws d" "part_in_ws (d\<lparr>next_uuid := x1\<rparr>) = part_in_ws d" "part_in_ws (d\<lparr>held_locks := x2\<rparr>) = part_in_ws d"
  "storage_in_ws (d\<lparr>stock_entries := x0\<rparr>) = storage_in_ws d" "storage_in_ws (d\<lparr>next_uuid := x1\<rparr>) = storage_in_ws d" "storage_in_ws (d\<lparr>held_locks := x2\<rparr>) = storage_in_ws d"
  "lot_in_ws (d\<lparr>stock_entries := x0\<rparr>) = lot_in_ws d" "lot_in_ws (d\<lparr>next_uuid := x1\<rparr>) = lot_in_ws d" "lot_in_ws (d\<lparr>held_locks := x2\<rparr>) = lot_in_ws d"
  by (auto simp: belonging_part_def belonging_storage_def belonging_lot_def foreign_storage_def
      foreign_lot_def build_in_ws_def part_in_ws_def storage_in_ws_def lot_in_ws_def fun_eq_iff
      split: option.split)

end
