(* ===== verification/Demo.thy ===== *)
theory Demo
  imports StockOps
begin

text \<open>
  A small database the witnesses evaluate on: one workspace with serial tracking, five
  parts, five locations, a lot, a bill of materials, a build with two stages, an order
  and three ledger rows. \<open>demo_ledger_ok\<close> and \<open>demo_catalog_ok\<close> say that it satisfies the
  invariants the theorems assume.
\<close>

section \<open>Deciding the ledger invariant\<close>

text \<open>A bucket no row mentions is zero, so only the rows' own buckets are checked.\<close>

definition row_balance_ok :: "db \<Rightarrow> stock_entry \<Rightarrow> bool" where
  "row_balance_ok d e = (case se_part_id e of None \<Rightarrow> True
     | Some p \<Rightarrow> 0 \<le> current_quantity d (se_workspace_id e) p (se_storage_location_id e)
                    (se_lot_id e) (se_status e) True)"

lemma nonneg_balancesI:
  assumes "list_all (row_balance_ok d) (stock_entries d)"
  shows "nonneg_balances d"
  unfolding nonneg_balances_def
proof (intro allI)
  fix ws p sto lot st
  show "0 \<le> current_quantity d ws p sto lot st True"
  proof (cases "\<exists>e \<in> set (stock_entries d). counts_for e ws p sto lot st True")
    case True
    with assms show ?thesis by (force simp: list_all_iff row_balance_ok_def counts_for_def)
  next
    case False
    then have "current_quantity d ws p sto lot st True = 0"
      unfolding current_quantity_alt by (intro sum_where_none) blast
    then show ?thesis by simp
  qed
qed

lemma ledger_okI:
  assumes "list_all (row_balance_ok d) (stock_entries d)" and "list_all (row_ok d) (stock_entries d)"
    and "distinct (map se_id (stock_entries d))"
    and "list_all (\<lambda>e. se_id e < next_uuid d) (stock_entries d)"
    and "\<And>l. next_uuid d \<le> l \<Longrightarrow> lots d l = None"
  shows "ledger_ok d"
  using assms nonneg_balancesI by (auto simp: ledger_ok_def fresh_ids_def list_all_iff)

section \<open>The rows\<close>

definition demo_part :: "uuid \<Rightarrow> part_type \<Rightarrow> string \<Rightarrow> part" where
  "demo_part i t name = \<lparr>p_id = i, p_workspace_id = 1, p_part_type = t, p_name = name,
     p_attrition_percentage = 0, p_attrition_min_quantity = 0, p_unit_of_measure = ''pcs'',
     p_default_storage_location_id = None, p_default_storage_mandatory = False, p_serialized = False,
     p_archived_at = None\<rparr>"

definition demo_storage :: "uuid \<Rightarrow> storage_location" where
  "demo_storage i = \<lparr>sl_id = i, sl_workspace_id = 1, sl_archived_at = None, sl_name = ''shelf'',
     sl_single_part_only = False, sl_existing_parts_only = False, sl_is_full = False\<rparr>"

definition demo_row :: "uuid \<Rightarrow> uuid \<Rightarrow> uuid option \<Rightarrow> uuid option \<Rightarrow> rat \<Rightarrow> stock_entry" where
  "demo_row i p sto lot q = blank_entry\<lparr>se_id := i, se_workspace_id := 1, se_part_id := Some p,
     se_storage_location_id := sto, se_lot_id := lot, se_quantity_delta := q\<rparr>"

definition demo_entry :: "uuid \<Rightarrow> entry_type \<Rightarrow> uuid option \<Rightarrow> rat \<Rightarrow> int \<Rightarrow> project_entry" where
  "demo_entry i t p q n = \<lparr>pe_id = i, pe_workspace_id = 1, pe_project_id = 40, pe_entry_type = t,
     pe_part_id = p, pe_quantity = q, pe_attrition_pct = 0, pe_dnp = False, pe_order_index = n\<rparr>"

definition demo_stage :: "uuid \<Rightarrow> int \<Rightarrow> build_stage" where
  "demo_stage i n = \<lparr>bs_id = i, bs_workspace_id = 1, bs_build_id = 60, bs_name = ''stage'',
     bs_sequence = n, bs_status = St_planned, bs_started_at = None, bs_completed_at = None,
     bs_archived_at = None, bs_created_at = 0\<rparr>"

definition demo_stage_line :: "uuid \<Rightarrow> uuid \<Rightarrow> uuid \<Rightarrow> rat \<Rightarrow> build_stage_line" where
  "demo_stage_line i s e pct = \<lparr>bsl_id = i, bsl_workspace_id = 1, bsl_build_stage_id = s,
     bsl_project_entry_id = e, bsl_portion_pct = pct, bsl_archived_at = None\<rparr>"

definition demo_order_entry :: "uuid \<Rightarrow> uuid \<Rightarrow> rat \<Rightarrow> order_entry" where
  "demo_order_entry i p q = \<lparr>oe_id = i, oe_workspace_id = 1, oe_order_id = 70, oe_part_id = Some p,
     oe_quantity_ordered = q, oe_quantity_received = 0, oe_unit_price = None, oe_currency = None,
     oe_order_index = 0, oe_updated_by = None\<rparr>"

text \<open>
  Parts 10 (resistor), 11 (its substitute), 12 (meta part whose member is 11), 13
  (sub-assembly), 14 (serialized); locations 20, 21 (free), 22 (single part only), 23
  (archived), 24 (full); lot 30 of part 10.
\<close>

definition demo :: db where
  "demo = empty_db\<lparr>
     workspaces := [1 \<mapsto> \<lparr>ws_id = 1, ws_serial_tracking_enabled = True, ws_active_currencies = None\<rparr>],
     parts := [10 \<mapsto> demo_part 10 Local ''resistor'', 11 \<mapsto> demo_part 11 Local ''substitute'',
               12 \<mapsto> demo_part 12 Meta ''meta'', 13 \<mapsto> demo_part 13 Sub_assembly ''board'',
               14 \<mapsto> (demo_part 14 Local ''radio'')\<lparr>p_serialized := True\<rparr>],
     storages := [20 \<mapsto> demo_storage 20, 21 \<mapsto> demo_storage 21,
                  22 \<mapsto> (demo_storage 22)\<lparr>sl_single_part_only := True\<rparr>,
                  23 \<mapsto> (demo_storage 23)\<lparr>sl_archived_at := Some 1\<rparr>,
                  24 \<mapsto> (demo_storage 24)\<lparr>sl_is_full := True\<rparr>],
     lots := [30 \<mapsto> blank_lot\<lparr>lot_id := 30, lot_workspace_id := 1, lot_part_id := Some 10,
                           lot_name := Some ''reel''\<rparr>],
     stock_entries := [demo_row 100 10 (Some 20) (Some 30) 100, demo_row 101 10 (Some 21) None 50,
                       demo_row 102 11 (Some 20) None 40],
     projects := [40 \<mapsto> \<lparr>pr_id = 40, pr_workspace_id = 1, pr_associated_subassembly_part_id = Some 13\<rparr>],
     project_entries := [demo_entry 50 Et_part (Some 10) 2 0, demo_entry 51 Et_part (Some 11) 1 1],
     builds := [60 \<mapsto> \<lparr>b_id = 60, b_workspace_id = 1, b_name = ''run'', b_project_id = 40, b_quantity = 5,
                  b_status = Planned, b_started_at = None, b_completed_at = None, b_output_lot_id = None,
                  b_archived_at = None, b_updated_by = None\<rparr>],
     build_stages := [demo_stage 65 1, demo_stage 66 2],
     build_stage_lines := [demo_stage_line 80 65 50 60, demo_stage_line 81 66 50 40],
     orders := [70 \<mapsto> \<lparr>o_id = 70, o_workspace_id = 1, o_name = ''PO'', o_status = Open, o_received_on = None,
                  o_currency = Some ''EUR'', o_archived_at = None, o_updated_by = None\<rparr>],
     order_entries := [demo_order_entry 71 10 30, demo_order_entry 72 11 5],
     part_substitutes := [\<lparr>ps_workspace_id = 1, ps_part_id = 10, ps_substitute_part_id = 11,
                           ps_direction = One_way\<rparr>],
     part_meta_members := [\<lparr>pm_workspace_id = 1, pm_meta_part_id = 12, pm_part_id = 11\<rparr>],
     clock := 7\<rparr>"

lemma demo_ledger_ok: "ledger_ok demo"
proof (rule ledger_okI)
  show "list_all (row_balance_ok demo) (stock_entries demo)" by code_simp
  show "list_all (row_ok demo) (stock_entries demo)" by code_simp
  show "distinct (map se_id (stock_entries demo))" by code_simp
  show "list_all (\<lambda>e. se_id e < next_uuid demo) (stock_entries demo)" by code_simp
  show "\<And>l. next_uuid demo \<le> l \<Longrightarrow> lots demo l = None" by (simp add: demo_def empty_db_def)
qed

lemma demo_catalog_ok: "catalog_ok demo"
  by (simp add: catalog_ok_def demo_def empty_db_def demo_part_def demo_storage_def)

end
