(* ===== verification/Rollups.thy ===== *)
theory Rollups
  imports Ledger
begin

text \<open>
  The roll-ups of \<open>backend/app/domain/stock/service.py\<close> agree with each other: the
  per-bucket breakdown, the many-parts queries and the pick-list breakdown all add up
  to the one balance \<open>current_quantity\<close>, and a history is the most recent rows.
\<close>

section \<open>The roll-ups agree\<close>

lemma sum_list_filter_nonzero:
  "sum_list (map snd (filter (\<lambda>(_, q). q \<noteq> 0) xs)) = sum_list (map snd xs)"
  by (induction xs) auto

lemma sum_list_tabulate_remdups:
  "sum_list (map h (remdups ks)) = (\<Sum>k \<in> set ks. h k)"
  by (simp add: sum_list_distinct_conv_sum_set)

lemma sum_group_sum:
  "sum_list (map snd (group_sum key v P rows)) = sum_where v P rows"
proof -
  have "sum_list (map snd (group_sum key v P rows)) =
      sum_list (map (\<lambda>k. sum_where v (\<lambda>r. P r \<and> key r = k) rows) (remdups (map key (filter P rows))))"
    by (simp add: group_sum_def comp_def)
  also have "\<dots> = (\<Sum>k \<in> set (map key (filter P rows)). sum_where v (\<lambda>r. P r \<and> key r = k) rows)"
    by (rule sum_list_tabulate_remdups)
  also have "\<dots> = sum_where v P rows"
    by (rule sum_where_split [symmetric]) auto
  finally show ?thesis .
qed

lemma map_of_the_keys:
  assumes "\<And>k q. (k, q) \<in> set xs \<Longrightarrow> k \<noteq> None"
  shows "map_of (map (\<lambda>(k, q). (the k, q)) xs) k = map_of xs (Some k)"
  using assms
proof (induction xs)
  case (Cons x xs)
  obtain a q where x: "x = (a, q)" by (cases x)
  from Cons.prems [of a q] x obtain y where "a = Some y" by auto
  with Cons x show ?case by auto
qed simp

lemma filter_key_group_sum:
  "filter (\<lambda>(k, q). A k) (group_sum key v P rows) = group_sum key v (\<lambda>r. P r \<and> A (key r)) rows"
proof -
  have "filter A (remdups (map key (filter P rows))) = remdups (map key (filter (\<lambda>r. P r \<and> A (key r)) rows))"
    by (simp add: remdups_filter [symmetric] filter_map comp_def conj_commute)
  moreover have "sum_where v (\<lambda>r. (P r \<and> A (key r)) \<and> key r = k) rows = sum_where v (\<lambda>r. P r \<and> key r = k) rows"
    if "A k" for k
    using that by (intro sum_where_cong) auto
  ultimately show ?thesis
    by (auto simp: group_sum_def filter_map comp_def intro!: map_cong)
qed

lemma sum_list_filter_pos:
  assumes "\<And>k q. (k, q) \<in> set xs \<Longrightarrow> A k \<Longrightarrow> (0 :: rat) \<le> q"
  shows "sum_list (map snd (filter (\<lambda>(k, q). A k \<and> \<not> q \<le> 0) xs)) = sum_list (map snd (filter (\<lambda>(k, q). A k) xs))"
  using assms
proof (induction xs)
  case (Cons x xs)
  have "0 \<le> snd x" if "A (fst x)" using Cons.prems [of "fst x" "snd x"] that by simp
  with Cons show ?case by (cases x) force
qed simp

text \<open>
  the per-(storage, lot) breakdown of a part lists every bucket once, never an empty
  one, each with its ledger balance, and its quantities add up to the part's total.
\<close>

theorem stock_summary_adds_up:
  "sum_list (map snd (stock_summary_for_part d ws p st)) = total_for_part d ws p st
   \<and> distinct (map fst (stock_summary_for_part d ws p st))
   \<and> (\<forall>sto lot. map_of (stock_summary_for_part d ws p st) (sto, lot) =
        (if current_quantity d ws p sto lot st True = 0 then None
         else Some (current_quantity d ws p sto lot st True)))"
proof -
  let ?P = "\<lambda>e. se_workspace_id e = ws \<and> se_part_id e = Some p \<and> se_status e = st"
  let ?key = "\<lambda>e. (se_storage_location_id e, se_lot_id e)"
  let ?g = "group_sum ?key se_quantity_delta ?P (stock_entries d)"
  have cq: "current_quantity d ws p sto lot st True
      = sum_where se_quantity_delta (\<lambda>e. ?P e \<and> ?key e = (sto, lot)) (stock_entries d)" for sto lot
    unfolding current_quantity_def by (rule sum_where_cong) auto
  have "sum_list (map snd (stock_summary_for_part d ws p st)) = sum_where se_quantity_delta ?P (stock_entries d)"
    by (simp add: stock_summary_for_part_def sum_list_filter_nonzero sum_group_sum)
  then have 1: "sum_list (map snd (stock_summary_for_part d ws p st)) = total_for_part d ws p st"
    by (simp add: total_for_part_def current_quantity_def)
  have 2: "distinct (map fst (stock_summary_for_part d ws p st))"
    unfolding stock_summary_for_part_def by (rule distinct_map_filter) simp
  have 3: "map_of (stock_summary_for_part d ws p st) (sto, lot) =
        (if current_quantity d ws p sto lot st True = 0 then None
         else Some (current_quantity d ws p sto lot st True))" for sto lot
  proof -
    have iff: "((sto, lot), q) \<in> set (stock_summary_for_part d ws p st) \<longleftrightarrow>
        (\<exists>r \<in> set (stock_entries d). ?P r \<and> ?key r = (sto, lot))
        \<and> q = current_quantity d ws p sto lot st True \<and> q \<noteq> 0" for q
      by (auto simp: stock_summary_for_part_def group_sum_iff cq)
    show ?thesis
    proof (cases "current_quantity d ws p sto lot st True = 0")
      case True
      then have "(sto, lot) \<notin> fst ` set (stock_summary_for_part d ws p st)"
        using iff by fastforce
      with True show ?thesis by (simp add: map_of_eq_None_iff)
    next
      case False
      then have "\<exists>r \<in> set (stock_entries d). ?P r \<and> ?key r = (sto, lot)"
        using sum_where_none [of "stock_entries d" "\<lambda>e. ?P e \<and> ?key e = (sto, lot)" se_quantity_delta]
        by (auto simp: cq)
      with False iff have "((sto, lot), current_quantity d ws p sto lot st True)
          \<in> set (stock_summary_for_part d ws p st)" by blast
      with False 2 show ?thesis by (simp add: map_of_eq_Some_iff)
    qed
  qed
  from 1 2 3 show ?thesis by blast
qed

text \<open>
  the many-parts query is the single-part balance for every part it was asked about
  that has rows, and says nothing about any other part.
\<close>

theorem bulk_quantities_agree:
  "bulk_current_quantities d ws part_ids st p =
     (if p \<in> set part_ids \<and> (\<exists>e \<in> set (stock_entries d).
           se_workspace_id e = ws \<and> se_part_id e = Some p \<and> se_status e = st)
      then Some (current_quantity d ws p None None st False) else None)"
proof (cases "part_ids = []")
  case False
  let ?P = "\<lambda>e. se_workspace_id e = ws \<and> se_status e = st \<and> se_part_id e \<in> Some ` set part_ids"
  have "bulk_current_quantities d ws part_ids st p =
      map_of (group_sum se_part_id se_quantity_delta ?P (stock_entries d)) (Some p)"
    using False unfolding bulk_current_quantities_def
    by simp (rule map_of_the_keys, auto simp: group_sum_iff)
  moreover have "sum_where se_quantity_delta (\<lambda>r. ?P r \<and> se_part_id r = Some p) (stock_entries d)
      = current_quantity d ws p None None st False" if "p \<in> set part_ids"
    unfolding current_quantity_def using that by (intro sum_where_cong) auto
  ultimately show ?thesis by (auto simp: map_of_group_sum)
qed (simp add: bulk_current_quantities_def)

lemma bulk_stock_where:
  assumes ok: "ledger_ok d" and p: "p \<in> set part_ids" and in_ws: "part_in_ws d ws p"
  shows "sum_where snd (\<lambda>((sto, lot, u), q). K (sto, lot)) (bulk_stock_by_location d ws part_ids st p)
    = sum_where se_quantity_delta (\<lambda>e. se_workspace_id e = ws \<and> se_part_id e = Some p \<and> se_status e = st
        \<and> K (se_storage_location_id e, se_lot_id e)) (stock_entries d)"
proof -
  let ?P = "\<lambda>e. se_workspace_id e = ws \<and> se_status e = st \<and> se_part_id e \<in> Some ` set part_ids"
  let ?key = "\<lambda>e. (se_part_id e, se_storage_location_id e, se_lot_id e, se_unit e)"
  let ?g = "group_sum ?key se_quantity_delta ?P (stock_entries d)"
  let ?A = "\<lambda>k. fst k = Some p \<and> K (fst (snd k), fst (snd (snd k)))"
  from in_ws obtain x where x: "parts d p = Some x" "p_workspace_id x = ws"
    by (auto simp: part_in_ws_def split: option.splits)
  have unit: "se_unit e = p_unit_of_measure x"
    if "e \<in> set (stock_entries d)" "se_workspace_id e = ws" "se_part_id e = Some p" for e
    using ok that x by (auto simp: ledger_ok_def row_ok_def check_stock_entry_unit_matches_part_def)
  have nonneg: "0 \<le> q" if kq: "(k, q) \<in> set ?g" and k: "?A k" for k q
  proof -
    obtain sto lot u where k': "k = (Some p, sto, lot, u)" using k by (cases k) auto
    from kq k' obtain e where "e \<in> set (stock_entries d)" "se_workspace_id e = ws"
      "se_part_id e = Some p" "se_unit e = u"
      and q: "q = sum_where se_quantity_delta (\<lambda>r. ?P r \<and> ?key r = k) (stock_entries d)"
      by (auto simp: group_sum_iff)
    with unit have u: "u = p_unit_of_measure x" by simp
    have "q = current_quantity d ws p sto lot st True"
      unfolding q current_quantity_def using p unit by (intro sum_where_cong) (auto simp: k' u)
    with ok show ?thesis by (simp add: ledger_ok_nonneg)
  qed
  have ne: "part_ids \<noteq> []" using p by auto
  have "sum_where snd (\<lambda>((sto, lot, u), q). K (sto, lot)) (bulk_stock_by_location d ws part_ids st p)
      = sum_list (map snd (filter (\<lambda>(k, q). ?A k \<and> \<not> q \<le> 0) ?g))"
    using ne by (simp add: bulk_stock_by_location_def sum_where_def filter_map comp_def case_prod_unfold conj_ac)
  also have "\<dots> = sum_list (map snd (filter (\<lambda>(k, q). ?A k) ?g))"
    by (rule sum_list_filter_pos) (use nonneg in blast)
  also have "\<dots> = sum_where se_quantity_delta (\<lambda>r. ?P r \<and> ?A (?key r)) (stock_entries d)"
    by (simp only: filter_key_group_sum sum_group_sum)
  also have "\<dots> = sum_where se_quantity_delta (\<lambda>e. se_workspace_id e = ws \<and> se_part_id e = Some p \<and> se_status e = st
        \<and> K (se_storage_location_id e, se_lot_id e)) (stock_entries d)"
    using p by (intro sum_where_cong) auto
  finally show ?thesis .
qed

text \<open>
  in a well-formed ledger the pick-list breakdown loses nothing: although it drops
  every bucket at or below zero and splits by unit stamp, its quantities add up to the
  part's on-hand (or reserved) total.
\<close>

theorem pick_list_loses_nothing:
  assumes ok: "ledger_ok d" and p: "p \<in> set part_ids" and in_ws: "part_in_ws d ws p"
  shows "sum_list (map snd (bulk_stock_by_location d ws part_ids st p)) = total_for_part d ws p st"
  using bulk_stock_where [OF ok p in_ws, of "\<lambda>_. True" st]
  by (simp add: sum_where_def total_for_part_def current_quantity_def case_prod_unfold)

text \<open>
  the history of a part is the first \<open>n\<close> of its rows in an order from newest to
  oldest, so no row it leaves out is newer than one it shows.
\<close>

theorem part_history_is_most_recent:
  "\<exists>s. mset s = mset (filter (\<lambda>e. se_workspace_id e = ws \<and> se_part_id e = Some p) (stock_entries d))
     \<and> sorted_wrt (\<lambda>a b. se_occurred_at b \<le> se_occurred_at a) s
     \<and> history_for_part d ws p n = take n s"
proof -
  define rows where "rows = filter (\<lambda>e. se_workspace_id e = ws \<and> se_part_id e = Some p) (stock_entries d)"
  define s where "s = sort_key (\<lambda>e. - int (se_occurred_at e)) rows"
  have "sorted (map (\<lambda>e. - int (se_occurred_at e)) s)"
    by (simp add: s_def sorted_sort_key)
  then have "sorted_wrt (\<lambda>a b. se_occurred_at b \<le> se_occurred_at a) s"
    by (simp add: sorted_map)
  moreover have "mset s = mset rows" by (simp add: s_def)
  moreover have "history_for_part d ws p n = take n s"
    by (simp add: history_for_part_def history_def s_def rows_def)
  ultimately show ?thesis unfolding rows_def by blast
qed

end
