(* ===== verification/StockProps.thy ===== *)
theory StockProps
  imports Demo Rollups
begin

text \<open>
  What the stock operations guarantee, on every well-formed ledger (\<open>ledger_ok\<close>) over a
  well-formed catalog (\<open>catalog_ok\<close>): exact success conditions, the exact effect on every
  bucket, and the two location constraints.
\<close>

section \<open>Removing\<close>

text \<open>
  What the columns of a ledger row can hold: less than ten to the twelve of a unit, and a
  comment without NUL. The unit is the part's, so the stored parts must fit theirs.
\<close>

definition units_ok :: "db \<Rightarrow> bool" where
  "units_ok d \<longleftrightarrow> (\<forall>p x. parts d p = Some x \<longrightarrow> no_nul (p_unit_of_measure x))"

lemma units_ok_unit: "units_ok d \<Longrightarrow> catalog_ok d \<Longrightarrow> parts d p = Some x \<Longrightarrow> fits_varchar 16 (p_unit_of_measure x)"
  by (auto simp: units_ok_def fits_varchar_def catalog_ok_def)

definition removal_fits :: "remove_stock_in \<Rightarrow> bool" where
  "removal_fits pl \<longleftrightarrow> rs_quantity pl < 10 ^ 12 \<and> opt_ok no_nul (rs_comments pl)"

abbreviation removed_row :: "uuid \<Rightarrow> uuid option \<Rightarrow> remove_stock_in \<Rightarrow> part \<Rightarrow> nat \<Rightarrow> stock_entry" where
  "removed_row ws user pl part now \<equiv> blank_entry\<lparr>
          se_workspace_id := ws,
          se_part_id := Some (p_id part),
          se_lot_id := rs_lot_id pl,
          se_storage_location_id := rs_storage_location_id pl,
          se_quantity_delta := - of_int (rs_quantity pl),
          se_unit := unit_for_part (Some part),
          se_status := On_hand,
          se_operation_type := Op_remove,
          se_comments := rs_comments pl,
          se_occurred_at := now,
          se_created_by := user\<rparr>"

lemma removed_row_fits:
  assumes "units_ok d" "catalog_ok d" "parts d p = Some part" "0 < rs_quantity pl"
  shows "entry_fits (removed_row ws user pl part now) \<longleftrightarrow> removal_fits pl"
  using units_ok_unit [OF assms(1-3)] catalog_ok_part [OF assms(2,3)] fits_of_int [of "- rs_quantity pl"] assms(4)
  by (simp add: entry_fits_def blank_entry_def removal_fits_def)

text \<open>What the service itself asks of a withdrawal.\<close>

definition removal_accepted :: "db \<Rightarrow> uuid \<Rightarrow> remove_stock_in \<Rightarrow> bool" where
  "removal_accepted d ws pl \<longleftrightarrow> part_in_ws d ws (rs_part_id pl)
     \<and> opt_ok (storage_in_ws d ws) (rs_storage_location_id pl) \<and> opt_ok (lot_in_ws d ws) (rs_lot_id pl)
     \<and> of_int (rs_quantity pl) \<le> current_quantity d ws (rs_part_id pl)
           (rs_storage_location_id pl) (rs_lot_id pl) On_hand True"

lemma removal_accepted_part:
  assumes "catalog_ok d" "removal_accepted d ws pl"
  obtains part where "parts d (rs_part_id pl) = Some part" "p_id part = rs_part_id pl"
    "unit_for_part (Some part) = p_unit_of_measure part"
    "remove_stock ws user pl d = add_entry (removed_row ws user pl part (clock d))
       (lock_for_stock_write ws (rs_part_id pl) d)"
proof -
  from assms(2) obtain part where p: "parts d (rs_part_id pl) = Some part" "p_workspace_id part = ws"
    by (auto simp: removal_accepted_def part_in_ws_def split: option.splits)
  note u = catalog_ok_part [OF assms(1) p(1)]
  have "\<not> foreign_storage d ws (rs_storage_location_id pl)" "\<not> foreign_lot d ws (rs_lot_id pl)"
    using assms(2) by (simp_all add: removal_accepted_def foreign_storage_iff foreign_lot_iff)
  with p u assms(2) show thesis
    by (intro that [of part]) (simp_all add: remove_stock_def Let_def removal_accepted_def belonging_part_def)
qed

lemma removal_not_accepted:
  assumes "catalog_ok d" "\<not> removal_accepted d ws pl"
  shows "\<exists>err. remove_stock ws user pl d = Inl (StockError err)"
proof (cases "belonging_part d ws (rs_part_id pl)")
  case None
  then show ?thesis by (simp add: remove_stock_def Let_def)
next
  case (Some part)
  then have "parts d (rs_part_id pl) = Some part" "p_workspace_id part = ws" by simp_all
  with Some assms show ?thesis
    using foreign_storage_iff [of d ws "rs_storage_location_id pl"] foreign_lot_iff [of d ws "rs_lot_id pl"]
    by (auto simp: remove_stock_def Let_def belonging_part_def removal_accepted_def part_in_ws_def not_le
        dest: catalog_ok_part)
qed

text \<open>
  C32: a withdrawal succeeds exactly when the part, the location and the lot belong to the
  workspace, the named bucket holds at least the quantity, and the row fits its columns:
  less than ten to the twelve, and no NUL in the comments. The database refuses exactly
  the withdrawals that pass the service's own checks and do not fit, as a value it cannot
  hold; no trigger and no other constraint of the database ever refuses one.
\<close>

theorem remove_stock_succeeds_iff:
  assumes ok: "ledger_ok d" "catalog_ok d" "units_ok d" and q: "0 < rs_quantity pl"
  shows "((\<exists>e d'. remove_stock ws user pl d = Inr (e, d')) \<longleftrightarrow>
            part_in_ws d ws (rs_part_id pl) \<and> opt_ok (storage_in_ws d ws) (rs_storage_location_id pl)
            \<and> opt_ok (lot_in_ws d ws) (rs_lot_id pl)
            \<and> of_int (rs_quantity pl) \<le> current_quantity d ws (rs_part_id pl)
                  (rs_storage_location_id pl) (rs_lot_id pl) On_hand True
            \<and> rs_quantity pl < 10 ^ 12 \<and> opt_ok no_nul (rs_comments pl))
    \<and> (\<forall>err. remove_stock ws user pl d = Inl (DbError err) \<longleftrightarrow>
            err = Data_error \<and> removal_accepted d ws pl \<and> \<not> removal_fits pl)"
    (is "(?ok \<longleftrightarrow> ?R) \<and> ?db")
proof -
  have R: "?R \<longleftrightarrow> removal_accepted d ws pl \<and> removal_fits pl"
    by (auto simp: removal_accepted_def removal_fits_def)
  show ?thesis
  proof (cases "removal_accepted d ws pl")
    case False
    with removal_not_accepted [OF ok(2) this, of user] R show ?thesis by auto
  next
    case True
    let ?d = "lock_for_stock_write ws (rs_part_id pl) d"
    obtain part where p: "parts d (rs_part_id pl) = Some part" "p_id part = rs_part_id pl"
        "unit_for_part (Some part) = p_unit_of_measure part"
      and r: "remove_stock ws user pl d = add_entry (removed_row ws user pl part (clock d)) ?d"
      by (rule removal_accepted_part [OF ok(2) True])
    let ?e = "removed_row ws user pl part (clock d)"
    have w: "p_workspace_id part = ws" using True p(1) by (simp add: removal_accepted_def part_in_ws_def)
    note fits = removed_row_fits [OF ok(3,2) p(1) q]
    show ?thesis
    proof (cases "removal_fits pl")
      case False
      then have "add_entry ?e ?d = Inl (DbError Data_error)"
        using fits by (simp add: add_entry_def insert_entry_def Let_def new_uuid_def entry_fits_def)
      with True False r R show ?thesis by auto
    next
      case f: True
      have amount: "round_6 (- of_int (rs_quantity pl)) = - of_int (rs_quantity pl)"
        using round_6_of_int [of "- rs_quantity pl"] by simp
      have "\<exists>d'. add_entry ?e ?d = Inr (?e\<lparr>se_id := next_uuid ?d\<rparr>, d')"
      proof (rule add_writable [where p = "rs_part_id pl"])
        show "writable_row ?d (?e\<lparr>se_id := next_uuid ?d\<rparr>)"
          using f fits True p w by (auto simp: writable_row_def entry_fits_def removal_accepted_def blank_entry_def
              foreign_storage_iff foreign_lot_iff check_stock_entries_build_stage_workspace_def)
      qed (use True p amount in \<open>simp_all add: blank_entry_def removal_accepted_def\<close>)
      with r R True f show ?thesis by auto
    qed
  qed
qed

lemma demo_units_ok: "units_ok demo"
  by (auto simp: units_ok_def demo_def empty_db_def demo_part_def)

lemma remove_stock_succeeds_iff_witness:
  "(\<exists>e d'. remove_stock 1 None \<lparr>rs_part_id = 10, rs_quantity = 7, rs_storage_location_id = Some 20,
     rs_lot_id = Some 30, rs_comments = None\<rparr> demo = Inr (e, d'))
   \<and> remove_stock 1 None \<lparr>rs_part_id = 10, rs_quantity = 7, rs_storage_location_id = Some 20,
     rs_lot_id = Some 30, rs_comments = Some [CHR 0x00]\<rparr> demo = Inl (DbError Data_error)"
proof -
  note iff = remove_stock_succeeds_iff [OF demo_ledger_ok demo_catalog_ok demo_units_ok]
  have "part_in_ws demo 1 10 \<and> opt_ok (storage_in_ws demo 1) (Some 20) \<and> opt_ok (lot_in_ws demo 1) (Some 30)
     \<and> of_int 7 \<le> current_quantity demo 1 10 (Some 20) (Some 30) On_hand True" by code_simp
  then show ?thesis
    using iff [of "\<lparr>rs_part_id = 10, rs_quantity = 7, rs_storage_location_id = Some 20,
        rs_lot_id = Some 30, rs_comments = None\<rparr>" 1 None]
      iff [of "\<lparr>rs_part_id = 10, rs_quantity = 7, rs_storage_location_id = Some 20,
        rs_lot_id = Some 30, rs_comments = Some [CHR 0x00]\<rparr>" 1 None]
    by (simp add: removal_accepted_def removal_fits_def)
qed

text \<open>
  a successful withdrawal appends one row, lowers the balance of exactly the named
  bucket by exactly the quantity, and leaves every other balance as it was; no balance
  becomes negative.
\<close>

theorem remove_stock_debits_one_bucket:
  assumes ok: "ledger_ok d" "catalog_ok d" and rem: "remove_stock ws user pl d = Inr (e, d')"
  shows "ledger_ok d' \<and> stock_entries d' = stock_entries d @ [stored_entry e]
    \<and> se_operation_type e = Op_remove
    \<and> (\<forall>b. bucket_balance d' b = bucket_balance d b
          - (if b = (ws, rs_part_id pl, rs_storage_location_id pl, rs_lot_id pl, On_hand)
             then of_int (rs_quantity pl) else 0))"
proof -
  note eff = remove_stock_effect [OF ok(1) rem]
  from rem ok(2) have e: "bucket_of e = Some (ws, rs_part_id pl, rs_storage_location_id pl, rs_lot_id pl, On_hand)"
    "se_quantity_delta e = - of_int (rs_quantity pl)" "se_operation_type e = Op_remove"
    unfolding remove_stock_Inr by (auto simp: add_entry_Inr bucket_of_def dest: catalog_ok_part)
  have "bucket_balance d' b = bucket_balance d b
          - (if b = (ws, rs_part_id pl, rs_storage_location_id pl, rs_lot_id pl, On_hand)
             then of_int (rs_quantity pl) else 0)" for b
    using e by (cases b) (auto simp: appends_current_quantity [OF eff(2)] counts_for_bucket bucket_of_def)
  with eff e(3) show ?thesis by (simp add: appends_def)
qed

lemma remove_stock_debits_one_bucket_witness:
  "\<exists>e d'. remove_stock 1 None \<lparr>rs_part_id = 10, rs_quantity = 7, rs_storage_location_id = Some 20,
     rs_lot_id = Some 30, rs_comments = None\<rparr> demo = Inr (e, d')
     \<and> bucket_balance d' (1, 10, Some 20, Some 30, On_hand) = 93"
proof -
  let ?pl = "\<lparr>rs_part_id = 10, rs_quantity = 7, rs_storage_location_id = Some 20,
     rs_lot_id = Some 30, rs_comments = None\<rparr>"
  have "\<not> isl (remove_stock 1 None ?pl demo)" by code_simp
  then obtain e d' where r: "remove_stock 1 None ?pl demo = Inr (e, d')"
    by (cases "remove_stock 1 None ?pl demo") auto
  have "bucket_balance demo (1, 10, Some 20, Some 30, On_hand) = 100" by code_simp
  with remove_stock_debits_one_bucket [OF demo_ledger_ok demo_catalog_ok r] r show ?thesis by simp
qed

section \<open>Adjusting\<close>

abbreviation adjusted_row ::
    "uuid \<Rightarrow> uuid option \<Rightarrow> adjust_stock_in \<Rightarrow> part \<Rightarrow> rat \<Rightarrow> nat \<Rightarrow> stock_entry" where
  "adjusted_row ws user pl part delta now \<equiv> blank_entry\<lparr>
          se_workspace_id := ws,
          se_part_id := Some (p_id part),
          se_lot_id := aj_lot_id pl,
          se_storage_location_id := aj_storage_location_id pl,
          se_quantity_delta := delta,
          se_unit := unit_for_part (Some part),
          se_status := On_hand,
          se_operation_type := Op_adjust,
          se_comments := aj_comments pl,
          se_occurred_at := now,
          se_created_by := user\<rparr>"

lemma adjust_stock_Inr:
  assumes "adjust_stock ws user pl d0 = Inr (r, d')"
  obtains part where "parts d0 (aj_part_id pl) = Some part" "p_workspace_id part = ws"
    "\<not> foreign_storage d0 ws (aj_storage_location_id pl)" "\<not> foreign_lot d0 ws (aj_lot_id pl)"
    "let delta = of_int (aj_actual_quantity pl) - current_quantity d0 ws (p_id part)
          (aj_storage_location_id pl) (aj_lot_id pl) On_hand True;
        d = lock_for_stock_write ws (aj_part_id pl) d0 in
     (delta = 0 \<and> r = None \<and> d' = d) \<or>
     (delta \<noteq> 0 \<and> (\<exists>e. r = Some e \<and> add_entry (adjusted_row ws user pl part delta (clock d0)) d = Inr (e, d')))"
proof (cases "belonging_part d0 ws (aj_part_id pl)")
  case None
  with assms show ?thesis by (simp add: adjust_stock_def Let_def)
next
  case (Some part)
  then have p: "parts d0 (aj_part_id pl) = Some part" "p_workspace_id part = ws" by simp_all
  from assms show ?thesis
    unfolding adjust_stock_def Let_def belonging_lock Some option.case
    by (intro that [OF p]) (auto simp: bindr_Inr split: if_split_asm)
qed

text \<open>
  an adjustment leaves the named bucket holding exactly the counted quantity and
  every other bucket as it was; a row is written only when the count differs.
\<close>

theorem adjust_stock_sets_the_count:
  assumes ok: "ledger_ok d" "catalog_ok d" and adj: "adjust_stock ws user pl d = Inr (r, d')"
  shows "let b0 = (ws, aj_part_id pl, aj_storage_location_id pl, aj_lot_id pl, On_hand) in
    ledger_ok d' \<and> bucket_balance d' b0 = of_int (aj_actual_quantity pl)
    \<and> (\<forall>b. b \<noteq> b0 \<longrightarrow> bucket_balance d' b = bucket_balance d b)
    \<and> (r = None \<longleftrightarrow> bucket_balance d b0 = of_int (aj_actual_quantity pl))
    \<and> stock_entries d' = stock_entries d @ (case r of None \<Rightarrow> [] | Some e \<Rightarrow> [stored_entry e])"
proof -
  let ?b0 = "(ws, aj_part_id pl, aj_storage_location_id pl, aj_lot_id pl, On_hand)"
  let ?d = "lock_for_stock_write ws (aj_part_id pl) d"
  let ?delta = "of_int (aj_actual_quantity pl) - bucket_balance d ?b0"
  obtain part where p: "parts d (aj_part_id pl) = Some part" "p_workspace_id part = ws"
    and cases: "let delta = of_int (aj_actual_quantity pl) - current_quantity d ws (p_id part)
          (aj_storage_location_id pl) (aj_lot_id pl) On_hand True in
     (delta = 0 \<and> r = None \<and> d' = ?d) \<or>
     (delta \<noteq> 0 \<and> (\<exists>e. r = Some e \<and> add_entry (adjusted_row ws user pl part delta (clock d)) ?d = Inr (e, d')))"
    using adj by (rule adjust_stock_Inr) (simp add: Let_def)
  have id: "p_id part = aj_part_id pl" using catalog_ok_part [OF ok(2) p(1)] by simp
  have grid: "round_6 ?delta = ?delta"
    using ledger_ok_on_grid [OF ok(1)] by (intro round_6_grid on_grid_diff) simp_all
  from cases consider "?delta = 0" "r = None" "d' = ?d"
    | e where "?delta \<noteq> 0" "r = Some e"
        "add_entry (adjusted_row ws user pl part ?delta (clock d)) ?d = Inr (e, d')"
    by (auto simp: Let_def id)
  then show ?thesis
  proof cases
    case 1
    have "bucket_balance d' b = bucket_balance d b" for b by (cases b) (simp add: 1)
    with 1 ok show ?thesis by simp
  next
    case 2
    from add_entry_ledger_ok [OF _ 2(3)] ok have ok': "ledger_ok d'" by simp
    have app: "appends d d' [stored_entry e]"
      using appends_trans [OF lock_for_stock_write_appends add_entry_appends [OF 2(3)]] by simp
    have e: "row_like ws part (aj_storage_location_id pl) (aj_lot_id pl) ?delta On_hand e"
      using 2(3) by (auto simp: add_entry_Inr row_like_def)
    have "bucket_balance d' b = bucket_balance d b + (if b = ?b0 then ?delta else 0)" for b
      using e grid id
      by (cases b) (auto simp: appends_current_quantity [OF app] counts_for_bucket bucket_of_def row_like_def)
    with ok' app 2(1,2) show ?thesis by (auto simp: Let_def appends_def)
  qed
qed

lemma adjust_stock_sets_the_count_witness:
  "\<exists>r d'. adjust_stock 1 None \<lparr>aj_part_id = 10, aj_storage_location_id = Some 21, aj_lot_id = None,
     aj_actual_quantity = 48, aj_comments = None\<rparr> demo = Inr (r, d')
     \<and> bucket_balance d' (1, 10, Some 21, None, On_hand) = 48"
proof -
  let ?pl = "\<lparr>aj_part_id = 10, aj_storage_location_id = Some 21, aj_lot_id = None,
     aj_actual_quantity = 48, aj_comments = None\<rparr>"
  have "\<not> isl (adjust_stock 1 None ?pl demo)" by code_simp
  then obtain r d' where r: "adjust_stock 1 None ?pl demo = Inr (r, d')"
    by (cases "adjust_stock 1 None ?pl demo") auto
  with adjust_stock_sets_the_count [OF demo_ledger_ok demo_catalog_ok r] show ?thesis
    by (simp add: Let_def)
qed

section \<open>Moving\<close>

lemma appends_lot: "appends d d' new \<Longrightarrow> lots d i = Some x \<Longrightarrow> lots d' i = Some x"
  by (metis appends_def map_le_def domI)

text \<open>The two ways \<open>move_stock\<close> ends: the lot kept, or a child lot split off.\<close>

lemma move_stock_effect:
  assumes ok: "ledger_ok d" "catalog_ok d" and m: "move_stock ws user pl d = Inr ((out, inn), d')"
  obtains part dest dest_lot where
    "parts d (ms_part_id pl) = Some part" "p_workspace_id part = ws" "p_id part = ms_part_id pl"
    "storages d (ms_destination_storage_location_id pl) = Some dest" "sl_archived_at dest = None"
    "\<not> sl_is_full dest" "location_accepts d ws dest (ms_part_id pl)"
    "of_int (ms_quantity pl) \<le> current_quantity d ws (ms_part_id pl) (ms_source_storage_location_id pl)
        (ms_source_lot_id pl) On_hand True"
    "ledger_ok d'" "appends d d' [stored_entry out, stored_entry inn]"
    "row_like ws part (ms_source_storage_location_id pl) (ms_source_lot_id pl)
        (- of_int (ms_quantity pl)) On_hand out"
    "row_like ws part (Some (ms_destination_storage_location_id pl)) dest_lot
        (of_int (ms_quantity pl)) On_hand inn"
    "se_related_entry_id out = Some (se_id inn)" "se_related_entry_id inn = Some (se_id out)"
    "se_operation_type out = Op_move_out" "se_operation_type inn = Op_move_in"
    "if ms_split_lot pl \<and> ms_source_lot_id pl \<noteq> None
     then \<exists>l x. dest_lot = Some l \<and> lots d l = None \<and> lots d' l = Some x
            \<and> lot_parent_lot_id x = map_option (\<lambda>s. lot_id (the (lots d s))) (ms_source_lot_id pl)
            \<and> lot_workspace_id x = ws \<and> lot_source_type x = Split
     else dest_lot = ms_source_lot_id pl"
proof -
  let ?q = "of_int (ms_quantity pl) :: rat" and ?dst = "ms_destination_storage_location_id pl"
  from m obtain part dest d1 where
    pm: "prepare_move ws (ms_part_id pl) ?q (ms_source_storage_location_id pl) (ms_source_lot_id pl) ?dst d
      = Inr ((part, dest), d1)"
    by (auto simp: move_stock_def Let_def bindr_Inr)
  from pm have e: "enforce_storage_constraints ws dest (ms_part_id pl) (lock_for_stock_write ws (ms_part_id pl) d) = Inr d1"
    and dest: "storages d ?dst = Some dest" by (simp_all add: prepare_move_Inr)
  have dest_id: "sl_id dest = ?dst" using ok(2) dest by (simp add: catalog_ok_def)
  have ok1: "ledger_ok d1" using enforce_ledger_ok [OF e] ok by simp
  have a1: "appends d d1 []"
    using appends_trans [OF lock_for_stock_write_appends enforce_appends [OF e]] by simp
  have acc: "location_accepts d ws dest (ms_part_id pl)"
    using e enforce_accepts [of "lock_for_stock_write ws (ms_part_id pl) d" dest ws "ms_part_id pl"]
      dest dest_id by auto
  have lots1: "lots d1 = lots d" using enforce_Inr [OF e] by (simp add: lock_for_storage_constraint_def)
  show thesis
  proof (cases "ms_split_lot pl \<and> ms_source_lot_id pl \<noteq> None")
    case False
    from m pm False have w: "write_move_pair ws user part ?q (ms_source_storage_location_id pl)
        (ms_source_lot_id pl) ?dst (ms_source_lot_id pl) (ms_comments pl) None None d1 = Inr ((out, inn), d')"
      by (auto simp: move_stock_def Let_def dest_id)
    note w' = write_move_pair_effect [OF ok1 w]
    have "appends d d' [stored_entry out, stored_entry inn]" using appends_trans [OF a1 w'(2)] by simp
    with False pm w' acc dest catalog_ok_part [OF ok(2)] show thesis
      by (intro that [of part dest "ms_source_lot_id pl"]) (auto simp: prepare_move_Inr)
  next
    case True
    then obtain s where s: "ms_source_lot_id pl = Some s" by auto
    from m pm True obtain src x l d2 where
      src: "belonging_lot d1 ws s = Some src"
      and l: "add_lot x d1 = Inr (l, d2)" "lot_parent_lot_id x = Some (lot_id src)" "lot_workspace_id x = ws"
        "lot_source_type x = Split"
      and w: "write_move_pair ws user part ?q (ms_source_storage_location_id pl)
        (ms_source_lot_id pl) ?dst (Some (lot_id l)) (ms_comments pl) None None d2 = Inr ((out, inn), d')"
      by (auto simp: move_stock_def Let_def dest_id s bindr_Inr split: option.split_asm)
    have ok2: "ledger_ok d2" by (rule add_lot_ledger_ok [OF ok1 l(1)])
    note w' = write_move_pair_effect [OF ok2 w]
    have "appends d d' [stored_entry out, stored_entry inn]"
      using appends_trans [OF a1 appends_trans [OF add_lot_appends [OF ok1 l(1)] w'(2)]] by simp
    moreover have "lots d (lot_id l) = None"
      using ok1 l(1) lots1 by (auto simp: add_lot_Inr ledger_ok_def fresh_ids_def)
    moreover from l obtain y where y: "lots d2 (lot_id l) = Some y" "lot_parent_lot_id y = Some (lot_id src)"
        "lot_workspace_id y = ws" "lot_source_type y = Split"
      by (auto simp: add_lot_Inr)
    moreover have "lots d' (lot_id l) = Some y"
      using w'(2) y(1) by (rule appends_lot)
    moreover have "lots d s = Some src" using src lots1 by simp
    ultimately show thesis
      using True pm w' acc dest catalog_ok_part [OF ok(2)] s
      by (intro that [of part dest "Some (lot_id l)"]) (auto simp: prepare_move_Inr)
  qed
qed

text \<open>
  C2: a successful move conserves stock. It appends two rows, a move-out and a move-in
  that point at each other, lowers the source bucket and raises the destination bucket by exactly the quantity,
  changes no other balance, leaves the on-hand total of every part as it was, and goes
  only to a location that is neither archived nor full. The destination keeps the lot,
  or takes a newly created child of it when a split was asked for.
\<close>

theorem move_stock_conserves:
  assumes ok: "ledger_ok d" "catalog_ok d" and m: "move_stock ws user pl d = Inr ((out, inn), d')"
  shows "ledger_ok d' \<and> stock_entries d' = stock_entries d @ [stored_entry out, stored_entry inn]
    \<and> se_operation_type out = Op_move_out \<and> se_operation_type inn = Op_move_in
    \<and> se_related_entry_id out = Some (se_id inn) \<and> se_related_entry_id inn = Some (se_id out)
    \<and> (\<forall>b. bucket_balance d' b = bucket_balance d b
        - (if b = (ws, ms_part_id pl, ms_source_storage_location_id pl, ms_source_lot_id pl, On_hand)
           then of_int (ms_quantity pl) else 0)
        + (if b = (ws, ms_part_id pl, Some (ms_destination_storage_location_id pl), se_lot_id inn, On_hand)
           then of_int (ms_quantity pl) else 0))
    \<and> (\<forall>ws' p st. total_for_part d' ws' p st = total_for_part d ws' p st)
    \<and> (\<exists>dest. storages d (ms_destination_storage_location_id pl) = Some dest
         \<and> sl_archived_at dest = None \<and> \<not> sl_is_full dest)
    \<and> (if ms_split_lot pl \<and> ms_source_lot_id pl \<noteq> None
       then \<exists>l x. se_lot_id inn = Some l \<and> lots d l = None \<and> lots d' l = Some x
              \<and> lot_parent_lot_id x = map_option (\<lambda>s. lot_id (the (lots d s))) (ms_source_lot_id pl)
       else se_lot_id inn = ms_source_lot_id pl)"
  using ok m
proof (rule move_stock_effect)
  fix part dest dest_lot
  let ?q = "of_int (ms_quantity pl) :: rat" and ?p = "ms_part_id pl"
  assume part: "p_id part = ?p" and a: "appends d d' [stored_entry out, stored_entry inn]"
    and o: "row_like ws part (ms_source_storage_location_id pl) (ms_source_lot_id pl) (- ?q) On_hand out"
    and i: "row_like ws part (Some (ms_destination_storage_location_id pl)) dest_lot ?q On_hand inn"
    and rest: "ledger_ok d'" "se_operation_type out = Op_move_out" "se_operation_type inn = Op_move_in"
      "se_related_entry_id out = Some (se_id inn)"
      "se_related_entry_id inn = Some (se_id out)"
      "storages d (ms_destination_storage_location_id pl) = Some dest" "sl_archived_at dest = None"
      "\<not> sl_is_full dest"
    and lot: "if ms_split_lot pl \<and> ms_source_lot_id pl \<noteq> None
     then \<exists>l x. dest_lot = Some l \<and> lots d l = None \<and> lots d' l = Some x
            \<and> lot_parent_lot_id x = map_option (\<lambda>s. lot_id (the (lots d s))) (ms_source_lot_id pl)
            \<and> lot_workspace_id x = ws \<and> lot_source_type x = Split
     else dest_lot = ms_source_lot_id pl"
  from i have dl: "dest_lot = se_lot_id inn" by (simp add: row_like_def)
  have "total_for_part d' ws' p st = total_for_part d ws' p st" for ws' p st
    using o i by (simp add: total_for_part_def appends_current_quantity [OF a] counts_for_def row_like_def)
  moreover note pair_balance [OF a o i, unfolded part dl round_6_of_int]
  ultimately show ?thesis
    using rest lot a unfolding dl by (auto simp: appends_def split: if_split_asm)
qed

lemma move_stock_conserves_witness:
  "\<exists>out inn d'. move_stock 1 None \<lparr>ms_part_id = 10, ms_source_storage_location_id = Some 20,
     ms_source_lot_id = Some 30, ms_destination_storage_location_id = 21, ms_quantity = 60,
     ms_split_lot = True, ms_comments = None\<rparr> demo = Inr ((out, inn), d')
     \<and> bucket_balance d' (1, 10, Some 20, Some 30, On_hand) = 40"
proof -
  let ?pl = "\<lparr>ms_part_id = 10, ms_source_storage_location_id = Some 20,
     ms_source_lot_id = Some 30, ms_destination_storage_location_id = 21, ms_quantity = 60,
     ms_split_lot = True, ms_comments = None\<rparr>"
  have "\<not> isl (move_stock 1 None ?pl demo)" by code_simp
  then obtain out inn d' where r: "move_stock 1 None ?pl demo = Inr ((out, inn), d')"
    by (cases "move_stock 1 None ?pl demo") auto
  have "bucket_balance demo (1, 10, Some 20, Some 30, On_hand) = 100" by code_simp
  with move_stock_conserves [OF demo_ledger_ok demo_catalog_ok r] r show ?thesis by simp
qed

lemma write_move_pair_succeeds:
  assumes ok: "ledger_ok d" and part: "parts d (p_id part) = Some part" "p_workspace_id part = ws"
      "p_unit_of_measure part \<noteq> []" "fits_varchar 16 (p_unit_of_measure part)"
    and q: "0 \<le> q" "fits_18_6 q" "on_grid q" "opt_ok no_nul comments"
    and refs: "\<not> foreign_storage d ws src_sto" "\<not> foreign_lot d ws src_lot"
      "storage_in_ws d ws dest_sto" "\<not> foreign_lot d ws dest_lot"
      "opt_ok (build_in_ws d ws) b"
      "opt_ok (\<lambda>s. \<exists>x \<in> set (build_stages d). bs_id x = s \<and> bs_workspace_id x = ws) s"
    and bal: "q \<le> current_quantity d ws (p_id part) src_sto src_lot On_hand True"
  shows "\<exists>r. write_move_pair ws user part q src_sto src_lot dest_sto dest_lot comments b s d = Inr r"
proof -
  let ?i = "next_uuid d" and ?u = "unit_for_part (Some part)"
  let ?d2 = "d\<lparr>next_uuid := Suc (Suc ?i)\<rparr>"
  let ?c = "blank_entry\<lparr>se_workspace_id := ws,
            se_part_id := Some (p_id part), se_unit := ?u, se_status := On_hand,
            se_build_id := b, se_build_stage_id := s, se_comments := comments, se_occurred_at := clock d,
            se_created_by := user\<rparr>"
  let ?o = "?c\<lparr>se_id := ?i, se_lot_id := src_lot, se_storage_location_id := src_sto,
            se_quantity_delta := - q, se_operation_type := Op_move_out, se_related_entry_id := None\<rparr>"
  let ?n = "?c\<lparr>se_id := Suc ?i, se_lot_id := dest_lot, se_storage_location_id := Some dest_sto,
            se_quantity_delta := q, se_operation_type := Op_move_in, se_related_entry_id := Some ?i\<rparr>"
  let ?d3 = "?d2\<lparr>stock_entries := stock_entries ?d2 @ [stored_entry ?o]\<rparr>"
  have u: "?u = p_unit_of_measure part" using part by (simp add: unit_for_part_Some)
  have r: "round_6 q = q" by (rule round_6_grid [OF q(3)])
  have q': "fits_18_6 (- q)" using q(2) by (simp add: fits_18_6_def)
  have ok2: "ledger_ok ?d2"
    using ledger_ok_new_uuid [OF ledger_ok_new_uuid [OF ok]] by simp
  have cq: "current_quantity ?d2 = current_quantity d" by (rule current_quantity_cong) simp
  have i1: "insert_entry ?o ?d2 = Inr ?d3"
  proof (rule insert_writable [where p = "p_id part"])
    show "writable_row ?d2 ?o"
      using part q' q(4) refs by (simp add: writable_row_def entry_fits_def blank_entry_def u check_stock_entries_build_stage_workspace_def)
  qed (use bal r in \<open>simp_all add: cq blank_entry_def\<close>)
  have ok3: "ledger_ok ?d3"
    by (rule insert_entry_ledger_ok [OF ok2 i1])
       (use ok in \<open>auto simp: ledger_ok_def fresh_ids_def blank_entry_def\<close>)
  let ?d4 = "?d3\<lparr>stock_entries := stock_entries ?d3 @ [stored_entry ?n]\<rparr>"
  have i2: "insert_entry ?n ?d3 = Inr ?d4"
  proof (rule insert_writable [where p = "p_id part"])
    show "writable_row ?d3 ?n"
      using part q refs by (simp add: writable_row_def entry_fits_def blank_entry_def u check_stock_entries_build_stage_workspace_def
          foreign_storage_iff)
    show "0 \<le> current_quantity ?d3 (se_workspace_id ?n) (p_id part) (se_storage_location_id ?n)
        (se_lot_id ?n) (se_status ?n) True + round_6 (se_quantity_delta ?n)"
      using ledger_ok_nonneg [OF ok3] q(1) r by (simp add: add_nonneg_nonneg del: db.simps)
  qed (simp add: blank_entry_def)
  have "\<exists>d5. set_related_entry ws ?i (Suc ?i) ?d4 = Inr d5"
    by (simp add: set_related_entry_def blank_entry_def)
  then obtain d5 where "set_related_entry ws ?i (Suc ?i) ?d4 = Inr d5" by blast
  with i1 i2 show ?thesis by (simp add: write_move_pair_def new_uuid_def Let_def)
qed

text \<open>Every stored lot fits its columns and is stored under its own id.\<close>

definition lots_ok :: "db \<Rightarrow> bool" where
  "lots_ok d \<longleftrightarrow> (\<forall>l x. lots d l = Some x \<longrightarrow> lot_fits x \<and> lot_id x = l)"

lemma prepare_move_error: "prepare_move ws p q a b c d \<noteq> Inl (DbError x)"
  by (auto simp: prepare_move_def Let_def bindr_Inl enforce_storage_constraints_def split: option.split)

lemma no_nul_uuid_str: "no_nul (uuid_str u)"
proof -
  have digit: "''0123456789abcdef'' ! (n mod 16) \<noteq> CHR 0x00" for n :: nat
  proof -
    have "''0123456789abcdef'' ! (n mod 16) \<in> set ''0123456789abcdef''" by (rule nth_mem) simp
    then show ?thesis by auto
  qed
  have "no_nul (hex_fixed k n)" for k n
    by (induction k arbitrary: n) (simp_all add: digit)
  then show ?thesis
    by (auto simp: uuid_str_def Let_def no_nul_def dest!: in_set_takeD in_set_dropD)
qed

text \<open>What the columns ask of the rows, and of the new lot of a split.\<close>

definition move_fits :: "db \<Rightarrow> move_stock_in \<Rightarrow> bool" where
  "move_fits d pl \<longleftrightarrow> ms_quantity pl < 10 ^ 12 \<and> opt_ok no_nul (ms_comments pl)
     \<and> (case ms_source_lot_id pl of None \<Rightarrow> True | Some l \<Rightarrow> (case lots d l of None \<Rightarrow> True | Some x \<Rightarrow>
          ms_split_lot pl \<longrightarrow> opt_ok (\<lambda>n. length n \<le> 194) (lot_name x)))"

lemma move_that_fits_no_db_error:
  assumes ok: "ledger_ok d" "catalog_ok d" "units_ok d" "lots_ok d"
    and q: "0 < ms_quantity pl" and fits: "move_fits d pl"
  shows "move_stock ws user pl d \<noteq> Inl (DbError err)"
proof (cases "prepare_move ws (ms_part_id pl) (of_int (ms_quantity pl)) (ms_source_storage_location_id pl)
    (ms_source_lot_id pl) (ms_destination_storage_location_id pl) d")
  case (Inl e)
  with prepare_move_error [of ws "ms_part_id pl" "of_int (ms_quantity pl)" "ms_source_storage_location_id pl"
    "ms_source_lot_id pl" "ms_destination_storage_location_id pl" d err]
  show ?thesis by (simp add: move_stock_def)
next
  case (Inr r)
  obtain part dest d1 where r: "r = ((part, dest), d1)" by (cases r) auto
  let ?q = "of_int (ms_quantity pl) :: rat" and ?src = "ms_source_storage_location_id pl"
  let ?lot = "ms_source_lot_id pl" and ?dst = "ms_destination_storage_location_id pl"
  note pm = Inr [unfolded r prepare_move_Inr]
  let ?d0 = "lock_for_stock_write ws (ms_part_id pl) d"
  have d1: "d1 = lock_for_storage_constraint ws (sl_id dest) ?d0" using pm enforce_Inr by blast
  have f1: "lots d1 = lots d" "parts d1 = parts d" "storages d1 = storages d"
    "current_quantity d1 = current_quantity d"
    by (simp_all add: d1 lock_for_storage_constraint_def)
  have ok1: "ledger_ok d1" using ok(1) by (simp add: d1 lock_for_storage_constraint_def)
  have part: "parts d (ms_part_id pl) = Some part" "p_workspace_id part = ws" "p_id part = ms_part_id pl"
      "p_unit_of_measure part \<noteq> []" "fits_varchar 16 (p_unit_of_measure part)"
    using pm ok(2) units_ok_unit [OF ok(3,2)] by (auto simp: catalog_ok_def)
  have dest: "storage_in_ws d ws ?dst" "sl_id dest = ?dst"
    using pm ok(2) by (auto simp: storage_in_ws_def catalog_ok_def)
  have qq: "0 \<le> ?q" "fits_18_6 ?q" "on_grid ?q" "opt_ok no_nul (ms_comments pl)"
    using q fits by (simp_all add: fits_of_int move_fits_def)
  have pair: "\<exists>r. write_move_pair ws user part ?q ?src ?lot (sl_id dest) l (ms_comments pl) None None x = Inr r"
    if "ledger_ok x" "parts x = parts d" "storages x = storages d" "\<not> foreign_lot x ws ?lot"
      "\<not> foreign_lot x ws l" "current_quantity x = current_quantity d" for x l
    using that pm part dest qq foreign_cong(1) [of x d]
    by (intro write_move_pair_succeeds) (auto simp: storage_in_ws_def)
  have fl: "\<not> foreign_lot d1 ws ?lot" using pm foreign_cong(2) [of d1 d] f1 by simp
  show ?thesis
  proof (cases "ms_split_lot pl \<and> ?lot \<noteq> None")
    case False
    with pair [OF ok1 f1(2,3) fl fl f1(4)] Inr r show ?thesis by (auto simp: move_stock_def Let_def)
  next
    case True
    then obtain s where s: "?lot = Some s" by auto
    with fl obtain src where src: "belonging_lot d1 ws s = Some src"
      by (auto simp: foreign_lot_iff lot_in_ws_iff)
    then have src': "lots d s = Some src" using f1 by simp
    then have fit: "lot_fits src" using ok(4) by (simp add: lots_ok_def)
    have "fits_varchar 200 (split_lot_name src)"
      using fits fit s src' True by (auto simp: split_lot_name_def move_fits_def lot_fits_def fits_varchar_def
          split: option.split)
    moreover have "fits_18_6 ?q" by (rule qq)
    ultimately have nl: "lot_fits (blank_lot\<lparr>
               lot_workspace_id := ws,
               lot_part_id := Some (ms_part_id pl),
               lot_name := Some (split_lot_name src),
               lot_parent_lot_id := Some (lot_id src),
               lot_description := lot_description src,
               lot_comments := Some (''split from '' @ uuid_str (lot_id src)),
               lot_expiration_date := lot_expiration_date src,
               lot_source_type := Split,
               lot_purchase_quantity := Some ?q,
               lot_purchase_unit_cost := lot_purchase_unit_cost src,
               lot_purchase_currency := lot_purchase_currency src,
               lot_created_by := user\<rparr>)" (is "lot_fits ?l")
      using fit no_nul_uuid_str by (simp add: lot_fits_def blank_lot_def)
    then obtain l d2 where l: "add_lot ?l d1 = Inr (l, d2)"
      by (auto simp: add_lot_def new_uuid_def Let_def)
    have ok2: "ledger_ok d2" by (rule add_lot_ledger_ok [OF ok1 l])
    have app: "appends d1 d2 []" by (rule add_lot_appends [OF ok1 l])
    then have f2: "parts d2 = parts d" "storages d2 = storages d" "stock_entries d2 = stock_entries d1"
      using f1 by (auto simp: appends_def same_catalog_def)
    have f3: "current_quantity d2 = current_quantity d"
      using current_quantity_cong [OF f2(3)] f1(4) by simp
    have "lots d2 s = Some src" using appends_lot [OF app] src' f1(1) by simp
    then have fl2: "\<not> foreign_lot d2 ws ?lot" using src by (simp add: s foreign_lot_def)
    have "\<not> foreign_lot d2 ws (Some (lot_id l))"
      using l by (auto simp: foreign_lot_def add_lot_Inr belonging_lot_def)
    from pair [OF ok2 f2(1,2) fl2 this f3] True Inr r src l s
    show ?thesis by (auto simp: move_stock_def Let_def simp del: belonging_lot_Some)
  qed
qed

text \<open>A pair that does not fit is refused with its first row.\<close>

lemma write_move_pair_misfit:
  assumes "\<not> (fits_18_6 q \<and> opt_ok no_nul comments)"
  shows "write_move_pair ws user part q src_sto src_lot dest_sto dest_lot comments b s d = Inl (DbError Data_error)"
proof -
  have "fits_18_6 (- q) \<longleftrightarrow> fits_18_6 q" by (simp add: fits_18_6_def)
  with assms show ?thesis
    by (auto simp: write_move_pair_def new_uuid_def Let_def insert_entry_def entry_fits_def blank_entry_def)
qed

lemma move_that_misfits_is_data_error:
  assumes m: "move_stock ws user pl d = Inl (DbError err)" and ok: "lots_ok d" and q: "0 < ms_quantity pl"
    and misfit: "\<not> move_fits d pl"
  shows "err = Data_error"
proof (cases "prepare_move ws (ms_part_id pl) (of_int (ms_quantity pl)) (ms_source_storage_location_id pl)
    (ms_source_lot_id pl) (ms_destination_storage_location_id pl) d")
  case (Inl e)
  with m prepare_move_error [of ws "ms_part_id pl" "of_int (ms_quantity pl)" "ms_source_storage_location_id pl"
    "ms_source_lot_id pl" "ms_destination_storage_location_id pl" d err]
  show ?thesis by (simp add: move_stock_def)
next
  case (Inr r)
  obtain part dest d1 where r: "r = ((part, dest), d1)" by (cases r) auto
  have d1: "lots d1 = lots d"
    using Inr r prepare_move_Inr enforce_Inr by (fastforce simp: lock_for_storage_constraint_def)
  have q': "fits_18_6 (of_int (ms_quantity pl)) \<longleftrightarrow> ms_quantity pl < 10 ^ 12" using q by (simp add: fits_of_int)
  show ?thesis
  proof (cases "ms_quantity pl < 10 ^ 12 \<and> opt_ok no_nul (ms_comments pl)")
    case False
    note wm = write_move_pair_misfit [of "of_int (ms_quantity pl)" "ms_comments pl", unfolded q', OF False]
    from m Inr r show ?thesis
      by (auto simp: move_stock_def Let_def wm add_lot_def new_uuid_def split: if_splits option.splits)
  next
    case True
    with misfit obtain l x n where s: "ms_source_lot_id pl = Some l" "lots d l = Some x" "ms_split_lot pl"
        "lot_name x = Some n" "194 < length n"
      by (auto simp: move_fits_def opt_ok_def split: option.splits)
    then have "\<not> fits_varchar 200 (split_lot_name x)" by (auto simp: split_lot_name_def fits_varchar_def)
    with m Inr r s d1 show ?thesis
      by (auto simp: move_stock_def Let_def add_lot_def lot_fits_def new_uuid_def belonging_lot_def blank_lot_def
          split: if_splits option.splits)
  qed
qed

text \<open>
  C40: the only error the database ever raises in a move of a positive quantity is that of
  a value its column cannot hold, and only when the request is one of three: a quantity of
  ten to the twelve or more, comments with a NUL, or the split of a lot whose name does
  not leave room for the suffix the service appends. Every other failing move is refused
  by one of the service's own checks.
\<close>

theorem move_stock_never_db_error:
  assumes ok: "ledger_ok d" "catalog_ok d" "units_ok d" "lots_ok d" and q: "0 < ms_quantity pl"
    and m: "move_stock ws user pl d = Inl (DbError err)"
  shows "err = Data_error
    \<and> (10 ^ 12 \<le> ms_quantity pl
       \<or> (\<exists>c. ms_comments pl = Some c \<and> CHR 0x00 \<in> set c)
       \<or> (\<exists>l x n. ms_split_lot pl \<and> ms_source_lot_id pl = Some l \<and> lots d l = Some x
            \<and> lot_name x = Some n \<and> 194 < length n))"
proof -
  have "\<not> move_fits d pl" using move_that_fits_no_db_error [OF ok q] m by auto
  with move_that_misfits_is_data_error [OF m ok(4) q this] show ?thesis
    by (auto simp: move_fits_def opt_ok_def no_nul_def not_less split: option.splits)
qed

lemma demo_lots_ok: "lots_ok demo"
  by (auto simp: lots_ok_def lot_fits_def blank_lot_def demo_def empty_db_def fits_varchar_def)

lemma move_stock_never_db_error_witness:
  "move_stock 1 None \<lparr>ms_part_id = 10, ms_source_storage_location_id = Some 20,
     ms_source_lot_id = Some 30, ms_destination_storage_location_id = 21, ms_quantity = 60,
     ms_split_lot = True, ms_comments = Some [CHR 0x00]\<rparr> demo = Inl (DbError Data_error)
   \<and> CHR 0x00 \<in> set [CHR 0x00]"
proof -
  let ?pl = "\<lparr>ms_part_id = 10, ms_source_storage_location_id = Some 20,
     ms_source_lot_id = Some 30, ms_destination_storage_location_id = 21, ms_quantity = 60,
     ms_split_lot = True, ms_comments = Some [CHR 0x00]\<rparr>"
  have "case move_stock 1 None ?pl demo of Inl (DbError e) \<Rightarrow> True | _ \<Rightarrow> False" by code_simp
  then obtain err where m: "move_stock 1 None ?pl demo = Inl (DbError err)"
    by (auto split: sum.splits error.splits)
  with move_stock_never_db_error [OF demo_ledger_ok demo_catalog_ok demo_units_ok demo_lots_ok _ m]
  show ?thesis by simp
qed

section \<open>Adding\<close>

lemma add_stock_lot_serial:
  assumes "ledger_ok d" and "add_stock_lot ws user part pl up cur d = Inr (l, d1)" and "as_lot pl = Some i"
  shows "\<exists>x y. l = Some x \<and> lots d1 (lot_id x) = Some y \<and> lot_serial_number y = li_serial_number i"
  using assms(2,3)
  by (auto simp: add_stock_lot_def Let_def bindr_Inr add_lot_Inr split: if_split_asm)

lemma add_stock_location:
  assumes ok: "ledger_ok d" "catalog_ok d" and add: "add_stock ws user pl d = Inr (e, d')"
  shows "se_storage_location_id e = as_storage_location_id pl"
proof -
  from add obtain part s d1 l d2 where
    st: "add_stock_storage ws pl (lock_for_stock_write ws (as_part_id pl) d) = Inr (s, d1)"
    and en: "add_entry (added_row ws user pl part s l (clock d2)) d2 = Inr (e, d')"
    unfolding add_stock_Inr by blast
  have "map_option sl_id s = as_storage_location_id pl"
    using add_stock_storage_effect(3,4) [OF st] ok(2) by (cases s) (auto simp: catalog_ok_def)
  with en show ?thesis by (auto simp: add_entry_Inr)
qed

text \<open>
  C33: a successful add appends one row and raises the balance of exactly one bucket, the
  part's bucket at the requested location and in the new row's lot, by exactly the
  requested quantity. A mandatory default location is honoured; and where the workspace
  tracks serial numbers a serialized part is added one unit at a time, in a lot that
  carries a serial number that is not blank.
\<close>

theorem add_stock_credits_one_bucket:
  assumes ok: "ledger_ok d" "catalog_ok d" and add: "add_stock ws user pl d = Inr (e, d')"
  shows "ledger_ok d' \<and> stock_entries d' = stock_entries d @ [stored_entry e]
    \<and> se_operation_type e = Op_add \<and> se_storage_location_id e = as_storage_location_id pl
    \<and> (\<forall>b. bucket_balance d' b = bucket_balance d b
         + (if b = (ws, as_part_id pl, as_storage_location_id pl, se_lot_id e, On_hand)
            then of_int (as_quantity pl) else 0))
    \<and> (\<forall>part. parts d (as_part_id pl) = Some part \<longrightarrow>
         (p_default_storage_mandatory part \<longrightarrow> p_default_storage_location_id part \<noteq> None \<longrightarrow>
            se_storage_location_id e = p_default_storage_location_id part)
       \<and> (\<forall>w. workspaces d ws = Some w \<longrightarrow> ws_serial_tracking_enabled w \<longrightarrow> p_serialized part \<longrightarrow>
            as_quantity pl = 1 \<and> (\<exists>i x s. se_lot_id e = Some i \<and> lots d' i = Some x
               \<and> lot_serial_number x = Some s \<and> strip s \<noteq> [])))"
proof -
  let ?d0 = "lock_for_stock_write ws (as_part_id pl) d"
  from add obtain part s d1 l d2 where
    p: "parts d (as_part_id pl) = Some part" "p_workspace_id part = ws"
    and st: "add_stock_storage ws pl ?d0 = Inr (s, d1)"
    and def_sto: "p_default_storage_mandatory part \<and> p_default_storage_location_id part \<noteq> None \<longrightarrow>
           map_option sl_id s = p_default_storage_location_id part"
    and ser: "add_stock_serial_error d1 ws part pl = None"
    and lt: "add_stock_lot ws user part pl (fst (add_stock_price pl)) (snd (add_stock_price pl)) d1 = Inr (l, d2)"
    and en: "add_entry (added_row ws user pl part s l (clock d2)) d2 = Inr (e, d')"
    unfolding add_stock_Inr by blast
  have id: "p_id part = as_part_id pl" using catalog_ok_part [OF ok(2) p(1)] by simp
  note eff = add_stock_effect [OF ok(1) add]
  have ok1: "ledger_ok d1" using add_stock_storage_effect(2) [OF st] ok(1) by simp
  have cat: "catalog_ok ?d0" by (rule catalog_ok_appends [OF ok(2) lock_for_stock_write_appends])
  have sto: "map_option sl_id s = as_storage_location_id pl"
    using add_stock_storage_effect(3,4) [OF st] ok(2)
    by (cases s) (auto simp: catalog_ok_def)
  have e: "bucket_of e = Some (ws, as_part_id pl, as_storage_location_id pl, se_lot_id e, On_hand)"
    "se_quantity_delta e = of_int (as_quantity pl)" "se_operation_type e = Op_add"
    "se_storage_location_id e = as_storage_location_id pl" "se_lot_id e = map_option lot_id l"
    using en id sto by (auto simp: add_entry_Inr bucket_of_def)
  have bal: "bucket_balance d' b = bucket_balance d b
         + (if b = (ws, as_part_id pl, as_storage_location_id pl, se_lot_id e, On_hand)
            then of_int (as_quantity pl) else 0)" for b
    using e(1,2) by (cases b) (auto simp: appends_current_quantity [OF eff(2)] counts_for_bucket bucket_of_def)
  have w1: "workspaces d1 = workspaces d"
    using add_stock_storage_effect(1) [OF st] by (simp add: appends_def same_catalog_def)
  have serial: "as_quantity pl = 1 \<and> (\<exists>i x s. se_lot_id e = Some i \<and> lots d' i = Some x
               \<and> lot_serial_number x = Some s \<and> strip s \<noteq> [])"
    if "workspaces d ws = Some w" "ws_serial_tracking_enabled w" "p_serialized part" for w
  proof -
    from ser that w1 obtain i n where i: "as_quantity pl = 1" "as_lot pl = Some i"
      "li_serial_number i = Some n" "strip n \<noteq> []"
      by (auto simp: add_stock_serial_error_def strip_def split: if_split_asm option.split_asm)
    from add_stock_lot_serial [OF ok1 lt i(2)] obtain x y where
      y: "l = Some x" "lots d2 (lot_id x) = Some y" "lot_serial_number y = Some n" by (auto simp: i)
    have "lots d' (lot_id x) = Some y" by (rule appends_lot [OF add_entry_appends [OF en] y(2)])
    with i y e(5) show ?thesis by auto
  qed
  show ?thesis
    using eff(1) eff(2) e(3,4) bal serial def_sto sto p(1) by (auto simp: appends_def)
qed

section \<open>Single-part locations\<close>

lemma parts_at_appends:
  assumes a: "appends d d' new" and p: "\<forall>e \<in> set new. se_part_id e = Some p"
  shows "parts_at d' w s \<subseteq> insert (Some p) (parts_at d w s)"
proof
  fix x assume "x \<in> parts_at d' w s"
  then obtain lot q where "((x, lot), q) \<in> set (stock_for_storage d' w s On_hand)"
    by (auto simp: parts_at_def)
  then have q: "q = sum_where se_quantity_delta (\<lambda>e. se_workspace_id e = w \<and> se_storage_location_id e = Some s
           \<and> se_status e = On_hand \<and> se_part_id e = x \<and> se_lot_id e = lot) (stock_entries d')" "q \<noteq> 0"
    by (simp_all add: stock_for_storage_iff)
  show "x \<in> insert (Some p) (parts_at d w s)"
  proof (cases "x = Some p")
    case False
    then have "sum_where se_quantity_delta (\<lambda>e. se_workspace_id e = w \<and> se_storage_location_id e = Some s
           \<and> se_status e = On_hand \<and> se_part_id e = x \<and> se_lot_id e = lot) new = 0"
      using p by (intro sum_where_none) auto
    with q a have "((x, lot), q) \<in> set (stock_for_storage d w s On_hand)"
      by (simp add: stock_for_storage_iff appends_def)
    then show ?thesis by (force simp: parts_at_def)
  qed simp
qed

lemma parts_at_elsewhere:
  assumes a: "appends d d' new"
    and "\<forall>e \<in> set new. \<not> (se_workspace_id e = w \<and> se_storage_location_id e = Some s)"
  shows "parts_at d' w s = parts_at d w s"
proof -
  have "((x, lot), q) \<in> set (stock_for_storage d' w s On_hand)
      \<longleftrightarrow> ((x, lot), q) \<in> set (stock_for_storage d w s On_hand)" for x lot q
  proof -
    have "sum_where se_quantity_delta (\<lambda>e. se_workspace_id e = w \<and> se_storage_location_id e = Some s
           \<and> se_status e = On_hand \<and> se_part_id e = x \<and> se_lot_id e = lot) new = 0"
      using assms(2) by (intro sum_where_none) auto
    with a show ?thesis by (simp add: stock_for_storage_iff appends_def)
  qed
  then show ?thesis by (fastforce simp: parts_at_def image_iff)
qed

definition single_part_respected :: "db \<Rightarrow> bool" where
  "single_part_respected d \<longleftrightarrow> (\<forall>s x. storages d s = Some x \<longrightarrow> sl_single_part_only x \<longrightarrow>
     (\<exists>p. parts_at d (sl_workspace_id x) s \<subseteq> {p}))"

text \<open>
  Appending rows of one part keeps it when each flagged location they touch holds only
  that part.
\<close>

lemma single_part_appends:
  assumes a: "appends d d' new" and p: "\<forall>e \<in> set new. se_part_id e = Some p"
    and r: "single_part_respected d"
    and touch: "\<And>e s x. e \<in> set new \<Longrightarrow> se_storage_location_id e = Some s \<Longrightarrow> storages d s = Some x
      \<Longrightarrow> sl_single_part_only x \<Longrightarrow> sl_workspace_id x = se_workspace_id e
      \<Longrightarrow> parts_at d (se_workspace_id e) s \<subseteq> {Some p} \<or> Some p \<in> parts_at d (se_workspace_id e) s"
  shows "single_part_respected d'"
  unfolding single_part_respected_def
proof (intro allI impI)
  fix s x assume "storages d' s = Some x" and x: "sl_single_part_only x"
  with a have s: "storages d s = Some x" by (simp add: appends_def same_catalog_def)
  let ?w = "sl_workspace_id x"
  from r s x obtain p0 where p0: "parts_at d ?w s \<subseteq> {p0}"
    unfolding single_part_respected_def by blast
  show "\<exists>p. parts_at d' ?w s \<subseteq> {p}"
  proof (cases "\<exists>e \<in> set new. se_workspace_id e = ?w \<and> se_storage_location_id e = Some s")
    case True
    then have "parts_at d ?w s \<subseteq> {Some p} \<or> Some p \<in> parts_at d ?w s" using touch s x by metis
    with parts_at_appends [OF a p, of ?w s] p0 show ?thesis by blast
  next
    case False
    with parts_at_elsewhere [OF a, of ?w s] p0 show ?thesis by (metis)
  qed
qed

lemma withdrawn_part_present:
  "0 < q \<Longrightarrow> q \<le> current_quantity d ws p (Some s) lot On_hand True \<Longrightarrow> Some p \<in> parts_at d ws s"
  by (auto simp: parts_at_Some intro!: exI [of _ lot])

text \<open>
  adding, removing and moving never put a second part on a location reserved for a
  single one: if no such location holds two parts before, none does afterwards.
\<close>

theorem single_part_only_respected:
  assumes ok: "ledger_ok d" "catalog_ok d" and r: "single_part_respected d"
  shows "(add_stock ws user a d = Inr (e, d') \<longrightarrow> single_part_respected d')
    \<and> (0 < rs_quantity b \<longrightarrow> remove_stock ws user b d = Inr (e, d') \<longrightarrow> single_part_respected d')
    \<and> (0 < ms_quantity m \<longrightarrow> move_stock ws user m d = Inr ((out, inn), d') \<longrightarrow> single_part_respected d')"
proof (intro conjI impI)
  assume add: "add_stock ws user a d = Inr (e, d')"
  let ?d0 = "lock_for_stock_write ws (as_part_id a) d"
  note eff = add_stock_effect [OF ok(1) add]
  have sto: "se_storage_location_id e = as_storage_location_id a" by (rule add_stock_location [OF ok add])
  from add obtain part s d1 l d2 where
    p: "parts d (as_part_id a) = Some part"
    and st: "add_stock_storage ws a ?d0 = Inr (s, d1)"
    and en: "add_entry (added_row ws user a part s l (clock d2)) d2 = Inr (e, d')"
    unfolding add_stock_Inr by blast
  have e: "se_part_id e = Some (as_part_id a)" "se_workspace_id e = ws"
    using en catalog_ok_part [OF ok(2) p] by (auto simp: add_entry_Inr)
  show "single_part_respected d'"
  proof (rule single_part_appends [OF eff(2) _ r])
    fix e' i x
    assume e': "e' \<in> set [stored_entry e]" "se_storage_location_id e' = Some i" "storages d i = Some x"
      "sl_single_part_only x"
    then have i: "as_storage_location_id a = Some i" and w: "se_workspace_id e' = ws"
      using sto e by auto
    from add_stock_storage_effect(3,4) [OF st] i have "enforce_storage_constraints ws x (as_part_id a) ?d0 = Inr d1"
      using e'(3) by (cases s) auto
    moreover have "sl_id x = i" using ok(2) e'(3) by (simp add: catalog_ok_def)
    ultimately have "parts_at ?d0 ws i \<subseteq> {Some (as_part_id a)}"
      using enforce_single_part_only [of ws x "as_part_id a" ?d0 d1] e'(3,4) by simp
    then show "parts_at d (se_workspace_id e') i \<subseteq> {Some (as_part_id a)}
        \<or> Some (as_part_id a) \<in> parts_at d (se_workspace_id e') i"
      unfolding w by (simp add: parts_at_def stock_for_storage_cong [of ?d0 d])
  qed (simp add: e)
next
  assume q: "0 < rs_quantity b" and rem: "remove_stock ws user b d = Inr (e, d')"
  note eff = remove_stock_effect [OF ok(1) rem]
  from rem ok(2) have e: "se_part_id e = Some (rs_part_id b)" "se_workspace_id e = ws"
    "se_storage_location_id e = rs_storage_location_id b"
    and bal: "of_int (rs_quantity b) \<le> current_quantity d ws (rs_part_id b) (rs_storage_location_id b)
                 (rs_lot_id b) On_hand True"
    unfolding remove_stock_Inr by (auto simp: add_entry_Inr dest: catalog_ok_part)
  show "single_part_respected d'"
    by (rule single_part_appends [OF eff(2) _ r])
       (use e bal q withdrawn_part_present [of "of_int (rs_quantity b)" d ws "rs_part_id b"] in auto)
next
  assume q: "0 < ms_quantity m" and mv: "move_stock ws user m d = Inr ((out, inn), d')"
  from ok mv show "single_part_respected d'"
  proof (rule move_stock_effect)
    fix part dest dest_lot
    let ?dst = "ms_destination_storage_location_id m"
    assume a: "appends d d' [stored_entry out, stored_entry inn]"
      and part: "p_id part = ms_part_id m" and dest: "storages d ?dst = Some dest"
      and acc: "location_accepts d ws dest (ms_part_id m)"
      and bal: "of_int (ms_quantity m) \<le> current_quantity d ws (ms_part_id m) (ms_source_storage_location_id m)
        (ms_source_lot_id m) On_hand True"
      and o: "row_like ws part (ms_source_storage_location_id m) (ms_source_lot_id m)
        (- of_int (ms_quantity m)) On_hand out"
      and i: "row_like ws part (Some ?dst) dest_lot (of_int (ms_quantity m)) On_hand inn"
    have "sl_id dest = ?dst" using ok(2) dest by (simp add: catalog_ok_def)
    with acc have acc': "sl_single_part_only dest \<Longrightarrow> parts_at d ws ?dst \<subseteq> {Some (ms_part_id m)}"
      by (simp add: location_accepts_def)
    show ?thesis
    proof (rule single_part_appends [OF a _ r, of "ms_part_id m"])
      show "\<forall>e \<in> set [stored_entry out, stored_entry inn]. se_part_id e = Some (ms_part_id m)"
        using o i part by (simp add: row_like_def)
    next
      fix e' s x
      assume e': "e' \<in> set [stored_entry out, stored_entry inn]" "se_storage_location_id e' = Some s"
        "storages d s = Some x" "sl_single_part_only x"
      show "parts_at d (se_workspace_id e') s \<subseteq> {Some (ms_part_id m)}
        \<or> Some (ms_part_id m) \<in> parts_at d (se_workspace_id e') s"
        using e' o i acc' dest q bal withdrawn_part_present [of "of_int (ms_quantity m)" d ws "ms_part_id m" s]
        by (auto simp: row_like_def)
    qed
  qed
qed

text \<open>A demo database whose single-part location 22 holds part 10.\<close>

definition demo_22 :: db where
  "demo_22 = demo\<lparr>stock_entries := stock_entries demo @ [demo_row 103 10 (Some 22) None 8]\<rparr>"

lemma demo_22_ok: "ledger_ok demo_22" "catalog_ok demo_22" "single_part_respected demo_22"
proof -
  have "list_all (row_balance_ok demo_22) (stock_entries demo_22)" by code_simp
  moreover have "list_all (row_ok demo_22) (stock_entries demo_22)" by code_simp
  moreover have "distinct (map se_id (stock_entries demo_22))" by code_simp
  moreover have "list_all (\<lambda>e. se_id e < next_uuid demo_22) (stock_entries demo_22)" by code_simp
  ultimately show "ledger_ok demo_22"
    by (rule ledger_okI) (simp add: demo_22_def demo_def empty_db_def)
  show "catalog_ok demo_22" using demo_catalog_ok by (simp add: demo_22_def catalog_ok_def)
  have "parts_at demo_22 1 22 \<subseteq> {Some 10}" by code_simp
  then show "single_part_respected demo_22"
    by (auto simp: single_part_respected_def demo_22_def demo_def empty_db_def demo_storage_def
        split: if_split_asm)
qed

lemma single_part_only_respected_witness:
  "\<exists>e d'. remove_stock 1 None \<lparr>rs_part_id = 10, rs_quantity = 3, rs_storage_location_id = Some 22,
     rs_lot_id = None, rs_comments = None\<rparr> demo_22 = Inr (e, d') \<and> single_part_respected d'"
proof -
  let ?pl = "\<lparr>rs_part_id = 10, rs_quantity = 3, rs_storage_location_id = Some 22,
     rs_lot_id = None, rs_comments = None\<rparr>"
  have "\<not> isl (remove_stock 1 None ?pl demo_22)" by code_simp
  then obtain e d' where r: "remove_stock 1 None ?pl demo_22 = Inr (e, d')"
    by (cases "remove_stock 1 None ?pl demo_22") auto
  with single_part_only_respected [OF demo_22_ok, of 1 None undefined e d' ?pl undefined undefined undefined]
  show ?thesis by simp
qed

text \<open>
  adjusting does not have this guarantee. On a well-formed ledger a stock count of a
  part that was never on a single-part location is accepted there, and leaves two parts
  on it, although the service says that \<open>adjust\<close> never brings a part into a constrained
  location.
\<close>

theorem adjust_can_mix_parts:
  "\<exists>d pl r d'. ledger_ok d \<and> catalog_ok d \<and> single_part_respected d
     \<and> adjust_stock 1 None pl d = Inr (r, d') \<and> \<not> single_part_respected d'"
proof -
  let ?pl = "\<lparr>aj_part_id = 11, aj_storage_location_id = Some 22, aj_lot_id = None,
     aj_actual_quantity = 5, aj_comments = None\<rparr>"
  have "case adjust_stock 1 None ?pl demo_22 of Inl _ \<Rightarrow> False
     | Inr (r, d') \<Rightarrow> Some 10 \<in> parts_at d' 1 22 \<and> Some 11 \<in> parts_at d' 1 22
         \<and> (case storages d' 22 of None \<Rightarrow> False | Some x \<Rightarrow> sl_single_part_only x \<and> sl_workspace_id x = 1)"
    by code_simp
  then obtain r d' x where "adjust_stock 1 None ?pl demo_22 = Inr (r, d')"
    and "Some 10 \<in> parts_at d' 1 22" "Some 11 \<in> parts_at d' 1 22"
    and "storages d' 22 = Some x" "sl_single_part_only x" "sl_workspace_id x = 1"
    by (auto split: sum.split_asm option.split_asm)
  moreover from this have "\<not> single_part_respected d'"
    unfolding single_part_respected_def by (metis option.inject singletonD subsetD numeral_eq_iff num.distinct num.inject)
  ultimately show ?thesis using demo_22_ok by blast
qed

section \<open>What the locales give\<close>

text \<open>
  C1: the ledger never goes below zero. A row that would take its bucket below zero is
  refused, whatever the service checked before it.
\<close>

theorem insert_never_overdraws:
  assumes "ledger_ok d" and "new_row_id e d" and "bucket_of e = Some b"
    and "bucket_balance d b + posted_amount e < 0"
  shows "\<exists>x. insert_entry e d = Inl x"
  using assms by (rule ledger.no_overdraft)

lemma insert_never_overdraws_witness:
  "\<exists>x. insert_entry (demo_row 900 10 (Some 21) None (- 51)) demo = Inl x"
proof (rule insert_never_overdraws [OF demo_ledger_ok])
  show "new_row_id (demo_row 900 10 (Some 21) None (- 51)) demo" by code_simp
  show "bucket_of (demo_row 900 10 (Some 21) None (- 51)) = Some (1, 10, Some 21, None, On_hand)"
    by code_simp
  show "bucket_balance demo (1, 10, Some 21, None, On_hand)
      + posted_amount (demo_row 900 10 (Some 21) None (- 51)) < 0" by code_simp
qed

text \<open>
  C36: transactions that lock through \<open>lock_parts_for_stock_write\<close>, and at most one
  location after that, never deadlock, however many run at once and whatever parts they
  name: every reachable state can be driven to one where all have committed.
\<close>

theorem stock_transactions_all_commit:
  assumes "lock_reachable (\<lambda>t :: nat. if t < n then stock_lock_program ws (req t) else []) s"
  shows "\<not> deadlocked s \<and> (\<exists>s'. lock_step\<^sup>*\<^sup>* s s' \<and> finished s')"
  using stock_txns.no_deadlock [OF assms] stock_txns.all_commit [OF assms] ..

text \<open>Two transactions naming the same two parts in opposite orders, one of them under way.\<close>

lemma stock_transactions_all_commit_witness:
  "\<exists>s. lock_reachable (\<lambda>t :: nat. if t < 2 then stock_lock_program 1 ((\<lambda>t. if t = 0 then ([10, 11], Some 20)
     else ([11, 10], None)) t) else []) s \<and> fst s 0 = {Part_lock 1 10} \<and> \<not> deadlocked s"
proof -
  let ?prog = "\<lambda>t :: nat. if t < 2 then stock_lock_program 1 ((\<lambda>t. if t = 0 then ([10, 11], Some 20)
     else ([11, 10], None)) t) else []"
  have "?prog 0 = Part_lock 1 10 # [Part_lock 1 11, Storage_lock 1 20]" by code_simp
  then have "lock_step (\<lambda>_. {}, ?prog) ((\<lambda>_. {})(0 := insert (Part_lock 1 10) {}),
      ?prog(0 := [Part_lock 1 11, Storage_lock 1 20]))"
    by (rule lock_step.grant) simp
  then have "lock_reachable ?prog ((\<lambda>_. {})(0 := insert (Part_lock 1 10) {}),
      ?prog(0 := [Part_lock 1 11, Storage_lock 1 20]))"
    by (rule lock_reachable.step [OF lock_reachable.start])
  with stock_transactions_all_commit [OF this] show ?thesis by (intro exI conjI) auto
qed

definition demo_add :: add_stock_in where
  "demo_add = \<lparr>as_part_id = 14, as_quantity = 1, as_storage_location_id = Some 21, as_price = None,
     as_lot = Some \<lparr>li_name = None, li_comments = None, li_expiration_date = None, li_serial_number = Some ''SN1''\<rparr>,
     as_comments = None, as_bag_signature = None\<rparr>"

lemma add_stock_credits_one_bucket_witness:
  "\<exists>e d'. add_stock 1 None demo_add demo = Inr (e, d') \<and> ledger_ok d' \<and> se_storage_location_id e = Some 21"
proof -
  have "\<not> isl (add_stock 1 None demo_add demo)" by code_simp
  then obtain e d' where r: "add_stock 1 None demo_add demo = Inr (e, d')"
    by (cases "add_stock 1 None demo_add demo") auto
  with add_stock_credits_one_bucket [OF demo_ledger_ok demo_catalog_ok r] show ?thesis
    by (simp add: demo_add_def)
qed

lemma pick_list_loses_nothing_witness:
  "sum_list (map snd (bulk_stock_by_location demo 1 [10, 11] On_hand 10)) = 150"
proof -
  have "total_for_part demo 1 10 On_hand = 150" by code_simp
  moreover have "10 \<in> set [10 :: uuid, 11]" "part_in_ws demo 1 10" by (simp, code_simp)
  ultimately show ?thesis using pick_list_loses_nothing [OF demo_ledger_ok, of 10 "[10, 11]" 1 On_hand] by simp
qed

end
