(* ===== verification/Builds.thy ===== *)
theory Builds
  imports StockOps
begin

text \<open>
  Builds (\<open>backend/app/domain/builds/service.py\<close>): the attrition-adjusted requirement of a
  bill-of-materials line, substitutes, shortage analysis, reservations and their release,
  and the whole-build consumption with its sub-assembly output.

  A release is measured in quantity: what is outstanding of a reserve row is its amount
  less the release rows that point at it. Requirements are computed in Python's decimal
  arithmetic (\<open>dec_mul\<close> and its companions); sums of ledger rows are computed by the
  database and are exact. The rows an operation writes are inserted one by one; where
  the code flushes several rows at once the statement inserts them in the same order.
\<close>

section \<open>Requirements\<close>

definition required :: "project_entry \<Rightarrow> part option \<Rightarrow> nat \<Rightarrow> int" where
  "required entry part build_qty =
     (let base = dec_mul (pe_quantity entry) (of_nat build_qty);
          part_pct = (case part of None \<Rightarrow> 0 | Some p \<Rightarrow> p_attrition_percentage p);
          line_pct = pe_attrition_pct entry;
          floor_extra = (case part of None \<Rightarrow> 0 | Some p \<Rightarrow> p_attrition_min_quantity p);
          target = dec_mul (dec_mul base (dec_add 1 (dec_div part_pct 100)))
                     (dec_add 1 (dec_div line_pct 100))
      in \<lceil>max target (dec_add base floor_extra)\<rceil>)"

definition candidate_part_ids :: "db \<Rightarrow> part \<Rightarrow> uuid list" where
  "candidate_part_ids d part =
     (if p_part_type part = Meta then
        filter (\<lambda>r. r \<noteq> p_id part) (map pm_part_id
          (filter (\<lambda>m. pm_workspace_id m = p_workspace_id part \<and> pm_meta_part_id m = p_id part)
            (part_meta_members d)))
      else
        filter (\<lambda>s. s \<noteq> p_id part)
          (map (\<lambda>s. if ps_part_id s = p_id part then ps_substitute_part_id s else ps_part_id s)
            (filter (\<lambda>s. ps_workspace_id s = p_workspace_id part \<and> (ps_part_id s = p_id part
                \<or> (ps_substitute_part_id s = p_id part \<and> ps_direction s = Bidirectional)))
              (part_substitutes d))))"

text \<open>\<open>ORDER BY order_index\<close>; ties are left in insertion order.\<close>

definition project_bom :: "db \<Rightarrow> uuid \<Rightarrow> project \<Rightarrow> project_entry list" where
  "project_bom d ws pr = sort_key pe_order_index
     (filter (\<lambda>e. pe_workspace_id e = ws \<and> pe_project_id e = pr_id pr) (project_entries d))"

record shortage_row =
  sr_project_entry_id :: uuid
  sr_part_id :: uuid
  sr_part_name :: string
  sr_required :: int
  sr_available :: rat
  sr_substitute_ids :: "uuid list"
  sr_substitute_available :: rat
  sr_short_by :: rat

definition shortage_row_of :: "db \<Rightarrow> uuid \<Rightarrow> nat \<Rightarrow> project_entry \<Rightarrow> part \<Rightarrow> shortage_row" where
  "shortage_row_of d ws build_quantity e part =
     (let req = required e (Some part) build_quantity;
          available = current_quantity d ws (p_id part) None None On_hand False;
          sub_ids = candidate_part_ids d part;
          sub_avail = sum_list (map (\<lambda>s. current_quantity d ws s None None On_hand False) sub_ids)
      in \<lparr>sr_project_entry_id = pe_id e, sr_part_id = p_id part, sr_part_name = p_name part,
          sr_required = req, sr_available = available, sr_substitute_ids = sub_ids,
          sr_substitute_available = sub_avail,
          sr_short_by = max 0 (of_int req - (available + sub_avail))\<rparr>)"

definition shortage_analysis :: "db \<Rightarrow> uuid \<Rightarrow> project \<Rightarrow> nat \<Rightarrow> shortage_row list" where
  "shortage_analysis d ws pr build_quantity =
     List.map_filter (\<lambda>e.
       if pe_dnp e then None
       else if pe_entry_type e \<notin> {Et_part, Et_meta_part} then None
       else case pe_part_id e of None \<Rightarrow> None
       | Some i \<Rightarrow> (case parts d i of None \<Rightarrow> None
                  | Some part \<Rightarrow> Some (shortage_row_of d ws build_quantity e part)))
     (project_bom d ws pr)"

definition consumable_entries :: "db \<Rightarrow> uuid \<Rightarrow> project \<Rightarrow> project_entry list" where
  "consumable_entries d ws pr =
     filter (\<lambda>e. \<not> pe_dnp e \<and> pe_entry_type e \<in> {Et_part, Et_meta_part} \<and> pe_part_id e \<noteq> None)
       (project_bom d ws pr)"

section \<open>Reservations\<close>

definition reserve_entry ::
    "uuid \<Rightarrow> uuid option \<Rightarrow> build \<Rightarrow> project \<Rightarrow> nat \<Rightarrow> project_entry \<Rightarrow> db \<times> nat \<Rightarrow> error + db \<times> nat" where
  "reserve_entry ws user b pr now e st =
     (let (d, written) = st in
      case Option.bind (pe_part_id e) (parts d) of None \<Rightarrow> Inr st
      | Some part \<Rightarrow>
        let qty = required e (Some part) (b_quantity b) in
        if qty \<le> 0 then Inr st
        else bindr (add_entry (blank_entry\<lparr>
            se_workspace_id := ws,
            se_part_id := Some (p_id part),
            se_quantity_delta := of_int qty,
            se_unit := unit_for_part (Some part),
            se_status := Reserved,
            se_operation_type := Op_reserve,
            se_build_id := Some (b_id b),
            se_project_id := Some (pr_id pr),
            se_occurred_at := now,
            se_created_by := user\<rparr>) d) (\<lambda>(_, d1). Inr (d1, Suc written)))"

definition apply_reservations ::
    "uuid \<Rightarrow> uuid option \<Rightarrow> build \<Rightarrow> project \<Rightarrow> db \<Rightarrow> error + db \<times> nat" where
  "apply_reservations ws user b pr d =
     (let consumable = consumable_entries d ws pr;
          d1 = lock_parts_for_stock_write ws (List.map_filter pe_part_id consumable) d
      in foldr_r (reserve_entry ws user b pr (clock d1)) consumable (d1, 0))"

text \<open>The reserve rows of a build, oldest first.\<close>

definition reserve_rows :: "db \<Rightarrow> uuid \<Rightarrow> uuid \<Rightarrow> stock_entry list" where
  "reserve_rows d ws bid = sort_key se_occurred_at (sort_key se_id
     (filter (\<lambda>e. se_workspace_id e = ws \<and> se_build_id e = Some bid \<and> se_status e = Reserved
        \<and> se_operation_type e = Op_reserve) (stock_entries d)))"

definition released_by_reserve :: "db \<Rightarrow> uuid \<Rightarrow> uuid \<Rightarrow> uuid \<Rightarrow> rat" where
  "released_by_reserve d ws bid r =
     (case map_of (group_sum se_related_entry_id (\<lambda>e. - se_quantity_delta e)
        (\<lambda>e. se_workspace_id e = ws \<and> se_build_id e = Some bid \<and> se_status e = Reserved
           \<and> se_operation_type e = Op_release \<and> se_related_entry_id e \<noteq> None) (stock_entries d)) (Some r)
      of None \<Rightarrow> 0 | Some q \<Rightarrow> q)"

definition outstanding_reservations ::
    "db \<Rightarrow> uuid \<Rightarrow> build \<Rightarrow> uuid option list \<times> (stock_entry \<times> rat) list" where
  "outstanding_reservations d ws b =
     (let rows = reserve_rows d ws (b_id b) in
      if rows = [] then ([], [])
      else (map se_part_id rows,
            filter (\<lambda>(_, remaining). 0 < remaining)
              (map (\<lambda>r. (r, se_quantity_delta r - released_by_reserve d ws (b_id b) (se_id r))) rows)))"

definition write_release ::
    "uuid \<Rightarrow> uuid option \<Rightarrow> build \<Rightarrow> stock_entry \<Rightarrow> rat \<Rightarrow> uuid option \<Rightarrow> nat \<Rightarrow> db \<Rightarrow> error + db" where
  "write_release ws user b reserve quantity stage now d =
     bindr (add_entry (blank_entry\<lparr>
            se_workspace_id := ws,
            se_part_id := se_part_id reserve,
            se_quantity_delta := - quantity,
            se_unit := se_unit reserve,
            se_status := Reserved,
            se_operation_type := Op_release,
            se_related_entry_id := Some (se_id reserve),
            se_build_id := Some (b_id b),
            se_build_stage_id := stage,
            se_project_id := se_project_id reserve,
            se_occurred_at := now,
            se_created_by := user\<rparr>) d) (\<lambda>(_, d1). Inr d1)"

definition release_reservations ::
    "uuid \<Rightarrow> uuid option \<Rightarrow> build \<Rightarrow> db \<Rightarrow> error + db \<times> nat" where
  "release_reservations ws user b d =
     (let (all_part_ids, outstanding) = outstanding_reservations d ws b in
      if all_part_ids = [] then Inr (d, 0)
      else let d1 = lock_parts_for_stock_write ws (List.map_filter id all_part_ids) d in
      bindr (foldr_r (\<lambda>(reserve, remaining). write_release ws user b reserve remaining None (clock d1))
               outstanding d1)
        (\<lambda>d2. Inr (d2, length outstanding)))"

text \<open>Draining the reserve rows of one part, oldest first, until nothing more is wanted.\<close>

fun release_amount ::
    "uuid \<Rightarrow> uuid option \<Rightarrow> build \<Rightarrow> uuid option \<Rightarrow> nat \<Rightarrow> rat \<Rightarrow> (stock_entry \<times> rat) list \<Rightarrow> db \<times> nat
     \<Rightarrow> error + db \<times> nat" where
  "release_amount ws user b stage now want [] st = Inr st"
| "release_amount ws user b stage now want ((reserve, remaining) # rest) (d, written) =
     (if want \<le> 0 then Inr (d, written)
      else let take' = min want remaining in
      bindr (write_release ws user b reserve take' stage now d)
        (\<lambda>d1. release_amount ws user b stage now (want - take') rest (d1, Suc written)))"

definition release_reservation_amounts ::
    "uuid \<Rightarrow> uuid option \<Rightarrow> build \<Rightarrow> (uuid \<times> rat) list \<Rightarrow> uuid option \<Rightarrow> db \<Rightarrow> error + db \<times> nat" where
  "release_reservation_amounts ws user b amounts stage d =
     (let (all_part_ids, outstanding) = outstanding_reservations d ws b in
      if all_part_ids = [] then Inr (d, 0)
      else let d1 = lock_parts_for_stock_write ws (List.map_filter id all_part_ids) d;
               by_part = (\<lambda>p. filter (\<lambda>(r, _). se_part_id r = Some p) outstanding)
      in foldr_r (\<lambda>p. release_amount ws user b stage (clock d1) (the (map_of amounts p)) (by_part p))
           (sort (map fst amounts)) (d1, 0))"

section \<open>Consumption\<close>

record consume_line =
  cl_project_entry_id :: uuid
  cl_part_id :: uuid
  cl_quantity :: int
  cl_lot_id :: "uuid option"
  cl_storage_location_id :: "uuid option"

record consume_in =
  ci_lines :: "consume_line list"
  ci_output_storage_location_id :: "uuid option"
  ci_output_lot_name :: "string option"

definition lock_for_consume :: "uuid \<Rightarrow> project \<Rightarrow> uuid list \<Rightarrow> db \<Rightarrow> db" where
  "lock_for_consume ws pr line_part_ids d =
     lock_parts_for_stock_write ws
       (List.map_filter pe_part_id (consumable_entries d ws pr) @ line_part_ids
        @ (case pr_associated_subassembly_part_id pr of None \<Rightarrow> [] | Some p \<Rightarrow> [p])) d"

definition project_entries_by_id :: "db \<Rightarrow> uuid \<Rightarrow> project \<Rightarrow> (uuid \<rightharpoonup> project_entry)" where
  "project_entries_by_id d ws pr = map_of (map (\<lambda>e. (pe_id e, e))
     (rev (filter (\<lambda>e. pe_workspace_id e = ws \<and> pe_project_id e = pr_id pr) (project_entries d))))"

text \<open>The pre-pass: total demand per (part, lot, location) bucket against that bucket.\<close>

definition line_bucket :: "consume_line \<Rightarrow> uuid \<times> uuid option \<times> uuid option" where
  "line_bucket l = (cl_part_id l, cl_lot_id l, cl_storage_location_id l)"

definition check_demand :: "db \<Rightarrow> uuid \<Rightarrow> consume_line list \<Rightarrow> error + unit" where
  "check_demand d ws lines =
     foldr_r (\<lambda>key _. let (part_id, lot_id', sto) = key;
          total = sum_where cl_quantity (\<lambda>l. line_bucket l = key) lines;
          avail = current_quantity d ws part_id sto lot_id' On_hand True
        in if avail < of_int total
           then Inl (BuildError (Build_insufficient part_id avail (of_int total))) else Inr ())
       (dict_keys (map line_bucket lines)) ()"

text \<open>The checks on one line, in the code's order.\<close>

definition check_line ::
    "uuid \<Rightarrow> (uuid \<rightharpoonup> project_entry) \<Rightarrow> (uuid \<times> int) list \<Rightarrow> consume_line \<Rightarrow> db \<Rightarrow> error + project_entry" where
  "check_line ws entries_by_id required_by_entry l d =
     (case entries_by_id (cl_project_entry_id l) of
        None \<Rightarrow> Inl (BuildError (Entry_not_in_project (cl_project_entry_id l)))
      | Some e \<Rightarrow>
        (case pe_part_id e of None \<Rightarrow> Inl (BuildError (Entry_has_no_part (pe_id e)))
         | Some entry_part_id \<Rightarrow>
        if pe_entry_type e \<notin> {Et_part, Et_meta_part} then Inl (BuildError (Entry_has_no_part (pe_id e)))
        else if pe_dnp e then Inl (BuildError (Entry_is_dnp (pe_id e)))
        else if pe_id e \<notin> fst ` set required_by_entry then Inl (BuildError (Entry_not_in_stage (pe_id e)))
        else
        bindr (if cl_part_id l \<noteq> entry_part_id then
                 (case parts d entry_part_id of None \<Rightarrow> Inl (BuildError (Entry_missing_part (pe_id e)))
                  | Some entry_part \<Rightarrow>
                    if cl_part_id l \<notin> set (candidate_part_ids d entry_part)
                    then Inl (BuildError (Not_a_candidate (cl_part_id l) (pe_id e))) else Inr ())
               else Inr ()) (\<lambda>_.
        if foreign_lot d ws (cl_lot_id l)
        then Inl (BuildError (Build_lot_not_in_workspace (the (cl_lot_id l))))
        else if foreign_storage d ws (cl_storage_location_id l)
        then Inl (BuildError (Build_storage_not_in_workspace (the (cl_storage_location_id l))))
        else let avail = current_quantity d ws (cl_part_id l) (cl_storage_location_id l)
                   (cl_lot_id l) On_hand True in
        if avail < of_int (cl_quantity l)
        then Inl (BuildError (Build_insufficient (cl_part_id l) avail (of_int (cl_quantity l))))
        else Inr e)))"

text \<open>One line: the checks, the ledger row, the running total per entry.\<close>

definition apply_consume_line ::
    "uuid \<Rightarrow> uuid option \<Rightarrow> build \<Rightarrow> project \<Rightarrow> (uuid \<rightharpoonup> project_entry) \<Rightarrow> (uuid \<times> int) list \<Rightarrow> nat
     \<Rightarrow> uuid option \<Rightarrow> consume_line \<Rightarrow> db \<times> stock_entry list \<times> (uuid \<Rightarrow> int)
     \<Rightarrow> error + db \<times> stock_entry list \<times> (uuid \<Rightarrow> int)" where
  "apply_consume_line ws user b pr entries_by_id required_by_entry now stage l st =
     (let (d, consumed, requested) = st in
      bindr (check_line ws entries_by_id required_by_entry l d) (\<lambda>e.
      bindr (add_entry (blank_entry\<lparr>
            se_workspace_id := ws,
            se_part_id := Some (cl_part_id l),
            se_lot_id := cl_lot_id l,
            se_storage_location_id := cl_storage_location_id l,
            se_quantity_delta := - of_int (cl_quantity l),
            se_unit := unit_for_part (parts d (cl_part_id l)),
            se_status := On_hand,
            se_operation_type := Op_build_consume,
            se_build_id := Some (b_id b),
            se_build_stage_id := stage,
            se_project_id := Some (pr_id pr),
            se_occurred_at := now,
            se_created_by := user\<rparr>) d) (\<lambda>(row, d1).
      Inr (d1, consumed @ [row], requested(pe_id e := requested (pe_id e) + cl_quantity l)))))"

definition check_coverage ::
    "db \<Rightarrow> (uuid \<rightharpoonup> project_entry) \<Rightarrow> (uuid \<times> int) list \<Rightarrow> (uuid \<Rightarrow> int) \<Rightarrow> error + unit" where
  "check_coverage d entries_by_id required_by_entry requested =
     foldr_r (\<lambda>(entry_id, req) _.
        case entries_by_id entry_id of None \<Rightarrow> Inr ()
        | Some e \<Rightarrow> (case Option.bind (pe_part_id e) (parts d) of None \<Rightarrow> Inr ()
          | Some part \<Rightarrow>
            if requested entry_id < req
            then Inl (BuildError (Under_consumed entry_id req (requested entry_id))) else Inr ()))
       required_by_entry ()"

definition apply_consume_lines ::
    "uuid \<Rightarrow> uuid option \<Rightarrow> build \<Rightarrow> project \<Rightarrow> consume_line list \<Rightarrow> (uuid \<rightharpoonup> project_entry)
     \<Rightarrow> (uuid \<times> int) list \<Rightarrow> nat \<Rightarrow> uuid option \<Rightarrow> db \<Rightarrow> error + stock_entry list \<times> db" where
  "apply_consume_lines ws user b pr lines entries_by_id required_by_entry now stage d =
     bindr (check_demand d ws lines) (\<lambda>_.
     bindr (foldr_r (apply_consume_line ws user b pr entries_by_id required_by_entry now stage) lines
              (d, [], \<lambda>_. 0)) (\<lambda>(d1, consumed, requested).
     bindr (check_coverage d1 entries_by_id required_by_entry requested) (\<lambda>_.
     Inr (consumed, d1))))"

definition produce_output ::
    "uuid \<Rightarrow> uuid option \<Rightarrow> build \<Rightarrow> project \<Rightarrow> uuid option \<Rightarrow> string option \<Rightarrow> nat \<Rightarrow> db
     \<Rightarrow> error + (lot \<times> stock_entry) option \<times> db" where
  "produce_output ws user b pr out_sto out_name now d =
     (case pr_associated_subassembly_part_id pr of None \<Rightarrow> Inr (None, d)
      | Some sub_id \<Rightarrow>
        (case belonging_part d ws sub_id of None \<Rightarrow> Inl (BuildError Subassembly_not_in_workspace)
         | Some sub_part \<Rightarrow>
        bindr (case out_sto of None \<Rightarrow> Inr (None, d)
               | Some i \<Rightarrow>
                 (case belonging_storage d ws i of
                    None \<Rightarrow> Inl (BuildError Output_storage_not_in_workspace)
                  | Some storage \<Rightarrow>
                    if sl_archived_at storage \<noteq> None \<or> sl_is_full storage
                    then Inl (BuildError Output_storage_archived_or_full)
                    else bindr (enforce_storage_constraints ws storage (p_id sub_part) d)
                           (\<lambda>d1. Inr (Some storage, d1)))) (\<lambda>(storage, d1).
        bindr (add_lot (blank_lot\<lparr>
            lot_workspace_id := ws,
            lot_part_id := Some (p_id sub_part),
            lot_name := (if out_name = None \<or> out_name = Some [] then Some (b_name b @ ''-out'') else out_name),
            lot_source_type := From_build,
            lot_source_build_id := Some (b_id b),
            lot_purchase_quantity := Some (of_nat (b_quantity b)),
            lot_created_by := user\<rparr>) d1) (\<lambda>(output_lot, d2).
        bindr (add_entry (blank_entry\<lparr>
            se_workspace_id := ws,
            se_part_id := Some (p_id sub_part),
            se_lot_id := Some (lot_id output_lot),
            se_storage_location_id := map_option sl_id storage,
            se_quantity_delta := of_nat (b_quantity b),
            se_unit := unit_for_part (Some sub_part),
            se_status := On_hand,
            se_operation_type := Op_build_produce,
            se_build_id := Some (b_id b),
            se_project_id := Some (pr_id pr),
            se_occurred_at := now,
            se_created_by := user\<rparr>) d2) (\<lambda>(output_entry, d3).
        Inr (Some (output_lot, output_entry), d3))))))"

definition complete_build :: "build \<Rightarrow> uuid option \<Rightarrow> lot option \<Rightarrow> nat \<Rightarrow> db \<Rightarrow> db" where
  "complete_build b user output_lot now d =
     d\<lparr>builds := (builds d)(b_id b \<mapsto> b\<lparr>b_status := Complete,
         b_started_at := (case b_started_at b of None \<Rightarrow> Some now | Some t \<Rightarrow> Some t),
         b_completed_at := Some now,
         b_output_lot_id := map_option lot_id output_lot,
         b_updated_by := user\<rparr>)\<rparr>"

text \<open>What every consumable entry needs for the whole build.\<close>

definition required_whole_build :: "db \<Rightarrow> uuid \<Rightarrow> build \<Rightarrow> project \<Rightarrow> (uuid \<times> int) list" where
  "required_whole_build d ws b pr =
     List.map_filter (\<lambda>e. case Option.bind (pe_part_id e) (parts d) of None \<Rightarrow> None
        | Some part \<Rightarrow> Some (pe_id e, required e (Some part) (b_quantity b)))
     (consumable_entries d ws pr)"

record consume_result =
  cr_consumed :: "stock_entry list"
  cr_output_lot :: "lot option"
  cr_output_entry :: "stock_entry option"

definition consume ::
    "uuid \<Rightarrow> uuid option \<Rightarrow> build \<Rightarrow> project \<Rightarrow> consume_in \<Rightarrow> db \<Rightarrow> error + consume_result \<times> db" where
  "consume ws user b pr payload d =
     (if b_status b \<notin> {Planned, In_progress} then Inl (BuildError (Build_is (b_status b)))
      else let d0 = lock_for_consume ws pr (map cl_part_id (ci_lines payload)) d in
      bindr (release_reservations ws user b d0) (\<lambda>(d1, _).
      let entries_by_id = project_entries_by_id d1 ws pr;
          required_by_entry = required_whole_build d1 ws b pr;
          now = clock d1 in
      bindr (apply_consume_lines ws user b pr (ci_lines payload) entries_by_id required_by_entry now None d1)
        (\<lambda>(consumed, d2).
      bindr (produce_output ws user b pr (ci_output_storage_location_id payload)
               (ci_output_lot_name payload) now d2) (\<lambda>(out, d3).
      Inr (\<lparr>cr_consumed = consumed, cr_output_lot = map_option fst out,
            cr_output_entry = map_option snd out\<rparr>,
           complete_build b user (map_option fst out) now d3)))))"

section \<open>What the ledger writes of a build do\<close>

lemma lock_parts_simps [simp]:
  "ledger_ok (lock_parts_for_stock_write ws ps d) \<longleftrightarrow> ledger_ok d"
  "stock_entries (lock_parts_for_stock_write ws ps d) = stock_entries d"
  "clock (lock_parts_for_stock_write ws ps d) = clock d"
  "current_quantity (lock_parts_for_stock_write ws ps d) = current_quantity d"
proof -
  note f = lock_parts_frame [where d = d and ws = ws and ps = ps]
  show "ledger_ok (lock_parts_for_stock_write ws ps d) \<longleftrightarrow> ledger_ok d" by (rule f)
  show s: "stock_entries (lock_parts_for_stock_write ws ps d) = stock_entries d"
    and "clock (lock_parts_for_stock_write ws ps d) = clock d"
    using f(1) by (simp_all add: appends_def same_catalog_def)
  show "current_quantity (lock_parts_for_stock_write ws ps d) = current_quantity d"
    by (rule current_quantity_cong [OF s])
qed

lemma appends_catalog:
  assumes "appends d d' new"
  shows "parts d' = parts d" "storages d' = storages d" "workspaces d' = workspaces d"
    "project_entries d' = project_entries d" "part_substitutes d' = part_substitutes d"
    "part_meta_members d' = part_meta_members d" "clock d' = clock d" "projects d' = projects d"
  using assms by (simp_all add: appends_def same_catalog_def)

lemma bom_cong:
  assumes "project_entries d' = project_entries d"
  shows "project_bom d' = project_bom d" "consumable_entries d' = consumable_entries d"
    "project_entries_by_id d' = project_entries_by_id d"
  using assms by (simp_all add: project_bom_def consumable_entries_def project_entries_by_id_def fun_eq_iff)

lemma required_whole_build_cong:
  "project_entries d' = project_entries d \<Longrightarrow> parts d' = parts d
   \<Longrightarrow> required_whole_build d' = required_whole_build d"
  by (intro ext) (simp add: required_whole_build_def bom_cong(2) [of d' d])

lemma candidate_part_ids_cong:
  "part_substitutes d' = part_substitutes d \<Longrightarrow> part_meta_members d' = part_meta_members d
   \<Longrightarrow> candidate_part_ids d' = candidate_part_ids d"
  by (simp add: candidate_part_ids_def fun_eq_iff)

subsection \<open>Releases\<close>

text \<open>A stored release row of \<open>q\<close> against a reserve row.\<close>

definition releases :: "uuid \<Rightarrow> uuid \<Rightarrow> stock_entry \<Rightarrow> rat \<Rightarrow> stock_entry \<Rightarrow> bool" where
  "releases ws bid r q e \<longleftrightarrow> se_workspace_id e = ws \<and> se_part_id e = se_part_id r
     \<and> se_lot_id e = None \<and> se_storage_location_id e = None \<and> se_quantity_delta e = - round_6 q
     \<and> se_status e = Reserved \<and> se_operation_type e = Op_release
     \<and> se_related_entry_id e = Some (se_id r) \<and> se_build_id e = Some bid"

lemma write_release_effect:
  assumes "ledger_ok d" and "write_release ws user b r q stage now d = Inr d'"
  shows "ledger_ok d'" and "\<exists>e. appends d d' [e] \<and> releases ws (b_id b) r q e"
proof -
  from assms(2) obtain e where e: "add_entry (blank_entry\<lparr>
            se_workspace_id := ws,
            se_part_id := se_part_id r,
            se_quantity_delta := - q,
            se_unit := se_unit r,
            se_status := Reserved,
            se_operation_type := Op_release,
            se_related_entry_id := Some (se_id r),
            se_build_id := Some (b_id b),
            se_build_stage_id := stage,
            se_project_id := se_project_id r,
            se_occurred_at := now,
            se_created_by := user\<rparr>) d = Inr (e, d')"
    by (auto simp: write_release_def bindr_Inr)
  show "ledger_ok d'" by (rule add_entry_ledger_ok [OF assms(1) e])
  have "releases ws (b_id b) r q (stored_entry e)"
    using e by (auto simp: add_entry_Inr releases_def blank_entry_def)
  with add_entry_appends [OF e] show "\<exists>e. appends d d' [e] \<and> releases ws (b_id b) r q e" by blast
qed

lemma release_all_effect:
  assumes "ledger_ok d"
    and "foldr_r (\<lambda>(r, q). write_release ws user b r q stage now) outs d = Inr d'"
  shows "ledger_ok d' \<and> (\<exists>rows. appends d d' rows \<and> list_all2 (\<lambda>(r, q). releases ws (b_id b) r q) outs rows)"
  using assms
proof (induction outs arbitrary: d)
  case Nil
  then show ?case by auto
next
  case (Cons o' outs)
  obtain r q where o': "o' = (r, q)" by (cases o')
  from Cons.prems(2) obtain d1 where w: "write_release ws user b r q stage now d = Inr d1"
    and rest: "foldr_r (\<lambda>(r, q). write_release ws user b r q stage now) outs d1 = Inr d'"
    by (auto simp: o' bindr_Inr)
  note eff = write_release_effect [OF Cons.prems(1) w]
  then obtain e where e: "appends d d1 [e]" "releases ws (b_id b) r q e" by blast
  from Cons.IH [OF eff(1) rest] obtain rows where
    "ledger_ok d'" "appends d1 d' rows" "list_all2 (\<lambda>(r, q). releases ws (b_id b) r q) outs rows" by blast
  with e appends_trans [OF e(1), of d' rows] o' show ?case by (auto intro!: exI [of _ "e # rows"])
qed

lemma released_by_reserve_alt:
  "released_by_reserve d ws bid r = sum_where (\<lambda>e. - se_quantity_delta e)
     (\<lambda>e. se_workspace_id e = ws \<and> se_build_id e = Some bid \<and> se_status e = Reserved
        \<and> se_operation_type e = Op_release \<and> se_related_entry_id e = Some r) (stock_entries d)"
proof -
  let ?P = "\<lambda>e. se_workspace_id e = ws \<and> se_build_id e = Some bid \<and> se_status e = Reserved
           \<and> se_operation_type e = Op_release \<and> se_related_entry_id e \<noteq> None"
  let ?Q = "\<lambda>e. ?P e \<and> se_related_entry_id e = Some r"
  have "released_by_reserve d ws bid r = sum_where (\<lambda>e. - se_quantity_delta e) ?Q (stock_entries d)"
    unfolding released_by_reserve_def map_of_group_sum
    using sum_where_none [of "stock_entries d" ?Q "\<lambda>e. - se_quantity_delta e"]
    by (cases "\<exists>e \<in> set (stock_entries d). ?Q e") (simp_all add: bex_simps, blast?)
  also have "\<dots> = sum_where (\<lambda>e. - se_quantity_delta e)
     (\<lambda>e. se_workspace_id e = ws \<and> se_build_id e = Some bid \<and> se_status e = Reserved
        \<and> se_operation_type e = Op_release \<and> se_related_entry_id e = Some r) (stock_entries d)"
    by (rule sum_where_cong) auto
  finally show ?thesis .
qed

lemma released_append:
  assumes "appends d d' rows"
  shows "released_by_reserve d' ws bid r = released_by_reserve d ws bid r
     + sum_where (\<lambda>e. - se_quantity_delta e)
     (\<lambda>e. se_workspace_id e = ws \<and> se_build_id e = Some bid \<and> se_status e = Reserved
        \<and> se_operation_type e = Op_release \<and> se_related_entry_id e = Some r) rows"
  using assms by (simp add: released_by_reserve_alt appends_def)

lemma sum_where_releases:
  assumes "list_all2 (\<lambda>(r, q). releases ws bid r q) outs rows"
  shows "sum_where (\<lambda>e. - se_quantity_delta e)
     (\<lambda>e. se_workspace_id e = ws \<and> se_build_id e = Some bid \<and> se_status e = Reserved
        \<and> se_operation_type e = Op_release \<and> se_related_entry_id e = Some i) rows
     = sum_where (\<lambda>(r, q). round_6 q) (\<lambda>(r, q). se_id r = i) outs"
  using assms by (induction) (auto simp: releases_def)

lemma sum_where_unique:
  assumes "distinct (map f xs)" and "x \<in> set xs"
  shows "sum_where v (\<lambda>y. f y = f x) xs = (v x :: 'v :: comm_monoid_add)"
  using assms
proof (induction xs)
  case (Cons y xs)
  then show ?case
  proof (cases "x = y")
    case True
    with Cons.prems have "\<And>r. r \<in> set xs \<Longrightarrow> f r \<noteq> f x" by (auto simp: image_iff)
    then have "sum_where v (\<lambda>y. f y = f x) xs = 0" by (rule sum_where_none)
    with True show ?thesis by simp
  next
    case False
    with Cons.prems have "f y \<noteq> f x" by auto
    with Cons False show ?thesis by simp
  qed
qed simp

lemma reserve_rows_set:
  "set (reserve_rows d ws bid) = {e \<in> set (stock_entries d). se_workspace_id e = ws
     \<and> se_build_id e = Some bid \<and> se_status e = Reserved \<and> se_operation_type e = Op_reserve}"
  by (auto simp: reserve_rows_def)

lemma distinct_reserve_rows:
  assumes "ledger_ok d"
  shows "distinct (map se_id (reserve_rows d ws bid))"
proof -
  have "distinct (map se_id (stock_entries d))" using assms by (simp add: ledger_ok_def fresh_ids_def)
  then have "distinct (map se_id (filter (\<lambda>e. se_workspace_id e = ws \<and> se_build_id e = Some bid
      \<and> se_status e = Reserved \<and> se_operation_type e = Op_reserve) (stock_entries d)))" (is "distinct (map se_id ?f)")
    by (rule distinct_map_filter)
  moreover have "mset (reserve_rows d ws bid) = mset ?f" by (simp add: reserve_rows_def)
  then have "mset (map se_id (reserve_rows d ws bid)) = mset (map se_id ?f)" by (simp only: mset_map)
  ultimately show ?thesis using mset_eq_imp_distinct_iff by blast
qed

lemma on_grid_remaining:
  assumes "ledger_ok d" and "r \<in> set (stock_entries d)"
  shows "on_grid (se_quantity_delta r - released_by_reserve d ws bid i)"
proof -
  have g: "on_grid (se_quantity_delta e)" if "e \<in> set (stock_entries d)" for e
    using assms(1) that by (simp add: ledger_ok_def row_ok_def)
  show ?thesis
    unfolding released_by_reserve_alt
    by (rule on_grid_diff [OF g [OF assms(2)]], rule on_grid_sum_where) (simp add: g)
qed

lemma outstanding_rows:
  assumes "(r, q) \<in> set (snd (outstanding_reservations d ws b))"
  shows "r \<in> set (reserve_rows d ws (b_id b))" "q = se_quantity_delta r - released_by_reserve d ws (b_id b) (se_id r)"
    "0 < q"
  using assms by (auto simp: outstanding_reservations_def Let_def split: if_split_asm)

lemma distinct_outstanding:
  assumes "ledger_ok d"
  shows "distinct (map (\<lambda>x. se_id (fst x)) (snd (outstanding_reservations d ws b)))"
proof -
  let ?g = "\<lambda>r. (r, se_quantity_delta r - released_by_reserve d ws (b_id b) (se_id r))"
  have "distinct (map (\<lambda>x. se_id (fst x)) (map ?g (reserve_rows d ws (b_id b))))"
    using distinct_reserve_rows [OF assms] by (simp add: comp_def)
  then have "distinct (map (\<lambda>x. se_id (fst x)) (filter (\<lambda>(_, q). 0 < q) (map ?g (reserve_rows d ws (b_id b)))))"
    by (rule distinct_map_filter)
  then show ?thesis by (simp add: outstanding_reservations_def Let_def)
qed

lemma release_reservations_effect:
  assumes ok: "ledger_ok d" and rel: "release_reservations ws user b d = Inr (d', n)"
  obtains rows where "ledger_ok d'" "appends d d' rows"
    "list_all2 (\<lambda>(r, q). releases ws (b_id b) r q) (snd (outstanding_reservations d ws b)) rows"
    "n = length (snd (outstanding_reservations d ws b))"
proof (cases "fst (outstanding_reservations d ws b) = []")
  case True
  then have "reserve_rows d ws (b_id b) = []"
    by (auto simp: outstanding_reservations_def Let_def split: if_split_asm)
  then have "snd (outstanding_reservations d ws b) = []" by (simp add: outstanding_reservations_def)
  with True rel ok show thesis
    by (intro that [of "[]"]) (auto simp: release_reservations_def case_prod_unfold Let_def)
next
  case False
  let ?d1 = "lock_parts_for_stock_write ws (List.map_filter id (fst (outstanding_reservations d ws b))) d"
  from False rel have
    "foldr_r (\<lambda>(r, q). write_release ws user b r q None (clock ?d1)) (snd (outstanding_reservations d ws b)) ?d1 = Inr d'"
    and n: "n = length (snd (outstanding_reservations d ws b))"
    by (auto simp: release_reservations_def case_prod_unfold Let_def bindr_Inr)
  from release_all_effect [OF _ this(1)] ok obtain rows where
    "ledger_ok d'" "appends ?d1 d' rows"
    "list_all2 (\<lambda>(r, q). releases ws (b_id b) r q) (snd (outstanding_reservations d ws b)) rows" by auto
  with n appends_trans [OF lock_parts_frame(1) this(2)] show thesis by (intro that [of rows]) simp_all
qed

lemma reserve_rows_append:
  assumes "appends d d' rows" and "\<forall>e \<in> set rows. se_operation_type e \<noteq> Op_reserve"
  shows "reserve_rows d' ws bid = reserve_rows d ws bid"
proof -
  let ?P = "\<lambda>e. se_workspace_id e = ws \<and> se_build_id e = Some bid \<and> se_status e = Reserved
        \<and> se_operation_type e = Op_reserve"
  have "filter ?P rows = []" using assms(2) by (auto simp: filter_empty_conv)
  then show ?thesis using assms(1) by (simp add: reserve_rows_def appends_def)
qed

text \<open>What is left of a reserve row after the release rows of one pass.\<close>

lemma released_after:
  assumes "ledger_ok d" and "appends d d' rows"
    and "list_all2 (\<lambda>(r, q). releases ws bid r q) outs rows"
  shows "released_by_reserve d' ws bid i = released_by_reserve d ws bid i
     + sum_where (\<lambda>(r, q). round_6 q) (\<lambda>(r, q). se_id r = i) outs"
  using released_append [OF assms(2)] sum_where_releases [OF assms(3)] by simp

lemma list_all2_set2: "list_all2 P xs ys \<Longrightarrow> y \<in> set ys \<Longrightarrow> \<exists>x \<in> set xs. P x y"
  by (auto simp: list_all2_conv_all_nth in_set_conv_nth) (metis nth_mem)

lemma releases_operation:
  "list_all2 (\<lambda>(r, q). releases ws bid r q) outs rows \<Longrightarrow> e \<in> set rows
   \<Longrightarrow> se_operation_type e = Op_release \<and> se_status e = Reserved"
  using list_all2_set2 [of _ outs rows e] by (fastforce simp: releases_def)

lemma release_reservations_complete:
  assumes ok: "ledger_ok d" and rel: "release_reservations ws user b d = Inr (d', n)"
  shows "snd (outstanding_reservations d' ws b) = []"
proof -
  from release_reservations_effect [OF assms] obtain rows where
    app: "appends d d' rows"
    and rows: "list_all2 (\<lambda>(r, q). releases ws (b_id b) r q) (snd (outstanding_reservations d ws b)) rows" .
  have rr: "reserve_rows d' ws (b_id b) = reserve_rows d ws (b_id b)"
    by (rule reserve_rows_append [OF app]) (use releases_operation [OF rows] in auto)
  let ?outs = "snd (outstanding_reservations d ws b)"
  have "se_quantity_delta r - released_by_reserve d' ws (b_id b) (se_id r) \<le> 0"
    if r: "r \<in> set (reserve_rows d ws (b_id b))" for r
  proof -
    let ?q = "se_quantity_delta r - released_by_reserve d ws (b_id b) (se_id r)"
    note after = released_after [OF ok app rows, of "se_id r"]
    show ?thesis
    proof (cases "0 < ?q")
      case True
      then have mem: "(r, ?q) \<in> set ?outs"
        using r by (auto simp: outstanding_reservations_def Let_def)
      have "sum_where (\<lambda>x. round_6 (snd x)) (\<lambda>x. se_id (fst x) = se_id (fst (r, ?q))) ?outs = round_6 ?q"
        using sum_where_unique [OF distinct_outstanding [OF ok] mem, of "\<lambda>x. round_6 (snd x)"] by simp
      moreover have "round_6 ?q = ?q"
        using r by (intro round_6_grid on_grid_remaining [OF ok]) (simp add: reserve_rows_set)
      ultimately show ?thesis using after by (simp add: case_prod_unfold)
    next
      case False
      then have "sum_where (\<lambda>(r, q). round_6 q) (\<lambda>(r', q). se_id r' = se_id r) ?outs = 0"
        using outstanding_rows(2,3) distinct_reserve_rows [OF ok] r outstanding_rows(1)
        by (intro sum_where_none) (fastforce dest: inj_onD simp: distinct_map)
      with after False show ?thesis by simp
    qed
  qed
  then have "filter (\<lambda>(_, q). 0 < q) (map (\<lambda>r. (r, se_quantity_delta r - released_by_reserve d' ws (b_id b) (se_id r)))
      (reserve_rows d ws (b_id b))) = []"
    by (auto simp: filter_empty_conv not_less)
  then show ?thesis by (simp add: outstanding_reservations_def rr Let_def)
qed

lemma appends_reserved_only:
  assumes "appends d d' rows" and "\<forall>e \<in> set rows. se_status e = Reserved"
  shows "current_quantity d' ws p sto lot On_hand bm = current_quantity d ws p sto lot On_hand bm"
proof -
  have "sum_where se_quantity_delta (\<lambda>e. counts_for e ws p sto lot On_hand bm) rows = 0"
    using assms(2) by (intro sum_where_none) (simp add: counts_for_def)
  then show ?thesis by (simp add: appends_current_quantity [OF assms(1)])
qed


subsection \<open>Consumption rows\<close>

definition line_for_entry :: "uuid \<Rightarrow> consume_line list \<Rightarrow> int" where
  "line_for_entry i lines = sum_where cl_quantity (\<lambda>l. cl_project_entry_id l = i) lines"

text \<open>A stored row that consumes one line.\<close>

definition consumes :: "uuid \<Rightarrow> uuid \<Rightarrow> consume_line \<Rightarrow> stock_entry \<Rightarrow> bool" where
  "consumes ws bid l e \<longleftrightarrow> se_workspace_id e = ws \<and> se_part_id e = Some (cl_part_id l)
     \<and> se_lot_id e = cl_lot_id l \<and> se_storage_location_id e = cl_storage_location_id l
     \<and> se_quantity_delta e = - of_int (cl_quantity l) \<and> se_status e = On_hand
     \<and> se_operation_type e = Op_build_consume \<and> se_build_id e = Some bid"

text \<open>What \<open>check_line\<close> grants: the line names a bill-of-materials entry of this pass and
  takes the entry's own part or one of its registered candidates.\<close>

definition line_allowed ::
    "db \<Rightarrow> (uuid \<rightharpoonup> project_entry) \<Rightarrow> (uuid \<times> int) list \<Rightarrow> consume_line \<Rightarrow> bool" where
  "line_allowed d entries req l \<longleftrightarrow> (\<exists>e p. entries (cl_project_entry_id l) = Some e \<and> pe_part_id e = Some p
     \<and> pe_entry_type e \<in> {Et_part, Et_meta_part} \<and> \<not> pe_dnp e \<and> pe_id e \<in> fst ` set req
     \<and> (cl_part_id l = p \<or> (\<exists>x. parts d p = Some x \<and> cl_part_id l \<in> set (candidate_part_ids d x))))"

lemma check_line_Inr:
  assumes "check_line ws entries req l d = Inr e"
  shows "entries (cl_project_entry_id l) = Some e" and "line_allowed d entries req l"
    and "of_int (cl_quantity l) \<le> current_quantity d ws (cl_part_id l) (cl_storage_location_id l) (cl_lot_id l) On_hand True"
  using assms
  by (auto simp: check_line_def line_allowed_def bindr_Inr Let_def not_less split: option.split_asm if_split_asm)

lemma line_allowed_cong:
  assumes "appends d d' new"
  shows "line_allowed d' entries req l \<longleftrightarrow> line_allowed d entries req l"
  using assms appends_catalog [OF assms] candidate_part_ids_cong [of d' d]
  by (simp add: line_allowed_def)

lemma apply_consume_line_effect:
  assumes "ledger_ok d" and "apply_consume_line ws user b pr entries req now stage l (d, cs, rq) = Inr (d', cs', rq')"
  obtains e row where "ledger_ok d'" "entries (cl_project_entry_id l) = Some e" "line_allowed d entries req l"
    "cs' = cs @ [row]" "rq' = rq(pe_id e := rq (pe_id e) + cl_quantity l)"
    "appends d d' [stored_entry row]" "consumes ws (b_id b) l row" "se_build_stage_id row = stage"
proof -
  from assms(2) obtain e row where e: "check_line ws entries req l d = Inr e"
    and row: "add_entry (blank_entry\<lparr>
            se_workspace_id := ws,
            se_part_id := Some (cl_part_id l),
            se_lot_id := cl_lot_id l,
            se_storage_location_id := cl_storage_location_id l,
            se_quantity_delta := - of_int (cl_quantity l),
            se_unit := unit_for_part (parts d (cl_part_id l)),
            se_status := On_hand,
            se_operation_type := Op_build_consume,
            se_build_id := Some (b_id b),
            se_build_stage_id := stage,
            se_project_id := Some (pr_id pr),
            se_occurred_at := now,
            se_created_by := user\<rparr>) d = Inr (row, d')"
    and res: "cs' = cs @ [row]" "rq' = rq(pe_id e := rq (pe_id e) + cl_quantity l)"
    by (auto simp: apply_consume_line_def bindr_Inr)
  have "consumes ws (b_id b) l row" "se_build_stage_id row = stage"
    using row by (auto simp: add_entry_Inr consumes_def blank_entry_def)
  with that add_entry_ledger_ok [OF assms(1) row] add_entry_appends [OF row] check_line_Inr [OF e] res
  show thesis by blast
qed

lemma consume_loop_effect:
  assumes "ledger_ok d" and ids: "\<And>i e. entries i = Some e \<Longrightarrow> pe_id e = i"
    and "foldr_r (apply_consume_line ws user b pr entries req now stage) lines (d, cs, rq) = Inr (d', cs', rq')"
  shows "\<exists>rows. ledger_ok d' \<and> cs' = cs @ rows \<and> appends d d' (map stored_entry rows)
     \<and> list_all2 (consumes ws (b_id b)) lines rows \<and> (\<forall>l \<in> set lines. line_allowed d entries req l)
     \<and> (\<forall>row \<in> set rows. se_build_stage_id row = stage)
     \<and> (\<forall>i. rq' i = rq i + line_for_entry i lines)"
  using assms(1,3)
proof (induction lines arbitrary: d cs rq)
  case Nil
  then show ?case by (simp add: line_for_entry_def)
next
  case (Cons l lines)
  from Cons.prems(2) obtain d1 cs1 rq1 where
    one: "apply_consume_line ws user b pr entries req now stage l (d, cs, rq) = Inr (d1, cs1, rq1)"
    and rest: "foldr_r (apply_consume_line ws user b pr entries req now stage) lines (d1, cs1, rq1) = Inr (d', cs', rq')"
    by (auto simp: bindr_Inr)
  from apply_consume_line_effect [OF Cons.prems(1) one] obtain e row where
    o: "ledger_ok d1" "entries (cl_project_entry_id l) = Some e" "line_allowed d entries req l"
    "cs1 = cs @ [row]" "rq1 = rq(pe_id e := rq (pe_id e) + cl_quantity l)"
    "appends d d1 [stored_entry row]" "consumes ws (b_id b) l row" "se_build_stage_id row = stage" .
  from Cons.IH [OF o(1) rest] obtain rows where
    r: "ledger_ok d'" "cs' = cs1 @ rows" "appends d1 d' (map stored_entry rows)"
    "list_all2 (consumes ws (b_id b)) lines rows" "\<forall>l \<in> set lines. line_allowed d1 entries req l"
    "\<forall>row \<in> set rows. se_build_stage_id row = stage"
    "\<forall>i. rq' i = rq1 i + line_for_entry i lines" by blast
  have "pe_id e = cl_project_entry_id l" using assms(2) o(2) by simp
  then have "\<forall>i. rq' i = rq i + line_for_entry i (l # lines)"
    using r(7) o(5) by (simp add: line_for_entry_def)
  moreover have "appends d d' (map stored_entry (row # rows))"
    using appends_trans [OF o(6) r(3)] by simp
  moreover have "\<forall>l \<in> set lines. line_allowed d entries req l"
    using r(5) line_allowed_cong [OF o(6)] by simp
  ultimately show ?case using o r by (intro exI [of _ "row # rows"]) simp
qed

lemma check_coverage_Inr:
  assumes "check_coverage d entries req rq = Inr ()" and "(i, n) \<in> set req"
    and "entries i = Some e" and "pe_part_id e = Some p" and "parts d p = Some part"
  shows "n \<le> rq i"
proof -
  have *: "\<And>x s t. foldr_r f xs s = Inr t \<Longrightarrow> x \<in> set xs \<Longrightarrow> \<exists>s' t'. f x s' = Inr t'"
    for f :: "(uuid \<times> int) \<Rightarrow> unit \<Rightarrow> error + unit" and xs
    by (induction xs) (auto simp: bindr_Inr)
  from * [OF assms(1) [unfolded check_coverage_def] assms(2)] assms(3-5) show ?thesis
    by (auto split: if_split_asm)
qed

lemma apply_consume_lines_effect:
  assumes ok: "ledger_ok d" and ids: "\<And>i e. entries i = Some e \<Longrightarrow> pe_id e = i"
    and ap: "apply_consume_lines ws user b pr lines entries req now stage d = Inr (consumed, d')"
  shows "ledger_ok d'" "appends d d' (map stored_entry consumed)"
    "list_all2 (consumes ws (b_id b)) lines consumed" "\<forall>l \<in> set lines. line_allowed d entries req l"
    "\<forall>row \<in> set consumed. se_build_stage_id row = stage"
    "\<forall>(i, n) \<in> set req. \<forall>e p part. entries i = Some e \<longrightarrow> pe_part_id e = Some p \<longrightarrow> parts d p = Some part
        \<longrightarrow> n \<le> line_for_entry i lines"
proof -
  from ap obtain rq where
    loop: "foldr_r (apply_consume_line ws user b pr entries req now stage) lines (d, [], \<lambda>_. 0) = Inr (d', consumed, rq)"
    and cov: "check_coverage d' entries req rq = Inr ()"
    by (auto simp: apply_consume_lines_def bindr_Inr)
  from consume_loop_effect [OF ok ids loop] have
    eff: "ledger_ok d'" "appends d d' (map stored_entry consumed)"
    "list_all2 (consumes ws (b_id b)) lines consumed" "\<forall>l \<in> set lines. line_allowed d entries req l"
    "\<forall>row \<in> set consumed. se_build_stage_id row = stage"
    and rq: "\<And>i. rq i = line_for_entry i lines" by auto
  show "ledger_ok d'" "appends d d' (map stored_entry consumed)"
    "list_all2 (consumes ws (b_id b)) lines consumed" "\<forall>l \<in> set lines. line_allowed d entries req l"
    "\<forall>row \<in> set consumed. se_build_stage_id row = stage"
    by (rule eff)+
  show "\<forall>(i, n) \<in> set req. \<forall>e p part. entries i = Some e \<longrightarrow> pe_part_id e = Some p \<longrightarrow> parts d p = Some part
        \<longrightarrow> n \<le> line_for_entry i lines"
    using check_coverage_Inr [OF cov] appends_catalog(1) [OF eff(2)] rq by fastforce
qed

text \<open>The balance of a bucket after consumption rows.\<close>

lemma consumes_balance:
  assumes "list_all2 (consumes ws bid) lines rows"
  shows "sum_where se_quantity_delta (\<lambda>e. counts_for e ws' p sto lot st True) (map stored_entry rows)
     = (if ws' = ws \<and> st = On_hand then - of_int (sum_where cl_quantity (\<lambda>l. line_bucket l = (p, lot, sto)) lines) else 0)"
  using assms
  by induction (auto simp: consumes_def counts_for_def line_bucket_def
      simp flip: of_int_minus)

subsection \<open>Output\<close>

text \<open>The row of a produced sub-assembly.\<close>

definition produces :: "uuid \<Rightarrow> build \<Rightarrow> uuid \<Rightarrow> uuid option \<Rightarrow> uuid \<Rightarrow> stock_entry \<Rightarrow> bool" where
  "produces ws b p sto lot e \<longleftrightarrow> se_workspace_id e = ws \<and> se_part_id e = Some p
     \<and> se_lot_id e = Some lot \<and> se_storage_location_id e = sto
     \<and> se_quantity_delta e = of_nat (b_quantity b) \<and> se_status e = On_hand
     \<and> se_operation_type e = Op_build_produce \<and> se_build_id e = Some (b_id b)"

lemma produce_output_effect:
  assumes ok: "ledger_ok d" "catalog_ok d"
    and po: "produce_output ws user b pr out_sto out_name now d = Inr (out, d')"
  shows "ledger_ok d'"
    and "pr_associated_subassembly_part_id pr = None \<Longrightarrow> out = None \<and> d' = d"
    and "\<And>p. pr_associated_subassembly_part_id pr = Some p \<Longrightarrow> \<exists>l e x. out = Some (l, e)
           \<and> appends d d' [stored_entry e] \<and> produces ws b p out_sto (lot_id l) e
           \<and> lots d (lot_id l) = None \<and> lots d' (lot_id l) = Some x
           \<and> lot_source_build_id x = Some (b_id b) \<and> lot_part_id x = Some p"
proof -
  show none: "out = None \<and> d' = d" if "pr_associated_subassembly_part_id pr = None"
    using po that by (simp add: produce_output_def)
  have some: "ledger_ok d' \<and> (\<exists>l e x. out = Some (l, e)
           \<and> appends d d' [stored_entry e] \<and> produces ws b p out_sto (lot_id l) e
           \<and> lots d (lot_id l) = None \<and> lots d' (lot_id l) = Some x
           \<and> lot_source_build_id x = Some (b_id b) \<and> lot_part_id x = Some p)"
    if p: "pr_associated_subassembly_part_id pr = Some p" for p
  proof -
    from po p obtain part s d1 l0 l d2 e where
      part: "belonging_part d ws p = Some part"
      and sto: "(case out_sto of None \<Rightarrow> Inr (None, d)
               | Some i \<Rightarrow>
                 (case belonging_storage d ws i of
                    None \<Rightarrow> Inl (BuildError Output_storage_not_in_workspace)
                  | Some storage \<Rightarrow>
                    if sl_archived_at storage \<noteq> None \<or> sl_is_full storage
                    then Inl (BuildError Output_storage_archived_or_full)
                    else bindr (enforce_storage_constraints ws storage (p_id part) d)
                           (\<lambda>d1. Inr (Some storage, d1)))) = Inr (s, d1)"
      and lot: "add_lot l0 d1 = Inr (l, d2)" "lot_source_build_id l0 = Some (b_id b)"
        "lot_part_id l0 = Some (p_id part)"
      and row: "add_entry (blank_entry\<lparr>
            se_workspace_id := ws,
            se_part_id := Some (p_id part),
            se_lot_id := Some (lot_id l),
            se_storage_location_id := map_option sl_id s,
            se_quantity_delta := of_nat (b_quantity b),
            se_unit := unit_for_part (Some part),
            se_status := On_hand,
            se_operation_type := Op_build_produce,
            se_build_id := Some (b_id b),
            se_project_id := Some (pr_id pr),
            se_occurred_at := now,
            se_created_by := user\<rparr>) d2 = Inr (e, d')"
      and out: "out = Some (l, e)"
      by (auto simp: produce_output_def bindr_Inr blank_lot_def simp del: belonging_part_Some
          split: option.split_asm[where option = "belonging_part d ws p"])
    have id: "p_id part = p" using part ok(2) by (auto simp: catalog_ok_def)
    have s: "map_option sl_id s = out_sto" "appends d d1 []" "ledger_ok d1" "lots d1 = lots d"
      "next_uuid d1 = next_uuid d"
    proof -
      have *: "map_option sl_id s = out_sto \<and> (d1 = d \<or> (\<exists>k. d1 = acquire k d))"
      proof (cases out_sto)
        case None
        with sto show ?thesis by auto
      next
        case (Some i)
        with sto obtain x where x: "storages d i = Some x" "s = Some x"
          "enforce_storage_constraints ws x (p_id part) d = Inr d1"
          by (auto simp: bindr_Inr split: option.split_asm if_split_asm)
        with ok(2) enforce_Inr [OF x(3)] Some show ?thesis
          by (auto simp: catalog_ok_def lock_for_storage_constraint_def)
      qed
      then show "map_option sl_id s = out_sto" "appends d d1 []" "ledger_ok d1" "lots d1 = lots d"
        "next_uuid d1 = next_uuid d" using ok by (auto simp: acquire_appends)
    qed
    have ok2: "ledger_ok d2" by (rule add_lot_ledger_ok [OF s(3) lot(1)])
    have "ledger_ok d'" by (rule add_entry_ledger_ok [OF ok2 row])
    moreover have "appends d d' [stored_entry e]"
      using appends_trans [OF s(2) appends_trans [OF add_lot_appends [OF s(3) lot(1)] add_entry_appends [OF row]]]
      by simp
    moreover have "produces ws b p out_sto (lot_id l) e"
      using row id s(1) by (auto simp: add_entry_Inr produces_def blank_entry_def)
    moreover have "lots d (lot_id l) = None"
      using s(3,4) lot(1) by (auto simp: add_lot_Inr ledger_ok_def fresh_ids_def)
    moreover from lot id obtain x where "lots d2 (lot_id l) = Some x"
        "lot_source_build_id x = Some (b_id b)" "lot_part_id x = Some p"
      by (auto simp: add_lot_Inr)
    moreover from this have "lots d' (lot_id l) = Some x"
      using row by (auto simp: add_entry_Inr insert_entry_Inr)
    ultimately show ?thesis using out by blast
  qed
  show "ledger_ok d'"
  proof (cases "pr_associated_subassembly_part_id pr")
    case None
    with none ok show ?thesis by simp
  next
    case (Some p)
    with some show ?thesis by blast
  qed
  show "\<And>p. pr_associated_subassembly_part_id pr = Some p \<Longrightarrow> \<exists>l e x. out = Some (l, e)
           \<and> appends d d' [stored_entry e] \<and> produces ws b p out_sto (lot_id l) e
           \<and> lots d (lot_id l) = None \<and> lots d' (lot_id l) = Some x
           \<and> lot_source_build_id x = Some (b_id b) \<and> lot_part_id x = Some p"
    using some by blast
qed

lemma complete_build_frame [simp]:
  "ledger_ok (complete_build b user l now d) \<longleftrightarrow> ledger_ok d"
  "appends d' (complete_build b user l now d) new \<longleftrightarrow> appends d' d new"
  "stock_entries (complete_build b user l now d) = stock_entries d"
  "lots (complete_build b user l now d) = lots d"
proof -
  show "ledger_ok (complete_build b user l now d) \<longleftrightarrow> ledger_ok d"
    by (rule ledger_ok_cong) (simp_all add: complete_build_def)
qed (simp_all add: complete_build_def appends_def same_catalog_def)

end
