(* ===== verification/BuildProps.thy ===== *)
theory BuildProps
  imports StockProps Builds
begin

text \<open>
  What builds guarantee on a well-formed ledger: requirements are never rounded down,
  a consumption takes exactly its lines and covers the whole bill of materials,
  completing leaves nothing reserved, and releases never exceed what is outstanding.
\<close>

section \<open>Consumption\<close>

lemma outstanding_append:
  assumes "appends d d' rows" and "\<forall>e \<in> set rows. se_operation_type e \<notin> {Op_reserve, Op_release}"
  shows "outstanding_reservations d' ws b = outstanding_reservations d ws b"
proof -
  have "released_by_reserve d' ws (b_id b) i = released_by_reserve d ws (b_id b) i" for i
    unfolding released_append [OF assms(1)] using assms(2) by (auto intro: sum_where_none)
  moreover have "reserve_rows d' ws (b_id b) = reserve_rows d ws (b_id b)"
    by (rule reserve_rows_append [OF assms(1)]) (use assms(2) in auto)
  ultimately show ?thesis by (simp add: outstanding_reservations_def Let_def)
qed

lemma entries_by_id_id: "project_entries_by_id d ws pr i = Some e \<Longrightarrow> pe_id e = i"
  unfolding project_entries_by_id_def by (auto dest: map_of_SomeD)

lemma consumes_operation:
  "list_all2 (consumes ws bid) lines rows \<Longrightarrow> e \<in> set rows \<Longrightarrow> se_operation_type e = Op_build_consume"
  using list_all2_set2 [of _ lines rows e] by (fastforce simp: consumes_def)

text \<open>The three stretches of rows a consumption writes.\<close>

lemma consume_effect:
  assumes ok: "ledger_ok d" "catalog_ok d" and con: "consume ws user b pr payload d = Inr (res, d')"
  obtains rel out d1 where
    "b_status b \<in> {Planned, In_progress}"
    "ledger_ok d'" "appends d d' (rel @ map stored_entry (cr_consumed res) @ map stored_entry out)"
    "\<forall>e \<in> set rel. se_status e = Reserved"
    "list_all2 (consumes ws (b_id b)) (ci_lines payload) (cr_consumed res)"
    "\<forall>l \<in> set (ci_lines payload). line_allowed d (project_entries_by_id d ws pr) (required_whole_build d ws b pr) l"
    "\<forall>(i, n) \<in> set (required_whole_build d ws b pr). \<forall>e p part. project_entries_by_id d ws pr i = Some e
        \<longrightarrow> pe_part_id e = Some p \<longrightarrow> parts d p = Some part \<longrightarrow> n \<le> line_for_entry i (ci_lines payload)"
    "out = (case cr_output_entry res of None \<Rightarrow> [] | Some e \<Rightarrow> [e])"
    "case pr_associated_subassembly_part_id pr of
       None \<Rightarrow> cr_output_entry res = None \<and> cr_output_lot res = None
     | Some p \<Rightarrow> (\<exists>l e x. cr_output_lot res = Some l \<and> cr_output_entry res = Some e
         \<and> produces ws b p (ci_output_storage_location_id payload) (lot_id l) e
         \<and> lots d (lot_id l) = None \<and> lots d' (lot_id l) = Some x \<and> lot_source_build_id x = Some (b_id b))"
    "snd (outstanding_reservations d' ws b) = []"
    "builds d' (b_id b) = Some (b\<lparr>b_status := Complete,
         b_started_at := (case b_started_at b of None \<Rightarrow> Some (clock d) | Some t \<Rightarrow> Some t),
         b_completed_at := Some (clock d), b_output_lot_id := map_option lot_id (cr_output_lot res),
         b_updated_by := user\<rparr>)"
proof -
  let ?d0 = "lock_for_consume ws pr (map cl_part_id (ci_lines payload)) d"
  from con obtain d1 n d2 out d3 where
    st: "b_status b \<in> {Planned, In_progress}"
    and rel: "release_reservations ws user b ?d0 = Inr (d1, n)"
    and cons: "apply_consume_lines ws user b pr (ci_lines payload) (project_entries_by_id d1 ws pr)
        (required_whole_build d1 ws b pr) (clock d1) None d1 = Inr (cr_consumed res, d2)"
    and prod: "produce_output ws user b pr (ci_output_storage_location_id payload)
               (ci_output_lot_name payload) (clock d1) d2 = Inr (out, d3)"
    and res: "cr_output_lot res = map_option fst out" "cr_output_entry res = map_option snd out"
    and d': "d' = complete_build b user (map_option fst out) (clock d1) d3"
    by (auto simp: consume_def Let_def bindr_Inr split: if_split_asm)
  have ok0: "ledger_ok ?d0" and a0: "appends d ?d0 []"
    using ok lock_parts_frame(1) by (simp_all add: lock_for_consume_def)
  from release_reservations_effect [OF ok0 rel] obtain rrows where
    r: "ledger_ok d1" "appends ?d0 d1 rrows"
      "list_all2 (\<lambda>(r, q). releases ws (b_id b) r q) (snd (outstanding_reservations ?d0 ws b)) rrows" .
  have a1: "appends d d1 rrows" using appends_trans [OF a0 r(2)] by simp
  note c1 = appends_catalog [OF a1]
  have same: "project_entries_by_id d1 = project_entries_by_id d"
      "required_whole_build d1 = required_whole_build d"
    using bom_cong(3) required_whole_build_cong c1 by blast+
  note eff = apply_consume_lines_effect [OF r(1) entries_by_id_id [of d1 ws pr] cons, simplified, unfolded same c1]
  have cat2: "catalog_ok d2" using ok(2) a1 eff(2) catalog_ok_appends by blast
  note out_eff = produce_output_effect [OF eff(1) cat2 prod]
  define orows where "orows = (case cr_output_entry res of None \<Rightarrow> [] | Some e \<Rightarrow> [e])"
  have a3: "appends d2 d3 (map stored_entry orows)"
  proof (cases "pr_associated_subassembly_part_id pr")
    case None
    with out_eff(2) res show ?thesis by (simp add: orows_def)
  next
    case (Some p)
    with out_eff(3) [OF Some] res show ?thesis by (auto simp: orows_def)
  qed
  have ops: "se_operation_type e \<in> {Op_build_consume, Op_build_produce}"
    if "e \<in> set (map stored_entry (cr_consumed res) @ map stored_entry orows)" for e
    using that consumes_operation [OF eff(3)] out_eff(2,3) res
    by (cases "pr_associated_subassembly_part_id pr") (auto simp: orows_def produces_def)
  have "appends d1 d3 (map stored_entry (cr_consumed res) @ map stored_entry orows)"
    by (rule appends_trans [OF eff(2) a3])
  then have "outstanding_reservations d3 ws b = outstanding_reservations d1 ws b"
    by (rule outstanding_append) (use ops in fastforce)
  moreover have "outstanding_reservations d' ws b = outstanding_reservations d3 ws b"
    by (simp add: d' outstanding_reservations_def reserve_rows_def released_by_reserve_alt Let_def)
  ultimately have none: "snd (outstanding_reservations d' ws b) = []"
    using release_reservations_complete [OF ok0 rel] by simp
  have "case pr_associated_subassembly_part_id pr of
       None \<Rightarrow> cr_output_entry res = None \<and> cr_output_lot res = None
     | Some p \<Rightarrow> (\<exists>l e x. cr_output_lot res = Some l \<and> cr_output_entry res = Some e
         \<and> produces ws b p (ci_output_storage_location_id payload) (lot_id l) e
         \<and> lots d (lot_id l) = None \<and> lots d' (lot_id l) = Some x \<and> lot_source_build_id x = Some (b_id b))"
  proof (cases "pr_associated_subassembly_part_id pr")
    case None
    with out_eff(2) res show ?thesis by simp
  next
    case (Some p)
    have fresh: "lots d i = None" if "lots d2 i = None" for i
    proof (rule ccontr)
      assume "lots d i \<noteq> None"
      then obtain x where "lots d i = Some x" by auto
      from appends_lot [OF eff(2) appends_lot [OF a1 this]] that show False by simp
    qed
    from out_eff(3) [OF Some] obtain l e x where o: "out = Some (l, e)"
      "produces ws b p (ci_output_storage_location_id payload) (lot_id l) e"
      "lots d2 (lot_id l) = None" "lots d3 (lot_id l) = Some x" "lot_source_build_id x = Some (b_id b)" by blast
    with Some res fresh [OF o(3)] show ?thesis by (auto simp: d')
  qed
  moreover have "appends d d' (rrows @ map stored_entry (cr_consumed res) @ map stored_entry orows)"
    using appends_trans [OF a1 appends_trans [OF eff(2) a3]] by (simp add: d')
  moreover have "builds d' (b_id b) = Some (b\<lparr>b_status := Complete,
         b_started_at := (case b_started_at b of None \<Rightarrow> Some (clock d) | Some t \<Rightarrow> Some t),
         b_completed_at := Some (clock d), b_output_lot_id := map_option lot_id (cr_output_lot res),
         b_updated_by := user\<rparr>)"
    by (simp add: d' complete_build_def res c1 option.map_comp comp_def)
  moreover have "line_allowed d1 = line_allowed d"
    using line_allowed_cong [OF a1] by (simp add: fun_eq_iff)
  ultimately show thesis
    using st out_eff(1) releases_operation [OF r(3)] eff(3,4,6) none
    by (intro that [of rrows orows]) (auto simp: d' orows_def)
qed


text \<open>
  C3: a successful build consumption takes exactly what its lines say. Every on-hand
  bucket falls by the sum of the lines that name it and by nothing else, except that the
  output bucket gains the build quantity; reserve and release rows touch no on-hand
  balance, and the ledger stays well formed.
\<close>

theorem consume_takes_exactly_the_lines:
  assumes ok: "ledger_ok d" "catalog_ok d" and con: "consume ws user b pr payload d = Inr (res, d')"
  shows "ledger_ok d'
    \<and> (\<forall>ws' p sto lot. bucket_balance d' (ws', p, sto, lot, On_hand) = bucket_balance d (ws', p, sto, lot, On_hand)
      - (if ws' = ws then of_int (sum_where cl_quantity (\<lambda>l. line_bucket l = (p, lot, sto)) (ci_lines payload)) else 0)
      + (if ws' = ws \<and> pr_associated_subassembly_part_id pr = Some p
            \<and> sto = ci_output_storage_location_id payload \<and> lot \<noteq> None
            \<and> lot = map_option lot_id (cr_output_lot res)
         then of_nat (b_quantity b) else 0))"
proof -
  from consume_effect [OF assms] obtain rel out where
    ok': "ledger_ok d'" and app: "appends d d' (rel @ map stored_entry (cr_consumed res) @ map stored_entry out)"
    and rel: "\<forall>e \<in> set rel. se_status e = Reserved"
    and cons: "list_all2 (consumes ws (b_id b)) (ci_lines payload) (cr_consumed res)"
    and out: "out = (case cr_output_entry res of None \<Rightarrow> [] | Some e \<Rightarrow> [e])"
    and prod: "case pr_associated_subassembly_part_id pr of
       None \<Rightarrow> cr_output_entry res = None \<and> cr_output_lot res = None
     | Some p \<Rightarrow> (\<exists>l e x. cr_output_lot res = Some l \<and> cr_output_entry res = Some e
         \<and> produces ws b p (ci_output_storage_location_id payload) (lot_id l) e
         \<and> lots d (lot_id l) = None \<and> lots d' (lot_id l) = Some x \<and> lot_source_build_id x = Some (b_id b))" .
  have r: "sum_where se_quantity_delta (\<lambda>e. counts_for e ws' p sto lot On_hand True) rel = 0"
    for ws' p sto lot using rel by (intro sum_where_none) (simp add: counts_for_def)
  have o: "sum_where se_quantity_delta (\<lambda>e. counts_for e ws' p sto lot On_hand True) (map stored_entry out)
      = (if ws' = ws \<and> pr_associated_subassembly_part_id pr = Some p
            \<and> sto = ci_output_storage_location_id payload \<and> lot \<noteq> None
            \<and> lot = map_option lot_id (cr_output_lot res)
         then of_nat (b_quantity b) else 0)" for ws' p sto lot
    using prod round_6_grid [OF on_grid_of_nat [of "b_quantity b"]]
    by (auto simp: out produces_def counts_for_def split: option.split_asm)
  from ok' r o show ?thesis
    by (simp add: appends_current_quantity [OF app] consumes_balance [OF cons])
qed

text \<open>Ten resistors (three of them substitutes) and five substitutes, for five boards.\<close>

definition demo_payload :: consume_in where
  "demo_payload = \<lparr>ci_lines = [\<lparr>cl_project_entry_id = 50, cl_part_id = 10, cl_quantity = 7, cl_lot_id = Some 30,
                     cl_storage_location_id = Some 20\<rparr>,
                  \<lparr>cl_project_entry_id = 50, cl_part_id = 11, cl_quantity = 3, cl_lot_id = None,
                     cl_storage_location_id = Some 20\<rparr>,
                  \<lparr>cl_project_entry_id = 51, cl_part_id = 11, cl_quantity = 5, cl_lot_id = None,
                     cl_storage_location_id = Some 20\<rparr>],
      ci_output_storage_location_id = Some 21, ci_output_lot_name = None\<rparr>"

definition demo_build :: build where "demo_build = the (builds demo 60)"
definition demo_project :: project where "demo_project = the (projects demo 40)"

lemma demo_consume:
  obtains res d' where "consume 1 None demo_build demo_project demo_payload demo = Inr (res, d')"
proof -
  have "\<not> isl (consume 1 None demo_build demo_project demo_payload demo)" by code_simp
  then show thesis using that
    by (cases "consume 1 None demo_build demo_project demo_payload demo") auto
qed

lemma consume_takes_exactly_the_lines_witness:
  "\<exists>res d'. consume 1 None demo_build demo_project demo_payload demo = Inr (res, d')
     \<and> bucket_balance d' (1, 10, Some 20, Some 30, On_hand) = 93"
proof -
  obtain res d' where r: "consume 1 None demo_build demo_project demo_payload demo = Inr (res, d')"
    by (rule demo_consume)
  have "bucket_balance demo (1, 10, Some 20, Some 30, On_hand) = 100" by code_simp
  moreover have "sum_where cl_quantity (\<lambda>l. line_bucket l = (10, Some 30, Some 20)) (ci_lines demo_payload) = 7"
    by code_simp
  moreover have "pr_associated_subassembly_part_id demo_project = Some 13" by code_simp
  ultimately have "bucket_balance d' (1, 10, Some 20, Some 30, On_hand) = 93"
    using consume_takes_exactly_the_lines [OF demo_ledger_ok demo_catalog_ok r] by simp
  with r show ?thesis by blast
qed

text \<open>
  C4: a successful consumption covers the bill of materials and draws from nothing else.
  Every consumable entry receives at least its attrition-adjusted requirement, and every
  line names a consumable entry of the project and takes its own part, a registered
  substitute or a member of its meta part.
\<close>

theorem consume_covers_the_bom:
  assumes ok: "ledger_ok d" "catalog_ok d" and ids: "distinct (map pe_id (project_entries d))"
    and con: "consume ws user b pr payload d = Inr (res, d')"
  shows "(\<forall>e p part. e \<in> set (consumable_entries d ws pr) \<longrightarrow> pe_part_id e = Some p \<longrightarrow> parts d p = Some part \<longrightarrow>
            required e (Some part) (b_quantity b) \<le> line_for_entry (pe_id e) (ci_lines payload))
    \<and> (\<forall>l \<in> set (ci_lines payload). \<exists>e p. e \<in> set (consumable_entries d ws pr)
          \<and> pe_id e = cl_project_entry_id l \<and> pe_part_id e = Some p
          \<and> (cl_part_id l = p \<or> (\<exists>x. parts d p = Some x \<and> cl_part_id l \<in> set (candidate_part_ids d x))))"
proof -
  let ?ents = "filter (\<lambda>e. pe_workspace_id e = ws \<and> pe_project_id e = pr_id pr) (project_entries d)"
  have dist: "distinct (map fst (map (\<lambda>e. (pe_id e, e)) (rev ?ents)))"
    using distinct_map_filter [OF ids] by (simp add: comp_def rev_map [symmetric])
  have by_id: "project_entries_by_id d ws pr i = Some e \<longleftrightarrow> e \<in> set (project_bom d ws pr) \<and> pe_id e = i" for i e
    unfolding project_entries_by_id_def map_of_eq_Some_iff [OF dist] by (auto simp: project_bom_def)
  have req: "(pe_id e, required e (Some part) (b_quantity b)) \<in> set (required_whole_build d ws b pr)"
    if "e \<in> set (consumable_entries d ws pr)" "pe_part_id e = Some p" "parts d p = Some part" for e p part
    using that by (force simp: required_whole_build_def set_map_filter)
  from consume_effect [OF ok con] obtain
    allowed: "\<forall>l \<in> set (ci_lines payload). line_allowed d (project_entries_by_id d ws pr) (required_whole_build d ws b pr) l"
    and cov: "\<forall>(i, n) \<in> set (required_whole_build d ws b pr). \<forall>e p part. project_entries_by_id d ws pr i = Some e
        \<longrightarrow> pe_part_id e = Some p \<longrightarrow> parts d p = Some part \<longrightarrow> n \<le> line_for_entry i (ci_lines payload)" .
  have "required e (Some part) (b_quantity b) \<le> line_for_entry (pe_id e) (ci_lines payload)"
    if e: "e \<in> set (consumable_entries d ws pr)" "pe_part_id e = Some p" "parts d p = Some part" for e p part
  proof -
    have "project_entries_by_id d ws pr (pe_id e) = Some e"
      using e(1) by (simp add: by_id consumable_entries_def)
    with bspec [OF cov req [OF e]] e show ?thesis by simp
  qed
  moreover have "\<exists>e p. e \<in> set (consumable_entries d ws pr)
          \<and> pe_id e = cl_project_entry_id l \<and> pe_part_id e = Some p
          \<and> (cl_part_id l = p \<or> (\<exists>x. parts d p = Some x \<and> cl_part_id l \<in> set (candidate_part_ids d x)))"
    if "l \<in> set (ci_lines payload)" for l
    using bspec [OF allowed that] unfolding line_allowed_def by_id by (auto simp: consumable_entries_def)
  ultimately show ?thesis by blast
qed

lemma consume_covers_the_bom_witness:
  "required (demo_entry 50 Et_part (Some 10) 2 0) (Some (demo_part 10 Local ''resistor'')) 5
     \<le> line_for_entry 50 (ci_lines demo_payload)"
proof -
  obtain res d' where r: "consume 1 None demo_build demo_project demo_payload demo = Inr (res, d')"
    by (rule demo_consume)
  have ids: "distinct (map pe_id (project_entries demo))" by code_simp
  have e: "demo_entry 50 Et_part (Some 10) 2 0 \<in> set (consumable_entries demo 1 demo_project)"
    by (simp add: consumable_entries_def project_bom_def demo_project_def demo_def demo_entry_def empty_db_def)
  have p: "pe_part_id (demo_entry 50 Et_part (Some 10) 2 0) = Some 10"
    "parts demo 10 = Some (demo_part 10 Local ''resistor'')" "pe_id (demo_entry 50 Et_part (Some 10) 2 0) = 50"
    by (simp_all add: demo_entry_def demo_def)
  have q: "b_quantity demo_build = 5" by (simp add: demo_build_def demo_def)
  from consume_covers_the_bom [OF demo_ledger_ok demo_catalog_ok ids r] e p(1,2) q p(3)
  show ?thesis by fastforce
qed

text \<open>
  only a planned or running build can be consumed, and consumption closes it: the
  stored build is complete, points at the lot that was produced for it exactly when the
  project has a sub-assembly part, nothing of its reservations is outstanding, and
  consuming the stored build again is refused.
\<close>

theorem consume_completes_the_build:
  assumes ok: "ledger_ok d" "catalog_ok d" and con: "consume ws user b pr payload d = Inr (res, d')"
  shows "b_status b \<in> {Planned, In_progress} \<and> snd (outstanding_reservations d' ws b) = []
    \<and> (\<exists>b'. builds d' (b_id b) = Some b' \<and> b_status b' = Complete \<and> b_completed_at b' = Some (clock d)
         \<and> (b_output_lot_id b' = None \<longleftrightarrow> pr_associated_subassembly_part_id pr = None)
         \<and> (\<forall>l. b_output_lot_id b' = Some l \<longrightarrow> lots d l = None
               \<and> (\<exists>x. lots d' l = Some x \<and> lot_source_build_id x = Some (b_id b)))
         \<and> consume ws user b' pr payload d' = Inl (BuildError (Build_is Complete)))"
proof -
  from consume_effect [OF assms] obtain
    st: "b_status b \<in> {Planned, In_progress}" and none: "snd (outstanding_reservations d' ws b) = []"
    and prod: "case pr_associated_subassembly_part_id pr of
       None \<Rightarrow> cr_output_entry res = None \<and> cr_output_lot res = None
     | Some p \<Rightarrow> (\<exists>l e x. cr_output_lot res = Some l \<and> cr_output_entry res = Some e
         \<and> produces ws b p (ci_output_storage_location_id payload) (lot_id l) e
         \<and> lots d (lot_id l) = None \<and> lots d' (lot_id l) = Some x \<and> lot_source_build_id x = Some (b_id b))"
    and b': "builds d' (b_id b) = Some (b\<lparr>b_status := Complete,
         b_started_at := (case b_started_at b of None \<Rightarrow> Some (clock d) | Some t \<Rightarrow> Some t),
         b_completed_at := Some (clock d), b_output_lot_id := map_option lot_id (cr_output_lot res),
         b_updated_by := user\<rparr>)" .
  show ?thesis
    using st none prod
    by (auto simp: b' consume_def split: option.split_asm)
qed

lemma consume_completes_the_build_witness:
  "\<exists>res d'. consume 1 None demo_build demo_project demo_payload demo = Inr (res, d')
     \<and> (\<exists>b'. builds d' 60 = Some b' \<and> b_status b' = Complete)"
proof -
  obtain res d' where r: "consume 1 None demo_build demo_project demo_payload demo = Inr (res, d')"
    by (rule demo_consume)
  have "b_id demo_build = 60" by (simp add: demo_build_def demo_def)
  with consume_completes_the_build [OF demo_ledger_ok demo_catalog_ok r] r show ?thesis by auto
qed

section \<open>Requirements\<close>

lemma dec_mul_mono: "0 \<le> f \<Longrightarrow> a \<le> b \<Longrightarrow> dec_mul a f \<le> dec_mul b f"
  by (simp add: dec_mul_def dec_mono mult_right_mono)

lemma dec_factor_ge_1: "0 \<le> pct \<Longrightarrow> 1 \<le> dec_add 1 (dec_div pct 100)"
proof -
  assume "0 \<le> pct"
  then have "0 \<le> dec_div pct 100" by (simp add: dec_div_def dec_nonneg)
  then have "dec 1 \<le> dec (1 + dec_div pct 100)" by (intro dec_mono) simp
  then show ?thesis using dec_of_int [of 1] by (simp add: dec_add_def)
qed

lemma dec_mul_ge: "dec a = a \<Longrightarrow> 0 \<le> a \<Longrightarrow> 1 \<le> f \<Longrightarrow> a \<le> dec_mul a f"
  using dec_mono [of a "a * f"] by (simp add: dec_mul_def mult_le_cancel_left1)

lemma dec_idem_ge: "0 \<le> a \<Longrightarrow> 1 \<le> f \<Longrightarrow> dec a \<le> dec_mul a f"
  by (simp add: dec_mul_def dec_mono mult_le_cancel_left1)

lemma on_grid_mult_nat: "on_grid x \<Longrightarrow> on_grid (x * of_nat n)"
  by (induction n) (simp_all add: distrib_left on_grid_add)

definition part_attrition :: "part option \<Rightarrow> rat" where
  "part_attrition part = (case part of None \<Rightarrow> 0 | Some p \<Rightarrow> p_attrition_percentage p)"

definition part_min_extra :: "part option \<Rightarrow> rat" where
  "part_min_extra part = (case part of None \<Rightarrow> 0 | Some p \<Rightarrow> p_attrition_min_quantity p)"

lemma required_alt:
  "required e part n = \<lceil>max (dec_mul (dec_mul (dec_mul (pe_quantity e) (of_nat n))
        (dec_add 1 (dec_div (part_attrition part) 100))) (dec_add 1 (dec_div (pe_attrition_pct e) 100)))
      (dec_add (dec_mul (pe_quantity e) (of_nat n)) (part_min_extra part))\<rceil>"
  by (simp add: required_def Let_def part_attrition_def part_min_extra_def)

text \<open>
  attrition is never rounded away. For a bill-of-materials line with a stored
  quantity and nonnegative loss rates, the requirement is at least the plain quantity
  times the number of boards, at least that plus the part's minimum extra, never smaller
  for more boards, and exactly the rounded-up plain quantity when there is no loss. The
  bounds keep the exact product within the 28 digits of the decimal context.
\<close>

theorem required_never_short:
  assumes q: "on_grid (pe_quantity e)" "0 \<le> pe_quantity e" and line: "0 \<le> pe_attrition_pct e"
    and pct: "0 \<le> part_attrition part" and extra: "0 \<le> part_min_extra part" "on_grid (part_min_extra part)"
    and size: "pe_quantity e * of_nat n + part_min_extra part < 10 ^ 22"
  shows "pe_quantity e * of_nat n + part_min_extra part \<le> of_int (required e part n)
    \<and> (\<forall>m. m \<le> n \<longrightarrow> required e part m \<le> required e part n)
    \<and> (part_attrition part = 0 \<longrightarrow> pe_attrition_pct e = 0 \<longrightarrow> part_min_extra part = 0
         \<longrightarrow> required e part n = \<lceil>pe_quantity e * of_nat n\<rceil>)"
proof -
  let ?q = "pe_quantity e" and ?x = "part_min_extra part"
  let ?f = "dec_add 1 (dec_div (part_attrition part) 100)" and ?g = "dec_add 1 (dec_div (pe_attrition_pct e) 100)"
  have nn: "0 \<le> ?q * of_nat n" using q(2) by simp
  have base: "dec_mul ?q (of_nat n) = ?q * of_nat n"
    unfolding dec_mul_def using on_grid_mult_nat [OF q(1)] size extra(1) nn
    by (intro dec_grid) simp_all
  have sum: "dec_add (dec_mul ?q (of_nat n)) ?x = ?q * of_nat n + ?x"
    unfolding base dec_add_def using on_grid_mult_nat [OF q(1)] size extra nn
    by (intro dec_grid on_grid_add) simp_all
  have f: "1 \<le> ?f" "1 \<le> ?g" by (rule dec_factor_ge_1, fact)+
  have 1: "?q * of_nat n + ?x \<le> of_int (required e part n)"
    unfolding required_alt sum by linarith
  have 2: "required e part m \<le> required e part n" if "m \<le> n" for m
  proof -
    have b: "dec_mul ?q (of_nat m) \<le> dec_mul ?q (of_nat n)"
      unfolding dec_mul_def using that q(2) by (intro dec_mono mult_left_mono) simp_all
    have "dec_mul (dec_mul (dec_mul ?q (of_nat m)) ?f) ?g \<le> dec_mul (dec_mul (dec_mul ?q (of_nat n)) ?f) ?g"
      using b f by (intro dec_mul_mono) simp_all
    moreover have "dec_add (dec_mul ?q (of_nat m)) ?x \<le> dec_add (dec_mul ?q (of_nat n)) ?x"
      unfolding dec_add_def using b by (intro dec_mono) simp
    ultimately show ?thesis unfolding required_alt by (intro ceiling_mono max.mono)
  qed
  have 3: "required e part n = \<lceil>?q * of_nat n\<rceil>"
    if "part_attrition part = 0" "pe_attrition_pct e = 0" "?x = 0"
  proof -
    have one: "dec_add 1 (dec_div 0 100) = 1"
      using dec_of_int [of 1] by (simp add: dec_add_def dec_div_def)
    have "dec_mul (?q * of_nat n) 1 = ?q * of_nat n" using base by (simp add: dec_mul_def)
    then show ?thesis using sum that unfolding required_alt base by (simp add: one)
  qed
  from 1 2 3 show ?thesis by blast
qed

lemma required_never_short_witness:
  "(21 :: rat) \<le> of_int (required ((demo_entry 50 Et_part (Some 10) 2 0)\<lparr>pe_attrition_pct := 3\<rparr>)
     (Some ((demo_part 10 Local ''resistor'')\<lparr>p_attrition_percentage := 5, p_attrition_min_quantity := 1\<rparr>)) 10)"
proof -
  let ?e = "(demo_entry 50 Et_part (Some 10) 2 0)\<lparr>pe_attrition_pct := 3\<rparr>"
  let ?p = "Some ((demo_part 10 Local ''resistor'')\<lparr>p_attrition_percentage := 5, p_attrition_min_quantity := 1\<rparr>)"
  have v: "pe_quantity ?e = 2" "pe_attrition_pct ?e = 3" "part_attrition ?p = 5" "part_min_extra ?p = 1"
    by (simp_all add: demo_entry_def demo_part_def part_attrition_def part_min_extra_def)
  have g: "on_grid 2" "on_grid 1" using on_grid_of_int [of 2] on_grid_of_int [of 1] by simp_all
  from required_never_short [of ?e ?p 10] show ?thesis unfolding v by (simp add: g)
qed

section \<open>Shortage\<close>

text \<open>
  the shortage report and the consumption agree on what is needed: it has one row per
  consumable entry whose part exists, in bill-of-materials order, each with the
  requirement the consumption will enforce, and a row is short by exactly what the
  on-hand stock of the part and its candidates lacks.
\<close>

theorem shortage_rows_match_requirements:
  "map (\<lambda>r. (sr_project_entry_id r, sr_required r)) (shortage_analysis d ws pr (b_quantity b))
     = required_whole_build d ws b pr
   \<and> (\<forall>r \<in> set (shortage_analysis d ws pr (b_quantity b)).
        sr_short_by r = max 0 (of_int (sr_required r) - (total_for_part d ws (sr_part_id r) On_hand
           + (\<Sum>s \<leftarrow> sr_substitute_ids r. total_for_part d ws s On_hand)))
        \<and> sr_part_id r \<notin> set (sr_substitute_ids r))"
proof -
  have mf: "map f (List.map_filter g xs) = List.map_filter (\<lambda>x. map_option f (g x)) xs"
    for f :: "shortage_row \<Rightarrow> uuid \<times> int" and g :: "project_entry \<Rightarrow> shortage_row option" and xs
    by (induction xs) (auto simp: List.map_filter_def)
  have ff: "List.map_filter g (filter P xs) = List.map_filter (\<lambda>x. if P x then g x else None) xs"
    for g :: "project_entry \<Rightarrow> (uuid \<times> int) option" and P xs
    by (induction xs) (auto simp: List.map_filter_def)
  have 1: "map (\<lambda>r. (sr_project_entry_id r, sr_required r)) (shortage_analysis d ws pr (b_quantity b))
     = required_whole_build d ws b pr"
    unfolding shortage_analysis_def required_whole_build_def consumable_entries_def mf ff
    by (rule arg_cong2 [where f = List.map_filter])
       (auto simp: fun_eq_iff shortage_row_of_def Let_def split: option.split)
  have 2: "r = shortage_row_of d ws (b_quantity b) e part \<Longrightarrow>
      sr_short_by r = max 0 (of_int (sr_required r) - (total_for_part d ws (sr_part_id r) On_hand
           + (\<Sum>s \<leftarrow> sr_substitute_ids r. total_for_part d ws s On_hand)))
      \<and> sr_part_id r \<notin> set (sr_substitute_ids r)" for r e part
    by (simp add: shortage_row_of_def Let_def total_for_part_def candidate_part_ids_def)
  from 1 2 show ?thesis
    by (fastforce simp: shortage_analysis_def set_map_filter split: option.split_asm if_split_asm)
qed

lemma shortage_rows_match_requirements_witness:
  "map (\<lambda>r. (sr_project_entry_id r, sr_required r)) (shortage_analysis demo 1 demo_project (b_quantity demo_build))
     = [(50, 10), (51, 5)]"
proof -
  have "required_whole_build demo 1 demo_build demo_project = [(50, 10), (51, 5)]" by code_simp
  with shortage_rows_match_requirements [of demo 1 demo_project demo_build] show ?thesis by simp
qed

section \<open>Releasing\<close>

lemma reserved_append:
  "appends d d' rows \<Longrightarrow> reserved_quantity d' ws p = reserved_quantity d ws p
     + sum_where se_quantity_delta (\<lambda>e. counts_for e ws p None None Reserved False) rows"
  by (simp add: reserved_quantity_alt appends_current_quantity)

lemma sum_where_releases_part:
  assumes "list_all2 (\<lambda>(r, q). releases ws bid r q) outs rows" and "\<forall>(r, q) \<in> set outs. on_grid q"
  shows "sum_where se_quantity_delta (\<lambda>e. counts_for e ws' p None None Reserved False) rows
     = - (if ws' = ws then sum_where snd (\<lambda>x. se_part_id (fst x) = Some p) outs else 0)"
  using assms by (induction) (auto simp: releases_def counts_for_def round_6_grid)

definition outstanding_of :: "db \<Rightarrow> uuid \<Rightarrow> build \<Rightarrow> uuid \<Rightarrow> rat" where
  "outstanding_of d ws b p = sum_where snd (\<lambda>x. se_part_id (fst x) = Some p) (snd (outstanding_reservations d ws b))"

lemma outstanding_grid:
  "ledger_ok d \<Longrightarrow> (r, q) \<in> set (snd (outstanding_reservations d ws b)) \<Longrightarrow> on_grid q"
  using outstanding_rows [of r q d ws b] by (auto simp: reserve_rows_set intro: on_grid_remaining)

lemma release_reserved:
  assumes ok: "ledger_ok d" and rel: "release_reservations ws user b d = Inr (d', n)"
  shows "reserved_quantity d' ws' p = reserved_quantity d ws' p - (if ws' = ws then outstanding_of d ws b p else 0)"
    and "current_quantity d' ws' p sto lot On_hand bm = current_quantity d ws' p sto lot On_hand bm"
proof -
  from release_reservations_effect [OF assms] obtain rows where
    app: "appends d d' rows"
    and rows: "list_all2 (\<lambda>(r, q). releases ws (b_id b) r q) (snd (outstanding_reservations d ws b)) rows" .
  have grid: "\<forall>(r, q) \<in> set (snd (outstanding_reservations d ws b)). on_grid q"
    using outstanding_grid [OF ok] by blast
  show "reserved_quantity d' ws' p = reserved_quantity d ws' p - (if ws' = ws then outstanding_of d ws b p else 0)"
    using sum_where_releases_part [OF rows grid, of ws' p]
    by (simp add: reserved_append [OF app] outstanding_of_def)
  show "current_quantity d' ws' p sto lot On_hand bm = current_quantity d ws' p sto lot On_hand bm"
    by (rule appends_reserved_only [OF app]) (use releases_operation [OF rows] in blast)
qed

text \<open>
  C34: releasing a build frees exactly what it still holds. The ledger grows by one release
  row for every reserve row with something outstanding, in their order: it names that
  reserve row, its part and the build, and takes back exactly the outstanding amount.
  Nothing else is written. Afterwards nothing of the build is outstanding, each part's reserved total has fallen by exactly the build's
  outstanding amount of it, no on-hand balance has moved, and releasing again writes
  nothing.
\<close>

theorem release_frees_exactly_the_outstanding:
  assumes ok: "ledger_ok d" and rel: "release_reservations ws user b d = Inr (d', n)"
  shows "ledger_ok d' \<and> snd (outstanding_reservations d' ws b) = []
    \<and> (\<exists>rows. appends d d' rows \<and> length rows = n
         \<and> list_all2 (\<lambda>(r, q) e. releases ws (b_id b) r q e \<and> se_quantity_delta e = - q \<and> 0 < q)
              (snd (outstanding_reservations d ws b)) rows)
    \<and> (\<forall>ws' p. reserved_quantity d' ws' p = reserved_quantity d ws' p - (if ws' = ws then outstanding_of d ws b p else 0))
    \<and> (\<forall>ws' p sto lot. current_quantity d' ws' p sto lot On_hand True = current_quantity d ws' p sto lot On_hand True)
    \<and> (\<exists>d2. release_reservations ws user b d' = Inr (d2, 0) \<and> stock_entries d2 = stock_entries d')"
proof -
  from release_reservations_effect [OF assms] obtain rows where e: "ledger_ok d'" "appends d d' rows"
    "list_all2 (\<lambda>(r, q). releases ws (b_id b) r q) (snd (outstanding_reservations d ws b)) rows"
    "n = length (snd (outstanding_reservations d ws b))" .
  have "list_all2 (\<lambda>(r, q) e. releases ws (b_id b) r q e \<and> se_quantity_delta e = - q \<and> 0 < q)
      (snd (outstanding_reservations d ws b)) rows"
  proof (rule list.rel_mono_strong [OF e(3)])
    fix o' e assume o: "o' \<in> set (snd (outstanding_reservations d ws b))" "(case o' of (r, q) \<Rightarrow> releases ws (b_id b) r q) e"
    obtain r q where o': "o' = (r, q)" by (cases o')
    have "on_grid q" "0 < q" using outstanding_grid [OF ok] outstanding_rows(3) o(1) o' by blast+
    then show "(case o' of (r, q) \<Rightarrow> \<lambda>e. releases ws (b_id b) r q e \<and> se_quantity_delta e = - q \<and> 0 < q) e"
      using o(2) by (simp add: o' releases_def round_6_grid)
  qed
  with e list_all2_lengthD [OF e(3)] have rows: "\<exists>rows. appends d d' rows \<and> length rows = n
         \<and> list_all2 (\<lambda>(r, q) e. releases ws (b_id b) r q e \<and> se_quantity_delta e = - q \<and> 0 < q)
              (snd (outstanding_reservations d ws b)) rows" by auto
  note e(1)
  moreover have none: "snd (outstanding_reservations d' ws b) = []" by (rule release_reservations_complete [OF assms])
  moreover have "\<exists>d2. release_reservations ws user b d' = Inr (d2, 0) \<and> stock_entries d2 = stock_entries d'"
    using none by (auto simp: release_reservations_def case_prod_unfold Let_def)
  ultimately show ?thesis using rows release_reserved [OF assms] by blast
qed

fun drain :: "rat \<Rightarrow> (stock_entry \<times> rat) list \<Rightarrow> (stock_entry \<times> rat) list" where
  "drain want [] = []"
| "drain want ((r, q) # rest) = (if want \<le> 0 then [] else (r, min want q) # drain (want - min want q) rest)"

lemma drain_members: "(r, t) \<in> set (drain want outs) \<Longrightarrow> \<exists>q. (r, q) \<in> set outs \<and> t \<le> q"
  by (induction want outs rule: drain.induct) (auto split: if_split_asm)

lemma drain_grid:
  "on_grid want \<Longrightarrow> \<forall>(r, q) \<in> set outs. on_grid q \<Longrightarrow> \<forall>(r, t) \<in> set (drain want outs). on_grid t"
  by (induction want outs rule: drain.induct) (auto simp: on_grid_min on_grid_diff)

lemma drain_total:
  "0 \<le> want \<Longrightarrow> \<forall>(r, q) \<in> set outs. 0 < q \<Longrightarrow> sum_list (map snd (drain want outs)) = min want (sum_list (map snd outs))"
proof (induction want outs rule: drain.induct)
  case (2 want r q rest)
  show ?case
  proof (cases "want \<le> 0")
    case True
    have "0 \<le> sum_list (map snd rest)" using "2.prems"(2) by (intro sum_list_nonneg) force
    with True "2.prems" show ?thesis by simp
  next
    case False
    with 2 have "sum_list (map snd (drain (want - min want q) rest)) = min (want - min want q) (sum_list (map snd rest))"
      by simp
    moreover have "0 \<le> sum_list (map snd rest)" using "2.prems"(2) by (intro sum_list_nonneg) force
    ultimately show ?thesis using False "2.prems" by (simp add: min_def)
  qed
qed simp

lemma release_amount_effect:
  assumes "ledger_ok d" and "release_amount ws user b stage now want outs (d, n) = Inr (d', n')"
  shows "ledger_ok d' \<and> (\<exists>rows. appends d d' rows \<and> list_all2 (\<lambda>(r, q). releases ws (b_id b) r q) (drain want outs) rows)"
  using assms
proof (induction outs arbitrary: d want n)
  case Nil
  then show ?case by auto
next
  case (Cons o' outs)
  obtain r q where o': "o' = (r, q)" by (cases o')
  show ?case
  proof (cases "want \<le> 0")
    case True
    with Cons.prems o' show ?thesis by auto
  next
    case False
    from Cons.prems(2) False obtain d1 where w: "write_release ws user b r (min want q) stage now d = Inr d1"
      and rest: "release_amount ws user b stage now (want - min want q) outs (d1, Suc n) = Inr (d', n')"
      by (auto simp: o' Let_def bindr_Inr)
    note eff = write_release_effect [OF Cons.prems(1) w]
    then obtain e where e: "appends d d1 [e]" "releases ws (b_id b) r (min want q) e" by blast
    from Cons.IH [OF eff(1) rest] obtain rows where
      "ledger_ok d'" "appends d1 d' rows"
      "list_all2 (\<lambda>(r, q). releases ws (b_id b) r q) (drain (want - min want q) outs) rows" by blast
    with e appends_trans [OF e(1), of d' rows] o' False show ?thesis by (auto intro!: exI [of _ "e # rows"])
  qed
qed

text \<open>All the parts in turn: the rows are the drains of the parts' reserve rows, one after another.\<close>

lemma release_parts_effect:
  assumes "ledger_ok d"
    and "foldr_r (\<lambda>p. release_amount ws user b stage now (want p) (by_part p)) ps (d, n) = Inr (d', n')"
  shows "ledger_ok d' \<and> (\<exists>rows. appends d d' rows
     \<and> list_all2 (\<lambda>(r, q). releases ws (b_id b) r q) (concat (map (\<lambda>p. drain (want p) (by_part p)) ps)) rows)"
  using assms
proof (induction ps arbitrary: d n)
  case Nil
  then show ?case by auto
next
  case (Cons p ps)
  from Cons.prems(2) obtain d1 n1 where one: "release_amount ws user b stage now (want p) (by_part p) (d, n) = Inr (d1, n1)"
    and rest: "foldr_r (\<lambda>p. release_amount ws user b stage now (want p) (by_part p)) ps (d1, n1) = Inr (d', n')"
    by (auto simp: bindr_Inr)
  from release_amount_effect [OF Cons.prems(1) one] obtain rows1 where
    1: "ledger_ok d1" "appends d d1 rows1"
      "list_all2 (\<lambda>(r, q). releases ws (b_id b) r q) (drain (want p) (by_part p)) rows1" by blast
  from Cons.IH [OF 1(1) rest] obtain rows2 where
    2: "ledger_ok d'" "appends d1 d' rows2"
      "list_all2 (\<lambda>(r, q). releases ws (b_id b) r q) (concat (map (\<lambda>p. drain (want p) (by_part p)) ps)) rows2" by blast
  from 1 2 appends_trans [OF 1(2) 2(2)] show ?case
    by (auto intro!: exI [of _ "rows1 @ rows2"] list_all2_appendI)
qed


text \<open>Taking a sum over rows by the row's id and by its part.\<close>

lemma sum_where_concat:
  "sum_where v P (concat xss) = (\<Sum>xs \<leftarrow> xss. sum_where v P xs)"
  by (induction xss) simp_all

lemma sum_list_single:
  "distinct ks \<Longrightarrow> (\<Sum>k \<leftarrow> ks. if k = j then v k else 0) = (if j \<in> set ks then v j else (0 :: rat))"
  by (induction ks) auto

text \<open>
  a partial release never takes more than is there. Each part's reserved total falls
  by exactly the smaller of what was asked for it and what the build still had
  outstanding of it (parts not asked for keep theirs),
  and no on-hand balance moves.
\<close>

theorem release_amounts_clamped:
  assumes ok: "ledger_ok d" and am: "distinct (map fst amounts)" "\<forall>(p, w) \<in> set amounts. 0 \<le> w \<and> on_grid w"
    and rel: "release_reservation_amounts ws user b amounts stage d = Inr (d', n)"
  shows "ledger_ok d'
    \<and> (\<forall>p. reserved_quantity d' ws p = reserved_quantity d ws p
          - (case map_of amounts p of None \<Rightarrow> 0 | Some w \<Rightarrow> min w (outstanding_of d ws b p)))
    \<and> (\<forall>ws' p sto lot. current_quantity d' ws' p sto lot On_hand True = current_quantity d ws' p sto lot On_hand True)"
proof (cases "fst (outstanding_reservations d ws b) = []")
  case True
  then have "outstanding_of d ws b p = 0" for p
    by (auto simp: outstanding_of_def outstanding_reservations_def Let_def split: if_split_asm)
  moreover have "d' = d"
    using True rel by (auto simp: release_reservation_amounts_def case_prod_unfold Let_def)
  moreover have "min w 0 = 0" if "map_of amounts p = Some w" for p w
    using am(2) map_of_SomeD [OF that] by auto
  ultimately show ?thesis using ok by (auto split: option.split)
next
  case False
  let ?outs = "snd (outstanding_reservations d ws b)"
  let ?d1 = "lock_parts_for_stock_write ws (List.map_filter id (fst (outstanding_reservations d ws b))) d"
  define by_part where "by_part p = filter (\<lambda>(r, _). se_part_id r = Some p) ?outs" for p
  define want where "want p = the (map_of amounts p)" for p
  from False rel have loop: "foldr_r (\<lambda>p. release_amount ws user b stage (clock ?d1) (want p) (by_part p))
      (sort (map fst amounts)) (?d1, 0) = Inr (d', n)"
    by (simp add: release_reservation_amounts_def case_prod_unfold Let_def by_part_def want_def)
  from release_parts_effect [OF _ loop] ok obtain rows where
    ok': "ledger_ok d'" and a1: "appends ?d1 d' rows"
    and rows: "list_all2 (\<lambda>(r, q). releases ws (b_id b) r q)
      (concat (map (\<lambda>p. drain (want p) (by_part p)) (sort (map fst amounts)))) rows" by auto
  have app: "appends d d' rows" using appends_trans [OF lock_parts_frame(1) a1] by simp
  have w: "0 \<le> want p \<and> on_grid (want p)" if "p \<in> fst ` set amounts" for p
  proof -
    from that obtain v where "(p, v) \<in> set amounts" by auto
    with am show ?thesis by (auto simp: want_def)
  qed
  have bp: "\<forall>(r, q) \<in> set (by_part p). 0 < q \<and> on_grid q \<and> se_part_id r = Some p" for p
    using outstanding_rows(3) outstanding_grid [OF ok] by (auto simp: by_part_def)
  have total: "sum_list (map snd (drain (want p) (by_part p))) = min (want p) (outstanding_of d ws b p)"
    if "p \<in> fst ` set amounts" for p
  proof -
    have "sum_list (map snd (by_part p)) = outstanding_of d ws b p"
      by (simp add: by_part_def outstanding_of_def sum_where_def case_prod_unfold)
    with drain_total [of "want p" "by_part p"] w [OF that] bp [of p] show ?thesis by fastforce
  qed
  have grid: "\<forall>(r, q) \<in> set (concat (map (\<lambda>p. drain (want p) (by_part p)) (sort (map fst amounts)))). on_grid q"
    using drain_grid [OF conjunct2 [OF w]] bp by fastforce
  have part: "sum_where snd (\<lambda>x. se_part_id (fst x) = Some p) (drain (want q) (by_part q))
      = (if q = p then sum_list (map snd (drain (want q) (by_part q))) else 0)" for p q
  proof -
    have "se_part_id (fst x) = Some q" if "x \<in> set (drain (want q) (by_part q))" for x
      using drain_members [of "fst x" "snd x" "want q" "by_part q"] that bp [of q] by fastforce
    then show ?thesis
      by (cases "q = p") (auto simp: sum_where_def filter_empty_conv cong: filter_cong
          intro!: arg_cong [where f = sum_list])
  qed
  have "sum_where se_quantity_delta (\<lambda>e. counts_for e ws p None None Reserved False) rows
      = - (case map_of amounts p of None \<Rightarrow> 0 | Some w \<Rightarrow> min w (outstanding_of d ws b p))" for p
  proof -
    have "sum_where se_quantity_delta (\<lambda>e. counts_for e ws p None None Reserved False) rows
        = - (\<Sum>q \<leftarrow> sort (map fst amounts). if q = p then sum_list (map snd (drain (want q) (by_part q))) else 0)"
      using sum_where_releases_part [OF rows grid, of ws p]
      by (simp add: sum_where_concat comp_def part)
    also have "\<dots> = - (if p \<in> set (sort (map fst amounts)) then sum_list (map snd (drain (want p) (by_part p))) else 0)"
      by (subst sum_list_single) (use am(1) in simp_all)
    also have "\<dots> = - (case map_of amounts p of None \<Rightarrow> 0 | Some w \<Rightarrow> min w (outstanding_of d ws b p))"
    proof (cases "map_of amounts p")
      case None
      then have "p \<notin> fst ` set amounts" by (simp add: map_of_eq_None_iff)
      then show ?thesis unfolding None by simp
    next
      case (Some v)
      then have "p \<in> fst ` set amounts" by (metis map_of_eq_None_iff option.discI)
      with Some total [OF this] show ?thesis by (simp add: want_def)
    qed
    finally show ?thesis .
  qed
  moreover have "current_quantity d' ws' p sto lot On_hand True = current_quantity d ws' p sto lot On_hand True" for ws' p sto lot
    by (rule appends_reserved_only [OF app]) (use releases_operation [OF rows] in blast)
  ultimately show ?thesis using ok' by (simp add: reserved_append [OF app])
qed

section \<open>Reserving\<close>

text \<open>What one bill-of-materials entry reserves of a part.\<close>

definition reserve_amount :: "db \<Rightarrow> build \<Rightarrow> uuid \<Rightarrow> project_entry \<Rightarrow> rat" where
  "reserve_amount d b p e = (if pe_part_id e = Some p then
     (case parts d p of None \<Rightarrow> 0 | Some part \<Rightarrow> of_int (max 0 (required e (Some part) (b_quantity b)))) else 0)"

lemma reserve_entry_effect:
  assumes ok: "ledger_ok d" "catalog_ok d" and r: "reserve_entry ws user b pr now e (d, n) = Inr (d', n')"
  shows "ledger_ok d' \<and> (\<exists>rows. appends d d' rows \<and> (\<forall>x \<in> set rows. se_status x = Reserved)
     \<and> (\<forall>p. sum_where se_quantity_delta (\<lambda>x. counts_for x ws p None None Reserved False) rows = reserve_amount d b p e))"
proof (cases "Option.bind (pe_part_id e) (parts d)")
  case None
  then have "reserve_amount d b p e = 0" for p
    by (auto simp: reserve_amount_def bind_eq_None_conv split: option.split)
  with None r ok show ?thesis by (auto simp: reserve_entry_def intro!: exI [of _ "[]"])
next
  case (Some part)
  then obtain q where q: "pe_part_id e = Some q" "parts d q = Some part" by (auto simp: bind_eq_Some_conv)
  have id: "p_id part = q" using catalog_ok_part [OF ok(2) q(2)] by simp
  show ?thesis
  proof (cases "required e (Some part) (b_quantity b) \<le> 0")
    case True
    then have "reserve_amount d b p e = 0" for p using q by (auto simp: reserve_amount_def)
    with True Some r ok show ?thesis by (auto simp: reserve_entry_def intro!: exI [of _ "[]"])
  next
    case False
    with r q obtain row where row: "add_entry (blank_entry\<lparr>
            se_workspace_id := ws,
            se_part_id := Some (p_id part),
            se_quantity_delta := of_int (required e (Some part) (b_quantity b)),
            se_unit := unit_for_part (Some part),
            se_status := Reserved,
            se_operation_type := Op_reserve,
            se_build_id := Some (b_id b),
            se_project_id := Some (pr_id pr),
            se_occurred_at := now,
            se_created_by := user\<rparr>) d = Inr (row, d')"
      by (auto simp: reserve_entry_def Let_def bindr_Inr)
    have "sum_where se_quantity_delta (\<lambda>x. counts_for x ws p None None Reserved False) [stored_entry row]
        = reserve_amount d b p e" for p
      using row False q by (auto simp: add_entry_Inr counts_for_def reserve_amount_def id blank_entry_def)
    moreover have "se_status (stored_entry row) = Reserved"
      using row by (auto simp: add_entry_Inr)
    ultimately show ?thesis
      using add_entry_ledger_ok [OF ok(1) row] add_entry_appends [OF row]
      by (intro conjI exI [of _ "[stored_entry row]"]) simp_all
  qed
qed

lemma reserve_entries_effect:
  assumes "ledger_ok d" "catalog_ok d" and "foldr_r (reserve_entry ws user b pr now) es (d, n) = Inr (d', n')"
  shows "ledger_ok d' \<and> (\<exists>rows. appends d d' rows \<and> (\<forall>x \<in> set rows. se_status x = Reserved)
     \<and> (\<forall>p. sum_where se_quantity_delta (\<lambda>x. counts_for x ws p None None Reserved False) rows
            = (\<Sum>e \<leftarrow> es. reserve_amount d b p e)))"
  using assms
proof (induction es arbitrary: d n)
  case Nil
  then show ?case by (auto intro!: exI [of _ "[]"])
next
  case (Cons e es)
  from Cons.prems(3) obtain d1 n1 where one: "reserve_entry ws user b pr now e (d, n) = Inr (d1, n1)"
    and rest: "foldr_r (reserve_entry ws user b pr now) es (d1, n1) = Inr (d', n')"
    by (auto simp: bindr_Inr)
  from reserve_entry_effect [OF Cons.prems(1,2) one] obtain rows1 where
    1: "ledger_ok d1" "appends d d1 rows1" "\<forall>x \<in> set rows1. se_status x = Reserved"
      "\<And>p. sum_where se_quantity_delta (\<lambda>x. counts_for x ws p None None Reserved False) rows1 = reserve_amount d b p e"
    by blast
  have cat: "catalog_ok d1" by (rule catalog_ok_appends [OF Cons.prems(2) 1(2)])
  have "reserve_amount d1 = reserve_amount d"
    using appends_catalog(1) [OF 1(2)] by (simp add: reserve_amount_def fun_eq_iff)
  with Cons.IH [OF 1(1) cat rest] obtain rows2 where
    2: "ledger_ok d'" "appends d1 d' rows2" "\<forall>x \<in> set rows2. se_status x = Reserved"
      "\<And>p. sum_where se_quantity_delta (\<lambda>x. counts_for x ws p None None Reserved False) rows2
         = (\<Sum>e \<leftarrow> es. reserve_amount d b p e)" by auto
  from 1 2 appends_trans [OF 1(2) 2(2)] show ?case
    by (intro conjI exI [of _ "rows1 @ rows2"]) auto
qed

lemma apply_reservations_effect:
  assumes ok: "ledger_ok d" "catalog_ok d" and r: "apply_reservations ws user b pr d = Inr (d', n)"
  obtains rows where "ledger_ok d'" "appends d d' rows" "\<forall>x \<in> set rows. se_status x = Reserved"
    "\<forall>p. reserved_quantity d' ws p = reserved_quantity d ws p
          + (\<Sum>e \<leftarrow> consumable_entries d ws pr. reserve_amount d b p e)"
proof -
  let ?d1 = "lock_parts_for_stock_write ws (List.map_filter pe_part_id (consumable_entries d ws pr)) d"
  have a0: "appends d ?d1 []" by (rule lock_parts_frame)
  have "foldr_r (reserve_entry ws user b pr (clock ?d1)) (consumable_entries d ws pr) (?d1, 0) = Inr (d', n)"
    using r by (simp add: apply_reservations_def Let_def)
  from reserve_entries_effect [OF _ _ this] ok catalog_ok_appends [OF ok(2) a0] obtain rows where
    x: "ledger_ok d'" "appends ?d1 d' rows" "\<forall>x \<in> set rows. se_status x = Reserved"
      "\<And>p. sum_where se_quantity_delta (\<lambda>x. counts_for x ws p None None Reserved False) rows
         = (\<Sum>e \<leftarrow> consumable_entries d ws pr. reserve_amount ?d1 b p e)" by auto
  have "reserve_amount ?d1 = reserve_amount d"
    using appends_catalog(1) [OF a0] by (simp add: reserve_amount_def fun_eq_iff)
  moreover have app: "appends d d' rows" using appends_trans [OF a0 x(2)] by simp
  ultimately show thesis
    using x(1,3,4) by (intro that [of rows]) (simp_all add: reserved_append [OF app])
qed

text \<open>
  reserving a build raises each part's reserved total by exactly the requirements of
  the build's consumable entries for that part, and moves no on-hand balance.
\<close>

theorem apply_reservations_adds_requirements:
  assumes ok: "ledger_ok d" "catalog_ok d" and r: "apply_reservations ws user b pr d = Inr (d', n)"
  shows "ledger_ok d'
    \<and> (\<forall>p. reserved_quantity d' ws p = reserved_quantity d ws p
          + (\<Sum>e \<leftarrow> consumable_entries d ws pr. reserve_amount d b p e))
    \<and> (\<forall>ws' p sto lot. current_quantity d' ws' p sto lot On_hand True = current_quantity d ws' p sto lot On_hand True)"
proof -
  from apply_reservations_effect [OF assms] obtain rows where
    "ledger_ok d'" and app: "appends d d' rows" and rows: "\<forall>x \<in> set rows. se_status x = Reserved"
    and "\<forall>p. reserved_quantity d' ws p = reserved_quantity d ws p
          + (\<Sum>e \<leftarrow> consumable_entries d ws pr. reserve_amount d b p e)" .
  with appends_reserved_only [OF app rows] show ?thesis by simp
qed

text \<open>The demo build with its reservations: 10 of part 10 and 5 of part 11.\<close>

definition demo_reserve :: "uuid \<Rightarrow> uuid \<Rightarrow> rat \<Rightarrow> stock_entry" where
  "demo_reserve i p q = (demo_row i p None None q)\<lparr>se_status := Reserved, se_operation_type := Op_reserve,
     se_build_id := Some 60, se_project_id := Some 40\<rparr>"

definition demo_reserved :: db where
  "demo_reserved = demo\<lparr>stock_entries := stock_entries demo @ [demo_reserve 103 10 10, demo_reserve 104 11 5]\<rparr>"

lemma demo_reserved_ok: "ledger_ok demo_reserved"
proof (rule ledger_okI)
  show "list_all (row_balance_ok demo_reserved) (stock_entries demo_reserved)" by code_simp
  show "list_all (row_ok demo_reserved) (stock_entries demo_reserved)" by code_simp
  show "distinct (map se_id (stock_entries demo_reserved))" by code_simp
  show "list_all (\<lambda>e. se_id e < next_uuid demo_reserved) (stock_entries demo_reserved)" by code_simp
  show "\<And>l. next_uuid demo_reserved \<le> l \<Longrightarrow> lots demo_reserved l = None"
    by (simp add: demo_reserved_def demo_def empty_db_def)
qed

lemma apply_reservations_adds_requirements_witness:
  "\<exists>d' n. apply_reservations 1 None demo_build demo_project demo = Inr (d', n) \<and> reserved_quantity d' 1 10 = 10"
proof -
  have "\<not> isl (apply_reservations 1 None demo_build demo_project demo)" by code_simp
  then obtain d' n where r: "apply_reservations 1 None demo_build demo_project demo = Inr (d', n)"
    by (cases "apply_reservations 1 None demo_build demo_project demo") auto
  have "reserved_quantity demo 1 10 = 0" by code_simp
  moreover have "(\<Sum>e \<leftarrow> consumable_entries demo 1 demo_project. reserve_amount demo demo_build 10 e) = 10" by code_simp
  ultimately have "reserved_quantity d' 1 10 = 10"
    using apply_reservations_adds_requirements [OF demo_ledger_ok demo_catalog_ok r] by simp
  with r show ?thesis by blast
qed

lemma release_frees_exactly_the_outstanding_witness:
  "\<exists>d' n. release_reservations 1 None demo_build demo_reserved = Inr (d', n) \<and> reserved_quantity d' 1 10 = 0
     \<and> length (stock_entries d') = length (stock_entries demo_reserved) + n"
proof -
  have "\<not> isl (release_reservations 1 None demo_build demo_reserved)" by code_simp
  then obtain d' n where r: "release_reservations 1 None demo_build demo_reserved = Inr (d', n)"
    by (cases "release_reservations 1 None demo_build demo_reserved") auto
  have "reserved_quantity demo_reserved 1 10 = 10" by code_simp
  moreover have "outstanding_of demo_reserved 1 demo_build 10 = 10" by code_simp
  ultimately show ?thesis
    using release_frees_exactly_the_outstanding [OF demo_reserved_ok r] r by (auto simp: appends_def)
qed

lemma release_amounts_clamped_witness:
  "\<exists>d' n. release_reservation_amounts 1 None demo_build [(10, 4), (11, 9)] None demo_reserved = Inr (d', n)
     \<and> reserved_quantity d' 1 10 = 6 \<and> reserved_quantity d' 1 11 = 0"
proof -
  have "\<not> isl (release_reservation_amounts 1 None demo_build [(10, 4), (11, 9)] None demo_reserved)" by code_simp
  then obtain d' n where r: "release_reservation_amounts 1 None demo_build [(10, 4), (11, 9)] None demo_reserved = Inr (d', n)"
    by (cases "release_reservation_amounts 1 None demo_build [(10, 4), (11, 9)] None demo_reserved") auto
  have g: "on_grid 4" "on_grid 9" using on_grid_of_int [of 4] on_grid_of_int [of 9] by simp_all
  have "reserved_quantity demo_reserved 1 10 = 10" "reserved_quantity demo_reserved 1 11 = 5"
    "outstanding_of demo_reserved 1 demo_build 10 = 10" "outstanding_of demo_reserved 1 demo_build 11 = 5"
    by code_simp+
  moreover have "distinct (map fst [(10 :: uuid, 4 :: rat), (11, 9)])" by simp
  moreover have "\<forall>(p, w) \<in> set [(10 :: uuid, 4 :: rat), (11, 9)]. 0 \<le> w \<and> on_grid w" by (simp add: g)
  note c = release_amounts_clamped [OF demo_reserved_ok calculation(5) this r]
  from c have "reserved_quantity d' 1 10 = reserved_quantity demo_reserved 1 10 - min 4 (outstanding_of demo_reserved 1 demo_build 10)"
    "reserved_quantity d' 1 11 = reserved_quantity demo_reserved 1 11 - min 9 (outstanding_of demo_reserved 1 demo_build 11)"
    by (auto dest: spec [of _ 10] spec [of _ 11])
  ultimately have "reserved_quantity d' 1 10 = 6 \<and> reserved_quantity d' 1 11 = 0" by simp
  with r show ?thesis by blast
qed

end
