(* ===== verification/Stages.thy ===== *)
theory Stages
  imports BuildProps
begin

text \<open>
  Multi-stage builds (\<open>backend/app/domain/builds/stages.py\<close>): the split of a requirement
  over stages by cumulative ceiling, per-stage allocations and shortage, stage creation
  with its commitment check, and the consumption of one stage.

  A stage's allocation is a list of (entry, quantity) in the order the code's
  dictionaries have. The stage and line tables check their CHECK constraints, the
  partial unique index on (build, sequence) and the width of the sequence column.
\<close>

section \<open>Allocation\<close>

fun allocate_from :: "int \<Rightarrow> rat \<Rightarrow> int \<Rightarrow> (uuid \<times> rat) list \<Rightarrow> (uuid \<times> int) list" where
  "allocate_from tot cumulative previous [] = []"
| "allocate_from tot cumulative previous ((stage_id, pct) # portions) =
     (let cumulative' = dec_add cumulative pct;
          upto' = min \<lceil>dec_div (dec_mul (of_int tot) cumulative') 100\<rceil> tot
      in (stage_id, max 0 (upto' - previous)) # allocate_from tot cumulative' upto' portions)"

definition allocate :: "int \<Rightarrow> (uuid \<times> rat) list \<Rightarrow> (uuid \<times> int) list" where
  "allocate tot portions = allocate_from tot 0 0 portions"

definition list_stages :: "db \<Rightarrow> uuid \<Rightarrow> uuid \<Rightarrow> build_stage list" where
  "list_stages d ws bid = sort_key bs_sequence (sort_key bs_created_at (sort_key bs_id
     (filter (\<lambda>s. bs_workspace_id s = ws \<and> bs_build_id s = bid \<and> bs_archived_at s = None)
       (build_stages d))))"

definition stage_lines :: "db \<Rightarrow> uuid \<Rightarrow> uuid list \<Rightarrow> build_stage_line list" where
  "stage_lines d ws stage_ids =
     (if stage_ids = [] then []
      else filter (\<lambda>l. bsl_workspace_id l = ws \<and> bsl_build_stage_id l \<in> set stage_ids
             \<and> bsl_archived_at l = None) (build_stage_lines d))"

text \<open>The position of a stage among the listed ones; 0 when it is not listed.\<close>

definition stage_order :: "build_stage list \<Rightarrow> uuid \<Rightarrow> nat" where
  "stage_order stages i = (case map_of (zip (map bs_id stages) [0 ..< length stages]) i of
     None \<Rightarrow> 0 | Some n \<Rightarrow> n)"

definition entry_portions :: "db \<Rightarrow> uuid \<Rightarrow> uuid \<Rightarrow> uuid \<Rightarrow> (uuid \<times> rat) list" where
  "entry_portions d ws bid entry_id =
     (let stages = list_stages d ws bid in
      sort_key (\<lambda>item. stage_order stages (fst item))
        (map (\<lambda>l. (bsl_build_stage_id l, bsl_portion_pct l))
          (filter (\<lambda>l. bsl_project_entry_id l = entry_id) (stage_lines d ws (map bs_id stages)))))"

definition entry_total :: "db \<Rightarrow> uuid \<Rightarrow> build \<Rightarrow> project \<Rightarrow> uuid \<Rightarrow> int option" where
  "entry_total d ws b pr entry_id =
     (case project_entries_by_id d ws pr entry_id of None \<Rightarrow> None
      | Some e \<Rightarrow>
        if pe_dnp e \<or> pe_entry_type e \<notin> {Et_part, Et_meta_part} then None
        else case Option.bind (pe_part_id e) (parts d) of None \<Rightarrow> None
             | Some part \<Rightarrow> Some (required e (Some part) (b_quantity b)))"

text \<open>The allocation of one stage: for each entry with a line, its share if it has one.\<close>

definition stage_allocations :: "db \<Rightarrow> uuid \<Rightarrow> build \<Rightarrow> project \<Rightarrow> uuid \<Rightarrow> (uuid \<times> int) list" where
  "stage_allocations d ws b pr stage_id =
     (let stages = list_stages d ws (b_id b) in
      if stage_id \<notin> set (map bs_id stages) then []
      else List.map_filter (\<lambda>entry_id.
        case entry_total d ws b pr entry_id of None \<Rightarrow> None
        | Some tot \<Rightarrow> map_option (\<lambda>q. (entry_id, q))
            (map_of (rev (allocate tot (entry_portions d ws (b_id b) entry_id))) stage_id))
        (dict_keys (map bsl_project_entry_id (stage_lines d ws (map bs_id stages)))))"

text \<open>Rows sorted by the entries' position in the bill of materials.\<close>

definition stage_shortage ::
    "db \<Rightarrow> uuid \<Rightarrow> project \<Rightarrow> (uuid \<times> int) list \<Rightarrow> shortage_row list" where
  "stage_shortage d ws pr allocation =
     (let entries = project_entries_by_id d ws pr in
      List.map_filter (\<lambda>(entry_id, req).
        case entries entry_id of None \<Rightarrow> None
        | Some e \<Rightarrow> (case Option.bind (pe_part_id e) (parts d) of None \<Rightarrow> None
          | Some part \<Rightarrow>
            (let available = current_quantity d ws (p_id part) None None On_hand False;
                 sub_ids = candidate_part_ids d part;
                 sub_avail = sum_list (map (\<lambda>s. current_quantity d ws s None None On_hand False) sub_ids)
             in Some \<lparr>sr_project_entry_id = pe_id e, sr_part_id = p_id part, sr_part_name = p_name part,
                sr_required = req, sr_available = available, sr_substitute_ids = sub_ids,
                sr_substitute_available = sub_avail,
                sr_short_by = max 0 (of_int req - (available + sub_avail))\<rparr>)))
        (sort_key (\<lambda>(entry_id, _). case entries entry_id of None \<Rightarrow> 0 | Some e \<Rightarrow> pe_order_index e) allocation))"

section \<open>Creating a stage\<close>

record stage_line_in =
  sli_project_entry_id :: uuid
  sli_portion_pct :: rat

record stage_create_in =
  sci_name :: string
  sci_sequence :: "int option"
  sci_lines :: "stage_line_in list"

definition committed_portions :: "db \<Rightarrow> uuid \<Rightarrow> uuid list \<Rightarrow> uuid \<Rightarrow> rat" where
  "committed_portions d ws stage_ids entry_id =
     (case map_of (group_sum bsl_project_entry_id bsl_portion_pct (\<lambda>_. True) (stage_lines d ws stage_ids)) entry_id
      of None \<Rightarrow> 0 | Some t \<Rightarrow> t)"

definition check_stage_line ::
    "(uuid \<rightharpoonup> project_entry) \<Rightarrow> stage_line_in \<Rightarrow> uuid list \<Rightarrow> error + uuid list" where
  "check_stage_line entries l seen =
     (case entries (sli_project_entry_id l) of
        None \<Rightarrow> Inl (BuildError (Entry_not_in_project (sli_project_entry_id l)))
      | Some e \<Rightarrow>
        if pe_entry_type e \<notin> {Et_part, Et_meta_part} \<or> pe_part_id e = None
        then Inl (BuildError (Entry_has_no_part (pe_id e)))
        else if pe_dnp e then Inl (BuildError (Entry_is_dnp (pe_id e)))
        else if pe_id e \<in> set seen then Inl (BuildError (Entry_listed_twice (pe_id e)))
        else Inr (seen @ [pe_id e]))"

definition insert_stage :: "build_stage \<Rightarrow> db \<Rightarrow> error + build_stage \<times> db" where
  "insert_stage s d =
     (let (i, d1) = new_uuid d; s' = s\<lparr>bs_id := i, bs_created_at := clock d\<rparr> in
      if \<not> fits_varchar 200 (bs_name s) \<or> 2 ^ 31 \<le> bs_sequence s then Inl (DbError Data_error)
      else if bs_sequence s < 0
        \<or> (\<exists>x \<in> set (build_stages d). bs_build_id x = bs_build_id s \<and> bs_sequence x = bs_sequence s
             \<and> bs_archived_at x = None)
      then Inl (DbError Check_violation)
      else Inr (s', d1\<lparr>build_stages := build_stages d1 @ [s']\<rparr>))"

definition insert_stage_line :: "build_stage_line \<Rightarrow> db \<Rightarrow> error + db" where
  "insert_stage_line l d =
     (let (i, d1) = new_uuid d in
      if \<not> (0 < bsl_portion_pct l \<and> bsl_portion_pct l \<le> 100)
        \<or> (\<exists>x \<in> set (build_stage_lines d). bsl_build_stage_id x = bsl_build_stage_id l
             \<and> bsl_project_entry_id x = bsl_project_entry_id l)
      then Inl (DbError Check_violation)
      else Inr (d1\<lparr>build_stage_lines := build_stage_lines d1 @ [l\<lparr>bsl_id := i\<rparr>]\<rparr>))"

definition create_stage ::
    "uuid \<Rightarrow> uuid option \<Rightarrow> build \<Rightarrow> project \<Rightarrow> stage_create_in \<Rightarrow> db \<Rightarrow> error + build_stage \<times> db" where
  "create_stage ws user b pr payload d =
     (if b_status b \<in> {Complete, Cancelled} then Inl (BuildError (Build_is (b_status b)))
      else if b_archived_at b \<noteq> None then Inl (BuildError Build_archived)
      else let existing = list_stages d ws (b_id b); entries = project_entries_by_id d ws pr in
      bindr (foldr_r (check_stage_line entries) (sci_lines payload) []) (\<lambda>_.
      bindr (foldr_r (\<lambda>l _.
          let tot = dec_add (committed_portions d ws (map bs_id existing) (sli_project_entry_id l))
                        (sli_portion_pct l)
          in if 100 < tot then Inl (BuildError (Over_committed (sli_project_entry_id l) tot)) else Inr ())
        (sci_lines payload) ()) (\<lambda>_.
      bindr (case sci_sequence payload of
           None \<Rightarrow> Inr ((if existing = [] then -1 else Max (set (map bs_sequence existing))) + 1)
         | Some s \<Rightarrow> if s \<in> set (map bs_sequence existing)
                    then Inl (BuildError (Sequence_already_used s)) else Inr s) (\<lambda>sequence.
      bindr (insert_stage \<lparr>bs_id = 0, bs_workspace_id = ws, bs_build_id = b_id b, bs_name = sci_name payload,
               bs_sequence = sequence, bs_status = St_planned, bs_started_at = None, bs_completed_at = None,
               bs_archived_at = None, bs_created_at = 0\<rparr> d) (\<lambda>(stage, d1).
      bindr (foldr_r (\<lambda>l. insert_stage_line \<lparr>bsl_id = 0, bsl_workspace_id = ws,
                 bsl_build_stage_id = bs_id stage, bsl_project_entry_id = sli_project_entry_id l,
                 bsl_portion_pct = sli_portion_pct l, bsl_archived_at = None\<rparr>) (sci_lines payload) d1)
        (\<lambda>d2. Inr (stage, d2)))))))"

section \<open>Consuming a stage\<close>

text \<open>\<open>db.refresh\<close> of the build and of the stage.\<close>

definition refresh_build :: "db \<Rightarrow> build \<Rightarrow> build" where
  "refresh_build d b = (case builds d (b_id b) of None \<Rightarrow> b | Some b' \<Rightarrow> b')"

definition refresh_stage :: "db \<Rightarrow> build_stage \<Rightarrow> build_stage" where
  "refresh_stage d s = (case filter (\<lambda>x. bs_id x = bs_id s) (build_stages d) of [] \<Rightarrow> s | x # _ \<Rightarrow> x)"

definition update_stage :: "build_stage \<Rightarrow> db \<Rightarrow> db" where
  "update_stage s d = d\<lparr>build_stages := map (\<lambda>x. if bs_id x = bs_id s then s else x) (build_stages d)\<rparr>"

text \<open>Every stage listed before this one must be complete.\<close>

fun check_stage_order :: "build_stage \<Rightarrow> build_stage list \<Rightarrow> error + unit" where
  "check_stage_order stage [] = Inr ()"
| "check_stage_order stage (earlier # stages) =
     (if bs_id earlier = bs_id stage then Inr ()
      else if bs_status earlier \<noteq> St_complete
      then Inl (BuildError (Stage_out_of_order (bs_id earlier) (bs_id stage)))
      else check_stage_order stage stages)"

definition stage_release_amounts ::
    "(uuid \<rightharpoonup> project_entry) \<Rightarrow> (uuid \<times> int) list \<Rightarrow> (uuid \<times> rat) list" where
  "stage_release_amounts entries_by_id required_by_entry =
     (let amounts = List.map_filter (\<lambda>(entry_id, q).
            map_option (\<lambda>p. (p, q)) (Option.bind (entries_by_id entry_id) pe_part_id)) required_by_entry
      in map (\<lambda>p. (p, of_int (sum_where snd (\<lambda>x. fst x = p) amounts))) (dict_keys (map fst amounts)))"

record stage_result =
  st_consumed :: "stock_entry list"
  st_remaining :: nat
  st_output_lot :: "lot option"
  st_output_entry :: "stock_entry option"

text \<open>
  After the lines: the stage is complete and the build running. The build closes with
  its last stage, which alone produces the output and frees what is left reserved.
\<close>

definition stage_completed :: "nat \<Rightarrow> build_stage \<Rightarrow> build_stage" where
  "stage_completed now stage = stage\<lparr>bs_status := St_complete,
     bs_started_at := (case bs_started_at stage of None \<Rightarrow> Some now | Some t \<Rightarrow> Some t),
     bs_completed_at := Some now\<rparr>"

definition build_running :: "uuid option \<Rightarrow> nat \<Rightarrow> build \<Rightarrow> build" where
  "build_running user now b = b\<lparr>b_started_at := (case b_started_at b of None \<Rightarrow> Some now | Some t \<Rightarrow> Some t),
     b_status := (if b_status b = Planned then In_progress else b_status b),
     b_updated_by := user\<rparr>"

definition close_stage ::
    "uuid \<Rightarrow> uuid option \<Rightarrow> build \<Rightarrow> project \<Rightarrow> build_stage \<Rightarrow> build_stage list \<Rightarrow> consume_in
     \<Rightarrow> stock_entry list \<Rightarrow> nat \<Rightarrow> db \<Rightarrow> error + stage_result \<times> db" where
  "close_stage ws user b pr stage stages payload consumed now d2 =
     (let b' = build_running user now b;
          d3 = (update_stage (stage_completed now stage) d2)\<lparr>builds := (builds d2)(b_id b \<mapsto> b')\<rparr>;
          outstanding = filter (\<lambda>s. bs_id s \<noteq> bs_id stage \<and> bs_status s \<noteq> St_complete) stages in
      if outstanding \<noteq> []
      then Inr (\<lparr>st_consumed = consumed, st_remaining = length outstanding, st_output_lot = None,
                 st_output_entry = None\<rparr>, d3)
      else bindr (produce_output ws user b' pr (ci_output_storage_location_id payload)
                    (ci_output_lot_name payload) now d3) (\<lambda>(out, d4).
           bindr (release_reservations ws user b' (complete_build b' user (map_option fst out) now d4)) (\<lambda>(d5, _).
           Inr (\<lparr>st_consumed = consumed, st_remaining = 0, st_output_lot = map_option fst out,
                  st_output_entry = map_option snd out\<rparr>, d5))))"

definition consume_stage ::
    "uuid \<Rightarrow> uuid option \<Rightarrow> build \<Rightarrow> project \<Rightarrow> build_stage \<Rightarrow> consume_in \<Rightarrow> db \<Rightarrow> error + stage_result \<times> db" where
  "consume_stage ws user build0 pr stage0 payload d0 =
     (if b_archived_at build0 \<noteq> None then Inl (BuildError Build_archived)
      else let d = lock_for_consume ws pr (map cl_part_id (ci_lines payload)) d0;
               b = refresh_build d build0; stage = refresh_stage d stage0 in
      if b_status b \<notin> {Planned, In_progress} then Inl (BuildError (Build_is (b_status b)))
      else if bs_status stage = St_complete then Inl (BuildError (Stage_already_complete (bs_id stage)))
      else let stages = list_stages d ws (b_id b) in
      bindr (check_stage_order stage stages) (\<lambda>_.
      let required_by_entry = filter (\<lambda>(_, q). 0 < q) (stage_allocations d ws b pr (bs_id stage)) in
      if required_by_entry = [] then Inl (BuildError (Nothing_to_consume (bs_id stage)))
      else let entries_by_id = project_entries_by_id d ws pr in
      bindr (release_reservation_amounts ws user b (stage_release_amounts entries_by_id required_by_entry)
               (Some (bs_id stage)) d) (\<lambda>(d1, _).
      let now = clock d1 in
      bindr (apply_consume_lines ws user b pr (ci_lines payload) entries_by_id required_by_entry now
               (Some (bs_id stage)) d1) (\<lambda>(consumed, d2).
      close_stage ws user b pr stage stages payload consumed now d2))))"

definition has_stages :: "db \<Rightarrow> uuid \<Rightarrow> build \<Rightarrow> bool" where
  "has_stages d ws b \<longleftrightarrow> 0 < length (filter (\<lambda>s. bs_workspace_id s = ws \<and> bs_build_id s = b_id b
     \<and> bs_archived_at s = None) (build_stages d))"

definition has_consumed_stage :: "db \<Rightarrow> uuid \<Rightarrow> build \<Rightarrow> bool" where
  "has_consumed_stage d ws b \<longleftrightarrow> 0 < length (filter (\<lambda>s. bs_workspace_id s = ws \<and> bs_build_id s = b_id b
     \<and> bs_status s \<notin> {St_planned, St_in_progress}) (build_stages d))"

section \<open>Allocation is exact\<close>

lemma on_grid_100: "on_grid (x / 100) \<Longrightarrow> on_grid x"
  using on_grid_mult_nat [of "x / 100" 100] by simp

text \<open>
  The share due up to a cumulative portion: rounded up, never more than the requirement.
  It is what the loop computes, since the Decimal product and quotient are exact at these
  sizes.
\<close>

definition share_upto :: "int \<Rightarrow> rat \<Rightarrow> int" where
  "share_upto tot cum = min \<lceil>of_int tot * cum / 100\<rceil> tot"

lemma exact_share:
  assumes "0 \<le> cum" "cum \<le> 10000" "on_grid (cum / 100)" "0 \<le> tot" "tot < 10 ^ 18"
  shows "min \<lceil>dec_div (dec_mul (of_int tot) cum) 100\<rceil> tot = share_upto tot cum"
proof -
  have t: "of_int tot < (10 :: rat) ^ 18"
    using assms(5) by (metis of_int_less_iff of_int_numeral of_int_power)
  obtain n where n: "tot = int n" using assms(4) nonneg_int_cases by blast
  have g: "on_grid (of_int tot * cum / 100)" "on_grid (of_int tot * cum)"
    using on_grid_mult_nat [OF assms(3), of n] on_grid_mult_nat [OF on_grid_100 [OF assms(3)], of n]
    by (simp_all add: n mult.commute)
  have "of_int tot * cum \<le> of_int tot * 10000"
    using assms by (intro mult_left_mono) simp_all
  with t have "of_int tot * cum < 10 ^ 22" by simp
  moreover have "0 \<le> of_int tot * cum" using assms by simp
  ultimately show ?thesis
    using g by (simp add: dec_mul_def dec_div_def dec_grid abs_of_nonneg share_upto_def)
qed

lemma share_upto_mono: "0 \<le> tot \<Longrightarrow> c \<le> c' \<Longrightarrow> share_upto tot c \<le> share_upto tot c'"
  unfolding share_upto_def by (intro min.mono ceiling_mono divide_right_mono mult_left_mono) simp_all

lemma allocate_from_sum:
  assumes "0 \<le> tot" "tot < 10 ^ 18" and "0 \<le> cum" "on_grid (cum / 100)"
    and "\<forall>(s, p) \<in> set portions. 0 \<le> p \<and> on_grid (p / 100)"
    and "cum + sum_list (map snd portions) \<le> 10000"
  shows "sum_list (map snd (allocate_from tot cum (share_upto tot cum) portions))
     = share_upto tot (cum + sum_list (map snd portions)) - share_upto tot cum"
  using assms(3-6)
proof (induction portions arbitrary: cum)
  case Nil
  then show ?case by simp
next
  case (Cons sp portions)
  obtain s p where sp: "sp = (s, p)" by (cases sp)
  have rest: "0 \<le> sum_list (map snd portions)"
    using Cons.prems(3) by (intro sum_list_nonneg) force
  let ?cum = "cum + p"
  have c: "0 \<le> ?cum" "?cum \<le> 10000" "on_grid (?cum / 100)"
    using Cons.prems rest by (auto simp: sp add_divide_distrib intro: on_grid_add)
  have add: "dec_add cum p = ?cum"
    using c by (simp add: dec_add_def dec_grid [OF on_grid_100])
  have mono: "share_upto tot cum \<le> share_upto tot ?cum"
    using Cons.prems(3) by (intro share_upto_mono [OF assms(1)]) (auto simp: sp)
  have "sum_list (map snd (allocate_from tot ?cum (share_upto tot ?cum) portions))
     = share_upto tot (?cum + sum_list (map snd portions)) - share_upto tot ?cum"
    using Cons.prems c by (intro Cons.IH) (auto simp: sp add.assoc)
  then show ?case using mono by (simp add: sp add exact_share [OF c assms(1,2)] Let_def add.assoc)
qed

text \<open>
  C35: slicing a requirement over stages neither loses nor invents units, whatever the
  portions add up to. The shares are nonnegative and add up to the rounded-up share of the
  whole, capped at the requirement: exactly the requirement a single-pass build has from
  100 percent on, and never more. The portions are the percentages of the stage lines, up
  to a hundred times the whole.
\<close>

theorem allocation_adds_up:
  assumes t: "0 \<le> tot" "tot < 10 ^ 18"
    and p: "\<forall>(s, p) \<in> set portions. 0 \<le> p \<and> on_grid (p / 100)"
    and le: "sum_list (map snd portions) \<le> 10000"
  shows "map fst (allocate tot portions) = map fst portions
    \<and> (\<forall>(s, q) \<in> set (allocate tot portions). 0 \<le> q)
    \<and> sum_list (map snd (allocate tot portions)) \<le> tot
    \<and> sum_list (map snd (allocate tot portions))
        = (if sum_list (map snd portions) < 100 then \<lceil>of_int tot * sum_list (map snd portions) / 100\<rceil> else tot)"
proof -
  let ?S = "sum_list (map snd portions)"
  have "map fst (allocate_from tot cum prev ps) = map fst ps" for cum prev ps
    by (induction ps arbitrary: cum prev) (auto simp: Let_def)
  moreover have "x \<in> set (allocate_from tot cum prev ps) \<Longrightarrow> 0 \<le> snd x" for x cum prev ps
    by (induction ps arbitrary: cum prev) (auto simp: Let_def)
  then have "\<forall>(s, q) \<in> set (allocate tot portions). 0 \<le> q" by (fastforce simp: allocate_def)
  moreover have s: "sum_list (map snd (allocate tot portions)) = share_upto tot ?S"
    using allocate_from_sum [OF t, of 0 portions] p le t by (simp add: allocate_def share_upto_def)
  moreover have "share_upto tot ?S = (if ?S < 100 then \<lceil>of_int tot * ?S / 100\<rceil> else tot)"
  proof (cases "?S < 100")
    case True
    then have "of_int tot * ?S \<le> of_int tot * 100" using t by (intro mult_left_mono) simp_all
    with True show ?thesis by (simp add: share_upto_def ceiling_le_iff)
  next
    case False
    then have "of_int tot * 100 \<le> of_int tot * ?S" using t by (intro mult_left_mono) simp_all
    then have "(of_int tot :: rat) \<le> of_int tot * ?S / 100" by simp
    also have "\<dots> \<le> of_int \<lceil>of_int tot * ?S / 100\<rceil>" by (rule le_of_int_ceiling)
    finally have "tot \<le> \<lceil>of_int tot * ?S / 100\<rceil>" by (simp only: of_int_le_iff)
    with False show ?thesis by (simp add: share_upto_def)
  qed
  moreover have "share_upto tot ?S \<le> tot" by (simp add: share_upto_def)
  ultimately show ?thesis by (simp add: allocate_def del: split_paired_Ball_Sigma)
qed

lemma allocation_adds_up_witness:
  "sum_list (map snd (allocate 103 [(65, 50), (66, 25), (67, 25)])) = 103
   \<and> sum_list (map snd (allocate 103 [(65, 50), (66, 50), (67, 50)])) = 103"
proof -
  have g: "on_grid (1 / 2)" "on_grid (1 / 4)" by code_simp+
  have "\<forall>(s, p) \<in> set [(65 :: uuid, 50 :: rat), (66, 25), (67, 25)]. 0 \<le> p \<and> on_grid (p / 100)"
    "\<forall>(s, p) \<in> set [(65 :: uuid, 50 :: rat), (66, 50), (67, 50)]. 0 \<le> p \<and> on_grid (p / 100)"
    using g by simp_all
  from allocation_adds_up [OF _ _ this(1), of 103] allocation_adds_up [OF _ _ this(2), of 103]
  show ?thesis by simp
qed

section \<open>What ledger writes leave alone\<close>

definition same_workflow :: "db \<Rightarrow> db \<Rightarrow> bool" where
  "same_workflow d d' \<longleftrightarrow> builds d' = builds d \<and> build_stages d' = build_stages d
     \<and> build_stage_lines d' = build_stage_lines d \<and> orders d' = orders d \<and> order_entries d' = order_entries d"

lemma same_workflow_trans: "same_workflow a b \<Longrightarrow> same_workflow b c \<Longrightarrow> same_workflow a c"
  by (simp add: same_workflow_def)

lemma same_workflow_refl [simp]: "same_workflow d d"
  by (simp add: same_workflow_def)

lemma add_entry_workflow: "add_entry e d = Inr (x, d') \<Longrightarrow> same_workflow d d'"
  by (auto simp: add_entry_Inr insert_entry_Inr same_workflow_def)

lemma add_lot_workflow: "add_lot l d = Inr (x, d') \<Longrightarrow> same_workflow d d'"
  by (auto simp: add_lot_Inr same_workflow_def)

lemma fold_lock_workflow: "same_workflow d (fold (lock_for_stock_write ws) ps d)"
  by (induction ps arbitrary: d) (auto simp: lock_for_stock_write_def same_workflow_def)

lemma lock_parts_workflow: "same_workflow d (lock_parts_for_stock_write ws ps d)"
  by (simp add: lock_parts_for_stock_write_def fold_lock_workflow)

lemma enforce_workflow: "enforce_storage_constraints ws s p d = Inr d' \<Longrightarrow> same_workflow d d'"
  by (auto dest!: enforce_Inr simp: lock_for_storage_constraint_def same_workflow_def)

lemma write_release_workflow: "write_release ws user b r q stage now d = Inr d' \<Longrightarrow> same_workflow d d'"
  by (auto simp: write_release_def bindr_Inr intro: add_entry_workflow)

lemma release_reservations_workflow:
  assumes "release_reservations ws user b d = Inr (d', n)"
  shows "same_workflow d d'"
proof -
  have "foldr_r (\<lambda>(r, q). write_release ws user b r q None now) outs d1 = Inr d2 \<Longrightarrow> same_workflow d1 d2" for outs d1 d2 now
    by (erule foldr_r_trans) (auto intro: same_workflow_trans write_release_workflow)
  with assms lock_parts_workflow same_workflow_trans show ?thesis
    by (fastforce simp: release_reservations_def case_prod_unfold Let_def bindr_Inr split: if_split_asm)
qed

lemma release_amount_workflow:
  "release_amount ws user b stage now want outs (d, n) = Inr (d', n') \<Longrightarrow> same_workflow d d'"
proof (induction outs arbitrary: d n want)
  case (Cons o' outs)
  then show ?case
    by (cases o') (auto simp: Let_def bindr_Inr split: if_split_asm
        intro: same_workflow_trans write_release_workflow)
qed simp

lemma release_amounts_workflow:
  assumes "release_reservation_amounts ws user b amounts stage d = Inr (d', n)"
  shows "same_workflow d d'"
proof -
  have "foldr_r (\<lambda>p. release_amount ws user b stage now (w p) (bp p)) ps (d1, m) = Inr (d2, m') \<Longrightarrow> same_workflow d1 d2"
    for ps d1 d2 now w bp m m'
  proof (induction ps arbitrary: d1 m)
    case (Cons p ps)
    then show ?case by (fastforce simp: bindr_Inr intro: same_workflow_trans release_amount_workflow)
  qed simp
  with assms lock_parts_workflow same_workflow_trans show ?thesis
    by (fastforce simp: release_reservation_amounts_def case_prod_unfold Let_def split: if_split_asm)
qed

lemma apply_consume_line_workflow:
  "apply_consume_line ws user b pr entries req now stage l (d, cs, rq) = Inr (d', cs', rq') \<Longrightarrow> same_workflow d d'"
  by (auto simp: apply_consume_line_def bindr_Inr intro: add_entry_workflow)

lemma apply_consume_lines_workflow:
  assumes "apply_consume_lines ws user b pr lines entries req now stage d = Inr (consumed, d')"
  shows "same_workflow d d'"
proof -
  have "foldr_r (apply_consume_line ws user b pr entries req now stage) ls (d1, cs, rq) = Inr (d2, cs', rq')
      \<Longrightarrow> same_workflow d1 d2" for ls d1 d2 cs rq cs' rq'
  proof (induction ls arbitrary: d1 cs rq)
    case (Cons l ls)
    from Cons.prems obtain d3 cs3 rq3 where
      one: "apply_consume_line ws user b pr entries req now stage l (d1, cs, rq) = Inr (d3, cs3, rq3)"
      and rest: "foldr_r (apply_consume_line ws user b pr entries req now stage) ls (d3, cs3, rq3) = Inr (d2, cs', rq')"
      by (auto simp: bindr_Inr)
    from same_workflow_trans [OF apply_consume_line_workflow [OF one] Cons.IH [OF rest]] show ?case .
  qed simp
  with assms show ?thesis by (auto simp: apply_consume_lines_def bindr_Inr)
qed

lemma produce_output_workflow:
  assumes "produce_output ws user b pr s nm now d = Inr (out, d')"
  shows "same_workflow d d'"
proof (cases "pr_associated_subassembly_part_id pr")
  case None
  with assms show ?thesis by (simp add: produce_output_def)
next
  case (Some p)
  have "belonging_part d ws p \<noteq> None"
  proof
    assume n: "belonging_part d ws p = None"
    show False using assms unfolding produce_output_def Some option.case n by simp
  qed
  then obtain part where part: "belonging_part d ws p = Some part" by blast
  from assms obtain st d1 l l0 d2 e e0 where
    sto: "(case s of None \<Rightarrow> Inr (None, d)
               | Some i \<Rightarrow>
                 (case belonging_storage d ws i of
                    None \<Rightarrow> Inl (BuildError Output_storage_not_in_workspace)
                  | Some storage \<Rightarrow>
                    if sl_archived_at storage \<noteq> None \<or> sl_is_full storage
                    then Inl (BuildError Output_storage_archived_or_full)
                    else bindr (enforce_storage_constraints ws storage (p_id part) d)
                           (\<lambda>d1. Inr (Some storage, d1)))) = Inr (st, d1)"
    and lot: "add_lot l0 d1 = Inr (l, d2)" and row: "add_entry e0 d2 = Inr (e, d')"
    unfolding produce_output_def Some option.case part by (auto simp: bindr_Inr)
  have "same_workflow d d1"
    using sto by (auto simp: bindr_Inr intro: enforce_workflow split: option.split_asm if_split_asm)
  from same_workflow_trans [OF same_workflow_trans [OF this add_lot_workflow [OF lot]] add_entry_workflow [OF row]]
  show ?thesis .
qed

section \<open>What a stage consumption does\<close>

lemma stage_reads_cong:
  assumes "same_workflow d d'" and "appends d d' rows"
  shows "list_stages d' = list_stages d" "stage_lines d' = stage_lines d"
    "stage_allocations d' = stage_allocations d" "refresh_build d' = refresh_build d"
    "refresh_stage d' = refresh_stage d"
proof -
  note w = assms(1) [unfolded same_workflow_def]
  note c = appends_catalog [OF assms(2)]
  show l: "list_stages d' = list_stages d" and s: "stage_lines d' = stage_lines d"
    and "refresh_build d' = refresh_build d" "refresh_stage d' = refresh_stage d"
    using w by (simp_all add: list_stages_def stage_lines_def refresh_build_def refresh_stage_def fun_eq_iff)
  have "entry_portions d' = entry_portions d" using l s by (simp add: entry_portions_def fun_eq_iff)
  note p = this
  have tt: "entry_total d' = entry_total d"
    unfolding entry_total_def [abs_def] c(1) bom_cong(3) [OF c(4)] ..
  show "stage_allocations d' = stage_allocations d"
    unfolding stage_allocations_def [abs_def] l s p tt ..
qed

lemma outstanding_same_id:
  assumes "b_id b = b_id b'"
  shows "outstanding_reservations d ws b = outstanding_reservations d ws b'"
  unfolding outstanding_reservations_def assms ..

lemma release_parts_rows:
  assumes ok: "ledger_ok d" and rel: "release_reservation_amounts ws user b amounts stage d = Inr (d', n)"
  obtains rows where "ledger_ok d'" "appends d d' rows" "\<forall>e \<in> set rows. se_status e = Reserved"
proof (cases "fst (outstanding_reservations d ws b) = []")
  case True
  with rel ok show thesis
    by (intro that [of "[]"]) (auto simp: release_reservation_amounts_def case_prod_unfold Let_def)
next
  case False
  let ?d1 = "lock_parts_for_stock_write ws (List.map_filter id (fst (outstanding_reservations d ws b))) d"
  from False rel have loop: "foldr_r (\<lambda>p. release_amount ws user b stage (clock ?d1) (the (map_of amounts p))
      (filter (\<lambda>(r, _). se_part_id r = Some p) (snd (outstanding_reservations d ws b))))
      (sort (map fst amounts)) (?d1, 0) = Inr (d', n)"
    by (simp add: release_reservation_amounts_def case_prod_unfold Let_def)
  from release_parts_effect [OF _ loop] ok obtain rows where
    "ledger_ok d'" "appends ?d1 d' rows" and rows: "list_all2 (\<lambda>(r, q). releases ws (b_id b) r q)
      (concat (map (\<lambda>p. drain (the (map_of amounts p)) (filter (\<lambda>(r, _). se_part_id r = Some p)
        (snd (outstanding_reservations d ws b)))) (sort (map fst amounts)))) rows" by auto
  with appends_trans [OF lock_parts_frame(1) this(2)] releases_operation [OF rows] show thesis
    by (intro that [of rows]) simp_all
qed

lemma update_stage_frame [simp]:
  "ledger_ok ((update_stage s d)\<lparr>builds := bs\<rparr>) \<longleftrightarrow> ledger_ok d"
  "appends d' ((update_stage s d)\<lparr>builds := bs\<rparr>) new \<longleftrightarrow> appends d' d new"
  "stock_entries (update_stage s d) = stock_entries d"
proof -
  show "ledger_ok ((update_stage s d)\<lparr>builds := bs\<rparr>) \<longleftrightarrow> ledger_ok d"
    by (rule ledger_ok_cong) (simp_all add: update_stage_def)
qed (simp_all add: update_stage_def appends_def same_catalog_def)

lemma check_stage_order_Inr:
  "check_stage_order stage stages = Inr () \<Longrightarrow> stages = xs @ s # ys \<Longrightarrow> bs_id s = bs_id stage
   \<Longrightarrow> x \<in> set xs \<Longrightarrow> bs_id stage \<notin> bs_id ` set xs \<Longrightarrow> bs_status x = St_complete"
proof (induction stages arbitrary: xs)
  case (Cons a stages)
  then show ?case by (cases xs) (auto split: if_split_asm)
qed simp

text \<open>The rows and the workflow changes of a successful stage consumption.\<close>

lemma consume_stage_effect:
  assumes ok: "ledger_ok d" "catalog_ok d"
    and con: "consume_stage ws user b0 pr stage0 payload d = Inr (r, d')"
  obtains b stage req rel out rel2 bfin where
    "b = refresh_build d b0" "stage = refresh_stage d stage0"
    "b_archived_at b0 = None" "b_status b \<in> {Planned, In_progress}" "bs_status stage \<noteq> St_complete"
    "check_stage_order stage (list_stages d ws (b_id b)) = Inr ()"
    "req = filter (\<lambda>(_, q). 0 < q) (stage_allocations d ws b pr (bs_id stage))" "req \<noteq> []"
    "ledger_ok d'"
    "appends d d' (rel @ map stored_entry (st_consumed r) @ map stored_entry out @ rel2)"
    "\<forall>e \<in> set (rel @ rel2). se_status e = Reserved"
    "list_all2 (consumes ws (b_id b)) (ci_lines payload) (st_consumed r)"
    "\<forall>e \<in> set (st_consumed r). se_build_stage_id e = Some (bs_id stage)"
    "\<forall>l \<in> set (ci_lines payload). line_allowed d (project_entries_by_id d ws pr) req l"
    "\<forall>(i, n) \<in> set req. \<forall>e p part. project_entries_by_id d ws pr i = Some e
        \<longrightarrow> pe_part_id e = Some p \<longrightarrow> parts d p = Some part \<longrightarrow> n \<le> line_for_entry i (ci_lines payload)"
    "st_remaining r = length (filter (\<lambda>s. bs_id s \<noteq> bs_id stage \<and> bs_status s \<noteq> St_complete) (list_stages d ws (b_id b)))"
    "out = (case st_output_entry r of None \<Rightarrow> [] | Some e \<Rightarrow> [e])"
    "0 < st_remaining r \<longrightarrow> st_output_entry r = None"
    "st_remaining r = 0 \<longrightarrow> (case pr_associated_subassembly_part_id pr of None \<Rightarrow> st_output_entry r = None
        | Some p \<Rightarrow> (\<exists>l e. st_output_lot r = Some l \<and> st_output_entry r = Some e
            \<and> produces ws b p (ci_output_storage_location_id payload) (lot_id l) e))"
    "builds d' = (builds d)(b_id b \<mapsto> bfin)"
    "b_status bfin = (if st_remaining r = 0 then Complete else In_progress)" "b_id bfin = b_id b"
    "\<exists>stage'. bs_id stage' = bs_id stage \<and> bs_status stage' = St_complete
        \<and> build_stages d' = map (\<lambda>x. if bs_id x = bs_id stage then stage' else x) (build_stages d)"
    "st_remaining r = 0 \<longrightarrow> snd (outstanding_reservations d' ws bfin) = []"
proof -
  let ?d = "lock_for_consume ws pr (map cl_part_id (ci_lines payload)) d"
  have a0: "appends d ?d []" and ok0: "ledger_ok ?d" and w0: "same_workflow d ?d"
    using lock_parts_frame(1) lock_parts_workflow ok(1) by (simp_all add: lock_for_consume_def)
  note rd = stage_reads_cong [OF w0 a0]
  define b where "b = refresh_build d b0"
  define stage where "stage = refresh_stage d stage0"
  define stages where "stages = list_stages d ws (b_id b)"
  define req where "req = filter (\<lambda>(_, q). 0 < q) (stage_allocations d ws b pr (bs_id stage))"
  define outs where "outs = filter (\<lambda>s. bs_id s \<noteq> bs_id stage \<and> bs_status s \<noteq> St_complete) stages"
  have ent: "project_entries_by_id ?d = project_entries_by_id d"
    using bom_cong(3) appends_catalog(4) [OF a0] .
  from con obtain d1 n consumed d2 where
    base: "b_archived_at b0 = None" "b_status b \<in> {Planned, In_progress}" "bs_status stage \<noteq> St_complete"
      "check_stage_order stage stages = Inr ()" "req \<noteq> []"
    and rel: "release_reservation_amounts ws user b (stage_release_amounts (project_entries_by_id d ws pr) req)
        (Some (bs_id stage)) ?d = Inr (d1, n)"
    and cons: "apply_consume_lines ws user b pr (ci_lines payload) (project_entries_by_id d ws pr) req (clock d1)
        (Some (bs_id stage)) d1 = Inr (consumed, d2)"
    and fin: "close_stage ws user b pr stage stages payload consumed (clock d1) d2 = Inr (r, d')"
    unfolding consume_stage_def Let_def rd ent
    by (fold b_def stage_def, fold stages_def req_def)
       (auto simp: bindr_Inr split: if_split_asm)
  let ?b = "build_running user (clock d1) b" and ?s = "stage_completed (clock d1) stage"
  let ?d3 = "(update_stage ?s d2)\<lparr>builds := (builds d2)(b_id b \<mapsto> ?b)\<rparr>"
  have bb: "b_id ?b = b_id b" "b_quantity ?b = b_quantity b" "b_status ?b = In_progress"
    using base(2) by (auto simp: build_running_def)
  from release_parts_rows [OF ok0 rel] obtain rrows where
    r: "ledger_ok d1" "appends ?d d1 rrows" "\<forall>e \<in> set rrows. se_status e = Reserved" .
  have a1: "appends d d1 rrows" using appends_trans [OF a0 r(2)] by simp
  have w1: "same_workflow d d1" using same_workflow_trans [OF w0 release_amounts_workflow [OF rel]] .
  note eff = apply_consume_lines_effect [OF r(1) entries_by_id_id [of d ws pr] cons, simplified]
  have w2: "same_workflow d d2" using same_workflow_trans [OF w1 apply_consume_lines_workflow [OF cons]] .
  have cat2: "catalog_ok ?d3"
    using catalog_ok_appends [OF catalog_ok_appends [OF ok(2) a1] eff(2)]
    by (simp add: catalog_ok_def update_stage_def)
  have allowed: "\<forall>l \<in> set (ci_lines payload). line_allowed d (project_entries_by_id d ws pr) req l"
    using eff(4) line_allowed_cong [OF a1] by simp
  have cov: "\<forall>(i, n) \<in> set req. \<forall>e p part. project_entries_by_id d ws pr i = Some e
        \<longrightarrow> pe_part_id e = Some p \<longrightarrow> parts d p = Some part \<longrightarrow> n \<le> line_for_entry i (ci_lines payload)"
    using eff(6) appends_catalog(1) [OF a1] by simp
  have stages': "\<exists>stage'. bs_id stage' = bs_id stage \<and> bs_status stage' = St_complete
        \<and> build_stages d2' = map (\<lambda>x. if bs_id x = bs_id stage then stage' else x) (build_stages d)"
    if "build_stages d2' = build_stages ?d3" for d2'
    using that w2 by (intro exI [of _ ?s]) (simp add: update_stage_def stage_completed_def same_workflow_def)
  show thesis
  proof (cases "outs = []")
    case False
    with fin have res: "st_consumed r = consumed" "st_remaining r = length outs" "st_output_lot r = None"
        "st_output_entry r = None" and d': "d' = ?d3"
      by (auto simp: close_stage_def Let_def outs_def)
    have "appends d d' (rrows @ map stored_entry consumed)"
      using appends_trans [OF a1 eff(2)] by (simp add: d')
    then show thesis
      using res base eff(1,3,5) r(3) allowed cov bb False stages' [of d'] w2
      by (intro that [of b stage req rrows "[]" "[]" ?b])
         (auto simp: b_def stage_def stages_def req_def outs_def d' same_workflow_def)
  next
    case True
    with fin obtain out d4 n' where
      prod: "produce_output ws user ?b pr (ci_output_storage_location_id payload)
              (ci_output_lot_name payload) (clock d1) ?d3 = Inr (out, d4)"
      and rel2: "release_reservations ws user ?b (complete_build ?b user (map_option fst out) (clock d1) d4) = Inr (d', n')"
      and res: "st_consumed r = consumed" "st_remaining r = 0" "st_output_lot r = map_option fst out"
        "st_output_entry r = map_option snd out"
      by (auto simp: close_stage_def Let_def outs_def bindr_Inr)
    have ok3: "ledger_ok ?d3" using eff(1) by simp
    note po = produce_output_effect [OF ok3 cat2 prod]
    let ?d5 = "complete_build ?b user (map_option fst out) (clock d1) d4"
    have ok5: "ledger_ok ?d5" using po(1) by simp
    from release_reservations_effect [OF ok5 rel2] obtain rows2 where
      r2: "ledger_ok d'" "appends ?d5 d' rows2"
        "list_all2 (\<lambda>(r, q). releases ws (b_id ?b) r q) (snd (outstanding_reservations ?d5 ws ?b)) rows2" .
    have none: "snd (outstanding_reservations d' ws ?b) = []" by (rule release_reservations_complete [OF ok5 rel2])
    define orows where "orows = (case st_output_entry r of None \<Rightarrow> [] | Some e \<Rightarrow> [e])"
    have "appends ?d3 d4 (map stored_entry orows)"
      using po(2,3) res by (cases "pr_associated_subassembly_part_id pr") (auto simp: orows_def)
    then have "appends ?d3 ?d5 (map stored_entry orows)" by simp
    from appends_trans [OF this r2(2)] have "appends ?d3 d' (map stored_entry orows @ rows2)" .
    moreover have "appends d ?d3 (rrows @ map stored_entry consumed)"
      using appends_trans [OF a1 eff(2)] by simp
    ultimately have app: "appends d d' (rrows @ map stored_entry consumed @ map stored_entry orows @ rows2)"
      using appends_trans by fastforce
    have out: "case pr_associated_subassembly_part_id pr of None \<Rightarrow> st_output_entry r = None
        | Some p \<Rightarrow> (\<exists>l e. st_output_lot r = Some l \<and> st_output_entry r = Some e
            \<and> produces ws b p (ci_output_storage_location_id payload) (lot_id l) e)"
      using po(2,3) res bb by (cases "pr_associated_subassembly_part_id pr") (auto simp: produces_def)
    have wf: "same_workflow ?d3 d4" "same_workflow ?d5 d'"
      using produce_output_workflow [OF prod] release_reservations_workflow [OF rel2] .
    define bfin where "bfin = ?b\<lparr>b_status := Complete,
         b_started_at := (case b_started_at ?b of None \<Rightarrow> Some (clock d1) | Some t \<Rightarrow> Some t),
         b_completed_at := Some (clock d1), b_output_lot_id := map_option lot_id (map_option fst out),
         b_updated_by := user\<rparr>"
    have "builds d' = (builds d)(b_id b \<mapsto> bfin)"
      using wf w2 bb by (simp add: same_workflow_def complete_build_def bfin_def)
    moreover have "build_stages d' = build_stages ?d3"
      using wf by (simp add: same_workflow_def complete_build_def)
    moreover have "outstanding_reservations d' ws bfin = outstanding_reservations d' ws ?b"
      by (rule outstanding_same_id) (simp add: bfin_def)
    ultimately show thesis
      using res base eff(3,5) r(3) r2(1) app releases_operation [OF r2(3)] allowed cov bb True stages' [of d'] out none
      by (intro that [of b stage req rrows orows rows2 bfin])
         (auto simp: b_def stage_def stages_def req_def outs_def orows_def bfin_def)
  qed
qed

definition stages_keyed :: "db \<Rightarrow> bool" where
  "stages_keyed d \<longleftrightarrow> distinct (map bs_id (build_stages d)) \<and> (\<forall>i x. builds d i = Some x \<longrightarrow> b_id x = i)"

lemma refresh_ids [simp]: "bs_id (refresh_stage d s) = bs_id s"
proof (cases "filter (\<lambda>x. bs_id x = bs_id s) (build_stages d)")
  case (Cons x xs)
  from filter_eq_ConsD [OF Cons] have "bs_id x = bs_id s" by auto
  with Cons show ?thesis by (simp add: refresh_stage_def)
qed (simp add: refresh_stage_def)

lemma refresh_build_id: "stages_keyed d \<Longrightarrow> b_id (refresh_build d b) = b_id b"
  by (auto simp: stages_keyed_def refresh_build_def split: option.split)

text \<open>
  C31: stages are consumed in order and once. A stage can only be consumed when it is not
  complete and every stage listed before it is; afterwards it is complete and no other
  stage has changed.
\<close>

theorem stages_consumed_in_order:
  assumes ok: "ledger_ok d" "catalog_ok d" "stages_keyed d"
    and con: "consume_stage ws user b pr stage payload d = Inr (r, d')"
  shows "(\<forall>xs s ys. list_stages d ws (b_id b) = xs @ s # ys \<longrightarrow> bs_id s = bs_id stage
        \<longrightarrow> bs_id stage \<notin> bs_id ` set xs \<longrightarrow> (\<forall>x \<in> set xs. bs_status x = St_complete))
    \<and> bs_status (refresh_stage d stage) \<noteq> St_complete
    \<and> (\<forall>x \<in> set (build_stages d'). bs_id x = bs_id stage \<longrightarrow> bs_status x = St_complete)
    \<and> filter (\<lambda>x. bs_id x \<noteq> bs_id stage) (build_stages d') = filter (\<lambda>x. bs_id x \<noteq> bs_id stage) (build_stages d)
    \<and> map bs_id (build_stages d') = map bs_id (build_stages d)"
proof -
  from consume_stage_effect [OF ok(1,2) con] obtain b' st req rel out rel2 bfin where
    b': "b' = refresh_build d b" and st: "st = refresh_stage d stage" "bs_status st \<noteq> St_complete"
    and order: "check_stage_order st (list_stages d ws (b_id b')) = Inr ()"
    and ex: "\<exists>stage'. bs_id stage' = bs_id st \<and> bs_status stage' = St_complete
        \<and> build_stages d' = map (\<lambda>x. if bs_id x = bs_id st then stage' else x) (build_stages d)" .
  from ex obtain stage' where stage': "bs_id stage' = bs_id st" "bs_status stage' = St_complete"
      "build_stages d' = map (\<lambda>x. if bs_id x = bs_id st then stage' else x) (build_stages d)" by blast
  have ids: "b_id b' = b_id b" "bs_id st = bs_id stage" using b' st refresh_build_id [OF ok(3)] by simp_all
  have "filter (\<lambda>x. bs_id x \<noteq> i) (map (\<lambda>x. if bs_id x = i then stage' else x) xs) = filter (\<lambda>x. bs_id x \<noteq> i) xs"
    if "bs_id stage' = i" for i xs using that by (induction xs) auto
  moreover have "map bs_id (map (\<lambda>x. if bs_id x = i then stage' else x) xs) = map bs_id xs"
    if "bs_id stage' = i" for i xs using that by (induction xs) auto
  ultimately show ?thesis
    using check_stage_order_Inr [OF order] st stage' ids by auto
qed

text \<open>
  a stage takes exactly its lines. Every on-hand bucket falls by the sum of the lines
  that name it, except for what the last stage produces; the rows carry the stage; and
  every entry the stage is allocated a share of receives at least that share.
\<close>

theorem stage_takes_exactly_its_lines:
  assumes ok: "ledger_ok d" "catalog_ok d" "stages_keyed d"
    and con: "consume_stage ws user b pr stage payload d = Inr (r, d')"
  shows "ledger_ok d' \<and> (\<forall>e \<in> set (st_consumed r). se_build_stage_id e = Some (bs_id stage))
    \<and> (\<forall>(i, n) \<in> set (stage_allocations d ws (refresh_build d b) pr (bs_id stage)). \<forall>e p part.
        project_entries_by_id d ws pr i = Some e \<longrightarrow> pe_part_id e = Some p \<longrightarrow> parts d p = Some part
        \<longrightarrow> 0 < n \<longrightarrow> n \<le> line_for_entry i (ci_lines payload))
    \<and> (\<forall>ws' p sto lot. bucket_balance d' (ws', p, sto, lot, On_hand) = bucket_balance d (ws', p, sto, lot, On_hand)
      - (if ws' = ws then of_int (sum_where cl_quantity (\<lambda>l. line_bucket l = (p, lot, sto)) (ci_lines payload)) else 0)
      + (if ws' = ws \<and> st_remaining r = 0 \<and> pr_associated_subassembly_part_id pr = Some p
            \<and> sto = ci_output_storage_location_id payload \<and> lot \<noteq> None \<and> lot = map_option lot_id (st_output_lot r)
         then of_nat (b_quantity (refresh_build d b)) else 0))"
proof -
  from consume_stage_effect [OF ok(1,2) con] obtain b' st req rel out rel2 bfin where
    b': "b' = refresh_build d b" and st: "st = refresh_stage d stage"
    and req: "req = filter (\<lambda>(_, q). 0 < q) (stage_allocations d ws b' pr (bs_id st))"
    and ok': "ledger_ok d'"
    and app: "appends d d' (rel @ map stored_entry (st_consumed r) @ map stored_entry out @ rel2)"
    and rel: "\<forall>e \<in> set (rel @ rel2). se_status e = Reserved"
    and cons: "list_all2 (consumes ws (b_id b')) (ci_lines payload) (st_consumed r)"
    and tag: "\<forall>e \<in> set (st_consumed r). se_build_stage_id e = Some (bs_id st)"
    and cov: "\<forall>(i, n) \<in> set req. \<forall>e p part. project_entries_by_id d ws pr i = Some e
        \<longrightarrow> pe_part_id e = Some p \<longrightarrow> parts d p = Some part \<longrightarrow> n \<le> line_for_entry i (ci_lines payload)"
    and out: "out = (case st_output_entry r of None \<Rightarrow> [] | Some e \<Rightarrow> [e])"
      "0 < st_remaining r \<longrightarrow> st_output_entry r = None"
      "st_remaining r = 0 \<longrightarrow> (case pr_associated_subassembly_part_id pr of None \<Rightarrow> st_output_entry r = None
        | Some p \<Rightarrow> (\<exists>l e. st_output_lot r = Some l \<and> st_output_entry r = Some e
            \<and> produces ws b' p (ci_output_storage_location_id payload) (lot_id l) e))" .
  have z: "sum_where se_quantity_delta (\<lambda>e. counts_for e ws' p sto lot On_hand True) rel = 0"
    "sum_where se_quantity_delta (\<lambda>e. counts_for e ws' p sto lot On_hand True) rel2 = 0"
    for ws' p sto lot using rel by (auto intro!: sum_where_none simp: counts_for_def)
  have o: "sum_where se_quantity_delta (\<lambda>e. counts_for e ws' p sto lot On_hand True) (map stored_entry out)
      = (if ws' = ws \<and> st_remaining r = 0 \<and> pr_associated_subassembly_part_id pr = Some p
            \<and> sto = ci_output_storage_location_id payload \<and> lot \<noteq> None \<and> lot = map_option lot_id (st_output_lot r)
         then of_nat (b_quantity b') else 0)" for ws' p sto lot
    using out(2,3) round_6_grid [OF on_grid_of_nat [of "b_quantity b'"]]
    by (cases "st_remaining r = 0") (auto simp: out(1) produces_def counts_for_def split: option.split_asm)
  have cov': "\<forall>(i, n) \<in> set (stage_allocations d ws b' pr (bs_id st)). \<forall>e p part.
        project_entries_by_id d ws pr i = Some e \<longrightarrow> pe_part_id e = Some p \<longrightarrow> parts d p = Some part
        \<longrightarrow> 0 < n \<longrightarrow> n \<le> line_for_entry i (ci_lines payload)"
    using cov by (auto simp: req)
  have bal: "bucket_balance d' (ws', p, sto, lot, On_hand) = bucket_balance d (ws', p, sto, lot, On_hand)
      - (if ws' = ws then of_int (sum_where cl_quantity (\<lambda>l. line_bucket l = (p, lot, sto)) (ci_lines payload)) else 0)
      + (if ws' = ws \<and> st_remaining r = 0 \<and> pr_associated_subassembly_part_id pr = Some p
            \<and> sto = ci_output_storage_location_id payload \<and> lot \<noteq> None \<and> lot = map_option lot_id (st_output_lot r)
         then of_nat (b_quantity b') else 0)" for ws' p sto lot
    by (simp only: bucket_balance.simps appends_current_quantity [OF app] sum_where_simps(3)
        consumes_balance [OF cons] z o) simp
  show ?thesis using ok' tag cov' bal unfolding b' st refresh_ids by blast
qed

text \<open>
  the build closes with its last stage and not before. The stored build is complete
  exactly when no other listed stage was still open; only then is output produced, and
  then nothing of the build's reservations is outstanding.
\<close>

theorem last_stage_closes_the_build:
  assumes ok: "ledger_ok d" "catalog_ok d" "stages_keyed d"
    and con: "consume_stage ws user b pr stage payload d = Inr (r, d')"
  shows "\<exists>b'. builds d' (b_id b) = Some b' \<and> b_status b' \<in> {In_progress, Complete}
    \<and> (b_status b' = Complete \<longleftrightarrow> (\<forall>s \<in> set (list_stages d ws (b_id b)).
          bs_id s \<noteq> bs_id stage \<longrightarrow> bs_status s = St_complete))
    \<and> (b_status b' \<noteq> Complete \<longrightarrow> st_output_entry r = None)
    \<and> (b_status b' = Complete \<longrightarrow> snd (outstanding_reservations d' ws b') = []
          \<and> (st_output_entry r = None \<longleftrightarrow> pr_associated_subassembly_part_id pr = None))
    \<and> (\<forall>i. i \<noteq> b_id b \<longrightarrow> builds d' i = builds d i)"
proof -
  from consume_stage_effect [OF ok(1,2) con] obtain b1 st req rel out rel2 bfin where
    b1: "b1 = refresh_build d b" and st: "st = refresh_stage d stage"
    and rem: "st_remaining r = length (filter (\<lambda>s. bs_id s \<noteq> bs_id st \<and> bs_status s \<noteq> St_complete) (list_stages d ws (b_id b1)))"
    and outp: "0 < st_remaining r \<longrightarrow> st_output_entry r = None"
      "st_remaining r = 0 \<longrightarrow> (case pr_associated_subassembly_part_id pr of None \<Rightarrow> st_output_entry r = None
        | Some p \<Rightarrow> (\<exists>l e. st_output_lot r = Some l \<and> st_output_entry r = Some e
            \<and> produces ws b1 p (ci_output_storage_location_id payload) (lot_id l) e))"
    and bf: "builds d' = (builds d)(b_id b1 \<mapsto> bfin)" "b_status bfin = (if st_remaining r = 0 then Complete else In_progress)"
      "b_id bfin = b_id b1"
    and none: "st_remaining r = 0 \<longrightarrow> snd (outstanding_reservations d' ws bfin) = []" .
  have id: "b_id b1 = b_id b" "bs_id st = bs_id stage" using b1 st refresh_build_id [OF ok(3)] by simp_all
  have "st_remaining r = 0 \<longleftrightarrow> (\<forall>s \<in> set (list_stages d ws (b_id b)). bs_id s \<noteq> bs_id stage \<longrightarrow> bs_status s = St_complete)"
    unfolding rem id by (auto simp: filter_empty_conv)
  then show ?thesis
    using outp none bf(2) by (intro exI [of _ bfin]) (auto simp: bf(1) id split: option.split_asm)
qed

text \<open>Six of the ten resistors of the demo build, for its first stage.\<close>

definition demo_stage_payload :: consume_in where
  "demo_stage_payload = \<lparr>ci_lines = [\<lparr>cl_project_entry_id = 50, cl_part_id = 10, cl_quantity = 6,
     cl_lot_id = Some 30, cl_storage_location_id = Some 20\<rparr>],
     ci_output_storage_location_id = None, ci_output_lot_name = None\<rparr>"

lemma demo_stages_keyed: "stages_keyed demo"
  by (simp add: stages_keyed_def demo_def empty_db_def demo_stage_def)

lemma demo_consume_stage:
  obtains r d' where "consume_stage 1 None demo_build demo_project (demo_stage 65 1) demo_stage_payload demo = Inr (r, d')"
proof -
  have "\<not> isl (consume_stage 1 None demo_build demo_project (demo_stage 65 1) demo_stage_payload demo)" by code_simp
  then show thesis using that
    by (cases "consume_stage 1 None demo_build demo_project (demo_stage 65 1) demo_stage_payload demo") auto
qed

lemma stages_consumed_in_order_witness:
  "\<exists>r d'. consume_stage 1 None demo_build demo_project (demo_stage 65 1) demo_stage_payload demo = Inr (r, d')
     \<and> map bs_id (build_stages d') = [65, 66]"
proof -
  obtain r d' where c: "consume_stage 1 None demo_build demo_project (demo_stage 65 1) demo_stage_payload demo = Inr (r, d')"
    by (rule demo_consume_stage)
  have "map bs_id (build_stages demo) = [65, 66]" by (simp add: demo_def demo_stage_def)
  with stages_consumed_in_order [OF demo_ledger_ok demo_catalog_ok demo_stages_keyed c] c show ?thesis by simp
qed

lemma stage_takes_exactly_its_lines_witness:
  "\<exists>r d'. consume_stage 1 None demo_build demo_project (demo_stage 65 1) demo_stage_payload demo = Inr (r, d') \<and> ledger_ok d'"
proof -
  obtain r d' where c: "consume_stage 1 None demo_build demo_project (demo_stage 65 1) demo_stage_payload demo = Inr (r, d')"
    by (rule demo_consume_stage)
  with stage_takes_exactly_its_lines [OF demo_ledger_ok demo_catalog_ok demo_stages_keyed c] show ?thesis by blast
qed

lemma last_stage_closes_the_build_witness:
  "\<exists>r d' b'. consume_stage 1 None demo_build demo_project (demo_stage 65 1) demo_stage_payload demo = Inr (r, d')
     \<and> builds d' 60 = Some b' \<and> b_status b' = In_progress"
proof -
  obtain r d' where c: "consume_stage 1 None demo_build demo_project (demo_stage 65 1) demo_stage_payload demo = Inr (r, d')"
    by (rule demo_consume_stage)
  have "b_id demo_build = 60" by (simp add: demo_build_def demo_def)
  moreover have "\<exists>s \<in> set (list_stages demo 1 60). bs_id s \<noteq> bs_id (demo_stage 65 1) \<and> bs_status s \<noteq> St_complete"
    by code_simp
  ultimately show ?thesis
    using last_stage_closes_the_build [OF demo_ledger_ok demo_catalog_ok demo_stages_keyed c] c by auto
qed

section \<open>A stage added in front of a consumed one\<close>

definition late_db :: db where
  "late_db = empty_db\<lparr>parts := [11 \<mapsto> demo_part 11 Local ''substitute''],
    projects := [40 \<mapsto> demo_project], project_entries := [demo_entry 51 Et_part (Some 11) 1 1],
    builds := [60 \<mapsto> demo_build\<lparr>b_status := In_progress\<rparr>],
    build_stages := [(demo_stage 65 1)\<lparr>bs_status := St_complete\<rparr>, demo_stage 66 9],
    build_stage_lines := [demo_stage_line 80 65 51 50]\<rparr>"

definition late_build :: build where "late_build = demo_build\<lparr>b_status := In_progress\<rparr>"

definition late_stage :: stage_create_in where
  "late_stage = \<lparr>sci_name = ''late'', sci_sequence = Some 0,
     sci_lines = [\<lparr>sli_project_entry_id = 51, sli_portion_pct = 50\<rparr>]\<rparr>"

definition late_row :: build_stage where
  "late_row = \<lparr>bs_id = 1000, bs_workspace_id = 1, bs_build_id = 60, bs_name = ''late'', bs_sequence = 0,
     bs_status = St_planned, bs_started_at = None, bs_completed_at = None, bs_archived_at = None,
     bs_created_at = 0\<rparr>"

definition late_db' :: db where
  "late_db' = late_db\<lparr>next_uuid := 1002, build_stages := build_stages late_db @ [late_row],
     build_stage_lines := build_stage_lines late_db @ [demo_stage_line 1001 1000 51 50]\<rparr>"

lemma late_stage_created: "create_stage 1 None late_build demo_project late_stage late_db = Inr (late_row, late_db')"
proof -
  have 1: "foldr_r (check_stage_line (project_entries_by_id late_db 1 demo_project)) (sci_lines late_stage) [] = Inr [51]"
    by code_simp
  have 2: "foldr_r (\<lambda>l _.
          let tot = dec_add (committed_portions late_db 1 (map bs_id (list_stages late_db 1 60)) (sli_project_entry_id l))
                        (sli_portion_pct l)
          in if 100 < tot then Inl (BuildError (Over_committed (sli_project_entry_id l) tot)) else Inr ())
        (sci_lines late_stage) () = Inr ()" by code_simp
  have 3: "(0 \<in> set (map bs_sequence (list_stages late_db 1 60))) = False" by code_simp
  have 4: "b_id late_build = 60" "(b_status late_build \<in> {Complete, Cancelled}) = False"
    "(b_archived_at late_build \<noteq> None) = False" "sci_sequence late_stage = Some 0" by code_simp+
  show ?thesis
    unfolding create_stage_def Let_def 4 1 2 [unfolded Let_def] bindr_simps if_False option.case 3
    by (simp add: Let_def late_stage_def insert_stage_def fits_varchar_def insert_stage_line_def new_uuid_def late_db_def late_db'_def
        late_row_def empty_db_def demo_stage_def demo_stage_line_def)
qed

text \<open>
  the promise that stages whose portions add up to 100 percent consume what a single
  pass would does not survive adding a stage in front of a consumed one. For a
  requirement of 5, a 50 percent stage on its own is allocated (and consumes) 3; once it
  is complete, a 50 percent stage created with a lower sequence is allocated 3 as well:
  together one more than required.
\<close>

theorem late_stage_overcommits:
  "\<exists>d b pr late d2 s.
     stage_allocations d 1 b pr 65 = [(51, 3)] \<and> entry_total d 1 b pr 51 = Some 5
   \<and> bs_status (refresh_stage d (demo_stage 65 1)) = St_complete
   \<and> create_stage 1 None b pr late d = Inr (s, d2)
   \<and> committed_portions d2 1 (map bs_id (list_stages d2 1 (b_id b))) 51 = 100
   \<and> stage_allocations d2 1 b pr (bs_id s) = [(51, 3)]"
proof -
  have "stage_allocations late_db 1 late_build demo_project 65 = [(51, 3)]"
    "entry_total late_db 1 late_build demo_project 51 = Some 5"
    "bs_status (refresh_stage late_db (demo_stage 65 1)) = St_complete"
    "committed_portions late_db' 1 (map bs_id (list_stages late_db' 1 (b_id late_build))) 51 = 100"
    "stage_allocations late_db' 1 late_build demo_project (bs_id late_row) = [(51, 3)]" by code_simp+
  with late_stage_created show ?thesis by blast
qed

end
