(* ===== verification/BuildRoutes.thy ===== *)
theory BuildRoutes
  imports Stages
begin

text \<open>
  \<open>backend/app/api/routes/builds.py\<close> and \<open>build_stages.py\<close>: the life of a build. The
  route resolves the rows in the caller's workspace, checks what may change, writes the
  build and keeps its reservations in step. Serialisation, audit rows and the mapping of
  errors to response codes are left out; the caller's role check is the argument \<open>allowed\<close>.

  A PATCH field is \<open>None\<close> when it is absent from the request and \<open>Some None\<close> when it is
  an explicit \<open>null\<close>.
\<close>

section \<open>Looking rows up\<close>

definition get_build :: "db \<Rightarrow> uuid \<Rightarrow> uuid \<Rightarrow> error + build" where
  "get_build d ws bid = (case builds d bid of
     Some b \<Rightarrow> if b_workspace_id b = ws then Inr b else Inl (HttpError (Not_found R_build))
   | None \<Rightarrow> Inl (HttpError (Not_found R_build)))"

definition get_project :: "db \<Rightarrow> uuid \<Rightarrow> uuid \<Rightarrow> error + project" where
  "get_project d ws pid = (case projects d pid of
     Some p \<Rightarrow> if pr_workspace_id p = ws then Inr p else Inl (HttpError (Not_found R_project))
   | None \<Rightarrow> Inl (HttpError (Not_found R_project)))"

definition get_stage :: "db \<Rightarrow> uuid \<Rightarrow> build \<Rightarrow> uuid \<Rightarrow> error + build_stage" where
  "get_stage d ws b sid = (case find (\<lambda>s. bs_id s = sid \<and> bs_workspace_id s = ws) (build_stages d) of
     None \<Rightarrow> Inl (HttpError (Not_found R_build_stage))
   | Some s \<Rightarrow> if bs_build_id s \<noteq> b_id b \<or> bs_archived_at s \<noteq> None
              then Inl (HttpError (Not_found R_build_stage)) else Inr s)"

section \<open>The build routes\<close>

record build_create_in =
  bc_name :: string
  bc_project_id :: uuid
  bc_quantity :: int

record build_patch_in =
  bp_name :: "string option option"
  bp_quantity :: "int option option"
  bp_status :: "build_status option option"

definition fits_int32 :: "int \<Rightarrow> bool" where
  "fits_int32 n \<longleftrightarrow> - (2 ^ 31) \<le> n \<and> n < 2 ^ 31"

text \<open>\<open>db.add(b); db.flush()\<close>: the row with its column defaults.\<close>

definition insert_build :: "uuid \<Rightarrow> uuid option \<Rightarrow> build_create_in \<Rightarrow> project \<Rightarrow> db \<Rightarrow> error + build \<times> db" where
  "insert_build ws user payload pr d =
     (if \<not> fits_varchar 200 (bc_name payload) \<or> \<not> fits_int32 (bc_quantity payload) then Inl (DbError Data_error)
      else let (i, d1) = new_uuid d;
               b = \<lparr>b_id = i, b_workspace_id = ws, b_name = bc_name payload, b_project_id = pr_id pr,
                    b_quantity = nat (bc_quantity payload), b_status = Planned, b_started_at = None,
                    b_completed_at = None, b_output_lot_id = None, b_archived_at = None, b_updated_by = user\<rparr>
      in Inr (b, d1\<lparr>builds := (builds d1)(i \<mapsto> b)\<rparr>))"

definition create_build :: "uuid \<Rightarrow> uuid option \<Rightarrow> build_create_in \<Rightarrow> db \<Rightarrow> error + build \<times> db" where
  "create_build ws user payload d =
     bindr (get_project d ws (bc_project_id payload)) (\<lambda>project.
     bindr (insert_build ws user payload project d) (\<lambda>(b, d1).
     bindr (apply_reservations ws user b project d1) (\<lambda>(d2, _). Inr (b, d2))))"

text \<open>\<open>setattr\<close> for every field of the request, \<open>updated_by\<close>, \<open>flush\<close>.\<close>

definition set_build_fields :: "uuid option \<Rightarrow> build_patch_in \<Rightarrow> build \<Rightarrow> db \<Rightarrow> error + build \<times> db" where
  "set_build_fields user payload b d =
     (if (case bp_name payload of Some (Some n) \<Rightarrow> \<not> fits_varchar 200 n | _ \<Rightarrow> False)
         \<or> (case bp_quantity payload of Some (Some q) \<Rightarrow> \<not> fits_int32 q | _ \<Rightarrow> False) then Inl (DbError Data_error)
      else if bp_name payload = Some None \<or> bp_quantity payload = Some None \<or> bp_status payload = Some None
      then Inl (DbError Not_null)
      else let b' = b\<lparr>b_name := (case bp_name payload of Some (Some n) \<Rightarrow> n | _ \<Rightarrow> b_name b),
                      b_quantity := (case bp_quantity payload of Some (Some q) \<Rightarrow> nat q | _ \<Rightarrow> b_quantity b),
                      b_status := (case bp_status payload of Some (Some s) \<Rightarrow> s | _ \<Rightarrow> b_status b),
                      b_updated_by := user\<rparr>
      in Inr (b', d\<lparr>builds := (builds d)(b_id b \<mapsto> b')\<rparr>))"

definition quantity_changed :: "build_patch_in \<Rightarrow> build \<Rightarrow> bool" where
  "quantity_changed payload b = (case bp_quantity payload of None \<Rightarrow> False
     | Some q \<Rightarrow> q \<noteq> Some (int (b_quantity b)))"

definition patch_build :: "uuid \<Rightarrow> uuid option \<Rightarrow> uuid \<Rightarrow> build_patch_in \<Rightarrow> db \<Rightarrow> error + build \<times> db" where
  "patch_build ws user bid payload d =
     bindr (get_build d ws bid) (\<lambda>b.
     if b_status b = Complete \<and> bp_status payload \<noteq> Some (Some Cancelled)
     then Inl (HttpError Build_read_only)
     else if quantity_changed payload b \<and> has_consumed_stage d ws b
     then Inl (HttpError Quantity_after_stage)
     else let cancelling = (bp_status payload = Some (Some Cancelled) \<and> b_status b \<noteq> Cancelled);
              was_planned_or_in_progress = (b_status b \<in> {Planned, In_progress}) in
     bindr (set_build_fields user payload b d) (\<lambda>(b', d1).
     if cancelling
     then bindr (release_reservations ws user b' d1) (\<lambda>(d2, _). Inr (b', d2))
     else if quantity_changed payload b \<and> was_planned_or_in_progress \<and> b_status b' \<in> {Planned, In_progress}
     then bindr (get_project d1 ws (b_project_id b')) (\<lambda>project.
          bindr (release_reservations ws user b' d1) (\<lambda>(d2, _).
          bindr (apply_reservations ws user b' project d2) (\<lambda>(d3, _). Inr (b', d3))))
     else Inr (b', d1)))"

definition archive_build :: "uuid \<Rightarrow> uuid option \<Rightarrow> bool \<Rightarrow> uuid \<Rightarrow> db \<Rightarrow> error + db" where
  "archive_build ws user allowed bid d =
     bindr (get_build d ws bid) (\<lambda>b.
     if \<not> allowed then Inl (HttpError Forbidden)
     else bindr (release_reservations ws user b d) (\<lambda>(d1, _).
          Inr (d1\<lparr>builds := (builds d1)(b_id b \<mapsto> b\<lparr>b_archived_at := Some (clock d1)\<rparr>)\<rparr>)))"

definition restore_build :: "uuid \<Rightarrow> bool \<Rightarrow> uuid \<Rightarrow> db \<Rightarrow> error + db" where
  "restore_build ws allowed bid d =
     bindr (get_build d ws bid) (\<lambda>b.
     if \<not> allowed then Inl (HttpError Forbidden)
     else Inr (d\<lparr>builds := (builds d)(b_id b \<mapsto> b\<lparr>b_archived_at := None\<rparr>)\<rparr>))"

definition consume_build ::
    "uuid \<Rightarrow> uuid option \<Rightarrow> uuid \<Rightarrow> consume_in \<Rightarrow> db \<Rightarrow> error + consume_result \<times> db" where
  "consume_build ws user bid payload d =
     bindr (get_build d ws bid) (\<lambda>b.
     bindr (get_project d ws (b_project_id b)) (\<lambda>project.
     if has_stages d ws b then Inl (HttpError Build_has_stages)
     else consume ws user b project payload d))"

section \<open>The stage routes\<close>

definition create_build_stage ::
    "uuid \<Rightarrow> uuid option \<Rightarrow> uuid \<Rightarrow> stage_create_in \<Rightarrow> db \<Rightarrow> error + build_stage \<times> db" where
  "create_build_stage ws user bid payload d =
     bindr (get_build d ws bid) (\<lambda>b.
     bindr (get_project d ws (b_project_id b)) (\<lambda>project.
     create_stage ws user b project payload d))"

definition consume_build_stage ::
    "uuid \<Rightarrow> uuid option \<Rightarrow> uuid \<Rightarrow> uuid \<Rightarrow> consume_in \<Rightarrow> db \<Rightarrow> error + stage_result \<times> db" where
  "consume_build_stage ws user bid sid payload d =
     bindr (get_build d ws bid) (\<lambda>b.
     bindr (get_project d ws (b_project_id b)) (\<lambda>project.
     bindr (get_stage d ws b sid) (\<lambda>stage.
     consume_stage ws user b project stage payload d)))"


section \<open>Lemmas\<close>

lemma get_build_Inr [simp]:
  "get_build d ws bid = Inr b \<longleftrightarrow> builds d bid = Some b \<and> b_workspace_id b = ws"
  by (auto simp: get_build_def split: option.split)

lemma get_project_Inr [simp]:
  "get_project d ws i = Inr p \<longleftrightarrow> projects d i = Some p \<and> pr_workspace_id p = ws"
  by (auto simp: get_project_def split: option.split)

text \<open>Writing a build's row leaves the ledger and the catalog alone.\<close>

lemma builds_frame [simp]:
  "ledger_ok (d\<lparr>builds := x\<rparr>) \<longleftrightarrow> ledger_ok d" "catalog_ok (d\<lparr>builds := x\<rparr>) \<longleftrightarrow> catalog_ok d"
  "outstanding_reservations (d\<lparr>builds := x\<rparr>) = outstanding_reservations d"
  "outstanding_of (d\<lparr>builds := x\<rparr>) = outstanding_of d"
  "reserved_quantity (d\<lparr>builds := x\<rparr>) = reserved_quantity d"
  "current_quantity (d\<lparr>builds := x\<rparr>) = current_quantity d"
  "consumable_entries (d\<lparr>builds := x\<rparr>) = consumable_entries d"
  "reserve_amount (d\<lparr>builds := x\<rparr>) = reserve_amount d"
proof -
  show "ledger_ok (d\<lparr>builds := x\<rparr>) \<longleftrightarrow> ledger_ok d" by (rule ledger_ok_cong) simp_all
  show "catalog_ok (d\<lparr>builds := x\<rparr>) \<longleftrightarrow> catalog_ok d" by (rule catalog_ok_cong) simp_all
  show o: "outstanding_reservations (d\<lparr>builds := x\<rparr>) = outstanding_reservations d"
    by (simp add: outstanding_reservations_def reserve_rows_def released_by_reserve_def fun_eq_iff Let_def)
  show "outstanding_of (d\<lparr>builds := x\<rparr>) = outstanding_of d" by (simp add: outstanding_of_def o fun_eq_iff)
  show "reserved_quantity (d\<lparr>builds := x\<rparr>) = reserved_quantity d" by (simp add: reserved_quantity_def fun_eq_iff)
  show "current_quantity (d\<lparr>builds := x\<rparr>) = current_quantity d" by (rule current_quantity_cong) simp
  show "consumable_entries (d\<lparr>builds := x\<rparr>) = consumable_entries d"
    by (simp add: consumable_entries_def project_bom_def fun_eq_iff)
  show "reserve_amount (d\<lparr>builds := x\<rparr>) = reserve_amount d" by (simp add: reserve_amount_def fun_eq_iff)
qed

lemma outstanding_by_id:
  "b_id b' = b_id b \<Longrightarrow> outstanding_reservations d ws b' = outstanding_reservations d ws b"
  "b_id b' = b_id b \<Longrightarrow> outstanding_of d ws b' = outstanding_of d ws b"
  by (simp_all add: outstanding_reservations_def outstanding_of_def fun_eq_iff Let_def)

lemma set_build_fields_Inr:
  assumes "set_build_fields user payload b d = Inr (b', d1)"
  shows "d1 = d\<lparr>builds := (builds d)(b_id b \<mapsto> b')\<rparr>" and "b_id b' = b_id b" and "b_project_id b' = b_project_id b"
    and "b_workspace_id b' = b_workspace_id b" and "b_archived_at b' = b_archived_at b"
    and "b_status b' = (case bp_status payload of Some (Some s) \<Rightarrow> s | _ \<Rightarrow> b_status b)"
    and "b_quantity b' = (case bp_quantity payload of Some (Some q) \<Rightarrow> nat q | _ \<Rightarrow> b_quantity b)"
  using assms by (auto simp: set_build_fields_def Let_def split: if_split_asm)

text \<open>Reservations and their releases move no on-hand balance.\<close>

lemma apply_reservations_on_hand:
  assumes "ledger_ok d" "catalog_ok d" and "apply_reservations ws user b pr d = Inr (d', n)"
  shows "current_quantity d' ws' p sto lot On_hand bm = current_quantity d ws' p sto lot On_hand bm"
proof -
  from apply_reservations_effect [OF assms] obtain rows where
    "ledger_ok d'" and app: "appends d d' rows" and rows: "\<forall>x \<in> set rows. se_status x = Reserved"
    and "\<forall>p. reserved_quantity d' ws p = reserved_quantity d ws p
          + (\<Sum>e \<leftarrow> consumable_entries d ws pr. reserve_amount d b p e)" .
  show ?thesis by (rule appends_reserved_only [OF app rows])
qed

lemma reserve_step_workflow: "reserve_entry ws user b pr now e (d, n) = Inr (d', n') \<Longrightarrow> same_workflow d d'"
  by (auto simp: reserve_entry_def bindr_Inr Let_def intro: add_entry_workflow split: option.split_asm if_split_asm)

lemma apply_reservations_workflow:
  assumes "apply_reservations ws user b pr d = Inr (d', n)"
  shows "same_workflow d d'"
proof -
  have "foldr_r (reserve_entry ws user b pr now) es (d1, m) = Inr (d2, m') \<Longrightarrow> same_workflow d1 d2" for es d1 d2 now m m'
  proof (induction es arbitrary: d1 m)
    case (Cons e es)
    then show ?case by (fastforce simp: bindr_Inr intro: same_workflow_trans reserve_step_workflow)
  qed simp
  with assms lock_parts_workflow same_workflow_trans show ?thesis
    by (fastforce simp: apply_reservations_def Let_def)
qed

lemma reserve_amount_quantity: "b_quantity b = b_quantity b' \<Longrightarrow> reserve_amount d b = reserve_amount d b'"
  unfolding reserve_amount_def [abs_def] by (erule arg_cong)

text \<open>What the two halves of a change of the reservations do to the reserved totals.\<close>

lemma rereserve_effect:
  assumes ok: "ledger_ok d" "catalog_ok d"
    and rel: "release_reservations ws user b d = Inr (d1, n)" and app: "apply_reservations ws user b pr d1 = Inr (d2, m)"
  shows "ledger_ok d2" and "catalog_ok d2" and "builds d2 = builds d"
    and "reserved_quantity d2 ws p = reserved_quantity d ws p - outstanding_of d ws b p
        + (\<Sum>e \<leftarrow> consumable_entries d ws pr. reserve_amount d b p e)"
    and "current_quantity d2 ws' p sto lot On_hand bm = current_quantity d ws' p sto lot On_hand bm"
proof -
  from release_reservations_effect [OF ok(1) rel] obtain rows where
    r: "ledger_ok d1" "appends d d1 rows"
    "list_all2 (\<lambda>(r, q). releases ws (b_id b) r q) (snd (outstanding_reservations d ws b)) rows"
    "n = length (snd (outstanding_reservations d ws b))" .
  have cat: "catalog_ok d1" by (rule catalog_ok_appends [OF ok(2) r(2)])
  from apply_reservations_effect [OF r(1) cat app] obtain rows' where
    a: "ledger_ok d2" "appends d1 d2 rows'" and rows': "\<forall>x \<in> set rows'. se_status x = Reserved"
    and res: "\<forall>p. reserved_quantity d2 ws p = reserved_quantity d1 ws p
          + (\<Sum>e \<leftarrow> consumable_entries d1 ws pr. reserve_amount d1 b p e)" .
  show "ledger_ok d2" by (rule a)
  show "catalog_ok d2" by (rule catalog_ok_appends [OF cat a(2)])
  show "builds d2 = builds d"
    using apply_reservations_workflow [OF app] release_reservations_workflow [OF rel] by (simp add: same_workflow_def)
  have "consumable_entries d1 = consumable_entries d" "reserve_amount d1 = reserve_amount d"
    using appends_catalog [OF r(2)] by (simp_all add: consumable_entries_def project_bom_def reserve_amount_def fun_eq_iff)
  with res release_reserved(1) [OF ok(1) rel, of ws p]
  show "reserved_quantity d2 ws p = reserved_quantity d ws p - outstanding_of d ws b p
        + (\<Sum>e \<leftarrow> consumable_entries d ws pr. reserve_amount d b p e)" by simp
  show "current_quantity d2 ws' p sto lot On_hand bm = current_quantity d ws' p sto lot On_hand bm"
    using release_reserved(2) [OF ok(1) rel] apply_reservations_on_hand [OF r(1) cat app] by simp
qed

section \<open>Properties\<close>

text \<open>
  creating a build stores it as planned in the caller's workspace under a project of
  that workspace and reserves exactly its bill of materials: each part's reserved total
  rises by the requirements of the consumable entries for it, and nothing moves on hand.
\<close>

theorem create_build_reserves_its_bom:
  assumes ok: "ledger_ok d" "catalog_ok d" and c: "create_build ws user payload d = Inr (b, d')"
  shows "\<exists>pr. projects d (bc_project_id payload) = Some pr \<and> pr_workspace_id pr = ws
     \<and> builds d' (b_id b) = Some b \<and> b_workspace_id b = ws \<and> b_project_id b = pr_id pr
     \<and> b_status b = Planned \<and> b_quantity b = nat (bc_quantity payload) \<and> ledger_ok d'
     \<and> (\<forall>p. reserved_quantity d' ws p = reserved_quantity d ws p
          + (\<Sum>e \<leftarrow> consumable_entries d ws pr. reserve_amount d b p e))
     \<and> (\<forall>ws' p sto lot. current_quantity d' ws' p sto lot On_hand True = current_quantity d ws' p sto lot On_hand True)"
proof -
  from c obtain pr d1 n where pr: "projects d (bc_project_id payload) = Some pr" "pr_workspace_id pr = ws"
    and ins: "insert_build ws user payload pr d = Inr (b, d1)"
    and app: "apply_reservations ws user b pr d1 = Inr (d', n)"
    by (auto simp: create_build_def bindr_Inr)
  from ins have d1: "d1 = d\<lparr>next_uuid := Suc (next_uuid d), builds := (builds d)(b_id b \<mapsto> b)\<rparr>"
    and b: "b_workspace_id b = ws" "b_project_id b = pr_id pr" "b_status b = Planned"
      "b_quantity b = nat (bc_quantity payload)"
    by (auto simp: insert_build_def Let_def new_uuid_def split: if_split_asm)
  have ok1: "ledger_ok d1" using ledger_ok_new_uuid [OF ok(1)] by (simp add: d1)
  have cat1: "catalog_ok d1" using catalog_ok_cong [of d1 d] ok(2) by (simp add: d1)
  have same: "consumable_entries d1 = consumable_entries d" "reserve_amount d1 = reserve_amount d"
    "reserved_quantity d1 = reserved_quantity d" "current_quantity d1 = current_quantity d"
    using bom_cong(2) [of d1 d] current_quantity_cong [of d1 d]
    by (simp_all add: d1 reserve_amount_def reserved_quantity_def fun_eq_iff)
  from apply_reservations_effect [OF ok1 cat1 app] obtain rows where
    ok': "ledger_ok d'" and a: "appends d1 d' rows" and r: "\<forall>x \<in> set rows. se_status x = Reserved"
    and res: "\<forall>p. reserved_quantity d' ws p = reserved_quantity d1 ws p
          + (\<Sum>e \<leftarrow> consumable_entries d1 ws pr. reserve_amount d1 b p e)" .
  have "builds d' (b_id b) = Some b"
    using apply_reservations_workflow [OF app] by (simp add: same_workflow_def d1)
  with pr b ok' res same appends_reserved_only [OF a r] show ?thesis by simp
qed

text \<open>
  C10: changing a build keeps its reservations in step. A changed quantity of an active build
  releases what was outstanding and reserves the requirements at the new quantity; a
  cancellation releases everything and leaves nothing outstanding; any other change moves no
  reservation. A completed build can only be cancelled, and the quantity cannot change once
  a stage was consumed.
\<close>

theorem patch_build_keeps_reservations_in_step:
  assumes ok: "ledger_ok d" "catalog_ok d" and c: "patch_build ws user bid payload d = Inr (b', d')"
  shows "\<exists>b. builds d bid = Some b \<and> builds d' (b_id b) = Some b' \<and> b_id b' = b_id b \<and> ledger_ok d'
     \<and> (b_status b = Complete \<longrightarrow> b_status b' = Cancelled)
     \<and> (quantity_changed payload b \<longrightarrow> \<not> has_consumed_stage d ws b)
     \<and> (let cancelling = (b_status b \<noteq> Cancelled \<and> b_status b' = Cancelled);
            active = (b_status b \<in> {Planned, In_progress} \<and> b_status b' \<in> {Planned, In_progress});
            resized = (quantity_changed payload b \<and> active) in
          (cancelling \<longrightarrow> snd (outstanding_reservations d' ws b') = [])
        \<and> (\<not> cancelling \<longrightarrow> \<not> resized \<longrightarrow> stock_entries d' = stock_entries d)
        \<and> (\<forall>p. reserved_quantity d' ws p = reserved_quantity d ws p
             - (if cancelling \<or> resized then outstanding_of d ws b p else 0)
             + (if resized then (\<Sum>e \<leftarrow> consumable_entries d ws (the (projects d (b_project_id b))). reserve_amount d b' p e)
                else 0)))
     \<and> (\<forall>ws' p sto lot. current_quantity d' ws' p sto lot On_hand True = current_quantity d ws' p sto lot On_hand True)"
proof -
  from c obtain b d1 where b: "builds d bid = Some b" "b_workspace_id b = ws"
    and ro: "b_status b = Complete \<longrightarrow> bp_status payload = Some (Some Cancelled)"
    and qs: "quantity_changed payload b \<longrightarrow> \<not> has_consumed_stage d ws b"
    and set: "set_build_fields user payload b d = Inr (b', d1)"
    and rest: "(if bp_status payload = Some (Some Cancelled) \<and> b_status b \<noteq> Cancelled
       then bindr (release_reservations ws user b' d1) (\<lambda>(d2, _). Inr (b', d2))
       else if quantity_changed payload b \<and> b_status b \<in> {Planned, In_progress} \<and> b_status b' \<in> {Planned, In_progress}
       then bindr (get_project d1 ws (b_project_id b')) (\<lambda>project.
            bindr (release_reservations ws user b' d1) (\<lambda>(d2, _).
            bindr (apply_reservations ws user b' project d2) (\<lambda>(d3, _). Inr (b', d3))))
       else Inr (b', d1)) = Inr (b', d')"
    by (auto simp: patch_build_def bindr_Inr Let_def split: if_split_asm)
  note f = set_build_fields_Inr [OF set]
  have st: "bp_status payload = Some (Some Cancelled) \<and> b_status b \<noteq> Cancelled
      \<longleftrightarrow> b_status b \<noteq> Cancelled \<and> b_status b' = Cancelled"
    using f(6) by (auto split: option.splits)
  have ok1: "ledger_ok d1" "catalog_ok d1" using ok by (simp_all add: f(1))
  note same = outstanding_by_id [OF f(2)]
  let ?goal = "\<lambda>cancelling resized. ledger_ok d' \<and> builds d' (b_id b) = Some b'
        \<and> (cancelling \<longrightarrow> snd (outstanding_reservations d' ws b') = [])
        \<and> (\<not> cancelling \<longrightarrow> \<not> resized \<longrightarrow> stock_entries d' = stock_entries d)
        \<and> (\<forall>p. reserved_quantity d' ws p = reserved_quantity d ws p
             - (if cancelling \<or> resized then outstanding_of d ws b p else 0)
             + (if resized then (\<Sum>e \<leftarrow> consumable_entries d ws (the (projects d (b_project_id b))). reserve_amount d b' p e)
                else 0))
        \<and> (\<forall>ws' p sto lot. current_quantity d' ws' p sto lot On_hand True = current_quantity d ws' p sto lot On_hand True)"
  consider (cancel) "b_status b \<noteq> Cancelled" "b_status b' = Cancelled"
    | (resize) "\<not> (b_status b \<noteq> Cancelled \<and> b_status b' = Cancelled)"
        "quantity_changed payload b" "b_status b \<in> {Planned, In_progress}" "b_status b' \<in> {Planned, In_progress}"
    | (other) "\<not> (b_status b \<noteq> Cancelled \<and> b_status b' = Cancelled)"
        "\<not> (quantity_changed payload b \<and> b_status b \<in> {Planned, In_progress} \<and> b_status b' \<in> {Planned, In_progress})"
    by blast
  then have goal: "?goal (b_status b \<noteq> Cancelled \<and> b_status b' = Cancelled)
      (quantity_changed payload b \<and> b_status b \<in> {Planned, In_progress} \<and> b_status b' \<in> {Planned, In_progress})"
  proof cases
    case cancel
    with rest st obtain n where rel: "release_reservations ws user b' d1 = Inr (d', n)" by (auto simp: bindr_Inr)
    have "ledger_ok d'" by (rule release_reservations_effect [OF ok1(1) rel])
    moreover have "builds d' = builds d1" using release_reservations_workflow [OF rel] by (simp add: same_workflow_def)
    ultimately show ?thesis
      using cancel release_reservations_complete [OF ok1(1) rel] release_reserved [OF ok1(1) rel] same
      by (simp add: f(1))
  next
    case resize
    with rest st obtain pr d2 n m where pr: "projects d1 (b_project_id b') = Some pr"
      and rel: "release_reservations ws user b' d1 = Inr (d2, n)" and app: "apply_reservations ws user b' pr d2 = Inr (d', m)"
      by (auto simp: bindr_Inr)
    note r = rereserve_effect [OF ok1 rel app]
    have "the (projects d (b_project_id b)) = pr" using pr f(3) by (simp add: f(1))
    with resize r same show ?thesis by (auto simp: f(1))
  next
    case other
    with rest st have "d' = d1" by (auto split: if_split_asm)
    with other ok1 show ?thesis by (auto simp: f(1))
  qed
  have "b_status b = Complete \<longrightarrow> b_status b' = Cancelled" using ro st by auto
  with b f(2) qs goal show ?thesis unfolding Let_def by (intro exI [of _ b] conjI; blast)
qed

section \<open>Concrete runs\<close>

text \<open>A build of one entry, without sub-assembly, in a workspace holding forty pieces.\<close>

definition tiny_db :: db where
  "tiny_db = empty_db\<lparr>parts := [11 \<mapsto> demo_part 11 Local ''substitute''],
    storages := [20 \<mapsto> demo_storage 20], stock_entries := [demo_row 102 11 (Some 20) None 40],
    projects := [40 \<mapsto> demo_project\<lparr>pr_associated_subassembly_part_id := None\<rparr>],
    project_entries := [demo_entry 51 Et_part (Some 11) 1 1]\<rparr>"

definition tiny_create :: build_create_in where
  "tiny_create = \<lparr>bc_name = ''run'', bc_project_id = 40, bc_quantity = 5\<rparr>"

definition patch_status :: "build_status \<Rightarrow> build_patch_in" where
  "patch_status s = \<lparr>bp_name = None, bp_quantity = None, bp_status = Some (Some s)\<rparr>"

definition patch_quantity :: "int \<Rightarrow> build_patch_in" where
  "patch_quantity q = \<lparr>bp_name = None, bp_quantity = Some (Some q), bp_status = None\<rparr>"

definition tiny_created :: db where "tiny_created = snd (projr (create_build 1 None tiny_create tiny_db))"

lemma not_isl_Inr: "\<not> isl r \<Longrightarrow> \<exists>x. r = Inr (x, snd (projr r))"
  by (cases r) auto

lemma tiny_ok: "ledger_ok tiny_db" "catalog_ok tiny_db"
proof -
  show "ledger_ok tiny_db"
  proof (rule ledger_okI)
    show "list_all (row_balance_ok tiny_db) (stock_entries tiny_db)" by code_simp
    show "list_all (row_ok tiny_db) (stock_entries tiny_db)" by code_simp
    show "distinct (map se_id (stock_entries tiny_db))" by code_simp
    show "list_all (\<lambda>e. se_id e < next_uuid tiny_db) (stock_entries tiny_db)" by code_simp
    show "\<And>l. next_uuid tiny_db \<le> l \<Longrightarrow> lots tiny_db l = None" by (simp add: tiny_db_def empty_db_def)
  qed
  show "catalog_ok tiny_db"
    by (simp add: catalog_ok_def tiny_db_def empty_db_def demo_part_def demo_storage_def)
qed

lemma tiny_create_run: "\<exists>b. create_build 1 None tiny_create tiny_db = Inr (b, tiny_created)"
  unfolding tiny_created_def by (rule not_isl_Inr) code_simp

text \<open>
  marking a build complete by PATCH is not consuming it. It succeeds on every active
  build, keeps every reservation outstanding, and afterwards neither a consumption nor any
  change but a cancellation is accepted, so the reserved parts stay reserved.
\<close>

theorem patch_complete_strands_reservations:
  assumes "builds d bid = Some b" "b_workspace_id b = ws" "b_id b = bid" and "b_status b \<in> {Planned, In_progress}"
  shows "\<exists>d'. patch_build ws user bid (patch_status Complete) d = Inr (b\<lparr>b_status := Complete, b_updated_by := user\<rparr>, d')
     \<and> stock_entries d' = stock_entries d
     \<and> outstanding_reservations d' ws b = outstanding_reservations d ws b
     \<and> (\<forall>payload. bp_status payload \<noteq> Some (Some Cancelled) \<longrightarrow>
          patch_build ws user bid payload d' = Inl (HttpError Build_read_only))
     \<and> (\<forall>payload res d''. consume_build ws user bid payload d' \<noteq> Inr (res, d''))"
proof -
  let ?b = "b\<lparr>b_status := Complete, b_updated_by := user\<rparr>" and ?pl = "patch_status Complete"
  let ?d = "d\<lparr>builds := (builds d)(bid \<mapsto> ?b)\<rparr>"
  have s1: "set_build_fields user ?pl b d = Inr (?b, ?d)"
    using assms(3) by (simp add: set_build_fields_def patch_status_def Let_def)
  have q: "quantity_changed ?pl b = False" "bp_status ?pl = Some (Some Complete)"
    by (simp_all add: quantity_changed_def patch_status_def)
  have g: "get_build d ws bid = Inr b" using assms by simp
  have p: "patch_build ws user bid ?pl d = Inr (?b, ?d)"
    unfolding patch_build_def g bindr_simps q Let_def s1 using assms(4) by auto
  have g': "get_build ?d ws bid = Inr ?b" using assms by simp
  have ro: "patch_build ws user bid payload ?d = Inl (HttpError Build_read_only)"
    if "bp_status payload \<noteq> Some (Some Cancelled)" for payload
    using that unfolding patch_build_def g' by simp
  have con: "consume_build ws user bid payload ?d \<noteq> Inr (res, d'')" for payload res d''
    unfolding consume_build_def g' by (auto simp: bindr_Inr consume_def)
  show ?thesis using p ro con by (intro exI [of _ ?d]) simp
qed

text \<open>
  a completed build can go back to the start. Cancelling a completed build and then
  planning it again are both accepted; the build is planned once more with no reservation of
  its own, although the stock it consumed is gone, and \<open>consume\<close> would take it a second time.
\<close>

theorem completed_build_can_be_replanned:
  assumes "builds d bid = Some b" "b_workspace_id b = ws" "b_id b = bid" and "b_status b = Complete"
    and none: "snd (outstanding_reservations d ws b) = []"
  shows "\<exists>b1 d1 b2 d2. patch_build ws user bid (patch_status Cancelled) d = Inr (b1, d1)
     \<and> patch_build ws user bid (patch_status Planned) d1 = Inr (b2, d2)
     \<and> builds d2 bid = Some b2 \<and> b_status b2 = Planned \<and> b_completed_at b2 = b_completed_at b
     \<and> b_quantity b2 = b_quantity b \<and> stock_entries d2 = stock_entries d
     \<and> snd (outstanding_reservations d2 ws b2) = []"
proof -
  let ?b1 = "b\<lparr>b_status := Cancelled, b_updated_by := user\<rparr>"
  let ?d1 = "d\<lparr>builds := (builds d)(bid \<mapsto> ?b1)\<rparr>"
  have out1: "outstanding_reservations ?d1 ws ?b1 = outstanding_reservations d ws b"
    using outstanding_by_id(1) [of ?b1 b] by simp
  have s1: "set_build_fields user (patch_status Cancelled) b d = Inr (?b1, ?d1)"
    using assms(3) by (simp add: set_build_fields_def patch_status_def Let_def)
  obtain d1' n where rel: "release_reservations ws user ?b1 ?d1 = Inr (d1', n)" "builds d1' = builds ?d1"
    "stock_entries d1' = stock_entries ?d1"
  proof -
    have "\<exists>d1' n. release_reservations ws user ?b1 ?d1 = Inr (d1', n) \<and> stock_entries d1' = stock_entries ?d1"
      using lock_parts_frame(1) [of ?d1 ws] none
      unfolding release_reservations_def out1 by (auto simp: case_prod_unfold Let_def appends_def)
    with release_reservations_workflow that show thesis by (auto simp: same_workflow_def)
  qed
  have g: "get_build d ws bid = Inr b" using assms by simp
  have q: "quantity_changed (patch_status Cancelled) b = False" "bp_status (patch_status Cancelled) = Some (Some Cancelled)"
    by (simp_all add: quantity_changed_def patch_status_def)
  have p1: "patch_build ws user bid (patch_status Cancelled) d = Inr (?b1, d1')"
    unfolding patch_build_def g bindr_simps q Let_def s1 using assms(4) rel(1) by simp
  let ?b2 = "b\<lparr>b_status := Planned, b_updated_by := user\<rparr>"
  let ?d2 = "d1'\<lparr>builds := (builds d1')(bid \<mapsto> ?b2)\<rparr>"
  have g1: "get_build d1' ws bid = Inr ?b1" using assms rel(2) by simp
  have s2: "set_build_fields user (patch_status Planned) ?b1 d1' = Inr (?b2, ?d2)"
    using assms(3) by (simp add: set_build_fields_def patch_status_def Let_def)
  have p2: "patch_build ws user bid (patch_status Planned) d1' = Inr (?b2, ?d2)"
    unfolding patch_build_def g1 bindr_simps Let_def s2 by (simp add: quantity_changed_def patch_status_def)
  have "outstanding_reservations d1' ws b = outstanding_reservations d ws b"
    using rel(3) by (simp add: outstanding_reservations_def reserve_rows_def released_by_reserve_def Let_def)
  then have "snd (outstanding_reservations ?d2 ws ?b2) = []"
    using none outstanding_by_id(1) [of ?b2 b] by simp
  then show ?thesis
    using p1 p2 rel(3) by (intro exI [of _ ?b1] exI [of _ d1'] exI [of _ ?b2] exI [of _ ?d2]) simp
qed

lemma patch_complete_strands_reservations_witness:
  "\<exists>b' d'. patch_build 1 None 60 (patch_status Complete) demo_reserved = Inr (b', d')
     \<and> length (snd (outstanding_reservations d' 1 demo_build)) = 2"
proof -
  have "builds demo_reserved 60 = Some demo_build" "b_workspace_id demo_build = 1" "b_id demo_build = 60"
    "b_status demo_build \<in> {Planned, In_progress}"
    by (simp_all add: demo_build_def demo_reserved_def demo_def)
  note t = patch_complete_strands_reservations [OF this, of None]
  have "length (snd (outstanding_reservations demo_reserved 1 demo_build)) = 2" by code_simp
  with t show ?thesis by metis
qed

lemma completed_build_can_be_replanned_witness:
  "\<exists>b1 d1. patch_build 1 None 60 (patch_status Cancelled)
     (demo\<lparr>builds := [60 \<mapsto> demo_build\<lparr>b_status := Complete\<rparr>]\<rparr>) = Inr (b1, d1)"
proof -
  let ?b = "demo_build\<lparr>b_status := Complete\<rparr>"
  let ?d = "demo\<lparr>builds := [60 \<mapsto> ?b]\<rparr>"
  have "builds ?d 60 = Some ?b" "b_workspace_id ?b = 1" "b_id ?b = 60" "b_status ?b = Complete"
    by (simp_all add: demo_build_def demo_def)
  moreover have "snd (outstanding_reservations ?d 1 ?b) = []" by code_simp
  ultimately show ?thesis using completed_build_can_be_replanned [of ?d 60 ?b 1 None] by blast
qed

lemma create_build_reserves_its_bom_witness:
  "\<exists>b d'. create_build 1 None tiny_create tiny_db = Inr (b, d') \<and> reserved_quantity d' 1 11 = 5"
proof -
  obtain b where r: "create_build 1 None tiny_create tiny_db = Inr (b, tiny_created)" using tiny_create_run by blast
  from create_build_reserves_its_bom [OF tiny_ok r] have "b_quantity b = 5" "b_status b = Planned"
    "\<forall>p. reserved_quantity tiny_created 1 p = reserved_quantity tiny_db 1 p
      + (\<Sum>e \<leftarrow> consumable_entries tiny_db 1 (the (projects tiny_db 40)). reserve_amount tiny_db b p e)"
    by (auto simp: tiny_create_def)
  moreover have "(\<Sum>e \<leftarrow> consumable_entries tiny_db 1 (the (projects tiny_db 40)).
      reserve_amount tiny_db (demo_build\<lparr>b_quantity := 5\<rparr>) 11 e) = 5" by code_simp
  moreover have "reserve_amount tiny_db b = reserve_amount tiny_db (demo_build\<lparr>b_quantity := 5\<rparr>)"
    by (rule reserve_amount_quantity) (simp add: \<open>b_quantity b = 5\<close>)
  moreover have "reserved_quantity tiny_db 1 11 = 0" by code_simp
  ultimately show ?thesis using r by auto
qed

lemma patch_build_keeps_reservations_in_step_witness:
  "\<exists>b' d'. patch_build 1 None 60 (patch_status Cancelled) demo_reserved = Inr (b', d')
     \<and> reserved_quantity d' 1 10 = 0"
proof -
  have c: "catalog_ok demo_reserved" using demo_catalog_ok catalog_ok_cong [of demo_reserved demo] by (simp add: demo_reserved_def)
  have "\<not> isl (patch_build 1 None 60 (patch_status Cancelled) demo_reserved)" by code_simp
  then obtain b' d' where r: "patch_build 1 None 60 (patch_status Cancelled) demo_reserved = Inr (b', d')"
    by (cases "patch_build 1 None 60 (patch_status Cancelled) demo_reserved") auto
  from r have "b_status b' = Cancelled"
    by (auto simp: patch_build_def patch_status_def bindr_Inr Let_def set_build_fields_def split: if_split_asm)
  moreover have "builds demo_reserved 60 = Some demo_build" "b_status demo_build \<noteq> Cancelled"
    by (simp_all add: demo_build_def demo_reserved_def demo_def)
  moreover have "reserved_quantity demo_reserved 1 10 = 10" by code_simp
  moreover have "outstanding_of demo_reserved 1 demo_build 10 = 10" by code_simp
  ultimately have "reserved_quantity d' 1 10 = 0"
    using patch_build_keeps_reservations_in_step [OF demo_reserved_ok c r] by (auto simp: Let_def)
  with r show ?thesis by blast
qed

end
