(* ===== verification/Orders.thy ===== *)
theory Orders
  imports Stages
begin

text \<open>
  \<open>backend/app/domain/orders/service.py\<close>: receiving a purchase order. Every line of a
  receipt makes one lot and one ledger row, raises the received quantity of its order
  line, and the order's status is derived from its lines again.

  A date is its day number, an instant a number of microseconds, both since 1970. An
  order line's quantities are whole numbers at the API; \<open>quantity_out\<close> returns them
  unchanged (its \<open>float\<close> for a fractional outstanding quantity is not modelled).
\<close>

section \<open>The code\<close>

record receive_line_in =
  rl_order_entry_id :: uuid
  rl_quantity :: int
  rl_storage_location_id :: "uuid option"
  rl_lot_name :: "string option"
  rl_serial_number :: "string option"

record receive_in =
  ri_received_on :: "nat option"
  ri_lines :: "receive_line_in list"

record receive_result =
  rr_status :: order_status
  rr_lots :: "lot list"
  rr_stock_entries :: "stock_entry list"

fun nat_str :: "nat \<Rightarrow> string" where
  "nat_str n = (if n < 10 then [''0123456789'' ! n] else nat_str (n div 10) @ [''0123456789'' ! (n mod 10)])"

declare nat_str.simps [simp del]

definition day_of :: "nat \<Rightarrow> nat" where
  "day_of t = t div (24 * 60 * 60 * 10 ^ 6)"

definition order_status_of :: "order_entry list \<Rightarrow> order_status" where
  "order_status_of entries =
     (if entries = [] then Draft
      else let tot = sum_list (map oe_quantity_ordered entries);
               received = sum_list (map oe_quantity_received entries) in
      if received = 0 then Open else if received < tot then Partial else Received)"

text \<open>\<open>entries_by_id\<close>; \<open>id\<close> is the primary key, so a row is found by it.\<close>

definition entries_of_order :: "db \<Rightarrow> uuid \<Rightarrow> uuid \<Rightarrow> order_entry list" where
  "entries_of_order d ws oid = filter (\<lambda>e. oe_workspace_id e = ws \<and> oe_order_id e = oid) (order_entries d)"

definition order_entry_by_id :: "db \<Rightarrow> uuid \<Rightarrow> uuid \<Rightarrow> uuid \<Rightarrow> order_entry option" where
  "order_entry_by_id d ws oid i = find (\<lambda>e. oe_id e = i) (entries_of_order d ws oid)"

text \<open>The serial-number rule of a line.\<close>

definition receive_serial_error :: "bool \<Rightarrow> part \<Rightarrow> receive_line_in \<Rightarrow> order_error option" where
  "receive_serial_error serial_tracking_on part l =
     (if serial_tracking_on \<and> p_serialized part then
        if rl_quantity l \<noteq> 1 then Some Serialized_one_per_line
        else if strip (case rl_serial_number l of None \<Rightarrow> [] | Some s \<Rightarrow> s) = []
        then Some Serialized_requires_serial else None
      else None)"

definition receive_storage ::
    "uuid \<Rightarrow> part \<Rightarrow> uuid option \<Rightarrow> db \<Rightarrow> error + storage_location option \<times> db" where
  "receive_storage ws part sto d =
     (case sto of None \<Rightarrow> Inr (None, d)
      | Some i \<Rightarrow>
        (case belonging_storage d ws i of None \<Rightarrow> Inl (OrderError Order_storage_not_in_workspace)
         | Some s \<Rightarrow>
           if sl_archived_at s \<noteq> None then Inl (OrderError Order_storage_archived)
           else if sl_is_full s then Inl (OrderError Order_storage_full)
           else bindr (enforce_storage_constraints ws s (p_id part) d) (\<lambda>d1. Inr (Some s, d1))))"

text \<open>\<open>a or b\<close> on optional strings: \<open>None\<close> and the empty string are false.\<close>

definition str_or :: "string option \<Rightarrow> string option \<Rightarrow> string option" where
  "str_or a b = (if a = None \<or> a = Some [] then b else a)"

definition received_lot :: "uuid \<Rightarrow> uuid option \<Rightarrow> order \<Rightarrow> order_entry \<Rightarrow> part \<Rightarrow> receive_line_in \<Rightarrow> lot" where
  "received_lot ws user order oe part l = blank_lot\<lparr>
     lot_workspace_id := ws,
     lot_part_id := Some (p_id part),
     lot_name := str_or (rl_lot_name l) (Some (o_name order @ ''#'' @ nat_str (oe_order_index oe + 1))),
     lot_serial_number := rl_serial_number l,
     lot_source_type := Purchase,
     lot_source_order_id := Some (o_id order),
     lot_purchase_quantity := Some (of_int (rl_quantity l)),
     lot_purchase_unit_cost := oe_unit_price oe,
     lot_purchase_currency := str_or (oe_currency oe) (o_currency order),
     lot_created_by := user\<rparr>"

definition received_row ::
    "uuid \<Rightarrow> uuid option \<Rightarrow> order \<Rightarrow> order_entry \<Rightarrow> part \<Rightarrow> receive_line_in \<Rightarrow> storage_location option \<Rightarrow> uuid
     \<Rightarrow> nat \<Rightarrow> stock_entry" where
  "received_row ws user order oe part l s lot now = blank_entry\<lparr>
     se_workspace_id := ws,
     se_part_id := Some (p_id part),
     se_lot_id := Some lot,
     se_storage_location_id := map_option sl_id s,
     se_quantity_delta := of_int (rl_quantity l),
     se_unit := unit_for_part (Some part),
     se_status := On_hand,
     se_unit_price := oe_unit_price oe,
     se_currency := str_or (oe_currency oe) (o_currency order),
     se_operation_type := Op_receive,
     se_order_id := Some (o_id order),
     se_order_entry_id := Some (oe_id oe),
     se_occurred_at := now,
     se_created_by := user\<rparr>"

text \<open>\<open>oe.quantity_received += line.quantity; oe.updated_by = user_id\<close>\<close>

definition add_received :: "uuid option \<Rightarrow> uuid \<Rightarrow> int \<Rightarrow> db \<Rightarrow> db" where
  "add_received user i n d = d\<lparr>order_entries := map (\<lambda>e. if oe_id e = i
     then e\<lparr>oe_quantity_received := dec_add (oe_quantity_received e) (of_int n), oe_updated_by := user\<rparr> else e)
     (order_entries d)\<rparr>"

definition receive_line ::
    "uuid \<Rightarrow> uuid option \<Rightarrow> order \<Rightarrow> nat \<Rightarrow> bool \<Rightarrow> receive_line_in \<Rightarrow> db \<times> lot list \<times> stock_entry list
     \<Rightarrow> error + db \<times> lot list \<times> stock_entry list" where
  "receive_line ws user order received_at serial_tracking_on l st =
     (let (d, created_lots, created_entries) = st in
      case order_entry_by_id d ws (o_id order) (rl_order_entry_id l) of
        None \<Rightarrow> Inl (OrderError (Order_entry_not_in_order (rl_order_entry_id l)))
      | Some oe \<Rightarrow>
        (case oe_part_id oe of None \<Rightarrow> Inl (OrderError Entry_without_part)
         | Some p \<Rightarrow>
        let outstanding = dec_sub (oe_quantity_ordered oe) (oe_quantity_received oe) in
        if outstanding < of_int (rl_quantity l)
        then Inl (OrderError (Over_receives (oe_id oe) outstanding (of_int (rl_quantity l))))
        else (case belonging_part d ws p of None \<Rightarrow> Inl (OrderError Order_part_not_in_workspace)
         | Some part \<Rightarrow>
        (case receive_serial_error serial_tracking_on part l of Some e \<Rightarrow> Inl (OrderError e)
         | None \<Rightarrow>
        bindr (receive_storage ws part (rl_storage_location_id l) d) (\<lambda>(storage, d1).
        bindr (add_lot (received_lot ws user order oe part l) d1) (\<lambda>(lot, d2).
        bindr (add_entry (received_row ws user order oe part l storage (lot_id lot) received_at) d2) (\<lambda>(entry, d3).
        Inr (add_received user (oe_id oe) (rl_quantity l) d3, created_lots @ [lot], created_entries @ [entry]))))))))"

definition received_order :: "uuid option \<Rightarrow> nat option \<Rightarrow> nat \<Rightarrow> order_status \<Rightarrow> order \<Rightarrow> order" where
  "received_order user received_on received_at status order = order\<lparr>
     o_status := status,
     o_received_on := (case received_on of Some t \<Rightarrow> Some t
        | None \<Rightarrow> if status = Received \<and> o_received_on order = None then Some (day_of received_at)
                  else o_received_on order),
     o_updated_by := user\<rparr>"

definition receive ::
    "uuid \<Rightarrow> uuid option \<Rightarrow> order \<Rightarrow> receive_in \<Rightarrow> db \<Rightarrow> error + receive_result \<times> db" where
  "receive ws user order payload d0 =
     (if o_status order = Order_cancelled then Inl (OrderError Order_is_cancelled)
      else let d = lock_parts_for_stock_write ws
                     (List.map_filter oe_part_id (entries_of_order d0 ws (o_id order))) d0;
               received_at = clock d;
               serial_tracking_on = (case workspaces d ws of None \<Rightarrow> False | Some w \<Rightarrow> ws_serial_tracking_enabled w)
      in bindr (foldr_r (receive_line ws user order received_at serial_tracking_on) (ri_lines payload) (d, [], []))
        (\<lambda>(d1, created_lots, created_entries).
          let status = order_status_of (entries_of_order d1 ws (o_id order)) in
          Inr (\<lparr>rr_status = status, rr_lots = created_lots, rr_stock_entries = created_entries\<rparr>,
               d1\<lparr>orders := (orders d1)(o_id order \<mapsto>
                    received_order user (ri_received_on payload) received_at status order)\<rparr>)))"

section \<open>What a line does\<close>

lemma storage_lock_effect [simp]:
  "appends d (lock_for_storage_constraint ws i d) []"
  "ledger_ok (lock_for_storage_constraint ws i d) \<longleftrightarrow> ledger_ok d"
  "same_workflow d (lock_for_storage_constraint ws i d)"
  by (simp_all add: lock_for_storage_constraint_def acquire_appends same_workflow_def)

lemma receive_storage_Some:
  "receive_storage ws part (Some i) d = Inr (s, d1) \<longleftrightarrow>
     (\<exists>x. storages d i = Some x \<and> sl_workspace_id x = ws \<and> sl_archived_at x = None \<and> \<not> sl_is_full x
        \<and> s = Some x \<and> enforce_storage_constraints ws x (p_id part) d = Inr d1)"
  by (cases "belonging_storage d ws i")
     (auto simp: receive_storage_def bindr_Inr belonging_storage_def split: option.splits if_split_asm)

lemma receive_storage_effect:
  assumes "receive_storage ws part sto d = Inr (s, d1)"
  shows "appends d d1 []" and "ledger_ok d1 \<longleftrightarrow> ledger_ok d" and "same_workflow d d1"
    and "catalog_ok d \<Longrightarrow> map_option sl_id s = sto"
    and "d1 = (case sto of None \<Rightarrow> d | Some _ \<Rightarrow> lock_for_storage_constraint ws (sl_id (the s)) d)"
    and "\<And>x. s = Some x \<Longrightarrow> storages d (the sto) = Some x \<and> sl_archived_at x = None \<and> \<not> sl_is_full x
       \<and> enforce_storage_constraints ws x (p_id part) d = Inr d1"
proof -
  have *: "appends d d1 [] \<and> (ledger_ok d1 = ledger_ok d) \<and> same_workflow d d1
      \<and> (catalog_ok d \<longrightarrow> map_option sl_id s = sto)
      \<and> d1 = (case sto of None \<Rightarrow> d | Some _ \<Rightarrow> lock_for_storage_constraint ws (sl_id (the s)) d)
      \<and> (\<forall>x. s = Some x \<longrightarrow> storages d (the sto) = Some x \<and> sl_archived_at x = None \<and> \<not> sl_is_full x
       \<and> enforce_storage_constraints ws x (p_id part) d = Inr d1)"
  proof (cases sto)
    case None
    with assms show ?thesis by (simp add: receive_storage_def)
  next
    case (Some i)
    with assms obtain x where x: "storages d i = Some x" "sl_archived_at x = None" "\<not> sl_is_full x"
      "s = Some x" "enforce_storage_constraints ws x (p_id part) d = Inr d1"
      by (auto simp: receive_storage_Some)
    have "d1 = lock_for_storage_constraint ws (sl_id x) d" by (rule enforce_Inr [OF x(5)])
    with x Some show ?thesis by (simp add: catalog_ok_def)
  qed
  then show "appends d d1 []" "ledger_ok d1 \<longleftrightarrow> ledger_ok d" "same_workflow d d1"
    "catalog_ok d \<Longrightarrow> map_option sl_id s = sto"
    "d1 = (case sto of None \<Rightarrow> d | Some _ \<Rightarrow> lock_for_storage_constraint ws (sl_id (the s)) d)"
    "\<And>x. s = Some x \<Longrightarrow> storages d (the sto) = Some x \<and> sl_archived_at x = None \<and> \<not> sl_is_full x
       \<and> enforce_storage_constraints ws x (p_id part) d = Inr d1"
    by blast+
qed

text \<open>The row and the lot of one received line.\<close>

definition receives :: "uuid \<Rightarrow> order \<Rightarrow> receive_line_in \<Rightarrow> uuid \<Rightarrow> lot \<Rightarrow> stock_entry \<Rightarrow> bool" where
  "receives ws order l p x e \<longleftrightarrow> se_workspace_id e = ws \<and> se_part_id e = Some p
     \<and> se_storage_location_id e = rl_storage_location_id l \<and> se_lot_id e = Some (lot_id x)
     \<and> se_quantity_delta e = of_int (rl_quantity l) \<and> se_status e = On_hand
     \<and> se_operation_type e = Op_receive \<and> se_order_id e = Some (o_id order)
     \<and> se_order_entry_id e = Some (rl_order_entry_id l)
     \<and> lot_part_id x = Some p \<and> lot_source_type x = Purchase \<and> lot_source_order_id x = Some (o_id order)
     \<and> lot_serial_number x = rl_serial_number l"

lemma order_entry_by_id_Some:
  assumes "order_entry_by_id d ws oid i = Some oe"
  shows "oe \<in> set (entries_of_order d ws oid)" and "oe_id oe = i"
  using assms by (auto simp: order_entry_by_id_def find_Some_iff in_set_conv_nth)

lemma receive_line_effect:
  assumes ok: "ledger_ok d" "catalog_ok d"
    and r: "receive_line ws user order now on l (d, ls, es) = Inr (d', ls', es')"
  obtains oe p part x row where
    "order_entry_by_id d ws (o_id order) (rl_order_entry_id l) = Some oe"
    "of_int (rl_quantity l) \<le> dec_sub (oe_quantity_ordered oe) (oe_quantity_received oe)"
    "oe_part_id oe = Some p" "parts d p = Some part" "receive_serial_error on part l = None"
    "ledger_ok d'" "appends d d' [stored_entry row]" "ls' = ls @ [x]" "es' = es @ [row]"
    "receives ws order l p x row"
    "order_entries d' = order_entries (add_received user (rl_order_entry_id l) (rl_quantity l) d)"
    "orders d' = orders d" "lots d (lot_id x) = None"
    "held_locks d' = held_locks (case rl_storage_location_id l of None \<Rightarrow> d
        | Some i \<Rightarrow> lock_for_storage_constraint ws i d)"
    "\<And>s. rl_storage_location_id l = Some s \<Longrightarrow> \<exists>y. storages d s = Some y \<and> sl_archived_at y = None
        \<and> \<not> sl_is_full y \<and> location_accepts d ws y p"
proof -
  from r obtain oe p part s d1 x d2 row d3 where
    oe: "order_entry_by_id d ws (o_id order) (rl_order_entry_id l) = Some oe"
    and out: "of_int (rl_quantity l) \<le> dec_sub (oe_quantity_ordered oe) (oe_quantity_received oe)"
    and p: "oe_part_id oe = Some p" and part: "parts d p = Some part" and pw: "p_workspace_id part = ws"
    and ser: "receive_serial_error on part l = None"
    and st: "receive_storage ws part (rl_storage_location_id l) d = Inr (s, d1)"
    and lt: "add_lot (received_lot ws user order oe part l) d1 = Inr (x, d2)"
    and en: "add_entry (received_row ws user order oe part l s (lot_id x) now) d2 = Inr (row, d3)"
    and res: "d' = add_received user (oe_id oe) (rl_quantity l) d3" "ls' = ls @ [x]" "es' = es @ [row]"
    by (auto simp: receive_line_def Let_def bindr_Inr not_less split: option.splits if_splits)
  note st' = receive_storage_effect [OF st]
  have id: "p_id part = p" using catalog_ok_part [OF ok(2) part] by simp
  have oid: "oe_id oe = rl_order_entry_id l" using order_entry_by_id_Some [OF oe] by simp
  have ok1: "ledger_ok d1" using st'(2) ok by simp
  have ok2: "ledger_ok d2" by (rule add_lot_ledger_ok [OF ok1 lt])
  have ok3: "ledger_ok d3" by (rule add_entry_ledger_ok [OF ok2 en])
  have ok': "ledger_ok d'" using ok3 ledger_ok_cong [of d' d3] by (simp add: res add_received_def)
  have "appends d d3 ([] @ [] @ [stored_entry row])"
    by (intro appends_trans [OF st'(1)] appends_trans [OF add_lot_appends [OF ok1 lt]] add_entry_appends [OF en])
  then have app: "appends d d' [stored_entry row]"
    by (simp add: res add_received_def appends_def same_catalog_def)
  have wf: "same_workflow d d3"
    by (rule same_workflow_trans [OF st'(3) same_workflow_trans [OF add_lot_workflow [OF lt] add_entry_workflow [OF en]]])
  have rec: "receives ws order l p x row"
    using lt en st'(4) ok(2) id oid
    by (auto simp: receives_def add_lot_Inr add_entry_Inr received_row_def received_lot_def blank_entry_def blank_lot_def)
  have fresh: "lots d (lot_id x) = None"
  proof -
    have "lot_id x = next_uuid d1" using lt by (auto simp: add_lot_Inr)
    moreover have "lots d1 (next_uuid d1) = None" using ok1 by (simp add: ledger_ok_def fresh_ids_def)
    ultimately show ?thesis using st'(1) by (auto simp: appends_def map_le_def dom_def)
  qed
  have held: "held_locks d' = held_locks d1"
    using lt en by (auto simp: res add_received_def add_lot_Inr add_entry_Inr insert_entry_Inr)
  have loc: "\<exists>y. storages d s' = Some y \<and> sl_archived_at y = None \<and> \<not> sl_is_full y \<and> location_accepts d ws y p"
    if s': "rl_storage_location_id l = Some s'" for s'
  proof -
    from st'(4) ok(2) s' obtain y where y: "s = Some y" "sl_id y = s'" by (cases s) auto
    with st'(6) s' id have "storages d (sl_id y) = Some y" "sl_archived_at y = None" "\<not> sl_is_full y"
      "\<exists>d'. enforce_storage_constraints ws y p d = Inr d'" by auto
    with enforce_accepts y show ?thesis by auto
  qed
  have held': "held_locks d1 = held_locks (case rl_storage_location_id l of None \<Rightarrow> d
        | Some i \<Rightarrow> lock_for_storage_constraint ws i d)"
    using st'(4,5) ok(2) by (cases s) (auto split: option.split)
  have entries: "order_entries d' = order_entries (add_received user (rl_order_entry_id l) (rl_quantity l) d)"
    "orders d' = orders d"
    using wf by (simp_all add: res oid add_received_def same_workflow_def)
  show thesis
    by (rule that [OF oe out p part ser ok' app res(2,3) rec entries fresh]) (use held held' loc in auto)
qed


section \<open>The order book\<close>

text \<open>
  Every order line has a row of its own, whole-grid quantities its column holds, and was
  never received beyond what was ordered.
\<close>

definition order_line_ok :: "order_entry \<Rightarrow> bool" where
  "order_line_ok e \<longleftrightarrow> on_grid (oe_quantity_ordered e) \<and> on_grid (oe_quantity_received e)
     \<and> 0 \<le> oe_quantity_received e \<and> oe_quantity_received e \<le> oe_quantity_ordered e
     \<and> oe_quantity_ordered e < 10 ^ 12"

definition order_lines_ok :: "db \<Rightarrow> bool" where
  "order_lines_ok d \<longleftrightarrow> distinct (map oe_id (order_entries d)) \<and> (\<forall>e \<in> set (order_entries d). order_line_ok e)"

definition received_for :: "uuid \<Rightarrow> receive_line_in list \<Rightarrow> int" where
  "received_for i lines = sum_where rl_quantity (\<lambda>l. rl_order_entry_id l = i) lines"

definition with_received :: "uuid option \<Rightarrow> receive_line_in list \<Rightarrow> order_entry \<Rightarrow> order_entry" where
  "with_received user lines e = (if oe_id e \<in> rl_order_entry_id ` set lines
     then e\<lparr>oe_quantity_received := oe_quantity_received e + of_int (received_for (oe_id e) lines),
            oe_updated_by := user\<rparr> else e)"

definition received_of :: "db \<Rightarrow> uuid \<Rightarrow> rat" where
  "received_of d p = sum_where oe_quantity_received (\<lambda>e. oe_part_id e = Some p) (order_entries d)"

lemma with_received_simps [simp]:
  "oe_id (with_received user ls e) = oe_id e" "oe_part_id (with_received user ls e) = oe_part_id e"
  "oe_workspace_id (with_received user ls e) = oe_workspace_id e"
  "oe_order_id (with_received user ls e) = oe_order_id e"
  "oe_quantity_ordered (with_received user ls e) = oe_quantity_ordered e"
  by (simp_all add: with_received_def)

lemma order_entries_cong:
  "order_entries d' = order_entries d \<Longrightarrow> order_lines_ok d' \<longleftrightarrow> order_lines_ok d"
  "order_entries d' = order_entries d \<Longrightarrow> entries_of_order d' = entries_of_order d"
  by (simp_all add: order_lines_ok_def entries_of_order_def fun_eq_iff)

lemma order_line_unique:
  "order_lines_ok d \<Longrightarrow> e \<in> set (order_entries d) \<Longrightarrow> e' \<in> set (order_entries d) \<Longrightarrow> oe_id e = oe_id e' \<Longrightarrow> e = e'"
  by (metis order_lines_ok_def distinct_map inj_onD)

lemma received_for_none: "i \<notin> rl_order_entry_id ` set ls \<Longrightarrow> received_for i ls = 0"
  unfolding received_for_def by (rule sum_where_none) auto

lemma received_for_simps [simp]:
  "received_for i [] = 0"
  "received_for i (l # ls) = (if rl_order_entry_id l = i then rl_quantity l else 0) + received_for i ls"
  by (simp_all add: received_for_def)

lemma find_map_id: "(\<And>x. Q (f x) = Q x) \<Longrightarrow> find Q (map f xs) = map_option f (find Q xs)"
  by (induction xs) auto

lemma add_received_step:
  assumes ok: "order_lines_ok d" and oe: "order_entry_by_id d ws oid (rl_order_entry_id l) = Some oe"
    and le: "of_int (rl_quantity l) \<le> dec_sub (oe_quantity_ordered oe) (oe_quantity_received oe)"
    and pos: "0 \<le> rl_quantity l"
    and d': "order_entries d' = order_entries (add_received user (rl_order_entry_id l) (rl_quantity l) d)"
  shows "order_entries d' = map (with_received user [l]) (order_entries d)" and "order_lines_ok d'"
proof -
  let ?i = "rl_order_entry_id l" and ?q = "of_int (rl_quantity l) :: rat"
  note mem = order_entry_by_id_Some [OF oe]
  have oe': "oe \<in> set (order_entries d)" "order_line_ok oe"
    using mem ok by (auto simp: entries_of_order_def order_lines_ok_def)
  have "dec_sub (oe_quantity_ordered oe) (oe_quantity_received oe) = oe_quantity_ordered oe - oe_quantity_received oe"
    using oe'(2) unfolding dec_sub_def by (intro dec_grid) (auto simp: order_line_ok_def intro: on_grid_diff)
  with le have sum: "oe_quantity_received oe + ?q \<le> oe_quantity_ordered oe" by simp
  have exact: "dec_add (oe_quantity_received oe) ?q = oe_quantity_received oe + ?q"
    using oe'(2) sum pos unfolding dec_add_def
    by (intro dec_grid) (auto simp: order_line_ok_def intro: on_grid_add)
  have same: "e = oe" if "e \<in> set (order_entries d)" "oe_id e = ?i" for e
    using order_line_unique [OF ok that(1) oe'(1)] that(2) mem(2) by simp
  show entries: "order_entries d' = map (with_received user [l]) (order_entries d)"
    using same exact by (auto simp: d' add_received_def with_received_def received_for_def)
  have "order_line_ok (with_received user [l] e)" if "e \<in> set (order_entries d)" for e
  proof (cases "oe_id e = ?i")
    case True
    with same that have "e = oe" by blast
    with oe'(2) sum pos show ?thesis
      by (auto simp: with_received_def order_line_ok_def intro: on_grid_add)
  next
    case False
    with that ok show ?thesis by (simp add: with_received_def order_lines_ok_def)
  qed
  then show "order_lines_ok d'" using ok by (simp add: order_lines_ok_def entries comp_def)
qed

lemma with_received_Cons: "with_received user ls (with_received user [l] e) = with_received user (l # ls) e"
  by (auto simp: with_received_def received_for_none)

text \<open>One line moves a part's received total by what it credits the ledger with.\<close>

lemma received_of_step:
  assumes ok: "order_lines_ok d" and oe: "order_entry_by_id d ws oid (rl_order_entry_id l) = Some oe"
    and d': "order_entries d' = map (with_received user [l]) (order_entries d)"
  shows "received_of d' p = received_of d p + (if oe_part_id oe = Some p then of_int (rl_quantity l) else 0)"
proof -
  note mem = order_entry_by_id_Some [OF oe]
  have oe': "oe \<in> set (order_entries d)" using mem by (simp add: entries_of_order_def)
  let ?q = "of_int (rl_quantity l) :: rat" and ?P = "\<lambda>e. oe_part_id e = Some p"
  have v: "oe_quantity_received (with_received user [l] e)
      = oe_quantity_received e + (if oe_id e = oe_id oe then ?q else 0)" for e
    by (simp add: with_received_def mem(2))
  have "sum_where oe_quantity_received ?P (map (with_received user [l]) es)
      = sum_where oe_quantity_received ?P es + sum_where (\<lambda>e. if ?P e then ?q else 0) (\<lambda>e. oe_id e = oe_id oe) es" for es
    by (induction es) (simp_all add: v)
  moreover have "sum_where (\<lambda>e. if ?P e then ?q else 0) (\<lambda>e. oe_id e = oe_id oe) (order_entries d)
      = (if ?P oe then ?q else 0)"
    using sum_where_unique [of oe_id "order_entries d" oe "\<lambda>e. if ?P e then ?q else 0"] ok oe'
    by (simp add: order_lines_ok_def)
  ultimately show ?thesis by (simp add: received_of_def d')
qed


text \<open>All lines of a receipt.\<close>

lemma receive_loop_effect:
  assumes "ledger_ok d" "catalog_ok d" "order_lines_ok d" "\<forall>l \<in> set lines. 0 \<le> rl_quantity l"
    and "foldr_r (receive_line ws user order now on) lines (d, ls, es) = Inr (d', ls', es')"
  shows "\<exists>xs rows. ledger_ok d' \<and> appends d d' (map stored_entry rows) \<and> ls' = ls @ xs \<and> es' = es @ rows
     \<and> length xs = length lines \<and> length rows = length lines
     \<and> (\<forall>i < length lines. \<exists>oe p part. order_entry_by_id d ws (o_id order) (rl_order_entry_id (lines ! i)) = Some oe
          \<and> oe_part_id oe = Some p \<and> parts d p = Some part \<and> receive_serial_error on part (lines ! i) = None
          \<and> receives ws order (lines ! i) p (xs ! i) (rows ! i) \<and> lots d (lot_id (xs ! i)) = None)
     \<and> order_entries d' = map (with_received user lines) (order_entries d) \<and> order_lines_ok d'
     \<and> orders d' = orders d
     \<and> (\<forall>p. received_of d' p - received_of d p = total_for_part d' ws p On_hand - total_for_part d ws p On_hand)"
  using assms
proof (induction lines arbitrary: d ls es)
  case Nil
  have "with_received user [] = (\<lambda>e. e)" by (simp add: with_received_def fun_eq_iff)
  with Nil show ?case by auto
next
  case (Cons l lines)
  from Cons.prems(5) obtain d1 ls1 es1 where
    one: "receive_line ws user order now on l (d, ls, es) = Inr (d1, ls1, es1)"
    and rest: "foldr_r (receive_line ws user order now on) lines (d1, ls1, es1) = Inr (d', ls', es')"
    by (auto simp: bindr_Inr)
  from receive_line_effect [OF Cons.prems(1,2) one] obtain oe p part x row where
    oe: "order_entry_by_id d ws (o_id order) (rl_order_entry_id l) = Some oe"
    and le: "of_int (rl_quantity l) \<le> dec_sub (oe_quantity_ordered oe) (oe_quantity_received oe)"
    and p: "oe_part_id oe = Some p" "parts d p = Some part" "receive_serial_error on part l = None"
    and ok1: "ledger_ok d1" and app: "appends d d1 [stored_entry row]" and l1: "ls1 = ls @ [x]" "es1 = es @ [row]"
    and rec: "receives ws order l p x row"
    and ent: "order_entries d1 = order_entries (add_received user (rl_order_entry_id l) (rl_quantity l) d)"
    and ord: "orders d1 = orders d" and fresh: "lots d (lot_id x) = None" .
  note step = add_received_step [OF Cons.prems(3) oe le _ ent]
  have ent1: "order_entries d1 = map (with_received user [l]) (order_entries d)" and ok_lines: "order_lines_ok d1"
    using step Cons.prems(4) by simp_all
  have cat1: "catalog_ok d1" by (rule catalog_ok_appends [OF Cons.prems(2) app])
  from Cons.IH [OF ok1 cat1 ok_lines _ rest] Cons.prems(4) obtain xs rows where
    r: "ledger_ok d'" "appends d1 d' (map stored_entry rows)" "ls' = ls1 @ xs" "es' = es1 @ rows"
      "length xs = length lines" "length rows = length lines"
    and each: "\<forall>i < length lines. \<exists>oe p part. order_entry_by_id d1 ws (o_id order) (rl_order_entry_id (lines ! i)) = Some oe
          \<and> oe_part_id oe = Some p \<and> parts d1 p = Some part \<and> receive_serial_error on part (lines ! i) = None
          \<and> receives ws order (lines ! i) p (xs ! i) (rows ! i) \<and> lots d1 (lot_id (xs ! i)) = None"
    and ent': "order_entries d' = map (with_received user lines) (order_entries d1)" "order_lines_ok d'"
    and ord': "orders d' = orders d1"
    and bal: "\<forall>p. received_of d' p - received_of d1 p = total_for_part d' ws p On_hand - total_for_part d1 ws p On_hand"
    by auto
  have by_id: "\<exists>oe'. order_entry_by_id d ws oid j = Some oe' \<and> oe = with_received user [l] oe'"
    if "order_entry_by_id d1 ws oid j = Some oe" for oid j oe
  proof -
    have "entries_of_order d1 ws oid = map (with_received user [l]) (entries_of_order d ws oid)"
      by (simp add: entries_of_order_def ent1 filter_map comp_def)
    then have "order_entry_by_id d1 ws oid j = map_option (with_received user [l]) (order_entry_by_id d ws oid j)"
      by (simp add: order_entry_by_id_def find_map_id)
    with that show ?thesis by auto
  qed
  have lots_old: "lots d i = None" if "lots d1 i = None" for i
    using app that by (auto simp: appends_def map_le_def dom_def)
  have each': "\<exists>oe p part. order_entry_by_id d ws (o_id order) (rl_order_entry_id ((l # lines) ! i)) = Some oe
          \<and> oe_part_id oe = Some p \<and> parts d p = Some part \<and> receive_serial_error on part ((l # lines) ! i) = None
          \<and> receives ws order ((l # lines) ! i) p ((x # xs) ! i) ((row # rows) ! i)
          \<and> lots d (lot_id ((x # xs) ! i)) = None" if "i < length (l # lines)" for i
  proof (cases i)
    case 0
    with oe p rec fresh show ?thesis by auto
  next
    case (Suc k)
    with that each obtain oe' p' part' where
      "order_entry_by_id d1 ws (o_id order) (rl_order_entry_id (lines ! k)) = Some oe'"
      "oe_part_id oe' = Some p'" "parts d1 p' = Some part'" "receive_serial_error on part' (lines ! k) = None"
      "receives ws order (lines ! k) p' (xs ! k) (rows ! k)" "lots d1 (lot_id (xs ! k)) = None" by auto
    with by_id lots_old appends_catalog(1) [OF app] Suc show ?thesis by fastforce
  qed
  have tot: "total_for_part d1 ws q On_hand = total_for_part d ws q On_hand + (if p = q then of_int (rl_quantity l) else 0)" for q
    using rec by (simp add: total_for_part_def appends_current_quantity [OF app] counts_for_def receives_def)
  have bal': "received_of d' q - received_of d q = total_for_part d' ws q On_hand - total_for_part d ws q On_hand" for q
    using bal [rule_format, of q] received_of_step [OF Cons.prems(3) oe ent1, of q] tot [of q] p(1) by auto
  have "map (with_received user lines) (order_entries d1) = map (with_received user (l # lines)) (order_entries d)"
    by (simp add: ent1 comp_def with_received_Cons)
  moreover have "appends d d' (map stored_entry (row # rows))"
    using appends_trans [OF app r(2)] by simp
  ultimately show ?case
    using r l1 each' ent' ord ord' bal' by (intro exI [of _ "x # xs"] exI [of _ "row # rows"]) auto
qed


section \<open>A receipt\<close>

lemma receive_Inr:
  assumes "receive ws user order payload d = Inr (res, d')"
  obtains d0 on d1 where "o_status order \<noteq> Order_cancelled"
    "d0 = lock_parts_for_stock_write ws (List.map_filter oe_part_id (entries_of_order d ws (o_id order))) d"
    "on = (case workspaces d ws of None \<Rightarrow> False | Some w \<Rightarrow> ws_serial_tracking_enabled w)"
    "foldr_r (receive_line ws user order (clock d0) on) (ri_lines payload) (d0, [], [])
       = Inr (d1, rr_lots res, rr_stock_entries res)"
    "rr_status res = order_status_of (entries_of_order d1 ws (o_id order))"
    "d' = d1\<lparr>orders := (orders d1)(o_id order \<mapsto>
        received_order user (ri_received_on payload) (clock d0) (rr_status res) order)\<rparr>"
proof -
  let ?d0 = "lock_parts_for_stock_write ws (List.map_filter oe_part_id (entries_of_order d ws (o_id order))) d"
  have "workspaces ?d0 = workspaces d"
    using lock_parts_frame(1) by (simp add: appends_def same_catalog_def)
  with assms that [of ?d0] show thesis
    by (auto simp: receive_def Let_def bindr_Inr split: if_split_asm)
qed

lemma receive_effect:
  assumes ok: "ledger_ok d" "catalog_ok d" "order_lines_ok d"
    and pos: "\<forall>l \<in> set (ri_lines payload). 0 < rl_quantity l"
    and rec: "receive ws user order payload d = Inr (res, d')"
  shows "ledger_ok d' \<and> appends d d' (map stored_entry (rr_stock_entries res))
     \<and> length (rr_lots res) = length (ri_lines payload) \<and> length (rr_stock_entries res) = length (ri_lines payload)
     \<and> (\<forall>i < length (ri_lines payload). \<exists>oe p part.
          order_entry_by_id d ws (o_id order) (rl_order_entry_id (ri_lines payload ! i)) = Some oe
          \<and> oe_part_id oe = Some p \<and> parts d p = Some part
          \<and> receive_serial_error (case workspaces d ws of None \<Rightarrow> False | Some w \<Rightarrow> ws_serial_tracking_enabled w)
              part (ri_lines payload ! i) = None
          \<and> receives ws order (ri_lines payload ! i) p (rr_lots res ! i) (rr_stock_entries res ! i)
          \<and> lots d (lot_id (rr_lots res ! i)) = None)
     \<and> order_entries d' = map (with_received user (ri_lines payload)) (order_entries d) \<and> order_lines_ok d'
     \<and> (\<forall>p. received_of d' p - received_of d p = total_for_part d' ws p On_hand - total_for_part d ws p On_hand)"
proof -
  from receive_Inr [OF rec] obtain d0 on d1 where
    d0: "d0 = lock_parts_for_stock_write ws (List.map_filter oe_part_id (entries_of_order d ws (o_id order))) d"
    and on: "on = (case workspaces d ws of None \<Rightarrow> False | Some w \<Rightarrow> ws_serial_tracking_enabled w)"
    and loop: "foldr_r (receive_line ws user order (clock d0) on) (ri_lines payload) (d0, [], [])
       = Inr (d1, rr_lots res, rr_stock_entries res)"
    and d': "d' = d1\<lparr>orders := (orders d1)(o_id order \<mapsto>
        received_order user (ri_received_on payload) (clock d0) (rr_status res) order)\<rparr>" .
  have a: "appends d d0 []" using lock_parts_frame(1) d0 by simp
  have oe: "order_entries d0 = order_entries d" using lock_parts_workflow d0 by (simp add: same_workflow_def)
  have ok0: "ledger_ok d0" "catalog_ok d0" "order_lines_ok d0"
    using ok catalog_ok_appends [OF ok(2) a] order_entries_cong(1) [OF oe] d0 by simp_all
  have lots0: "lots d i = None" if "lots d0 i = None" for i
    using a that by (auto simp: appends_def map_le_def dom_def)
  have same: "parts d0 = parts d" "stock_entries d0 = stock_entries d"
    using a by (simp_all add: appends_def same_catalog_def)
  have by_id: "order_entry_by_id d0 = order_entry_by_id d"
    using order_entries_cong(2) [OF oe] by (simp add: order_entry_by_id_def fun_eq_iff)
  have rof: "received_of d0 = received_of d" using oe by (simp add: received_of_def fun_eq_iff)
  have tot: "total_for_part d0 = total_for_part d"
    using current_quantity_cong [OF same(2)] by (simp add: total_for_part_def fun_eq_iff)
  have nn: "\<forall>l \<in> set (ri_lines payload). 0 \<le> rl_quantity l" using pos by force
  from receive_loop_effect [OF ok0 nn loop] obtain xs rows where
    r: "ledger_ok d1" "appends d0 d1 (map stored_entry rows)" "rr_lots res = xs" "rr_stock_entries res = rows"
      "length xs = length (ri_lines payload)" "length rows = length (ri_lines payload)"
    and each: "\<forall>i < length (ri_lines payload). \<exists>oe p part.
          order_entry_by_id d0 ws (o_id order) (rl_order_entry_id (ri_lines payload ! i)) = Some oe
          \<and> oe_part_id oe = Some p \<and> parts d0 p = Some part \<and> receive_serial_error on part (ri_lines payload ! i) = None
          \<and> receives ws order (ri_lines payload ! i) p (xs ! i) (rows ! i) \<and> lots d0 (lot_id (xs ! i)) = None"
    and ent: "order_entries d1 = map (with_received user (ri_lines payload)) (order_entries d0)" "order_lines_ok d1"
    and bal: "\<forall>p. received_of d1 p - received_of d0 p = total_for_part d1 ws p On_hand - total_for_part d0 ws p On_hand"
    by auto
  have d1: "order_entries d' = order_entries d1" "stock_entries d' = stock_entries d1" by (simp_all add: d')
  have "ledger_ok d'" using r(1) ledger_ok_cong [of d' d1] by (simp add: d')
  moreover have "appends d d' (map stored_entry rows)"
    using appends_trans [OF a r(2)] by (simp add: d' appends_def same_catalog_def)
  moreover have "order_lines_ok d'" using order_entries_cong(1) [OF d1(1)] ent(2) by simp
  moreover have "received_of d' = received_of d1" using d1 by (simp add: received_of_def fun_eq_iff)
  moreover have "total_for_part d' = total_for_part d1"
    using current_quantity_cong [OF d1(2)] by (simp add: total_for_part_def fun_eq_iff)
  moreover have "order_entries d' = map (with_received user (ri_lines payload)) (order_entries d)"
    using d1 ent(1) oe by simp
  ultimately show ?thesis
    using r(3-6) each bal lots0 on unfolding by_id same rof tot by auto
qed

section \<open>Properties\<close>

text \<open>
  C5: the order book and the ledger agree. A successful receipt raises every part's on-hand
  total by exactly what it adds to the received quantities of that part's order lines; each
  line of the receipt counts toward its own order line and no other, no order line ends up
  received beyond what was ordered, and no balance becomes negative.
\<close>

theorem receive_agrees_with_the_ledger:
  assumes "ledger_ok d" "catalog_ok d" "order_lines_ok d"
    and "\<forall>l \<in> set (ri_lines payload). 0 < rl_quantity l"
    and "receive ws user order payload d = Inr (res, d')"
  shows "ledger_ok d' \<and> order_lines_ok d'
     \<and> order_entries d' = map (with_received user (ri_lines payload)) (order_entries d)
     \<and> (\<forall>p. total_for_part d' ws p On_hand
          = total_for_part d ws p On_hand + (received_of d' p - received_of d p))"
  using receive_effect [OF assms] by (simp add: algebra_simps)

text \<open>
  every line of a receipt gets a new lot of the received part and one ledger row that
  carries the order, the order line, the lot and the location it names; a serialized part
  under serial tracking comes one unit per line with a serial number that is not blank.
\<close>

theorem receive_makes_a_lot_per_line:
  assumes "ledger_ok d" "catalog_ok d" "order_lines_ok d"
    and "\<forall>l \<in> set (ri_lines payload). 0 < rl_quantity l"
    and "receive ws user order payload d = Inr (res, d')" and "i < length (ri_lines payload)"
  shows "\<exists>oe p part s. order_entry_by_id d ws (o_id order) (rl_order_entry_id (ri_lines payload ! i)) = Some oe
     \<and> oe_part_id oe = Some p \<and> parts d p = Some part
     \<and> receives ws order (ri_lines payload ! i) p (rr_lots res ! i) (rr_stock_entries res ! i)
     \<and> lots d (lot_id (rr_lots res ! i)) = None
     \<and> stored_entry (rr_stock_entries res ! i) \<in> set (stock_entries d')
     \<and> (\<forall>w. workspaces d ws = Some w \<longrightarrow> ws_serial_tracking_enabled w \<longrightarrow> p_serialized part \<longrightarrow>
          rl_quantity (ri_lines payload ! i) = 1 \<and> rl_serial_number (ri_lines payload ! i) = Some s \<and> strip s \<noteq> [])"
proof -
  let ?l = "ri_lines payload ! i"
  note eff = receive_effect [OF assms(1-5)]
  from eff assms(6) obtain oe p part where e:
    "order_entry_by_id d ws (o_id order) (rl_order_entry_id ?l) = Some oe" "oe_part_id oe = Some p" "parts d p = Some part"
    and ser: "receive_serial_error (case workspaces d ws of None \<Rightarrow> False | Some w \<Rightarrow> ws_serial_tracking_enabled w) part ?l = None"
    and r: "receives ws order ?l p (rr_lots res ! i) (rr_stock_entries res ! i)" "lots d (lot_id (rr_lots res ! i)) = None"
    by blast
  have "stored_entry (rr_stock_entries res ! i) \<in> set (stock_entries d')"
    using eff assms(6) by (auto simp: appends_def)
  moreover have "rl_quantity ?l = 1 \<and> rl_serial_number ?l = Some (the (rl_serial_number ?l)) \<and> strip (the (rl_serial_number ?l)) \<noteq> []"
    if "workspaces d ws = Some w" "ws_serial_tracking_enabled w" "p_serialized part" for w
    using ser that by (cases "rl_serial_number ?l") (auto simp: receive_serial_error_def strip_def split: if_split_asm)
  ultimately show ?thesis using e r by blast
qed

lemma order_status_cases:
  assumes "\<forall>e \<in> set es. order_line_ok e" and "e \<in> set es" "0 < oe_quantity_ordered e"
  shows "order_status_of es = Received \<longleftrightarrow> (\<forall>e \<in> set es. oe_quantity_received e = oe_quantity_ordered e)"
    and "order_status_of es = Open \<longleftrightarrow> (\<forall>e \<in> set es. oe_quantity_received e = 0)"
    and "order_status_of es \<in> {Open, Partial, Received}"
proof -
  let ?t = "sum_list (map oe_quantity_ordered es)" and ?r = "sum_list (map oe_quantity_received es)"
  have le: "\<forall>e \<in> set es. 0 \<le> oe_quantity_received e \<and> oe_quantity_received e \<le> oe_quantity_ordered e"
    using assms(1) by (simp add: order_line_ok_def)
  have zero: "?r = 0 \<longleftrightarrow> (\<forall>e \<in> set es. oe_quantity_received e = 0)"
    using le by (subst sum_list_nonneg_eq_0_iff) auto
  have "?r \<le> ?t" using le by (intro sum_list_mono) auto
  have "?t - ?r = sum_list (map (\<lambda>e. oe_quantity_ordered e - oe_quantity_received e) es)"
    by (simp add: sum_list_subtractf)
  moreover have "\<dots> = 0 \<longleftrightarrow> (\<forall>e \<in> set es. oe_quantity_ordered e - oe_quantity_received e = 0)"
    using le by (subst sum_list_nonneg_eq_0_iff) auto
  ultimately have full: "?r = ?t \<longleftrightarrow> (\<forall>e \<in> set es. oe_quantity_received e = oe_quantity_ordered e)"
    by (simp add: eq_commute [of ?r])  (metis eq_iff_diff_eq_0)
  have some: "\<not> (?r = 0 \<and> (\<forall>e \<in> set es. oe_quantity_received e = oe_quantity_ordered e))"
    using zero assms(2,3) by force
  have ne: "es \<noteq> []" using assms(2) by auto
  have st: "order_status_of es = (if ?r = 0 then Open else if ?r < ?t then Partial else Received)"
    using ne by (simp add: order_status_of_def Let_def)
  show "order_status_of es = Received \<longleftrightarrow> (\<forall>e \<in> set es. oe_quantity_received e = oe_quantity_ordered e)"
    using some full \<open>?r \<le> ?t\<close> unfolding st by (auto simp del: sum_list_eq_0_iff split: if_splits)
  show "order_status_of es = Open \<longleftrightarrow> (\<forall>e \<in> set es. oe_quantity_received e = 0)"
    using zero unfolding st by (auto split: if_splits)
  show "order_status_of es \<in> {Open, Partial, Received}" unfolding st by simp
qed

text \<open>
  C39: the status a receipt leaves on an order is the truth about its lines: received exactly
  when every line has arrived in full, open exactly when none has arrived at all, partial
  otherwise; the receipt date is set when the order is complete, and a cancelled order is
  never touched.
\<close>

theorem receive_status_is_the_truth:
  assumes "ledger_ok d" "catalog_ok d" "order_lines_ok d"
    and "\<forall>l \<in> set (ri_lines payload). 0 < rl_quantity l"
    and rec: "receive ws user order payload d = Inr (res, d')"
    and ordered: "e \<in> set (entries_of_order d ws (o_id order))" "0 < oe_quantity_ordered e"
  shows "o_status order \<noteq> Order_cancelled
     \<and> (\<exists>o'. orders d' (o_id order) = Some o' \<and> o_status o' = rr_status res
          \<and> (rr_status res = Received \<longrightarrow> o_received_on o' \<noteq> None))
     \<and> (rr_status res = Received \<longleftrightarrow>
          (\<forall>e \<in> set (entries_of_order d' ws (o_id order)). oe_quantity_received e = oe_quantity_ordered e))
     \<and> (rr_status res = Open \<longleftrightarrow>
          (\<forall>e \<in> set (entries_of_order d' ws (o_id order)). oe_quantity_received e = 0))
     \<and> rr_status res \<in> {Open, Partial, Received}"
proof -
  from receive_Inr [OF rec] obtain d0 on d1 where
    nc: "o_status order \<noteq> Order_cancelled"
    and "d0 = lock_parts_for_stock_write ws (List.map_filter oe_part_id (entries_of_order d ws (o_id order))) d"
    and "on = (case workspaces d ws of None \<Rightarrow> False | Some w \<Rightarrow> ws_serial_tracking_enabled w)"
    and "foldr_r (receive_line ws user order (clock d0) on) (ri_lines payload) (d0, [], [])
       = Inr (d1, rr_lots res, rr_stock_entries res)"
    and st: "rr_status res = order_status_of (entries_of_order d1 ws (o_id order))"
    and d': "d' = d1\<lparr>orders := (orders d1)(o_id order \<mapsto>
        received_order user (ri_received_on payload) (clock d0) (rr_status res) order)\<rparr>" .
  note eff = receive_effect [OF assms(1-5)]
  have same: "entries_of_order d1 = entries_of_order d'" by (rule order_entries_cong) (simp add: d')
  have ok: "\<forall>e \<in> set (entries_of_order d' ws (o_id order)). order_line_ok e"
    using eff by (auto simp: entries_of_order_def order_lines_ok_def)
  have mem: "with_received user (ri_lines payload) e \<in> set (entries_of_order d' ws (o_id order))"
    using ordered(1) eff by (auto simp: entries_of_order_def)
  have pos: "0 < oe_quantity_ordered (with_received user (ri_lines payload) e)" using ordered(2) by simp
  have "\<exists>o'. orders d' (o_id order) = Some o' \<and> o_status o' = rr_status res
          \<and> (rr_status res = Received \<longrightarrow> o_received_on o' \<noteq> None)"
    by (auto simp: d' received_order_def split: option.split)
  moreover have "rr_status res = order_status_of (entries_of_order d' ws (o_id order))" by (simp only: st same)
  ultimately show ?thesis using nc order_status_cases [OF ok mem pos] by (metis (no_types))
qed

definition demo_order :: order where "demo_order = the (orders demo 70)"

definition demo_receipt :: receive_in where
  "demo_receipt = \<lparr>ri_received_on = None, ri_lines = [\<lparr>rl_order_entry_id = 71, rl_quantity = 30,
     rl_storage_location_id = Some 21, rl_lot_name = None, rl_serial_number = None\<rparr>]\<rparr>"

lemma demo_order_lines_ok: "order_lines_ok demo"
  by code_simp

lemma demo_receive:
  obtains res d' where "receive 1 None demo_order demo_receipt demo = Inr (res, d')"
proof -
  have "\<not> isl (receive 1 None demo_order demo_receipt demo)" by code_simp
  then show thesis using that by (cases "receive 1 None demo_order demo_receipt demo") auto
qed

lemma demo_receipt_pos: "\<forall>l \<in> set (ri_lines demo_receipt). 0 < rl_quantity l"
  by (simp add: demo_receipt_def)

lemma receive_agrees_with_the_ledger_witness:
  "\<exists>res d'. receive 1 None demo_order demo_receipt demo = Inr (res, d') \<and> total_for_part d' 1 10 On_hand = 180"
proof -
  obtain res d' where r: "receive 1 None demo_order demo_receipt demo = Inr (res, d')" by (rule demo_receive)
  note t = receive_agrees_with_the_ledger [OF demo_ledger_ok demo_catalog_ok demo_order_lines_ok demo_receipt_pos r]
  have "sum_where oe_quantity_received (\<lambda>e. oe_part_id e = Some 10)
      (map (with_received None (ri_lines demo_receipt)) (order_entries demo)) = 30" by code_simp
  then have "received_of d' 10 = 30" using t by (simp add: received_of_def)
  moreover have "received_of demo 10 = 0" "total_for_part demo 1 10 On_hand = 150" by code_simp+
  ultimately have "total_for_part d' 1 10 On_hand = 180" using t by simp
  with r show ?thesis by blast
qed

lemma receive_makes_a_lot_per_line_witness:
  "\<exists>res d'. receive 1 None demo_order demo_receipt demo = Inr (res, d')
     \<and> (\<exists>p. receives 1 demo_order (ri_lines demo_receipt ! 0) p (rr_lots res ! 0) (rr_stock_entries res ! 0))"
proof -
  obtain res d' where r: "receive 1 None demo_order demo_receipt demo = Inr (res, d')" by (rule demo_receive)
  have "0 < length (ri_lines demo_receipt)" by (simp add: demo_receipt_def)
  from receive_makes_a_lot_per_line [OF demo_ledger_ok demo_catalog_ok demo_order_lines_ok demo_receipt_pos r this]
  show ?thesis using r by blast
qed

lemma receive_status_is_the_truth_witness:
  "\<exists>res d'. receive 1 None demo_order demo_receipt demo = Inr (res, d') \<and> rr_status res \<noteq> Order_cancelled
     \<and> (\<exists>o'. orders d' 70 = Some o' \<and> o_status o' = rr_status res)"
proof -
  obtain res d' where r: "receive 1 None demo_order demo_receipt demo = Inr (res, d')" by (rule demo_receive)
  have "demo_order_entry 71 10 30 \<in> set (entries_of_order demo 1 (o_id demo_order))"
    "0 < oe_quantity_ordered (demo_order_entry 71 10 30)" by code_simp+
  note t = receive_status_is_the_truth [OF demo_ledger_ok demo_catalog_ok demo_order_lines_ok demo_receipt_pos r this]
  have "o_id demo_order = 70" by code_simp
  with t r show ?thesis by (intro exI [of _ res] exI [of _ d']) auto
qed

section \<open>The order of the locks\<close>

text \<open>
  The part locks come first and in ascending order, the storage locks in the order the
  lines name their locations.
\<close>

definition receive_lock_program :: "uuid \<Rightarrow> uuid list \<Rightarrow> uuid option list \<Rightarrow> lock_key list" where
  "receive_lock_program ws ps stos =
     part_lock_order ws ps @ map (Storage_lock ws) (dict_keys (List.map_filter id stos))"

lemma dict_keys_snoc: "dict_keys (ks @ [k]) = (if k \<in> set ks then dict_keys ks else dict_keys ks @ [k])"
  by (simp add: dict_keys_def)

lemma receive_loop_locks:
  assumes "ledger_ok d" "catalog_ok d" and "held_locks d = part_lock_order ws ps"
    and "foldr_r (receive_line ws user order now on) lines (d, ls, es) = Inr (d', ls', es')"
  shows "ledger_ok d' \<and> catalog_ok d' \<and> held_locks d' = receive_lock_program ws ps (map rl_storage_location_id lines)"
  using assms(4)
proof (induction lines arbitrary: d' ls' es' rule: rev_induct)
  case Nil
  with assms show ?case by (simp add: receive_lock_program_def List.map_filter_def)
next
  case (snoc l lines)
  from snoc.prems obtain d1 ls1 es1 where
    one: "foldr_r (receive_line ws user order now on) lines (d, ls, es) = Inr (d1, ls1, es1)"
    and step: "receive_line ws user order now on l (d1, ls1, es1) = Inr (d', ls', es')"
    by (auto simp: foldr_r_append bindr_Inr)
  from snoc.IH [OF one] have ih: "ledger_ok d1" "catalog_ok d1"
    "held_locks d1 = receive_lock_program ws ps (map rl_storage_location_id lines)" by simp_all
  from receive_line_effect [OF ih(1,2) step] obtain row where
    e: "ledger_ok d'" "appends d1 d' [stored_entry row]"
    "held_locks d' = held_locks (case rl_storage_location_id l of None \<Rightarrow> d1
        | Some i \<Rightarrow> lock_for_storage_constraint ws i d1)" by metis
  have "held_locks d' = receive_lock_program ws ps (map rl_storage_location_id (lines @ [l]))"
  proof (cases "rl_storage_location_id l")
    case None
    with e ih show ?thesis by (simp add: receive_lock_program_def List.map_filter_def)
  next
    case (Some i)
    have "Storage_lock ws i \<in> set (held_locks d1) \<longleftrightarrow> i \<in> set (List.map_filter id (map rl_storage_location_id lines))"
      by (auto simp: ih receive_lock_program_def part_lock_order_def)
    with Some e ih show ?thesis
      by (simp add: receive_lock_program_def lock_for_storage_constraint_def acquire_def List.map_filter_def dict_keys_snoc)
  qed
  with e(1) catalog_ok_appends [OF ih(2) e(2)] show ?case by simp
qed

text \<open>What a receipt of a fresh transaction holds is its lock program.\<close>

lemma receive_locks:
  assumes "ledger_ok d" "catalog_ok d" and "held_locks d = []"
    and "receive ws user order payload d = Inr (res, d')"
  shows "held_locks d' = receive_lock_program ws
     (List.map_filter oe_part_id (entries_of_order d ws (o_id order))) (map rl_storage_location_id (ri_lines payload))"
proof -
  let ?ps = "List.map_filter oe_part_id (entries_of_order d ws (o_id order))"
  from receive_Inr [OF assms(4)] obtain d0 on d1 where
    "o_status order \<noteq> Order_cancelled"
    and d0: "d0 = lock_parts_for_stock_write ws ?ps d"
    and "on = (case workspaces d ws of None \<Rightarrow> False | Some w \<Rightarrow> ws_serial_tracking_enabled w)"
    and loop: "foldr_r (receive_line ws user order (clock d0) on) (ri_lines payload) (d0, [], [])
       = Inr (d1, rr_lots res, rr_stock_entries res)"
    and "rr_status res = order_status_of (entries_of_order d1 ws (o_id order))"
    and d': "d' = d1\<lparr>orders := (orders d1)(o_id order \<mapsto>
        received_order user (ri_received_on payload) (clock d0) (rr_status res) order)\<rparr>" .
  have "appends d d0 []" using lock_parts_frame(1) d0 by simp
  then have "ledger_ok d0" "catalog_ok d0" "held_locks d0 = part_lock_order ws ?ps"
    using assms catalog_ok_appends lock_parts_order [OF assms(3)] by (simp_all add: d0) 
  from receive_loop_locks [OF this loop] show ?thesis by (simp add: d')
qed

text \<open>
  Two orders of different parts, received at the same time onto the same two shelves in
  opposite order.
\<close>

definition demo_two_orders :: db where
  "demo_two_orders = demo\<lparr>orders := [70 \<mapsto> demo_order, 73 \<mapsto> demo_order\<lparr>o_id := 73\<rparr>],
     order_entries := [demo_order_entry 71 10 30, (demo_order_entry 74 11 5)\<lparr>oe_order_id := 73\<rparr>]\<rparr>"

definition one_unit :: "uuid \<Rightarrow> uuid \<Rightarrow> receive_line_in" where
  "one_unit i sto = \<lparr>rl_order_entry_id = i, rl_quantity = 1, rl_storage_location_id = Some sto,
     rl_lot_name = None, rl_serial_number = None\<rparr>"

lemma two_shelves_deadlock:
  assumes "p \<noteq> q" "a \<noteq> b"
  shows "\<exists>s. lock_reachable (\<lambda>t :: nat. if t = 0 then [Part_lock ws p, Storage_lock ws a, Storage_lock ws b]
      else if t = 1 then [Part_lock ws q, Storage_lock ws b, Storage_lock ws a] else []) s \<and> deadlocked s"
proof -
  define t0 where "t0 = (\<lambda>t :: nat. if t = 0 then [Part_lock ws p, Storage_lock ws a, Storage_lock ws b]
      else if t = 1 then [Part_lock ws q, Storage_lock ws b, Storage_lock ws a] else [])"
  define h1 :: "nat \<Rightarrow> lock_key set" and t1 where "h1 = (\<lambda>_. {})(0 := {Part_lock ws p})" and "t1 = t0(0 := [Storage_lock ws a, Storage_lock ws b])"
  define h2 t2 where "h2 = h1(0 := {Storage_lock ws a, Part_lock ws p})" and "t2 = t1(0 := [Storage_lock ws b])"
  define h3 t3 where "h3 = h2(1 := {Part_lock ws q})" and "t3 = t2(1 := [Storage_lock ws b, Storage_lock ws a])"
  define h4 t4 where "h4 = h3(1 := {Storage_lock ws b, Part_lock ws q})" and "t4 = t3(1 := [Storage_lock ws a])"
  have s1: "lock_step (\<lambda>_. {}, t0) (h1, t1)"
    using lock_step.grant [of t0 0 "Part_lock ws p" "[Storage_lock ws a, Storage_lock ws b]" "\<lambda>_. {}"]
    by (simp add: h1_def t1_def) (simp add: t0_def)
  have s2: "lock_step (h1, t1) (h2, t2)"
    using lock_step.grant [of t1 0 "Storage_lock ws a" "[Storage_lock ws b]" h1]
    by (simp add: h2_def t2_def) (simp add: h1_def t1_def)
  have s3: "lock_step (h2, t2) (h3, t3)"
    using lock_step.grant [of t2 1 "Part_lock ws q" "[Storage_lock ws b, Storage_lock ws a]" h2] assms(1)
    by (simp add: h3_def t3_def) (simp add: h2_def h1_def t2_def t1_def t0_def)
  have s4: "lock_step (h3, t3) (h4, t4)"
    using lock_step.grant [of t3 1 "Storage_lock ws b" "[Storage_lock ws a]" h3] assms(2)
    by (simp add: h4_def t4_def) (simp add: h3_def h2_def h1_def t3_def)
  have "lock_reachable t0 (h4, t4)"
    by (rule lock_reachable.step [OF lock_reachable.step [OF lock_reachable.step [OF lock_reachable.step
          [OF lock_reachable.start s1] s2] s3] s4])
  moreover have "\<not> finished (h4, t4)" by (auto simp: finished_def h4_def)
  moreover have "\<nexists>s'. lock_step (h4, t4) s'"
    using assms by (auto elim!: lock_stepE split: if_split_asm
        simp: h4_def t4_def h3_def t3_def h2_def t2_def h1_def t1_def t0_def)
  ultimately show ?thesis unfolding deadlocked_def t0_def by blast
qed

text \<open>
  two receipts can deadlock. Each of these two succeeds on its own, and the locks the
  two take, in the order they take them, admit an interleaving in which each waits for a
  storage lock the other holds: \<open>receive\<close> takes the storage locks in the order of its lines,
  not in ascending order.
\<close>

theorem receipts_can_deadlock:
  "\<exists>pl1 pl2 r1 r2 d1 d2 s.
     receive 1 None (the (orders demo_two_orders 70)) pl1 demo_two_orders = Inr (r1, d1)
     \<and> receive 1 None (the (orders demo_two_orders 73)) pl2 demo_two_orders = Inr (r2, d2)
     \<and> lock_reachable (\<lambda>t :: nat. if t = 0 then held_locks d1 else if t = 1 then held_locks d2 else []) s
     \<and> deadlocked s"
proof -
  let ?o1 = "the (orders demo_two_orders 70)" and ?o2 = "the (orders demo_two_orders 73)"
  let ?p1 = "\<lparr>ri_received_on = None, ri_lines = [one_unit 71 20, one_unit 71 21]\<rparr>"
  let ?p2 = "\<lparr>ri_received_on = None, ri_lines = [one_unit 74 21, one_unit 74 20]\<rparr>"
  have ok: "ledger_ok demo_two_orders" "catalog_ok demo_two_orders" "held_locks demo_two_orders = []"
    using demo_ledger_ok demo_catalog_ok ledger_ok_cong [of demo_two_orders demo] catalog_ok_cong [of demo_two_orders demo]
    by (simp_all add: demo_two_orders_def demo_def empty_db_def)
  have "\<not> isl (receive 1 None ?o1 ?p1 demo_two_orders)" by code_simp
  then obtain r1 d1 where r1: "receive 1 None ?o1 ?p1 demo_two_orders = Inr (r1, d1)"
    by (cases "receive 1 None ?o1 ?p1 demo_two_orders") auto
  have "\<not> isl (receive 1 None ?o2 ?p2 demo_two_orders)" by code_simp
  then obtain r2 d2 where r2: "receive 1 None ?o2 ?p2 demo_two_orders = Inr (r2, d2)"
    by (cases "receive 1 None ?o2 ?p2 demo_two_orders") auto
  have "receive_lock_program 1 (List.map_filter oe_part_id (entries_of_order demo_two_orders 1 (o_id ?o1)))
      (map rl_storage_location_id (ri_lines ?p1)) = [Part_lock 1 10, Storage_lock 1 20, Storage_lock 1 21]"
    by code_simp
  then have h1: "held_locks d1 = [Part_lock 1 10, Storage_lock 1 20, Storage_lock 1 21]"
    by (simp only: receive_locks [OF ok r1])
  have "receive_lock_program 1 (List.map_filter oe_part_id (entries_of_order demo_two_orders 1 (o_id ?o2)))
      (map rl_storage_location_id (ri_lines ?p2)) = [Part_lock 1 11, Storage_lock 1 21, Storage_lock 1 20]"
    by code_simp
  then have h2: "held_locks d2 = [Part_lock 1 11, Storage_lock 1 21, Storage_lock 1 20]"
    by (simp only: receive_locks [OF ok r2])
  have "(10 :: uuid) \<noteq> 11" "(20 :: uuid) \<noteq> 21" by simp_all
  from two_shelves_deadlock [OF this, of 1] obtain s where
    "lock_reachable (\<lambda>t :: nat. if t = 0 then held_locks d1 else if t = 1 then held_locks d2 else []) s" "deadlocked s"
    unfolding h1 h2 by blast
  with r1 r2 show ?thesis by blast
qed

end
