(* ===== verification/OrderRoutes.thy ===== *)
theory OrderRoutes
  imports BuildRoutes Orders
begin

text \<open>
  \<open>backend/app/api/routes/orders.py\<close>: creating, editing and receiving orders. As in
  \<open>BuildRoutes\<close>, a PATCH field is \<open>None\<close> when absent and \<open>Some None\<close> when it is an
  explicit \<open>null\<close>, and the caller's role check is the argument \<open>allowed\<close>. Columns the
  services never read (supplier, comments, the free-text name of a line, the planned
  dates) are left out.
\<close>

section \<open>Looking rows up\<close>

definition get_order :: "db \<Rightarrow> uuid \<Rightarrow> uuid \<Rightarrow> error + order" where
  "get_order d ws oid = (case orders d oid of
     Some o' \<Rightarrow> if o_workspace_id o' = ws then Inr o' else Inl (HttpError (Not_found R_order))
   | None \<Rightarrow> Inl (HttpError (Not_found R_order)))"

text \<open>\<open>assert_child_in_parent\<close>: the entry is in the parent order and its workspace.\<close>

definition get_order_entry :: "db \<Rightarrow> order \<Rightarrow> uuid \<Rightarrow> error + order_entry" where
  "get_order_entry d order i =
     (case order_entry_by_id d (o_workspace_id order) (o_id order) i of
        None \<Rightarrow> Inl (HttpError (Not_found R_order_entry)) | Some e \<Rightarrow> Inr e)"

definition assert_part_live :: "db \<Rightarrow> uuid \<Rightarrow> uuid option \<Rightarrow> error + unit" where
  "assert_part_live d ws pid = (case pid of None \<Rightarrow> Inr ()
     | Some p \<Rightarrow> (case belonging_part d ws p of
           None \<Rightarrow> Inl (HttpError (Not_found R_part))
         | Some part \<Rightarrow> if p_archived_at part \<noteq> None then Inl (HttpError (Not_found R_part)) else Inr ()))"

section \<open>The routes\<close>

record order_entry_in =
  oei_part_id :: "uuid option"
  oei_quantity_ordered :: int
  oei_unit_price :: "rat option"
  oei_currency :: "string option"

record order_create_in =
  oci_name :: string
  oci_currency :: "string option"
  oci_entries :: "order_entry_in list"

record order_patch_in =
  opi_name :: "string option option"
  opi_status :: "order_status option option"
  opi_received_on :: "nat option option"
  opi_currency :: "string option option"

record order_entry_patch =
  oep_part_id :: "uuid option option"
  oep_quantity_ordered :: "int option option"
  oep_unit_price :: "rat option option"
  oep_currency :: "string option option"

text \<open>The columns of an order line that can refuse a value, and what they store.\<close>

definition order_entry_fits :: "order_entry \<Rightarrow> bool" where
  "order_entry_fits e \<longleftrightarrow> fits_18_6 (oe_quantity_ordered e) \<and> opt_ok fits_18_6 (oe_unit_price e)
     \<and> opt_ok (fits_varchar 3) (oe_currency e)"

definition stored_order_entry :: "order_entry \<Rightarrow> order_entry" where
  "stored_order_entry e = e\<lparr>oe_quantity_ordered := round_6 (oe_quantity_ordered e),
     oe_unit_price := map_option round_6 (oe_unit_price e)\<rparr>"

definition insert_order_entry ::
    "uuid \<Rightarrow> uuid option \<Rightarrow> order \<Rightarrow> nat \<Rightarrow> order_entry_in \<Rightarrow> db \<Rightarrow> error + order_entry \<times> db" where
  "insert_order_entry ws user order idx ein d =
     (let (i, d1) = new_uuid d;
          e = \<lparr>oe_id = i, oe_workspace_id = ws, oe_order_id = o_id order, oe_part_id = oei_part_id ein,
               oe_quantity_ordered = of_int (oei_quantity_ordered ein), oe_quantity_received = 0,
               oe_unit_price = oei_unit_price ein, oe_currency = oei_currency ein, oe_order_index = idx,
               oe_updated_by = user\<rparr> in
      if \<not> order_entry_fits e then Inl (DbError Data_error)
      else if oe_quantity_ordered e < 0 then Inl (DbError Check_violation)
      else Inr (stored_order_entry e, d1\<lparr>order_entries := order_entries d1 @ [stored_order_entry e]\<rparr>))"

definition insert_order :: "uuid \<Rightarrow> uuid option \<Rightarrow> order_create_in \<Rightarrow> db \<Rightarrow> error + order \<times> db" where
  "insert_order ws user payload d =
     (if \<not> fits_varchar 200 (oci_name payload) \<or> \<not> opt_ok (fits_varchar 3) (oci_currency payload)
      then Inl (DbError Data_error)
      else let (i, d1) = new_uuid d;
               order = \<lparr>o_id = i, o_workspace_id = ws, o_name = oci_name payload,
                        o_status = (if oci_entries payload = [] then Draft else Open), o_received_on = None,
                        o_currency = oci_currency payload, o_archived_at = None, o_updated_by = user\<rparr>
      in Inr (order, d1\<lparr>orders := (orders d1)(i \<mapsto> order)\<rparr>))"

definition create_order :: "uuid \<Rightarrow> uuid option \<Rightarrow> order_create_in \<Rightarrow> db \<Rightarrow> error + order \<times> db" where
  "create_order ws user payload d =
     bindr (insert_order ws user payload d) (\<lambda>(order, d1).
     bindr (foldr_r (\<lambda>(idx, ein) d2.
              bindr (assert_part_live d2 ws (oei_part_id ein)) (\<lambda>_.
              bindr (insert_order_entry ws user order idx ein d2) (\<lambda>(_, d3). Inr d3)))
            (List.enumerate 0 (oci_entries payload)) d1) (\<lambda>d4.
     Inr (order, d4)))"

definition patched :: "'a option option \<Rightarrow> 'a \<Rightarrow> 'a" where
  "patched f old = (case f of Some (Some x) \<Rightarrow> x | _ \<Rightarrow> old)"

definition patched_null :: "'a option option \<Rightarrow> 'a option \<Rightarrow> 'a option" where
  "patched_null f old = (case f of Some x \<Rightarrow> x | None \<Rightarrow> old)"

definition patch_order :: "uuid \<Rightarrow> uuid option \<Rightarrow> uuid \<Rightarrow> order_patch_in \<Rightarrow> db \<Rightarrow> error + order \<times> db" where
  "patch_order ws user oid payload d =
     bindr (get_order d ws oid) (\<lambda>order.
     if \<not> fits_varchar 200 (patched (opi_name payload) (o_name order))
        \<or> \<not> opt_ok (fits_varchar 3) (patched_null (opi_currency payload) (o_currency order))
     then Inl (DbError Data_error)
     else if opi_name payload = Some None \<or> opi_status payload = Some None then Inl (DbError Not_null)
     else let order' = order\<lparr>o_name := patched (opi_name payload) (o_name order),
                o_status := patched (opi_status payload) (o_status order),
                o_received_on := patched_null (opi_received_on payload) (o_received_on order),
                o_currency := patched_null (opi_currency payload) (o_currency order),
                o_updated_by := user\<rparr>
     in Inr (order', d\<lparr>orders := (orders d)(o_id order \<mapsto> order')\<rparr>))"

definition set_order_archived :: "uuid \<Rightarrow> bool \<Rightarrow> uuid \<Rightarrow> nat option \<Rightarrow> db \<Rightarrow> error + db" where
  "set_order_archived ws allowed oid t d =
     bindr (get_order d ws oid) (\<lambda>order.
     if \<not> allowed then Inl (HttpError Forbidden)
     else Inr (d\<lparr>orders := (orders d)(o_id order \<mapsto> order\<lparr>o_archived_at := t\<rparr>)\<rparr>))"

definition archive_order :: "uuid \<Rightarrow> bool \<Rightarrow> uuid \<Rightarrow> db \<Rightarrow> error + db" where
  "archive_order ws allowed oid d = set_order_archived ws allowed oid (Some (clock d)) d"

definition restore_order :: "uuid \<Rightarrow> bool \<Rightarrow> uuid \<Rightarrow> db \<Rightarrow> error + db" where
  "restore_order ws allowed oid d = set_order_archived ws allowed oid None d"

text \<open>
  \<open>(\<dots> ORDER BY order_index DESC LIMIT 1 \<dots>.scalar() or -1) + 1\<close>: both no row and the
  index 0 are false in Python.
\<close>

definition next_order_index :: "order_entry list \<Rightarrow> nat" where
  "next_order_index es =
     (let scalar = (if es = [] then None else Some (Max (oe_order_index ` set es))) in
      case scalar of None \<Rightarrow> 0 | Some n \<Rightarrow> if n = 0 then 0 else n + 1)"

definition add_order_entry ::
    "uuid \<Rightarrow> uuid option \<Rightarrow> uuid \<Rightarrow> order_entry_in \<Rightarrow> db \<Rightarrow> error + order_entry \<times> db" where
  "add_order_entry ws user oid payload d =
     bindr (get_order d ws oid) (\<lambda>order.
     bindr (assert_part_live d ws (oei_part_id payload)) (\<lambda>_.
     bindr (insert_order_entry ws user order (next_order_index (entries_of_order d ws (o_id order))) payload d)
       (\<lambda>(e, d1).
     Inr (e, if o_status order = Draft then d1\<lparr>orders := (orders d1)(o_id order \<mapsto> order\<lparr>o_status := Open\<rparr>)\<rparr> else d1))))"

definition update_order_entry :: "order_entry \<Rightarrow> db \<Rightarrow> db" where
  "update_order_entry e' d = d\<lparr>order_entries := map (\<lambda>e. if oe_id e = oe_id e' then e' else e) (order_entries d)\<rparr>"

definition patched_order_entry :: "uuid option \<Rightarrow> order_entry_patch \<Rightarrow> order_entry \<Rightarrow> order_entry" where
  "patched_order_entry user payload e = e\<lparr>
     oe_part_id := patched_null (oep_part_id payload) (oe_part_id e),
     oe_quantity_ordered :=
       patched (map_option (map_option of_int) (oep_quantity_ordered payload)) (oe_quantity_ordered e),
     oe_unit_price := patched_null (oep_unit_price payload) (oe_unit_price e),
     oe_currency := patched_null (oep_currency payload) (oe_currency e),
     oe_updated_by := user\<rparr>"

definition patch_order_entry ::
    "uuid \<Rightarrow> uuid option \<Rightarrow> uuid \<Rightarrow> uuid \<Rightarrow> order_entry_patch \<Rightarrow> db \<Rightarrow> error + order_entry \<times> db" where
  "patch_order_entry ws user oid eid payload d =
     bindr (get_order d ws oid) (\<lambda>order.
     bindr (get_order_entry d order eid) (\<lambda>e.
     bindr (case oep_part_id payload of None \<Rightarrow> Inr () | Some p \<Rightarrow> assert_part_live d ws p) (\<lambda>_.
     if (case oep_quantity_ordered payload of Some (Some q) \<Rightarrow> of_int q < oe_quantity_received e | _ \<Rightarrow> False)
     then Inl (HttpError Ordered_below_received)
     else let e' = patched_order_entry user payload e in
     if \<not> order_entry_fits e' then Inl (DbError Data_error)
     else if oep_quantity_ordered payload = Some None then Inl (DbError Not_null)
     else if oe_quantity_ordered e' < 0 then Inl (DbError Check_violation)
     else Inr (stored_order_entry e', update_order_entry (stored_order_entry e') d))))"

definition del_order_entry :: "uuid \<Rightarrow> uuid \<Rightarrow> uuid \<Rightarrow> db \<Rightarrow> error + db" where
  "del_order_entry ws oid eid d =
     bindr (get_order d ws oid) (\<lambda>order.
     bindr (get_order_entry d order eid) (\<lambda>e.
     if 0 < oe_quantity_received e then Inl (HttpError Delete_received_entry)
     else Inr (d\<lparr>order_entries := filter (\<lambda>x. oe_id x \<noteq> oe_id e) (order_entries d)\<rparr>)))"

definition receive_order ::
    "uuid \<Rightarrow> uuid option \<Rightarrow> uuid \<Rightarrow> receive_in \<Rightarrow> db \<Rightarrow> error + receive_result \<times> db" where
  "receive_order ws user oid payload d =
     bindr (get_order d ws oid) (\<lambda>order. receive ws user order payload d)"

section \<open>The order book stays well formed\<close>

definition order_book_ok :: "db \<Rightarrow> bool" where
  "order_book_ok d \<longleftrightarrow> order_lines_ok d \<and> (\<forall>e \<in> set (order_entries d). oe_id e < next_uuid d)"

lemma get_order_Inr [simp]:
  "get_order d ws oid = Inr x \<longleftrightarrow> orders d oid = Some x \<and> o_workspace_id x = ws"
  by (auto simp: get_order_def split: option.split)

lemma get_order_entry_Inr:
  "get_order_entry d x i = Inr e \<longleftrightarrow> order_entry_by_id d (o_workspace_id x) (o_id x) i = Some e"
  by (auto simp: get_order_entry_def split: option.split)

lemma orders_frame [simp]:
  "ledger_ok (d\<lparr>orders := x\<rparr>) \<longleftrightarrow> ledger_ok d" "catalog_ok (d\<lparr>orders := x\<rparr>) \<longleftrightarrow> catalog_ok d"
  "ledger_ok (d\<lparr>order_entries := es\<rparr>) \<longleftrightarrow> ledger_ok d" "catalog_ok (d\<lparr>order_entries := es\<rparr>) \<longleftrightarrow> catalog_ok d"
  "order_book_ok (d\<lparr>orders := x\<rparr>) \<longleftrightarrow> order_book_ok d"
  using ledger_ok_cong [of "d\<lparr>orders := x\<rparr>" d] catalog_ok_cong [of "d\<lparr>orders := x\<rparr>" d]
    ledger_ok_cong [of "d\<lparr>order_entries := es\<rparr>" d] catalog_ok_cong [of "d\<lparr>order_entries := es\<rparr>" d]
  by (simp_all add: order_book_ok_def order_lines_ok_def)

lemma next_uuid_frame:
  "ledger_ok d \<Longrightarrow> ledger_ok (d\<lparr>next_uuid := Suc (next_uuid d)\<rparr>)"
  "catalog_ok (d\<lparr>next_uuid := n\<rparr>) \<longleftrightarrow> catalog_ok d"
  using ledger_ok_new_uuid catalog_ok_cong [of "d\<lparr>next_uuid := n\<rparr>" d] by simp_all

lemma fits_grid_bound: "on_grid q \<Longrightarrow> fits_18_6 q \<Longrightarrow> \<bar>q\<bar> < 10 ^ 12"
  by (simp add: fits_18_6_def round_6_grid)

lemma insert_order_entry_effect:
  assumes ok: "ledger_ok d" "catalog_ok d" "order_book_ok d" and q: "0 \<le> oei_quantity_ordered ein"
    and ins: "insert_order_entry ws user order idx ein d = Inr (e, d')"
  shows "ledger_ok d'" "catalog_ok d'" "order_book_ok d'"
    and "order_entries d' = order_entries d @ [e]" "oe_order_index e = idx" "oe_order_id e = o_id order"
    and "oe_workspace_id e = ws" "orders d' = orders d"
proof -
  from ins have e: "fits_18_6 (of_int (oei_quantity_ordered ein))" "oe_id e = next_uuid d"
    "oe_quantity_ordered e = of_int (oei_quantity_ordered ein)" "oe_quantity_received e = 0"
    "oe_order_index e = idx" "oe_order_id e = o_id order" "oe_workspace_id e = ws"
    and d': "d' = d\<lparr>next_uuid := Suc (next_uuid d), order_entries := order_entries d @ [e]\<rparr>"
    by (auto simp: insert_order_entry_def Let_def new_uuid_def order_entry_fits_def stored_order_entry_def
        split: if_split_asm)
  have "order_line_ok e"
    using e q fits_grid_bound [of "of_int (oei_quantity_ordered ein)"] by (simp add: order_line_ok_def)
  moreover have "next_uuid d \<notin> oe_id ` set (order_entries d)" using ok(3) by (force simp: order_book_ok_def)
  ultimately show "order_book_ok d'"
    using ok(3) e(2) by (auto simp: order_book_ok_def order_lines_ok_def d' less_Suc_eq)
  show "ledger_ok d'" "catalog_ok d'" using ok next_uuid_frame by (simp_all add: d')
  show "order_entries d' = order_entries d @ [e]" "orders d' = orders d" by (simp_all add: d')
  show "oe_order_index e = idx" "oe_order_id e = o_id order" "oe_workspace_id e = ws" by (rule e)+
qed

abbreviation books_ok :: "db \<Rightarrow> bool" where
  "books_ok d \<equiv> ledger_ok d \<and> catalog_ok d \<and> order_book_ok d"

lemma insert_order_books:
  assumes "books_ok d" and "insert_order ws user payload d = Inr (x, d')"
  shows "books_ok d'"
proof -
  from assms(2) have d': "d' = d\<lparr>next_uuid := Suc (next_uuid d), orders := (orders d)(o_id x \<mapsto> x)\<rparr>"
    by (auto simp: insert_order_def Let_def new_uuid_def split: if_split_asm)
  have "order_book_ok (d\<lparr>next_uuid := Suc (next_uuid d)\<rparr>)"
    using assms(1) by (auto simp: order_book_ok_def order_lines_ok_def less_Suc_eq)
  with assms(1) next_uuid_frame show ?thesis by (simp add: d')
qed

lemma create_order_books:
  assumes ok: "books_ok d" and pos: "\<forall>ein \<in> set (oci_entries payload). 0 < oei_quantity_ordered ein"
    and c: "create_order ws user payload d = Inr (x, d')"
  shows "books_ok d'"
proof -
  from c obtain d1 where i: "insert_order ws user payload d = Inr (x, d1)"
    and loop: "foldr_r (\<lambda>(idx, ein) d2.
              bindr (assert_part_live d2 ws (oei_part_id ein)) (\<lambda>_.
              bindr (insert_order_entry ws user x idx ein d2) (\<lambda>(_, d3). Inr d3)))
            (List.enumerate 0 (oci_entries payload)) d1 = Inr d'"
    by (auto simp: create_order_def bindr_Inr)
  from loop show ?thesis
  proof (rule foldr_r_invariant [where P = books_ok])
    show "books_ok d1" by (rule insert_order_books [OF ok i])
  next
    fix y s t
    assume y: "y \<in> set (List.enumerate 0 (oci_entries payload))" and s: "books_ok s"
      and step: "(\<lambda>(idx, ein) d2.
              bindr (assert_part_live d2 ws (oei_part_id ein)) (\<lambda>_.
              bindr (insert_order_entry ws user x idx ein d2) (\<lambda>(_, d3). Inr d3))) y s = Inr t"
    obtain idx ein where "y = (idx, ein)" by (cases y)
    with y step obtain e where "ein \<in> set (oci_entries payload)" "insert_order_entry ws user x idx ein s = Inr (e, t)"
      by (auto simp: bindr_Inr in_set_enumerate_eq)
    with s pos insert_order_entry_effect show "books_ok t" by (metis less_imp_le)
  qed
qed

lemma add_order_entry_effect:
  assumes ok: "books_ok d" and q: "0 < oei_quantity_ordered payload"
    and a: "add_order_entry ws user oid payload d = Inr (e, d')"
  obtains x where "books_ok d'" "orders d oid = Some x" "order_entries d' = order_entries d @ [e]"
    "oe_order_index e = next_order_index (entries_of_order d ws (o_id x))"
    "oe_order_id e = o_id x" "oe_workspace_id e = ws"
proof -
  from a obtain x d1 where x: "orders d oid = Some x"
    and i: "insert_order_entry ws user x (next_order_index (entries_of_order d ws (o_id x))) payload d = Inr (e, d1)"
    and d': "d' = (if o_status x = Draft then d1\<lparr>orders := (orders d1)(o_id x \<mapsto> x\<lparr>o_status := Open\<rparr>)\<rparr> else d1)"
    by (auto simp: add_order_entry_def bindr_Inr)
  note eff = insert_order_entry_effect [OF _ _ _ _ i]
  have "books_ok d'" using eff(1-3) ok q by (simp add: d')
  moreover have "order_entries d' = order_entries d @ [e]" using eff(4) ok q by (simp add: d')
  ultimately show thesis using that x eff(5-7) ok q by (metis less_imp_le)
qed

lemma update_order_entry_book:
  assumes ok: "order_book_ok d" and e: "e \<in> set (order_entries d)" "oe_id e' = oe_id e" "order_line_ok e'"
  shows "order_book_ok (update_order_entry e' d)"
proof -
  have "map oe_id (order_entries (update_order_entry e' d)) = map oe_id (order_entries d)"
    using e(2) by (simp add: update_order_entry_def)
  moreover have "order_line_ok y \<and> oe_id y < next_uuid d" if y: "y \<in> set (order_entries (update_order_entry e' d))" for y
    using y ok e by (auto simp: update_order_entry_def order_book_ok_def order_lines_ok_def split: if_split_asm)
  ultimately show ?thesis
    using ok by (simp add: order_book_ok_def order_lines_ok_def) (simp add: update_order_entry_def)
qed

lemma patch_order_entry_books:
  assumes ok: "books_ok d" and p: "patch_order_entry ws user oid eid payload d = Inr (e', d')"
  shows "books_ok d'"
proof -
  from p obtain x :: order and e where
    e: "order_entry_by_id d (o_workspace_id x) (o_id x) eid = Some e"
    and guard: "\<not> (case oep_quantity_ordered payload of Some (Some q) \<Rightarrow> of_int q < oe_quantity_received e | _ \<Rightarrow> False)"
    and fits: "order_entry_fits (patched_order_entry user payload e)"
    and d': "e' = stored_order_entry (patched_order_entry user payload e)" "d' = update_order_entry e' d"
    by (auto simp: patch_order_entry_def bindr_Inr get_order_entry_Inr Let_def split: if_split_asm)
  define e0 where e0: "e0 = patched_order_entry user payload e"
  note fits = fits [folded e0] and d' = d' [folded e0]
  have mem: "e \<in> set (order_entries d)" using order_entry_by_id_Some [OF e] by (simp add: entries_of_order_def)
  then have le: "order_line_ok e" using ok by (simp add: order_book_ok_def order_lines_ok_def)
  have q: "on_grid (oe_quantity_ordered e0) \<and> oe_quantity_received e \<le> oe_quantity_ordered e0"
    using le guard by (auto simp: e0 patched_order_entry_def patched_def order_line_ok_def split: option.splits)
  then have "oe_quantity_ordered e0 < 10 ^ 12"
    using fits fits_grid_bound [of "oe_quantity_ordered e0"] by (simp add: order_entry_fits_def)
  moreover have "oe_quantity_received e0 = oe_quantity_received e" "oe_id e0 = oe_id e"
    by (simp_all add: e0 patched_order_entry_def)
  ultimately have "order_line_ok e'" "oe_id e' = oe_id e"
    using le q by (simp_all add: d'(1) stored_order_entry_def order_line_ok_def round_6_grid)
  with ok update_order_entry_book [OF _ mem] show ?thesis by (simp add: d'(2)) (simp add: update_order_entry_def)
qed

lemma del_order_entry_books:
  assumes "books_ok d" and "del_order_entry ws oid eid d = Inr d'"
  shows "books_ok d'"
  using assms distinct_map_filter [of oe_id "order_entries d"]
  by (auto simp: del_order_entry_def bindr_Inr order_book_ok_def order_lines_ok_def split: if_split_asm)

lemma receive_order_books:
  assumes ok: "books_ok d" and pos: "\<forall>l \<in> set (ri_lines payload). 0 < rl_quantity l"
    and r: "receive_order ws user oid payload d = Inr (res, d')"
  shows "books_ok d'"
proof -
  from r obtain x where rec: "receive ws user x payload d = Inr (res, d')"
    by (auto simp: receive_order_def bindr_Inr)
  have eff: "ledger_ok d'" "appends d d' (map stored_entry (rr_stock_entries res))"
    "order_entries d' = map (with_received user (ri_lines payload)) (order_entries d)" "order_lines_ok d'"
    using receive_effect [OF _ _ _ pos rec] ok by (simp_all add: order_book_ok_def)
  have "catalog_ok d'" using catalog_ok_appends [OF _ eff(2)] ok by simp
  moreover have "next_uuid d \<le> next_uuid d'" using eff(2) by (simp add: appends_def)
  then have "\<forall>e \<in> set (order_entries d'). oe_id e < next_uuid d'"
    using ok by (force simp: eff(3) order_book_ok_def)
  ultimately show ?thesis using eff by (simp add: order_book_ok_def)
qed

section \<open>The orders as a state machine\<close>

text \<open>
  One request against the order book. The hypotheses on quantities are those of the request
  schemas (\<open>ge=1\<close>, \<open>gt=0\<close>).
\<close>

inductive order_step :: "db \<Rightarrow> db \<Rightarrow> bool" where
  create: "\<forall>ein \<in> set (oci_entries pl). 0 < oei_quantity_ordered ein \<Longrightarrow>
    create_order ws user pl d = Inr (x, d') \<Longrightarrow> order_step d d'"
| patch: "patch_order ws user oid opl d = Inr (x, d') \<Longrightarrow> order_step d d'"
| archive: "archive_order ws allowed oid d = Inr d' \<Longrightarrow> order_step d d'"
| restore: "restore_order ws allowed oid d = Inr d' \<Longrightarrow> order_step d d'"
| add_line: "0 < oei_quantity_ordered ein \<Longrightarrow> add_order_entry ws user oid ein d = Inr (e, d') \<Longrightarrow> order_step d d'"
| patch_line: "patch_order_entry ws user oid eid epl d = Inr (e, d') \<Longrightarrow> order_step d d'"
| del_line: "del_order_entry ws oid eid d = Inr d' \<Longrightarrow> order_step d d'"
| receipt: "\<forall>l \<in> set (ri_lines rpl). 0 < rl_quantity l \<Longrightarrow>
    receive_order ws user oid rpl d = Inr (res, d') \<Longrightarrow> order_step d d'"

inductive order_reachable :: "db \<Rightarrow> db \<Rightarrow> bool" for d0 where
  start: "order_reachable d0 d0"
| step: "order_reachable d0 d \<Longrightarrow> order_step d d' \<Longrightarrow> order_reachable d0 d'"

lemma order_step_books: "order_step d d' \<Longrightarrow> books_ok d \<Longrightarrow> books_ok d'"
proof (induction rule: order_step.induct)
  case (create pl ws user d x d')
  then show ?case using create_order_books by blast
next
  case (patch ws user oid opl d x d')
  then show ?case by (auto simp: patch_order_def bindr_Inr Let_def split: if_split_asm)
next
  case (archive ws allowed oid d d')
  then show ?case by (auto simp: archive_order_def set_order_archived_def bindr_Inr split: if_split_asm)
next
  case (restore ws allowed oid d d')
  then show ?case by (auto simp: restore_order_def set_order_archived_def bindr_Inr split: if_split_asm)
next
  case (add_line ein ws user oid d e d')
  then show ?case using add_order_entry_effect by metis
next
  case (patch_line ws user oid eid epl d e d')
  then show ?case using patch_order_entry_books by blast
next
  case (del_line ws oid eid d d')
  then show ?case using del_order_entry_books by blast
next
  case (receipt rpl ws user oid d res d')
  then show ?case using receive_order_books by blast
qed

text \<open>
  C11: whatever sequence of requests creates, edits, deletes and receives orders, no order
  line is ever received beyond what it orders, line ids stay unique, and the ledger and the
  catalog stay well formed.
\<close>

theorem order_book_invariant:
  assumes reach: "order_reachable d d'" and ok: "ledger_ok d" "catalog_ok d" "order_book_ok d"
  shows "ledger_ok d' \<and> catalog_ok d' \<and> distinct (map oe_id (order_entries d'))
     \<and> (\<forall>e \<in> set (order_entries d'). 0 \<le> oe_quantity_received e \<and> oe_quantity_received e \<le> oe_quantity_ordered e)"
proof -
  from reach have "books_ok d'"
    by induction (use ok order_step_books in auto)
  then show ?thesis by (simp add: order_book_ok_def order_lines_ok_def order_line_ok_def)
qed

lemma order_book_invariant_witness:
  "\<exists>d'. order_reachable demo d' \<and> d' \<noteq> demo
     \<and> (\<forall>e \<in> set (order_entries d'). oe_quantity_received e \<le> oe_quantity_ordered e)"
proof -
  obtain res d' where r: "receive 1 None demo_order demo_receipt demo = Inr (res, d')" by (rule demo_receive)
  have "orders demo 70 = Some demo_order" "o_workspace_id demo_order = 1"
    by (simp_all add: demo_order_def demo_def)
  then have "receive_order 1 None 70 demo_receipt demo = Inr (res, d')"
    using r by (simp add: receive_order_def get_order_def)
  then have reach: "order_reachable demo d'"
    using order_reachable.step [OF order_reachable.start order_step.receipt [OF demo_receipt_pos]] by blast
  have "order_book_ok demo"
    using demo_order_lines_ok by (simp add: order_book_ok_def demo_def demo_order_entry_def empty_db_def)
  note t = order_book_invariant [OF reach demo_ledger_ok demo_catalog_ok this]
  have "order_lines_ok demo" by (rule demo_order_lines_ok)
  from receive_effect [OF demo_ledger_ok demo_catalog_ok this demo_receipt_pos r]
  have "length (stock_entries d') = length (stock_entries demo) + length (ri_lines demo_receipt)"
    by (auto simp: appends_def)
  then have "d' \<noteq> demo" by (auto simp: demo_receipt_def)
  with reach t show ?thesis by blast
qed

text \<open>
  adding a line to an order whose lines all have index 0 (an order created with a single
  line, say) gives the new line index 0 again, and so does every line after it: the greatest
  index 0 counts as no index. The lots received against such lines are all named \<open>#1\<close>.
\<close>

theorem added_lines_repeat_index_zero:
  assumes ok: "ledger_ok d" "catalog_ok d" "order_book_ok d" and q: "0 < oei_quantity_ordered payload"
    and a: "add_order_entry ws user oid payload d = Inr (e, d')" and x: "orders d oid = Some x" "o_id x = oid"
    and zero: "\<forall>y \<in> set (entries_of_order d ws oid). oe_order_index y = 0"
  shows "oe_order_index e = 0 \<and> entries_of_order d' ws oid = entries_of_order d ws oid @ [e]
     \<and> (\<forall>y \<in> set (entries_of_order d' ws oid). oe_order_index y = 0)
     \<and> (\<forall>user part l. rl_lot_name l = None \<longrightarrow>
          lot_name (received_lot ws user x e part l) = Some (o_name x @ ''#1''))"
proof -
  have "books_ok d" using ok by simp
  from add_order_entry_effect [OF this q a] obtain x' where x': "orders d oid = Some x'"
    and app: "order_entries d' = order_entries d @ [e]"
    and idx: "oe_order_index e = next_order_index (entries_of_order d ws (o_id x'))"
    and e: "oe_order_id e = o_id x'" "oe_workspace_id e = ws" by metis
  have same: "x' = x" using x x' by simp
  let ?es = "entries_of_order d ws oid"
  have "next_order_index ?es = 0"
  proof (cases "?es = []")
    case False
    then obtain y where "y \<in> set ?es" by (meson last_in_set)
    then have "oe_order_index ` set ?es = {0}" using zero by force
    with False show ?thesis by (simp add: next_order_index_def)
  qed (simp add: next_order_index_def)
  then have i: "oe_order_index e = 0" using idx same x(2) by simp
  moreover have es': "entries_of_order d' ws oid = ?es @ [e]"
    using app e same x(2) by (simp add: entries_of_order_def)
  moreover have "lot_name (received_lot ws user x e part l) = Some (o_name x @ ''#1'')"
    if "rl_lot_name l = None" for user part l
    using that i by (simp add: received_lot_def str_or_def nat_str.simps)
  ultimately show ?thesis using zero by simp
qed

lemma added_lines_repeat_index_zero_witness:
  "\<exists>e d'. add_order_entry 1 None 70 \<lparr>oei_part_id = Some 11, oei_quantity_ordered = 4, oei_unit_price = None,
     oei_currency = None\<rparr> demo = Inr (e, d') \<and> oe_order_index e = 0 \<and> length (entries_of_order d' 1 70) = 3"
proof -
  let ?pl = "\<lparr>oei_part_id = Some 11, oei_quantity_ordered = 4, oei_unit_price = None, oei_currency = None\<rparr>"
  have "\<not> isl (add_order_entry 1 None 70 ?pl demo)" by code_simp
  then obtain e d' where r: "add_order_entry 1 None 70 ?pl demo = Inr (e, d')"
    by (cases "add_order_entry 1 None 70 ?pl demo") auto
  have o': "orders demo 70 = Some demo_order" "o_id demo_order = 70" by (simp_all add: demo_order_def demo_def)
  have b: "order_book_ok demo"
    using demo_order_lines_ok by (simp add: order_book_ok_def demo_def demo_order_entry_def empty_db_def)
  have z: "\<forall>y \<in> set (entries_of_order demo 1 70). oe_order_index y = 0" by code_simp
  have "length (entries_of_order demo 1 70) = 2" by code_simp
  with added_lines_repeat_index_zero [OF demo_ledger_ok demo_catalog_ok b _ r o' z] r show ?thesis by simp
qed

end
