(* ===== verification/Kitting.thy ===== *)
theory Kitting
  imports BuildRoutes
begin

text \<open>
  \<open>backend/app/domain/builds/kitting.py\<close>: consolidating what a build (or one stage) needs
  onto a staging location. The plan tops the location up to the requirement of every part,
  drawing from the largest buckets first; the execution writes it as moves.
\<close>

section \<open>The code\<close>

record kit_source =
  ks_storage_location_id :: "uuid option"
  ks_lot_id :: "uuid option"
  ks_quantity :: rat

record kit_line =
  kl_part_id :: uuid
  kl_part_name :: string
  kl_project_entry_ids :: "uuid list"
  kl_required :: rat
  kl_at_staging :: rat
  kl_to_move :: rat
  kl_sources :: "kit_source list"

text \<open>\<open>sum(\<dots>, Decimal(0))\<close>\<close>

definition dec_sum :: "rat list \<Rightarrow> rat" where
  "dec_sum qs = foldl dec_add 0 qs"

definition kl_moving :: "kit_line \<Rightarrow> rat" where
  "kl_moving l = dec_sum (map ks_quantity (kl_sources l))"

definition kl_short_by :: "kit_line \<Rightarrow> rat" where
  "kl_short_by l = max 0 (dec_sub (kl_to_move l) (kl_moving l))"

definition resolve_staging :: "db \<Rightarrow> uuid \<Rightarrow> uuid \<Rightarrow> error + storage_location" where
  "resolve_staging d ws i = (case belonging_storage d ws i of None \<Rightarrow> Inl (BuildError Staging_not_found)
     | Some s \<Rightarrow> if sl_archived_at s \<noteq> None then Inl (BuildError Staging_archived)
                else if sl_is_full s then Inl (BuildError Staging_full) else Inr s)"

text \<open>\<open>wanted\<close>: the quantity of each entry, of the whole build or of one stage.\<close>

definition kit_wanted :: "db \<Rightarrow> uuid \<Rightarrow> build \<Rightarrow> project \<Rightarrow> build_stage option \<Rightarrow> (uuid \<times> int) list" where
  "kit_wanted d ws b pr stage = (case stage of
     None \<Rightarrow> List.map_filter (\<lambda>e. case Option.bind (pe_part_id e) (parts d) of None \<Rightarrow> None
         | Some part \<Rightarrow> Some (pe_id e, required e (Some part) (b_quantity b))) (consumable_entries d ws pr)
   | Some s \<Rightarrow> stage_allocations d ws b pr (bs_id s))"

definition kit_quantity :: "(uuid \<times> int) list \<Rightarrow> project_entry \<Rightarrow> rat" where
  "kit_quantity wanted e = (case map_of wanted (pe_id e) of None \<Rightarrow> 0 | Some q \<Rightarrow> of_int q)"

text \<open>The entries that count, and \<open>(per_part, entry_ids)\<close> in bill-of-materials order.\<close>

definition kit_entries :: "db \<Rightarrow> uuid \<Rightarrow> build \<Rightarrow> project \<Rightarrow> build_stage option \<Rightarrow> project_entry list" where
  "kit_entries d ws b pr stage =
     filter (\<lambda>e. pe_part_id e \<noteq> None \<and> \<not> kit_quantity (kit_wanted d ws b pr stage) e \<le> 0) (consumable_entries d ws pr)"

definition required_by_part ::
    "db \<Rightarrow> uuid \<Rightarrow> build \<Rightarrow> project \<Rightarrow> build_stage option \<Rightarrow> (uuid \<times> rat \<times> uuid list) list" where
  "required_by_part d ws b pr stage =
     (let entries = kit_entries d ws b pr stage; wanted = kit_wanted d ws b pr stage in
      map (\<lambda>p. let mine = filter (\<lambda>e. pe_part_id e = Some p) entries in
               (p, dec_sum (map (kit_quantity wanted) mine), map pe_id mine))
        (dict_keys (List.map_filter pe_part_id entries)))"

fun take_sources :: "rat \<Rightarrow> ((uuid option \<times> uuid option) \<times> rat) list \<Rightarrow> kit_source list" where
  "take_sources remaining [] = []"
| "take_sources remaining (((sto, lot), available) # buckets) =
     (if remaining \<le> 0 then []
      else let t = min remaining available in
        \<lparr>ks_storage_location_id = sto, ks_lot_id = lot, ks_quantity = t\<rparr> # take_sources (dec_sub remaining t) buckets)"

text \<open>\<open>str(id or "")\<close> as a sort key: no id sorts before every id.\<close>

definition opt_rank :: "uuid option \<Rightarrow> nat" where
  "opt_rank i = (case i of None \<Rightarrow> 0 | Some n \<Rightarrow> Suc n)"

definition kit_buckets :: "db \<Rightarrow> uuid \<Rightarrow> uuid \<Rightarrow> uuid \<Rightarrow> ((uuid option \<times> uuid option) \<times> rat) list" where
  "kit_buckets d ws p staging =
     sort_key (\<lambda>b. - snd b) (sort_key (\<lambda>b. opt_rank (fst (fst b))) (sort_key (\<lambda>b. opt_rank (snd (fst b)))
       (filter (\<lambda>((sto, lot), q). sto \<noteq> Some staging \<and> 0 < q) (stock_summary_for_part d ws p On_hand))))"

definition sources_for :: "db \<Rightarrow> uuid \<Rightarrow> uuid \<Rightarrow> uuid \<Rightarrow> rat \<Rightarrow> kit_source list" where
  "sources_for d ws p staging wanted = take_sources wanted (kit_buckets d ws p staging)"

definition plan_line :: "db \<Rightarrow> uuid \<Rightarrow> uuid \<Rightarrow> uuid \<times> rat \<times> uuid list \<Rightarrow> kit_line option" where
  "plan_line d ws staging r = (case r of (p, req, ids) \<Rightarrow>
     (case belonging_part d ws p of None \<Rightarrow> None
      | Some part \<Rightarrow>
        let at_staging = current_quantity d ws p (Some staging) None On_hand False;
            to_move = max 0 (dec_sub req at_staging) in
        Some \<lparr>kl_part_id = p, kl_part_name = p_name part, kl_project_entry_ids = ids, kl_required = req,
              kl_at_staging = at_staging, kl_to_move = to_move,
              kl_sources = (if 0 < to_move then sources_for d ws p staging to_move else [])\<rparr>))"

definition plan_kit ::
    "db \<Rightarrow> uuid \<Rightarrow> build \<Rightarrow> project \<Rightarrow> build_stage option \<Rightarrow> storage_location \<Rightarrow> kit_line list" where
  "plan_kit d ws b pr stage staging =
     List.map_filter (plan_line d ws (sl_id staging)) (required_by_part d ws b pr stage)"

definition kit_move ::
    "uuid \<Rightarrow> uuid option \<Rightarrow> build \<Rightarrow> build_stage option \<Rightarrow> storage_location \<Rightarrow> kit_line \<Rightarrow> kit_source \<Rightarrow> db \<Rightarrow> error + db" where
  "kit_move ws user b stage staging l s d =
     bindr (move_quantity ws user (kl_part_id l) (ks_quantity s) (ks_storage_location_id s) (ks_lot_id s)
              (sl_id staging) (Some (''kit for build '' @ b_name b)) (Some (b_id b)) (map_option bs_id stage) d)
       (\<lambda>(_, d'). Inr d')"

definition execute_kit ::
    "uuid \<Rightarrow> uuid option \<Rightarrow> build \<Rightarrow> project \<Rightarrow> build_stage option \<Rightarrow> storage_location \<Rightarrow> db
     \<Rightarrow> error + kit_line list \<times> db" where
  "execute_kit ws user b pr stage staging d =
     (if b_archived_at b \<noteq> None then Inl (BuildError Build_archived)
      else if b_status b \<notin> {Planned, In_progress} then Inl (BuildError (Build_is (b_status b)))
      else if (case stage of None \<Rightarrow> False | Some s \<Rightarrow> bs_status s = St_complete)
      then Inl (BuildError (Stage_already_complete (bs_id (the stage))))
      else let d1 = lock_parts_for_stock_write ws (map fst (required_by_part d ws b pr stage)) d;
               lines = plan_kit d1 ws b pr stage staging in
      bindr (foldr_r (\<lambda>l. foldr_r (kit_move ws user b stage staging l) (kl_sources l)) lines d1)
        (\<lambda>d2. Inr (lines, d2)))"

text \<open>\<open>api/routes/build_kits.py\<close>: preview or execute, of a build without stages or of one stage.\<close>

definition kit_response ::
    "uuid \<Rightarrow> uuid option \<Rightarrow> build \<Rightarrow> build_stage option \<Rightarrow> uuid \<Rightarrow> bool \<Rightarrow> db \<Rightarrow> error + kit_line list \<times> db" where
  "kit_response ws user b stage sto execute d =
     bindr (get_project d ws (b_project_id b)) (\<lambda>project.
     bindr (resolve_staging d ws sto) (\<lambda>staging.
     if execute then execute_kit ws user b project stage staging d
     else Inr (plan_kit d ws b project stage staging, d)))"

definition build_kit :: "uuid \<Rightarrow> uuid option \<Rightarrow> uuid \<Rightarrow> uuid \<Rightarrow> bool \<Rightarrow> db \<Rightarrow> error + kit_line list \<times> db" where
  "build_kit ws user bid sto execute d =
     bindr (get_build d ws bid) (\<lambda>b.
     if has_stages d ws b then Inl (HttpError Build_has_stages)
     else kit_response ws user b None sto execute d)"

definition build_stage_kit ::
    "uuid \<Rightarrow> uuid option \<Rightarrow> uuid \<Rightarrow> uuid \<Rightarrow> uuid \<Rightarrow> bool \<Rightarrow> db \<Rightarrow> error + kit_line list \<times> db" where
  "build_stage_kit ws user bid sid sto execute d =
     bindr (get_build d ws bid) (\<lambda>b.
     bindr (get_stage d ws b sid) (\<lambda>stage.
     kit_response ws user b (Some stage) sto execute d))"

section \<open>The plan\<close>

lemma summary_iff:
  "((sto, lot), q) \<in> set (stock_summary_for_part d ws p st)
     \<longleftrightarrow> q = current_quantity d ws p sto lot st True \<and> q \<noteq> 0"
proof -
  let ?P = "\<lambda>e. se_workspace_id e = ws \<and> se_part_id e = Some p \<and> se_status e = st"
  let ?key = "\<lambda>e. (se_storage_location_id e, se_lot_id e)"
  have cq: "current_quantity d ws p sto lot st True
      = sum_where se_quantity_delta (\<lambda>e. ?P e \<and> ?key e = (sto, lot)) (stock_entries d)"
    unfolding current_quantity_def by (rule sum_where_cong) auto
  have "(\<exists>r \<in> set (stock_entries d). ?P r \<and> ?key r = (sto, lot))" if "current_quantity d ws p sto lot st True \<noteq> 0"
    using that sum_where_none [of "stock_entries d" "\<lambda>e. ?P e \<and> ?key e = (sto, lot)" se_quantity_delta]
    by (auto simp: cq)
  then show ?thesis by (auto simp: stock_summary_for_part_def group_sum_iff cq)
qed

lemma kit_buckets_iff:
  "((sto, lot), q) \<in> set (kit_buckets d ws p staging)
     \<longleftrightarrow> sto \<noteq> Some staging \<and> 0 < q \<and> q = current_quantity d ws p sto lot On_hand True"
  by (auto simp: kit_buckets_def summary_iff)

lemma distinct_kit_buckets: "distinct (map fst (kit_buckets d ws p staging))"
proof -
  let ?f = "filter (\<lambda>((sto, lot), q). sto \<noteq> Some staging \<and> 0 < q) (stock_summary_for_part d ws p On_hand)"
  have "distinct (map fst (stock_summary_for_part d ws p On_hand))"
    unfolding stock_summary_for_part_def by (rule distinct_map_filter) simp
  then have "distinct (map fst ?f)" by (rule distinct_map_filter)
  moreover have "mset (map fst (kit_buckets d ws p staging)) = mset (map fst ?f)"
    by (simp add: kit_buckets_def)
  ultimately show ?thesis by (metis mset_eq_imp_distinct_iff)
qed

lemma sum_filter_split:
  fixes xs :: "('a \<times> rat) list"
  shows "sum_list (map snd (filter A xs)) + sum_list (map snd (filter (\<lambda>x. \<not> A x) xs)) = sum_list (map snd xs)"
  by (induction xs) auto

lemma sum_list_mset_cong:
  fixes xs ys :: "('a \<times> rat) list"
  shows "mset xs = mset ys \<Longrightarrow> sum_list (map snd xs) = sum_list (map snd ys)"
  by (metis mset_map sum_mset_sum_list)

text \<open>What lies elsewhere is the part's total less what is on the staging location already.\<close>

lemma sum_kit_buckets:
  assumes ok: "ledger_ok d"
  shows "sum_list (map snd (kit_buckets d ws p staging))
     = total_for_part d ws p On_hand - current_quantity d ws p (Some staging) None On_hand False"
proof -
  let ?P = "\<lambda>e. se_workspace_id e = ws \<and> se_part_id e = Some p \<and> se_status e = On_hand"
  let ?key = "\<lambda>e. (se_storage_location_id e, se_lot_id e)"
  let ?g = "group_sum ?key se_quantity_delta ?P (stock_entries d)"
  let ?A = "\<lambda>k. fst k = Some staging"
  have "filter (\<lambda>((sto, lot), q). sto \<noteq> Some staging \<and> 0 < q) (stock_summary_for_part d ws p On_hand)
      = filter (\<lambda>(k, q). q \<noteq> 0) (filter (\<lambda>(k, q). \<not> ?A k) ?g)"
  proof -
    have nn: "0 \<le> q" if "(k, q) \<in> set ?g" for k q
    proof -
      have "q = sum_where se_quantity_delta (\<lambda>r. ?P r \<and> ?key r = k) (stock_entries d)"
        using that unfolding group_sum_iff by blast
      also have "\<dots> = current_quantity d ws p (fst k) (snd k) On_hand True"
        unfolding current_quantity_def by (rule sum_where_cong) (auto simp: prod_eq_iff)
      finally show ?thesis using ok by (simp add: ledger_ok_nonneg)
    qed
    have "filter (\<lambda>((sto, lot), q). sto \<noteq> Some staging \<and> 0 < q) (filter (\<lambda>(k, q). q \<noteq> 0) ?g)
      = filter (\<lambda>(k, q). \<not> ?A k \<and> q \<noteq> 0) ?g"
      unfolding filter_filter
    proof (rule filter_cong [OF refl], goal_cases)
      case (1 x)
      then have "0 \<le> snd x" using nn [of "fst x" "snd x"] by simp
      then show ?case by (cases x) auto
    qed
    also have "\<dots> = filter (\<lambda>(k, q). q \<noteq> 0) (filter (\<lambda>(k, q). \<not> ?A k) ?g)"
      unfolding filter_filter by (rule filter_cong) (simp_all add: case_prod_unfold)
    finally show ?thesis unfolding stock_summary_for_part_def .
  qed
  then have "mset (kit_buckets d ws p staging) = mset (filter (\<lambda>(k, q). q \<noteq> 0) (filter (\<lambda>(k, q). \<not> ?A k) ?g))"
    by (simp add: kit_buckets_def)
  then have "sum_list (map snd (kit_buckets d ws p staging))
      = sum_list (map snd (filter (\<lambda>(k, q). q \<noteq> 0) (filter (\<lambda>(k, q). \<not> ?A k) ?g)))"
    by (rule sum_list_mset_cong)
  also have "\<dots> = sum_list (map snd (filter (\<lambda>x. \<not> ?A (fst x)) ?g))"
    unfolding sum_list_filter_nonzero by (simp add: case_prod_unfold)
  also have "\<dots> = sum_list (map snd ?g) - sum_list (map snd (filter (\<lambda>x. ?A (fst x)) ?g))"
    using sum_filter_split [of "\<lambda>x. ?A (fst x)" ?g] by linarith
  also have "sum_list (map snd (filter (\<lambda>x. ?A (fst x)) ?g))
      = sum_where se_quantity_delta (\<lambda>r. ?P r \<and> ?A (?key r)) (stock_entries d)"
    using filter_key_group_sum [of ?A ?key se_quantity_delta ?P "stock_entries d"]
    by (simp add: case_prod_unfold sum_group_sum)
  also have "\<dots> = current_quantity d ws p (Some staging) None On_hand False"
    unfolding current_quantity_def by (rule sum_where_cong) auto
  also have "sum_list (map snd ?g) = total_for_part d ws p On_hand"
    by (simp add: sum_group_sum total_for_part_def current_quantity_def)
  finally show ?thesis .
qed

definition source_key :: "kit_source \<Rightarrow> uuid option \<times> uuid option" where
  "source_key s = (ks_storage_location_id s, ks_lot_id s)"

lemma source_key_simps [simp]:
  "source_key \<lparr>ks_storage_location_id = sto, ks_lot_id = lot, ks_quantity = q\<rparr> = (sto, lot)"
  by (simp add: source_key_def)

text \<open>Taking from buckets, with the arithmetic of a ledger in range.\<close>

definition in_range :: "rat \<Rightarrow> bool" where
  "in_range r \<longleftrightarrow> 0 \<le> r \<and> r < 10 ^ 22 \<and> on_grid r"

lemma dec_sub_min:
  assumes "in_range r" "0 < q" "on_grid q"
  shows "dec_sub r (min r q) = r - min r q" and "in_range (r - min r q)"
proof -
  show "in_range (r - min r q)" using assms by (auto simp: in_range_def intro: on_grid_diff on_grid_min)
  then show "dec_sub r (min r q) = r - min r q" unfolding dec_sub_def in_range_def by (intro dec_grid) auto
qed

lemma take_sources_Cons:
  assumes "in_range r" "\<forall>(k, q) \<in> set (((sto, lot), q) # bs). 0 < q \<and> on_grid q"
  shows "take_sources r (((sto, lot), q) # bs) = (if r \<le> 0 then []
     else \<lparr>ks_storage_location_id = sto, ks_lot_id = lot, ks_quantity = min r q\<rparr> # take_sources (r - min r q) bs)"
  using assms dec_sub_min(1) [of r q] by (simp add: Let_def)

lemma take_sources_sum:
  assumes "in_range r" "\<forall>(k, q) \<in> set bs. 0 < q \<and> on_grid q"
  shows "sum_list (map ks_quantity (take_sources r bs)) = min r (sum_list (map snd bs))"
  using assms
proof (induction bs arbitrary: r)
  case (Cons b bs)
  obtain sto lot q where b: "b = ((sto, lot), q)" by (cases b) auto
  have q: "0 < q" "on_grid q" and tl: "\<forall>(k, q) \<in> set bs. 0 < q \<and> on_grid q"
    using Cons.prems(2) by (auto simp: b)
  have nn: "0 \<le> sum_list (map snd bs)" using tl by (intro sum_list_nonneg) auto
  have ih: "sum_list (map ks_quantity (take_sources (r - min r q) bs)) = min (r - min r q) (sum_list (map snd bs))"
    by (rule Cons.IH [OF dec_sub_min(2) [OF Cons.prems(1) q] tl])
  show ?case
    using take_sources_Cons [OF Cons.prems(1), of sto lot q bs] Cons.prems ih nn q
    by (auto simp: b min_def in_range_def)
qed (auto simp: in_range_def)

lemma take_sources_bucket:
  assumes "in_range r" "\<forall>(k, q) \<in> set bs. 0 < q \<and> on_grid q" "s \<in> set (take_sources r bs)"
  shows "0 < ks_quantity s \<and> on_grid (ks_quantity s) \<and> (\<exists>q. (source_key s, q) \<in> set bs \<and> ks_quantity s \<le> q)"
  using assms
proof (induction bs arbitrary: r)
  case (Cons b bs)
  obtain sto lot q where b: "b = ((sto, lot), q)" by (cases b) auto
  have q: "0 < q" "on_grid q" and tl: "\<forall>(k, q) \<in> set bs. 0 < q \<and> on_grid q"
    using Cons.prems(2) by (auto simp: b)
  have r: "0 < r" using Cons.prems(3) take_sources_Cons [OF Cons.prems(1), of sto lot q bs] Cons.prems(2)
    by (auto simp: b split: if_splits)
  then have "s = \<lparr>ks_storage_location_id = sto, ks_lot_id = lot, ks_quantity = min r q\<rparr>
      \<or> s \<in> set (take_sources (r - min r q) bs)"
    using Cons.prems take_sources_Cons [OF Cons.prems(1), of sto lot q bs] by (simp add: b)
  then show ?case
  proof
    assume "s = \<lparr>ks_storage_location_id = sto, ks_lot_id = lot, ks_quantity = min r q\<rparr>"
    then show ?thesis using r q Cons.prems(1) by (auto simp: b source_key_def in_range_def intro!: on_grid_min)
  next
    assume "s \<in> set (take_sources (r - min r q) bs)"
    from Cons.IH [OF dec_sub_min(2) [OF Cons.prems(1) q] tl this] show ?thesis by auto
  qed
qed simp

lemma distinct_take_sources:
  assumes "in_range r" "\<forall>(k, q) \<in> set bs. 0 < q \<and> on_grid q" "distinct (map fst bs)"
  shows "distinct (map source_key (take_sources r bs))"
  using assms
proof (induction bs arbitrary: r)
  case (Cons b bs)
  obtain sto lot q where b: "b = ((sto, lot), q)" by (cases b) auto
  have q: "0 < q" "on_grid q" and tl: "\<forall>(k, q) \<in> set bs. 0 < q \<and> on_grid q"
    using Cons.prems(2) by (auto simp: b)
  note rng = dec_sub_min(2) [OF Cons.prems(1) q]
  have "(sto, lot) \<notin> source_key ` set (take_sources (r - min r q) bs)"
    using take_sources_bucket [OF rng tl] Cons.prems(3) by (force simp: b)
  moreover have "distinct (map source_key (take_sources (r - min r q) bs))"
    using Cons.IH [OF rng tl] Cons.prems(3) by simp
  ultimately show ?case
    using take_sources_Cons [OF Cons.prems(1), of sto lot q bs] Cons.prems(2) by (simp add: b)
qed simp

lemma dec_fold_grid:
  assumes "\<forall>q \<in> set qs. 0 \<le> q \<and> on_grid q" "0 \<le> a" "on_grid a" "a + sum_list qs < 10 ^ 22"
  shows "foldl dec_add a qs = a + sum_list qs"
  using assms
proof (induction qs arbitrary: a)
  case (Cons q qs)
  have "0 \<le> sum_list qs" using Cons.prems(1) by (intro sum_list_nonneg) auto
  then have "dec_add a q = a + q" unfolding dec_add_def
    using Cons.prems by (intro dec_grid) (auto intro: on_grid_add)
  then show ?case using Cons.IH [of "a + q"] Cons.prems by (simp add: on_grid_add add.assoc)
qed simp

lemma dec_sum_grid:
  "\<forall>q \<in> set qs. 0 \<le> q \<and> on_grid q \<Longrightarrow> sum_list qs < 10 ^ 22 \<Longrightarrow> dec_sum qs = sum_list qs"
  by (simp add: dec_sum_def dec_fold_grid)

text \<open>A decimal rounding of a whole number is a whole number, so a requirement lies on the grid.\<close>

lemma dec_of_int_whole: "\<exists>m. dec (of_int k) = of_int m"
proof (cases "\<bar>k\<bar> < 10 ^ 28")
  case True
  then show ?thesis using dec_of_int by blast
next
  case False
  let ?x = "of_int k :: rat"
  have nz: "?x \<noteq> 0" using False by auto
  have "(10::rat) powi 28 \<le> \<bar>?x\<bar>"
    using False by (metis linorder_not_less of_int_abs of_int_le_iff of_int_numeral of_int_power power_int_numeral)
  then have "(10::rat) powi 28 < 10 powi (adjusted ?x + 1)" using adjusted_bounds [OF nz] by linarith
  then have "28 < adjusted ?x + 1" by (metis not_less one_le_numeral power_int_increasing)
  then have "adjusted ?x - 27 = int (nat (adjusted ?x - 27))" by simp
  then obtain n where n: "adjusted ?x - 27 = int n" ..
  then have "dec ?x = of_int (half_even (?x / 10 powi int n) * 10 ^ n)" using nz by (simp add: dec_def Let_def)
  then show ?thesis by blast
qed

section \<open>Executing the plan\<close>

text \<open>What lies on a location, over all its lots.\<close>

definition content_of :: "db \<Rightarrow> uuid \<Rightarrow> uuid \<Rightarrow> uuid \<Rightarrow> rat" where
  "content_of d ws sto p = current_quantity d ws p (Some sto) None On_hand False"

text \<open>A run of moves onto one location: rows are appended, nothing else of the build changes and
  no part gains or loses stock.\<close>

definition kit_run :: "db \<Rightarrow> db \<Rightarrow> bool" where
  "kit_run d d' \<longleftrightarrow> ledger_ok d' \<and> catalog_ok d' \<and> same_workflow d d' \<and> (\<exists>rows. appends d d' rows)
     \<and> (\<forall>ws p st. total_for_part d' ws p st = total_for_part d ws p st)"

lemma kit_run_trans: "kit_run a b \<Longrightarrow> kit_run b c \<Longrightarrow> kit_run a c"
  unfolding kit_run_def by (auto intro: same_workflow_trans appends_trans)

lemma move_quantity_workflow:
  assumes "move_quantity ws user p q src_sto src_lot dest_id comments b s d = Inr ((out, inn), d')"
  shows "same_workflow d d'"
proof -
  from assms obtain part dest d1 where p: "prepare_move ws p q src_sto src_lot dest_id d = Inr ((part, dest), d1)"
    and w: "write_move_pair ws user part q src_sto src_lot dest_id src_lot comments b s d1 = Inr ((out, inn), d')"
    by (auto simp: move_quantity_def bindr_Inr)
  have "same_workflow d d1"
    using p unfolding prepare_move_def
    by (auto simp: Let_def bindr_Inr lock_for_stock_write_def same_workflow_def split: option.splits if_splits
        dest!: enforce_workflow)
  moreover have "same_workflow d1 d'"
    using w by (auto simp: write_move_pair_def Let_def bindr_Inr insert_entry_Inr set_related_entry_def new_uuid_def
        same_workflow_def split: prod.splits if_splits)
  ultimately show ?thesis by (rule same_workflow_trans)
qed

lemma kit_move_effect:
  assumes ok: "ledger_ok d" "catalog_ok d"
    and m: "kit_move ws user b stage staging l s d = Inr d'"
    and src: "ks_storage_location_id s \<noteq> Some (sl_id staging)" "on_grid (ks_quantity s)"
  shows "kit_run d d' \<and> (\<forall>p. content_of d' ws (sl_id staging) p
      = content_of d ws (sl_id staging) p + (if p = kl_part_id l then ks_quantity s else 0))"
proof -
  from m obtain out inn where mq: "move_quantity ws user (kl_part_id l) (ks_quantity s) (ks_storage_location_id s)
      (ks_lot_id s) (sl_id staging) (Some (''kit for build '' @ b_name b)) (Some (b_id b)) (map_option bs_id stage) d
      = Inr ((out, inn), d')" by (auto simp: kit_move_def bindr_Inr)
  from move_quantity_effect [OF ok mq] obtain part where
    x: "p_id part = kl_part_id l" "ledger_ok d'" "appends d d' [stored_entry out, stored_entry inn]"
      "row_like ws part (ks_storage_location_id s) (ks_lot_id s) (- ks_quantity s) On_hand out"
      "row_like ws part (Some (sl_id staging)) (ks_lot_id s) (ks_quantity s) On_hand inn" by metis
  have "total_for_part d' ws' p st = total_for_part d ws' p st" for ws' p st
    using x(4,5) unfolding total_for_part_def appends_current_quantity [OF x(3)]
    by (auto simp: row_like_def counts_for_def)
  moreover have "content_of d' ws (sl_id staging) p
      = content_of d ws (sl_id staging) p + (if p = kl_part_id l then ks_quantity s else 0)" for p
    using x(1,4,5) src unfolding content_of_def appends_current_quantity [OF x(3)]
    by (auto simp: row_like_def counts_for_def round_6_grid)
  ultimately show ?thesis
    using x(2,3) move_quantity_workflow [OF mq] catalog_ok_appends [OF ok(2) x(3)]
    unfolding kit_run_def by blast
qed

lemma kit_run_refl: "ledger_ok d \<Longrightarrow> catalog_ok d \<Longrightarrow> kit_run d d"
  unfolding kit_run_def by (auto intro: exI [of _ "[]"])

lemma kit_run_ok: "kit_run d d' \<Longrightarrow> ledger_ok d' \<and> catalog_ok d'"
  by (simp add: kit_run_def)

lemma kit_loop_adds:
  assumes "foldr_r f xs d = Inr d'" and "ledger_ok d" "catalog_ok d"
    and step: "\<And>x d d'. x \<in> set xs \<Longrightarrow> ledger_ok d \<Longrightarrow> catalog_ok d \<Longrightarrow> f x d = Inr d'
      \<Longrightarrow> kit_run d d' \<and> (\<forall>p. m d' p = m d p + g x p)"
  shows "kit_run d d' \<and> (\<forall>p. m d' p = m d p + (\<Sum>x \<leftarrow> xs. g x p :: rat))"
  using assms
proof (induction xs arbitrary: d)
  case Nil
  then show ?case by (simp add: kit_run_refl)
next
  case (Cons x xs)
  from Cons.prems(1) obtain d1 where d1: "f x d = Inr d1" "foldr_r f xs d1 = Inr d'" by (auto simp: bindr_Inr)
  have 1: "kit_run d d1" "\<forall>p. m d1 p = m d p + g x p"
    using Cons.prems(4) [OF list.set_intros(1) Cons.prems(2,3) d1(1)] by simp_all
  have ok1: "ledger_ok d1" "catalog_ok d1" using kit_run_ok [OF 1(1)] by simp_all
  have "kit_run d1 d' \<and> (\<forall>p. m d' p = m d1 p + (\<Sum>x \<leftarrow> xs. g x p))"
    by (rule Cons.IH [OF d1(2) ok1 Cons.prems(4) [OF list.set_intros(2)]])
  with 1 kit_run_trans [OF 1(1)] show ?case by (simp add: add.assoc)
qed

lemma sum_list_if: "(\<Sum>x \<leftarrow> xs. if b then v x else 0) = (if b then sum_list (map v xs) else (0 :: rat))"
  by simp

lemma kit_line_effect:
  assumes r: "foldr_r (kit_move ws user b stage staging l) (kl_sources l) d = Inr d'" and ok: "ledger_ok d" "catalog_ok d"
    and src: "\<forall>s \<in> set (kl_sources l). ks_storage_location_id s \<noteq> Some (sl_id staging) \<and> on_grid (ks_quantity s)"
  shows "kit_run d d' \<and> (\<forall>p. content_of d' ws (sl_id staging) p
      = content_of d ws (sl_id staging) p + (if p = kl_part_id l then sum_list (map ks_quantity (kl_sources l)) else 0))"
proof -
  have "kit_run d d' \<and> (\<forall>p. content_of d' ws (sl_id staging) p
      = content_of d ws (sl_id staging) p + (\<Sum>s \<leftarrow> kl_sources l. if p = kl_part_id l then ks_quantity s else 0))"
  proof (rule kit_loop_adds [OF r ok])
    fix s d d' assume "s \<in> set (kl_sources l)" and d: "ledger_ok d" "catalog_ok d" "kit_move ws user b stage staging l s d = Inr d'"
    with src have "ks_storage_location_id s \<noteq> Some (sl_id staging)" "on_grid (ks_quantity s)" by blast+
    then show "kit_run d d' \<and> (\<forall>p. content_of d' ws (sl_id staging) p
      = content_of d ws (sl_id staging) p + (if p = kl_part_id l then ks_quantity s else 0))"
      by (rule kit_move_effect [OF d])
  qed
  then show ?thesis unfolding sum_list_if .
qed

lemma sum_list_at:
  assumes "distinct (map k xs)" "x \<in> set xs"
  shows "(\<Sum>y \<leftarrow> xs. if k x = k y then v y else 0) = (v x :: rat)"
  using assms
proof (induction xs)
  case (Cons a xs)
  have none: "(\<Sum>y \<leftarrow> xs. if k x = k y then v y else 0) = 0" if "k x \<notin> k ` set xs"
    using that by (induction xs) auto
  show ?case
  proof (cases "k x = k a")
    case True
    with Cons.prems have "x = a" by (auto simp: image_iff)
    with none Cons.prems True show ?thesis by simp
  next
    case False
    with Cons show ?thesis by auto
  qed
qed simp

lemma kit_lines_effect:
  assumes r: "foldr_r (\<lambda>l. foldr_r (kit_move ws user b stage staging l) (kl_sources l)) lines d = Inr d'"
    and ok: "ledger_ok d" "catalog_ok d"
    and src: "\<forall>l \<in> set lines. \<forall>s \<in> set (kl_sources l). ks_storage_location_id s \<noteq> Some (sl_id staging) \<and> on_grid (ks_quantity s)"
  shows "kit_run d d' \<and> (\<forall>p. content_of d' ws (sl_id staging) p = content_of d ws (sl_id staging) p
      + (\<Sum>l \<leftarrow> lines. if p = kl_part_id l then sum_list (map ks_quantity (kl_sources l)) else 0))"
proof (rule kit_loop_adds [OF r ok])
  fix l d d' assume "l \<in> set lines" and d: "ledger_ok d" "catalog_ok d"
    and l: "foldr_r (kit_move ws user b stage staging l) (kl_sources l) d = Inr d'"
  with src have "\<forall>s \<in> set (kl_sources l). ks_storage_location_id s \<noteq> Some (sl_id staging) \<and> on_grid (ks_quantity s)" by blast
  then show "kit_run d d' \<and> (\<forall>p. content_of d' ws (sl_id staging) p = content_of d ws (sl_id staging) p
      + (if p = kl_part_id l then sum_list (map ks_quantity (kl_sources l)) else 0))"
    by (rule kit_line_effect [OF l d])
qed

section \<open>What a plan line draws\<close>

lemma required_by_part_grid:
  assumes "(p, req, ids) \<in> set (required_by_part d ws b pr stage)"
  shows "on_grid req" and "0 < req"
proof -
  let ?w = "kit_wanted d ws b pr stage" and ?es = "kit_entries d ws b pr stage"
  have int: "\<exists>m. foldl dec_add (of_int a) (map (kit_quantity ?w) es) = of_int m" for es a
  proof (induction es arbitrary: a)
    case (Cons e es)
    have "\<exists>k. kit_quantity ?w e = of_int k" by (auto simp: kit_quantity_def split: option.split intro: exI [of _ 0])
    then obtain k where "kit_quantity ?w e = of_int k" ..
    moreover obtain m where "dec (of_int (a + k)) = of_int m" using dec_of_int_whole by blast
    ultimately show ?case using Cons.IH [of m] by (simp add: dec_add_def)
  qed (auto)
  have pos: "0 < foldl dec_add a (map (kit_quantity ?w) es)" if "0 \<le> a" "0 < a \<or> es \<noteq> []" "set es \<subseteq> set ?es" for a es
    using that
  proof (induction es arbitrary: a)
    case (Cons e es)
    then have "0 < kit_quantity ?w e" by (auto simp: kit_entries_def)
    with Cons.prems have "0 < dec_add a (kit_quantity ?w e)" unfolding dec_add_def by (intro dec_pos) simp
    with Cons show ?case by simp
  qed simp
  from assms obtain es where req: "req = dec_sum (map (kit_quantity ?w) es)" and es: "es = filter (\<lambda>e. pe_part_id e = Some p) ?es"
    and p: "p \<in> set (List.map_filter pe_part_id ?es)" by (auto simp: required_by_part_def Let_def)
  from int [of 0 es] req show "on_grid req" by (auto simp: dec_sum_def)
  from p have "es \<noteq> []" by (auto simp: es List.map_filter_def filter_empty_conv)
  with pos [of 0 es] es req show "0 < req" by (auto simp: dec_sum_def)
qed

lemma content_bounds:
  assumes ok: "ledger_ok d"
  shows "0 \<le> content_of d ws sto p" "content_of d ws sto p \<le> total_for_part d ws p On_hand" "on_grid (content_of d ws sto p)"
proof -
  have "0 \<le> sum_list (map snd (kit_buckets d ws p sto))"
    by (intro sum_list_nonneg) (auto simp: kit_buckets_iff)
  with sum_kit_buckets [OF ok, of ws p sto] show "content_of d ws sto p \<le> total_for_part d ws p On_hand"
    by (simp add: content_of_def)
  show "on_grid (content_of d ws sto p)"
    using ledger_ok_on_grid [OF ok] by (simp add: content_of_def on_grid_current_quantity)
  have "content_of d ws sto p = (\<Sum>k \<in> se_lot_id ` set (stock_entries d).
      sum_where se_quantity_delta (\<lambda>r. counts_for r ws p (Some sto) None On_hand False \<and> se_lot_id r = k) (stock_entries d))"
    unfolding content_of_def current_quantity_alt by (rule sum_where_split) auto
  also have "\<dots> = (\<Sum>k \<in> se_lot_id ` set (stock_entries d). current_quantity d ws p (Some sto) k On_hand True)"
    unfolding current_quantity_alt by (intro sum.cong refl sum_where_cong) (auto simp: counts_for_def)
  finally show "0 \<le> content_of d ws sto p" by (simp add: sum_nonneg ledger_ok_nonneg [OF ok])
qed

text \<open>One line of a plan: it names the part and its requirement, draws only from other locations,
  and draws the part of the gap that the stock elsewhere can fill.\<close>

lemma plan_line_props:
  assumes ok: "ledger_ok d" and l: "plan_line d ws st (p, req, ids) = Some l"
    and req: "0 < req" "on_grid req" "req < 10 ^ 22" and tot: "total_for_part d ws p On_hand < 10 ^ 22"
  shows "kl_part_id l = p" "kl_required l = req" "kl_at_staging l = content_of d ws st p"
    "\<forall>s \<in> set (kl_sources l). ks_storage_location_id s \<noteq> Some st \<and> 0 < ks_quantity s \<and> on_grid (ks_quantity s)"
    "sum_list (map ks_quantity (kl_sources l))
       = min (max 0 (req - content_of d ws st p)) (total_for_part d ws p On_hand - content_of d ws st p)"
    "kl_short_by l = max 0 (req - total_for_part d ws p On_hand)"
proof -
  note cb = content_bounds [OF ok, of ws st p]
  have og: "on_grid (total_for_part d ws p On_hand)" using ledger_ok_on_grid [OF ok] by (simp add: total_for_part_def)
  let ?gap = "max 0 (req - content_of d ws st p)" and ?bs = "kit_buckets d ws p st"
  have ds: "dec_sub req (content_of d ws st p) = req - content_of d ws st p" unfolding dec_sub_def
    by (rule dec_grid) (use cb req tot in \<open>auto intro: on_grid_diff\<close>)
  then obtain part :: part where l': "l = \<lparr>kl_part_id = p, kl_part_name = p_name part, kl_project_entry_ids = ids, kl_required = req,
      kl_at_staging = content_of d ws st p, kl_to_move = ?gap,
      kl_sources = (if 0 < ?gap then sources_for d ws p st ?gap else [])\<rparr>"
    using l [unfolded plan_line_def Let_def prod.case, folded content_of_def, unfolded ds]
    by (auto split: option.splits)
  then show "kl_part_id l = p" "kl_required l = req" "kl_at_staging l = content_of d ws st p" by simp_all
  have gap: "in_range ?gap" using cb req by (auto simp: in_range_def max_def intro: on_grid_diff)
  have bs: "\<forall>(k, q) \<in> set ?bs. 0 < q \<and> on_grid q"
    by (auto simp: kit_buckets_iff ledger_ok_on_grid [OF ok])
  have src: "\<forall>s \<in> set (kl_sources l). ks_storage_location_id s \<noteq> Some st \<and> 0 < ks_quantity s \<and> on_grid (ks_quantity s)"
    using take_sources_bucket [OF gap bs] kit_buckets_iff [of _ _ _ d ws p st]
    by (auto simp: l' sources_for_def source_key_def)
  then show "\<forall>s \<in> set (kl_sources l). ks_storage_location_id s \<noteq> Some st \<and> 0 < ks_quantity s \<and> on_grid (ks_quantity s)" .
  show sum: "sum_list (map ks_quantity (kl_sources l)) = min ?gap (total_for_part d ws p On_hand - content_of d ws st p)"
    using take_sources_sum [OF gap bs] sum_kit_buckets [OF ok, of ws p st] cb(2)
    by (auto simp: l' sources_for_def content_of_def)
  have "kl_moving l = sum_list (map ks_quantity (kl_sources l))" unfolding kl_moving_def
    by (rule dec_sum_grid) (use src sum gap in \<open>auto simp: in_range_def less_imp_le\<close>)
  moreover have "dec_sub ?gap (kl_moving l) = ?gap - kl_moving l" unfolding dec_sub_def
    by (rule dec_grid) (use calculation sum gap cb og in \<open>auto simp: in_range_def intro!: on_grid_diff on_grid_min\<close>)
  ultimately show "kl_short_by l = max 0 (req - total_for_part d ws p On_hand)"
    using sum cb(2) by (auto simp: kl_short_by_def l' min_def max_def)
qed

lemma required_by_part_cong:
  assumes "same_workflow d d'" and "appends d d' rows"
  shows "required_by_part d' = required_by_part d"
proof -
  note c = appends_catalog [OF assms(2)]
  have "kit_wanted d' = kit_wanted d"
    unfolding kit_wanted_def [abs_def] c(1) bom_cong(2) [OF c(4)] stage_reads_cong(3) [OF assms] ..
  moreover from this have "kit_entries d' = kit_entries d"
    unfolding kit_entries_def [abs_def] bom_cong(2) [OF c(4)] by simp
  ultimately show ?thesis unfolding required_by_part_def [abs_def] by simp
qed

lemma distinct_required_by_part: "distinct (map fst (required_by_part d ws b pr stage))"
  by (simp add: required_by_part_def Let_def comp_def)

lemma plan_kit_parts:
  assumes "\<forall>(p, req, ids) \<in> set rs. \<forall>l. plan_line d ws st (p, req, ids) = Some l \<longrightarrow> kl_part_id l = p"
    and "distinct (map fst rs)"
  shows "distinct (map kl_part_id (List.map_filter (plan_line d ws st) rs))
    \<and> kl_part_id ` set (List.map_filter (plan_line d ws st) rs) \<subseteq> fst ` set rs"
  using assms
proof (induction rs)
  case (Cons r rs)
  obtain p req ids where r: "r = (p, req, ids)" by (cases r)
  from Cons show ?case by (auto simp: r List.map_filter_simps split: option.splits)
qed (simp add: List.map_filter_simps)

lemma part_in_ws_cong: "parts d' = parts d \<Longrightarrow> part_in_ws d' = part_in_ws d"
  by (simp add: part_in_ws_def fun_eq_iff)

text \<open>A whole run: what each location content becomes and which rows of the plan it follows.\<close>

lemma execute_kit_effect:
  assumes ok: "ledger_ok d" "catalog_ok d"
    and range: "\<forall>(p, req, ids) \<in> set (required_by_part d ws b pr stage).
        req < 10 ^ 22 \<and> total_for_part d ws p On_hand < 10 ^ 22"
    and x: "execute_kit ws user b pr stage staging d = Inr (lines, d')"
  shows "kit_run d d'
    \<and> (\<forall>(p, req, ids) \<in> set (required_by_part d ws b pr stage). part_in_ws d ws p \<longrightarrow>
         content_of d' ws (sl_id staging) p
           = max (content_of d ws (sl_id staging) p) (min req (total_for_part d ws p On_hand)))
    \<and> (\<forall>p. p \<notin> fst ` set (required_by_part d ws b pr stage) \<longrightarrow>
         content_of d' ws (sl_id staging) p = content_of d ws (sl_id staging) p)
    \<and> (\<forall>l \<in> set lines. kl_short_by l = max 0 (kl_required l - total_for_part d ws (kl_part_id l) On_hand))"
proof -
  let ?rs = "required_by_part d ws b pr stage" and ?st = "sl_id staging"
  define d1 where "d1 = lock_parts_for_stock_write ws (map fst ?rs) d"
  have a1: "appends d d1 []" unfolding d1_def by (rule lock_parts_frame)
  have wf: "same_workflow d d1" unfolding d1_def by (rule lock_parts_workflow)
  have ok1: "ledger_ok d1" "catalog_ok d1"
    using ok(1) lock_parts_frame(3) catalog_ok_appends [OF ok(2) a1] by (simp_all add: d1_def)
  have cq: "current_quantity d1 = current_quantity d" using a1 by (intro current_quantity_cong) (simp add: appends_def)
  have rs1: "required_by_part d1 = required_by_part d" by (rule required_by_part_cong [OF wf a1])
  have lines: "lines = List.map_filter (plan_line d1 ws ?st) ?rs"
    and loop: "foldr_r (\<lambda>l. foldr_r (kit_move ws user b stage staging l) (kl_sources l)) lines d1 = Inr d'"
    using x by (auto simp: execute_kit_def plan_kit_def Let_def bindr_Inr rs1 simp flip: d1_def split: if_splits)
  have pl: "kl_part_id l = p \<and> kl_required l = req
      \<and> (\<forall>s \<in> set (kl_sources l). ks_storage_location_id s \<noteq> Some ?st \<and> on_grid (ks_quantity s))
      \<and> sum_list (map ks_quantity (kl_sources l)) = min (max 0 (req - content_of d ws ?st p))
          (total_for_part d ws p On_hand - content_of d ws ?st p)
      \<and> kl_short_by l = max 0 (req - total_for_part d ws p On_hand)"
    if r: "(p, req, ids) \<in> set ?rs" and l: "plan_line d1 ws ?st (p, req, ids) = Some l" for p req ids l
  proof -
    have b: "req < 10 ^ 22" "total_for_part d ws p On_hand < 10 ^ 22" using range r by blast+
    have e: "content_of d1 ws ?st p = content_of d ws ?st p" "total_for_part d1 ws p On_hand = total_for_part d ws p On_hand"
      by (simp_all add: content_of_def total_for_part_def cq)
    note pp = plan_line_props [OF ok1(1) l required_by_part_grid(2,1) [OF r] b(1), unfolded e, OF b(2)]
    show ?thesis using pp(1,2,4,5,6) by blast
  qed
  have src: "\<forall>l \<in> set lines. \<forall>s \<in> set (kl_sources l). ks_storage_location_id s \<noteq> Some ?st \<and> on_grid (ks_quantity s)"
    and short: "\<forall>l \<in> set lines. kl_short_by l = max 0 (kl_required l - total_for_part d ws (kl_part_id l) On_hand)"
    using pl by (auto simp: lines set_map_filter)
  have dl: "distinct (map kl_part_id lines)" "kl_part_id ` set lines \<subseteq> fst ` set ?rs"
  proof -
    have "\<forall>(p, req, ids) \<in> set ?rs. \<forall>l. plan_line d1 ws ?st (p, req, ids) = Some l \<longrightarrow> kl_part_id l = p"
      using pl by blast
    from plan_kit_parts [OF this distinct_required_by_part]
    show "distinct (map kl_part_id lines)" "kl_part_id ` set lines \<subseteq> fst ` set ?rs" unfolding lines by blast+
  qed
  note eff = kit_lines_effect [OF loop ok1 src]
  have c1: "content_of d1 = content_of d" by (simp add: content_of_def [abs_def] cq)
  have after: "content_of d' ws ?st p = content_of d ws ?st p
      + (\<Sum>l \<leftarrow> lines. if p = kl_part_id l then sum_list (map ks_quantity (kl_sources l)) else 0)" for p
    using eff by (simp add: c1)
  have "content_of d' ws ?st p = max (content_of d ws ?st p) (min req (total_for_part d ws p On_hand))"
    if r: "(p, req, ids) \<in> set ?rs" and p: "part_in_ws d ws p" for p req ids
  proof -
    have "parts d1 = parts d" by (rule appends_catalog [OF a1])
    with p obtain l where l: "plan_line d1 ws ?st (p, req, ids) = Some l"
      by (auto simp: part_in_ws_iff plan_line_def belonging_part_def Let_def)
    have m: "l \<in> set lines" using r l by (auto simp: lines set_map_filter)
    have "(\<Sum>l \<leftarrow> lines. if p = kl_part_id l then sum_list (map ks_quantity (kl_sources l)) else 0)
        = sum_list (map ks_quantity (kl_sources l))"
      using sum_list_at [OF dl(1) m, of "\<lambda>l. sum_list (map ks_quantity (kl_sources l))"] pl [OF r l] by simp
    with after [of p] pl [OF r l] content_bounds(2) [OF ok(1), of ws ?st p] show ?thesis by auto
  qed
  moreover have "content_of d' ws ?st p = content_of d ws ?st p" if "p \<notin> fst ` set ?rs" for p
  proof -
    have "(\<Sum>l \<leftarrow> lines. if p = kl_part_id l then sum_list (map ks_quantity (kl_sources l)) else 0) = 0"
      by (subst map_cong [OF refl, of lines _ "\<lambda>_. 0"]) (use that dl(2) in auto)
    with after show ?thesis by simp
  qed
  moreover have "kit_run d d1"
    using ok1 wf a1 by (auto simp: kit_run_def total_for_part_def cq)
  then have "kit_run d d'" using eff kit_run_trans by blast
  ultimately show ?thesis using short by blast
qed

text \<open>
  C14: kitting a build (or a stage) tops the staging location up to what the build needs, as
  far as the part's stock goes: afterwards it holds the requirement, or all there is of the
  part, or what it held before when that was more. A part the build does not need stays as it
  was, no part gains or loses stock, and each line reports exactly what is missing.
\<close>

theorem execute_kit_tops_up:
  assumes "ledger_ok d" "catalog_ok d"
    and "\<forall>(p, req, ids) \<in> set (required_by_part d ws b pr stage).
        req < 10 ^ 22 \<and> total_for_part d ws p On_hand < 10 ^ 22"
    and "execute_kit ws user b pr stage staging d = Inr (lines, d')"
  shows "ledger_ok d' \<and> (\<forall>ws' p st. total_for_part d' ws' p st = total_for_part d ws' p st)
    \<and> (\<forall>(p, req, ids) \<in> set (required_by_part d ws b pr stage). part_in_ws d ws p \<longrightarrow>
         content_of d' ws (sl_id staging) p
           = max (content_of d ws (sl_id staging) p) (min req (total_for_part d ws p On_hand)))
    \<and> (\<forall>p. p \<notin> fst ` set (required_by_part d ws b pr stage) \<longrightarrow>
         content_of d' ws (sl_id staging) p = content_of d ws (sl_id staging) p)
    \<and> (\<forall>l \<in> set lines. kl_short_by l = max 0 (kl_required l - total_for_part d ws (kl_part_id l) On_hand))"
  using execute_kit_effect [OF assms] unfolding kit_run_def by blast

lemma sum_list_positive:
  fixes xs :: "rat list"
  shows "\<forall>x \<in> set xs. 0 < x \<Longrightarrow> xs \<noteq> [] \<Longrightarrow> 0 < sum_list xs"
proof (induction xs)
  case (Cons x xs)
  then show ?case by (cases "xs = []") (auto intro: add_pos_pos)
qed simp

lemma plan_kit_cong:
  assumes "same_workflow d d'" and "appends d d' []"
  shows "plan_kit d' ws b pr stage staging = plan_kit d ws b pr stage staging"
proof -
  have c: "current_quantity d' = current_quantity d" using assms(2) by (intro current_quantity_cong) (simp add: appends_def)
  have ss: "stock_summary_for_part d' = stock_summary_for_part d"
    using assms(2) by (simp add: stock_summary_for_part_def appends_def fun_eq_iff)
  have bp: "belonging_part d' = belonging_part d"
    using appends_catalog(1) [OF assms(2)] by (simp add: belonging_part_def fun_eq_iff)
  have "plan_line d' = plan_line d"
    unfolding plan_line_def [abs_def] sources_for_def [abs_def] kit_buckets_def [abs_def] c ss bp ..
  then show ?thesis by (simp add: plan_kit_def required_by_part_cong [OF assms])
qed

lemma execute_kit_again:
  assumes ok: "ledger_ok d" "catalog_ok d"
    and range: "\<forall>(p, req, ids) \<in> set (required_by_part d ws b pr stage).
        req < 10 ^ 22 \<and> total_for_part d ws p On_hand < 10 ^ 22"
    and x: "execute_kit ws user b pr stage staging d = Inr (lines, d')"
  shows "\<exists>d''. execute_kit ws user b pr stage staging d' = Inr (plan_kit d' ws b pr stage staging, d'')
    \<and> stock_entries d'' = stock_entries d' \<and> (\<forall>l \<in> set (plan_kit d' ws b pr stage staging). kl_sources l = [])"
proof -
  let ?st = "sl_id staging"
  note eff = execute_kit_effect [OF assms]
  from eff obtain rows where run: "ledger_ok d'" "same_workflow d d'" and app: "appends d d' rows"
    and tot: "\<And>ws p st. total_for_part d' ws p st = total_for_part d ws p st"
    unfolding kit_run_def by blast
  define rs where "rs = required_by_part d ws b pr stage"
  define d1 where "d1 = lock_parts_for_stock_write ws (map fst rs) d'"
  have a1: "appends d' d1 []" unfolding d1_def by (rule lock_parts_frame)
  have wf: "same_workflow d' d1" unfolding d1_def by (rule lock_parts_workflow)
  have rs': "required_by_part d' ws b pr stage = rs" "required_by_part d1 ws b pr stage = rs"
    using required_by_part_cong [OF run(2) app] required_by_part_cong [OF wf a1] by (simp_all add: rs_def)
  have cq: "current_quantity d1 = current_quantity d'" using a1 by (intro current_quantity_cong) (simp add: appends_def)
  have ok1: "ledger_ok d1" using run(1) lock_parts_frame(3) by (simp add: d1_def)
  have empty: "kl_sources l = []" if l: "l \<in> set (plan_kit d1 ws b pr stage staging)" for l
  proof -
    from l obtain p req ids where r: "(p, req, ids) \<in> set rs" and pl: "plan_line d1 ws ?st (p, req, ids) = Some l"
      by (auto simp: plan_kit_def rs' set_map_filter)
    have b: "req < 10 ^ 22" "total_for_part d1 ws p On_hand < 10 ^ 22" and pos: "0 < req" "on_grid req"
      using range r required_by_part_grid [OF r [unfolded rs_def]] tot by (auto simp: rs_def total_for_part_def cq)
    have "parts d1 = parts d" using appends_catalog(1) [OF a1] appends_catalog(1) [OF app] by simp
    with pl have "part_in_ws d ws p" by (auto simp: plan_line_def belonging_part_def part_in_ws_def split: option.splits if_splits)
    with eff r have c: "content_of d' ws ?st p = max (content_of d ws ?st p) (min req (total_for_part d ws p On_hand))"
      unfolding rs_def by blast
    note pp = plan_line_props [OF ok1 pl pos b]
    have "sum_list (map ks_quantity (kl_sources l)) = 0"
      unfolding pp(5) using c tot content_bounds(2) [OF ok(1), of ws ?st p]
      by (simp add: content_of_def total_for_part_def cq min_def max_def)
    moreover have "\<forall>q \<in> set (map ks_quantity (kl_sources l)). 0 < q" using pp(4) by auto
    ultimately show ?thesis using sum_list_positive [of "map ks_quantity (kl_sources l)"] by auto
  qed
  have "foldr_r (\<lambda>l. foldr_r (kit_move ws user b stage staging l) (kl_sources l)) ls d1 = Inr d1"
    if "\<forall>l \<in> set ls. kl_sources l = []" for ls
    using that by (induction ls) (simp_all add: bindr_def)
  then have "execute_kit ws user b pr stage staging d' = Inr (plan_kit d1 ws b pr stage staging, d1)"
    using x empty by (auto simp: execute_kit_def Let_def bindr_Inr bindr_def rs' simp flip: d1_def split: if_splits)
  moreover have "plan_kit d1 ws b pr stage staging = plan_kit d' ws b pr stage staging"
    by (rule plan_kit_cong [OF wf a1])
  moreover have "stock_entries d1 = stock_entries d'" using a1 by (simp add: appends_def)
  ultimately show ?thesis using empty by simp
qed

text \<open>
  kitting the same build (or stage) onto the same location again writes no row: what the
  first run moved counts toward the requirement, and what it could not find is still not
  there. The preview asked for in between announces exactly that.
\<close>

theorem kitting_again_moves_nothing:
  assumes ok: "ledger_ok d" "catalog_ok d"
    and range: "\<forall>pr p req ids. projects d (b_project_id b) = Some pr \<longrightarrow> (p, req, ids) \<in> set (required_by_part d ws b pr stage)
        \<longrightarrow> req < 10 ^ 22 \<and> total_for_part d ws p On_hand < 10 ^ 22"
    and x: "kit_response ws user b stage sto True d = Inr (lines, d')"
  shows "\<exists>lines' d''. kit_response ws user b stage sto True d' = Inr (lines', d'')
    \<and> kit_response ws user b stage sto False d' = Inr (lines', d')
    \<and> stock_entries d'' = stock_entries d' \<and> (\<forall>l \<in> set lines'. kl_sources l = [])"
proof -
  from x obtain pr staging where pr: "projects d (b_project_id b) = Some pr" "pr_workspace_id pr = ws"
    and st: "resolve_staging d ws sto = Inr staging"
    and ex: "execute_kit ws user b pr stage staging d = Inr (lines, d')"
    by (auto simp: kit_response_def bindr_Inr)
  have range': "\<forall>(p, req, ids) \<in> set (required_by_part d ws b pr stage). req < 10 ^ 22 \<and> total_for_part d ws p On_hand < 10 ^ 22"
    using range pr by blast
  from execute_kit_effect [OF ok range' ex] obtain rows where app: "appends d d' rows"
    unfolding kit_run_def by blast
  have "projects d' = projects d" "storages d' = storages d" using appends_catalog [OF app] by simp_all
  then have g: "get_project d' ws (b_project_id b) = Inr pr" "resolve_staging d' ws sto = Inr staging"
    using pr st by (simp_all add: resolve_staging_def belonging_storage_def)
  from execute_kit_again [OF ok range' ex] show ?thesis
    unfolding kit_response_def g bindr_simps by auto
qed

section \<open>Witnesses\<close>

definition demo_kit :: "error + kit_line list \<times> db" where
  "demo_kit = execute_kit 1 None (the (builds demo 60)) (the (projects demo 40)) None (demo_storage 21) demo"

lemma demo_kit_range:
  "\<forall>(p, req, ids) \<in> set (required_by_part demo 1 (the (builds demo 60)) (the (projects demo 40)) None).
     req < 10 ^ 22 \<and> total_for_part demo 1 p On_hand < 10 ^ 22"
  by code_simp

lemma demo_kit_runs: obtains lines d' where "demo_kit = Inr (lines, d')"
proof -
  have "\<not> isl demo_kit" by code_simp
  from sum.collapse(2) [OF this]
  show thesis by (intro that [of "fst (projr demo_kit)" "snd (projr demo_kit)"]) simp
qed

lemma execute_kit_tops_up_witness:
  "\<exists>lines d'. demo_kit = Inr (lines, d') \<and> content_of d' 1 21 11 = 5 \<and> content_of d' 1 21 10 = 50"
proof -
  obtain lines d' where x: "demo_kit = Inr (lines, d')" by (rule demo_kit_runs)
  have p: "(11, 5, [51]) \<in> set (required_by_part demo 1 (the (builds demo 60)) (the (projects demo 40)) None)"
    "(10, 10, [50]) \<in> set (required_by_part demo 1 (the (builds demo 60)) (the (projects demo 40)) None)"
    "part_in_ws demo 1 11" "part_in_ws demo 1 10" by code_simp+
  have v: "content_of demo 1 21 11 = 0" "content_of demo 1 21 10 = 50" "total_for_part demo 1 11 On_hand = 40"
    "total_for_part demo 1 10 On_hand = 150" by code_simp+
  have s: "sl_id (demo_storage 21) = 21" by (simp add: demo_storage_def)
  note t = execute_kit_tops_up [OF demo_ledger_ok demo_catalog_ok demo_kit_range x [unfolded demo_kit_def], unfolded s]
  have "content_of d' 1 21 11 = max (content_of demo 1 21 11) (min 5 (total_for_part demo 1 11 On_hand))"
    "content_of d' 1 21 10 = max (content_of demo 1 21 10) (min 10 (total_for_part demo 1 10 On_hand))"
    using t p by blast+
  then have "content_of d' 1 21 11 = 5" "content_of d' 1 21 10 = 50" unfolding v by simp_all
  with x show ?thesis by blast
qed

lemma kitting_again_moves_nothing_witness:
  "\<exists>lines d' lines' d''. kit_response 1 None (the (builds demo 60)) None 21 True demo = Inr (lines, d')
     \<and> kit_response 1 None (the (builds demo 60)) None 21 True d' = Inr (lines', d'')
     \<and> stock_entries d'' = stock_entries d'"
proof -
  obtain lines d' where k: "demo_kit = Inr (lines, d')" by (rule demo_kit_runs)
  have g: "get_project demo 1 (b_project_id (the (builds demo 60))) = Inr (the (projects demo 40))"
    "resolve_staging demo 1 21 = Inr (demo_storage 21)" by (simp_all add: demo_def empty_db_def resolve_staging_def
        belonging_storage_def demo_storage_def)
  have x: "kit_response 1 None (the (builds demo 60)) None 21 True demo = Inr (lines, d')"
    unfolding kit_response_def g bindr_simps using k by (simp add: demo_kit_def)
  have "\<forall>pr p req ids. projects demo (b_project_id (the (builds demo 60))) = Some pr
      \<longrightarrow> (p, req, ids) \<in> set (required_by_part demo 1 (the (builds demo 60)) pr None)
        \<longrightarrow> req < 10 ^ 22 \<and> total_for_part demo 1 p On_hand < 10 ^ 22"
    using demo_kit_range g(1) by auto
  from kitting_again_moves_nothing [OF demo_ledger_ok demo_catalog_ok this x] x show ?thesis by blast
qed

end
