(* ===== verification/Picklist.thy ===== *)
theory Picklist
  imports Kitting PyText "HOL-Library.Product_Lexorder" "HOL-Library.List_Lexorder" "HOL-Library.Char_ord"
begin

text \<open>
  Printable pick lists: \<open>backend/app/domain/builds/picklist.py\<close>. Every line of the sheet draws from
  the buckets of its part, the largest first; lines of the same part share the buckets, so
  what one line takes the next no longer finds. Texts the sheet only copies (designators, part
  numbers, the header) are left out, quantities are not converted for the wire.
\<close>

record pick_bucket =
  bk_storage_location_id :: "uuid option"
  bk_storage_location_name :: "string option"
  bk_lot_id :: "uuid option"
  bk_lot_name :: "string option"
  bk_unit :: string
  bk_available :: rat
  bk_unclaimed :: rat

record pick = pick_bucket +
  pk_take :: rat

record sheet_line =
  sh_project_entry_id :: uuid
  sh_part_id :: uuid
  sh_part_name :: string
  sh_unit :: string
  sh_attrition_pct :: rat
  sh_portion_pct :: "rat option"
  sh_required :: rat
  sh_on_hand :: rat
  sh_alternates_available :: rat
  sh_planned :: rat
  sh_short_by :: rat
  sh_is_short :: bool
  sh_location_count :: nat

record stop_pick =
  sp_project_entry_id :: uuid
  sp_part_id :: uuid
  sp_part_name :: string
  sp_lot_id :: "uuid option"
  sp_lot_name :: "string option"
  sp_quantity :: rat
  sp_unit :: string
  sp_available :: rat

record stop =
  st_storage_location_id :: "uuid option"
  st_storage_location_name :: string
  st_sort :: "nat \<times> string"
  st_picks :: "stop_pick list"

record sheet =
  sheet_lines :: "sheet_line list"
  sheet_stops :: "stop list"
  sheet_short_lines :: nat

definition UNASSIGNED_STOP_NAME :: string where "UNASSIGNED_STOP_NAME = ''Unassigned''"

definition sort_key_for_stop :: "string option \<Rightarrow> nat \<times> string" where
  "sort_key_for_stop name = (case name of None \<Rightarrow> (1, []) | Some n \<Rightarrow> (0, casefold n))"

section \<open>Taking from the buckets of a part\<close>

definition bucket_order :: "pick_bucket \<Rightarrow> rat \<times> (nat \<times> string) \<times> nat" where
  "bucket_order b = (- bk_unclaimed b, sort_key_for_stop (bk_storage_location_name b), opt_rank (bk_lot_id b))"

text \<open>The loop of \<open>_allocate_picks\<close> over the ordered buckets, which it drains in place: the pool is
  updated at the positions \<open>is\<close>.\<close>

fun drain_pool :: "rat \<Rightarrow> nat list \<Rightarrow> pick_bucket list \<Rightarrow> pick list \<times> pick_bucket list" where
  "drain_pool remaining [] pool = ([], pool)"
| "drain_pool remaining (i # is) pool =
     (if remaining \<le> 0 then ([], pool)
      else let b = pool ! i; tk = min remaining (bk_unclaimed b) in
        if tk \<le> 0 then drain_pool remaining is pool
        else let b' = b\<lparr>bk_unclaimed := dec_sub (bk_unclaimed b) tk\<rparr>;
                 (picks, pool') = drain_pool (dec_sub remaining tk) is (pool[i := b'])
             in (pick_bucket.extend b' \<lparr>pk_take = tk\<rparr> # picks, pool'))"

definition allocate_picks :: "rat \<Rightarrow> pick_bucket list \<Rightarrow> pick list \<times> pick_bucket list" where
  "allocate_picks want buckets =
     drain_pool want (sort_key (\<lambda>i. bucket_order (buckets ! i)) [0 ..< length buckets]) buckets"

section \<open>The lines the sheet covers\<close>

type_synonym sheet_row = "project_entry \<times> part \<times> rat \<times> rat option"

definition part_in_workspace :: "db \<Rightarrow> uuid \<Rightarrow> project_entry \<Rightarrow> part option" where
  "part_in_workspace d ws e = (case Option.bind (pe_part_id e) (parts d) of None \<Rightarrow> None
     | Some part \<Rightarrow> if p_workspace_id part = ws then Some part else None)"

definition entry_rows :: "db \<Rightarrow> uuid \<Rightarrow> build \<Rightarrow> project \<Rightarrow> build_stage option \<Rightarrow> sheet_row list" where
  "entry_rows d ws b pr stage =
     (let entries = consumable_entries d ws pr in
      case stage of
        None \<Rightarrow> List.map_filter (\<lambda>e. case part_in_workspace d ws e of None \<Rightarrow> None
          | Some part \<Rightarrow> Some (e, part, of_int (required e (Some part) (b_quantity b)), None)) entries
      | Some s \<Rightarrow>
        let entry = map_of (rev (map (\<lambda>e. (pe_id e, e)) entries));
            portions = map_of (rev (map (\<lambda>l. (bsl_project_entry_id l, bsl_portion_pct l)) (stage_lines d ws [bs_id s])))
        in List.map_filter (\<lambda>(entry_id, quantity). case entry entry_id of None \<Rightarrow> None
          | Some e \<Rightarrow> (case part_in_workspace d ws e of None \<Rightarrow> None
            | Some part \<Rightarrow> if quantity \<le> 0 then None else Some (e, part, of_int quantity, portions entry_id)))
          (stage_allocations d ws b pr (bs_id s)))"

definition alternates :: "db \<Rightarrow> sheet_row list \<Rightarrow> uuid list" where
  "alternates d rows = concat (map (\<lambda>(e, part, _). candidate_part_ids d part) rows)"

text \<open>\<open>by_location\<close>, one query for every part of the sheet and its alternates.\<close>

definition by_location ::
    "db \<Rightarrow> uuid \<Rightarrow> sheet_row list \<Rightarrow> uuid \<Rightarrow> ((uuid option \<times> uuid option \<times> string) \<times> rat) list" where
  "by_location d ws rows =
     bulk_stock_by_location d ws (map (\<lambda>(e, part, _). p_id part) rows @ alternates d rows) On_hand"

text \<open>\<open>_name_maps\<close>: display names, of this workspace's locations and lots only.\<close>

definition storage_name :: "db \<Rightarrow> uuid \<Rightarrow> uuid option \<Rightarrow> string option" where
  "storage_name d ws i = (case Option.bind i (storages d) of None \<Rightarrow> None
     | Some s \<Rightarrow> if sl_workspace_id s = ws then Some (sl_name s) else None)"

definition name_of_lot :: "db \<Rightarrow> uuid \<Rightarrow> uuid option \<Rightarrow> string option" where
  "name_of_lot d ws i = (case Option.bind i (lots d) of None \<Rightarrow> None
     | Some l \<Rightarrow> if lot_workspace_id l = ws then lot_name l else None)"

definition pool_of :: "db \<Rightarrow> uuid \<Rightarrow> sheet_row list \<Rightarrow> uuid \<Rightarrow> pick_bucket list" where
  "pool_of d ws rows p = map (\<lambda>((sto, lot, unit), q).
     \<lparr>bk_storage_location_id = sto, bk_storage_location_name = storage_name d ws sto, bk_lot_id = lot,
      bk_lot_name = name_of_lot d ws lot, bk_unit = unit, bk_available = q, bk_unclaimed = q\<rparr>) (by_location d ws rows p)"

section \<open>The sheet\<close>

definition line_payload :: "sheet_row \<Rightarrow> rat \<Rightarrow> rat \<Rightarrow> pick list \<Rightarrow> sheet_line" where
  "line_payload row on_hand alternates_available picks = (case row of (e, part, req, portion) \<Rightarrow>
     let planned = dec_sum (map pk_take picks); short_by = max 0 (dec_sub req planned) in
     \<lparr>sh_project_entry_id = pe_id e, sh_part_id = p_id part, sh_part_name = p_name part,
      sh_unit = (if p_unit_of_measure part = [] then DEFAULT_UNIT else p_unit_of_measure part),
      sh_attrition_pct = pe_attrition_pct e, sh_portion_pct = portion, sh_required = req, sh_on_hand = on_hand,
      sh_alternates_available = alternates_available, sh_planned = planned, sh_short_by = short_by,
      sh_is_short = (0 < short_by),
      sh_location_count = length (dict_keys (map bk_storage_location_id picks))\<rparr>)"

definition stop_pick_of :: "project_entry \<Rightarrow> part \<Rightarrow> pick \<Rightarrow> stop_pick" where
  "stop_pick_of e part pk =
     \<lparr>sp_project_entry_id = pe_id e, sp_part_id = p_id part, sp_part_name = p_name part,
      sp_lot_id = bk_lot_id pk, sp_lot_name = bk_lot_name pk, sp_quantity = pk_take pk, sp_unit = bk_unit pk,
      sp_available = bk_available pk\<rparr>"

definition new_stop :: "pick \<Rightarrow> stop" where
  "new_stop pk =
     \<lparr>st_storage_location_id = bk_storage_location_id pk,
      st_storage_location_name = (case bk_storage_location_name pk of None \<Rightarrow> UNASSIGNED_STOP_NAME
         | Some n \<Rightarrow> if n = [] then UNASSIGNED_STOP_NAME else n),
      st_sort = sort_key_for_stop (bk_storage_location_name pk), st_picks = []\<rparr>"

text \<open>\<open>stops_by_location.setdefault(\<dots>)\<close>, then \<open>append\<close>.\<close>

definition add_to_stop :: "project_entry \<Rightarrow> part \<Rightarrow> stop list \<Rightarrow> pick \<Rightarrow> stop list" where
  "add_to_stop e part stops pk =
     (let stops' = (if bk_storage_location_id pk \<in> set (map st_storage_location_id stops) then stops
                    else stops @ [new_stop pk])
      in map (\<lambda>s. if st_storage_location_id s = bk_storage_location_id pk
                  then s\<lparr>st_picks := st_picks s @ [stop_pick_of e part pk]\<rparr> else s) stops')"

record sheet_state =
  ss_pools :: "uuid \<Rightarrow> pick_bucket list"
  ss_lines :: "sheet_line list"
  ss_stops :: "stop list"

definition sheet_step :: "db \<Rightarrow> uuid \<Rightarrow> sheet_row list \<Rightarrow> sheet_state \<Rightarrow> sheet_row \<Rightarrow> sheet_state" where
  "sheet_step d ws rows st row = (case row of (e, part, req, portion) \<Rightarrow>
     let pool = ss_pools st (p_id part);
         on_hand = dec_sum (map bk_available pool);
         alternates_available = dec_sum (concat (map (\<lambda>a. map snd (by_location d ws rows a)) (candidate_part_ids d part)));
         (picks, pool') = allocate_picks req pool
     in \<lparr>ss_pools = (ss_pools st)(p_id part := pool'),
         ss_lines = ss_lines st @ [line_payload row on_hand alternates_available picks],
         ss_stops = foldl (add_to_stop e part) (ss_stops st) picks\<rparr>)"

definition pick_list :: "db \<Rightarrow> uuid \<Rightarrow> build \<Rightarrow> project \<Rightarrow> build_stage option \<Rightarrow> sheet" where
  "pick_list d ws b pr stage =
     (let rows = entry_rows d ws b pr stage;
          st = foldl (sheet_step d ws rows) \<lparr>ss_pools = pool_of d ws rows, ss_lines = [], ss_stops = []\<rparr>
                 (sort_key (\<lambda>(e, _). pe_order_index e) rows)
      in \<lparr>sheet_lines = ss_lines st,
          sheet_stops = map (\<lambda>s. s\<lparr>st_picks := sort_key (\<lambda>p. casefold (sp_part_name p)) (st_picks s)\<rparr>)
            (sort_key st_sort (ss_stops st)),
          sheet_short_lines = length (filter sh_is_short (ss_lines st))\<rparr>)"

text \<open>\<open>api/routes/build_picklist.py\<close>: the sheet of a build, or of one of its stages.\<close>

definition build_pick_list :: "db \<Rightarrow> uuid \<Rightarrow> uuid \<Rightarrow> error + sheet" where
  "build_pick_list d ws bid =
     bindr (get_build d ws bid) (\<lambda>b.
     bindr (get_project d ws (b_project_id b)) (\<lambda>project. Inr (pick_list d ws b project None)))"

definition build_stage_pick_list :: "db \<Rightarrow> uuid \<Rightarrow> uuid \<Rightarrow> uuid \<Rightarrow> error + sheet" where
  "build_stage_pick_list d ws bid sid =
     bindr (get_build d ws bid) (\<lambda>b.
     bindr (get_project d ws (b_project_id b)) (\<lambda>project.
     bindr (get_stage d ws b sid) (\<lambda>stage. Inr (pick_list d ws b project (Some stage)))))"

end
