(* ===== verification/PicklistProps.thy ===== *)
theory PicklistProps
  imports Picklist
begin

text \<open>
  A pick sheet can be walked: what it takes from a shelf and lot is there, every location is one
  stop, the stops add up to the lines, and a line is short only when the sheet takes all there is.
\<close>

section \<open>Draining a pool\<close>

lemma sum_where_update:
  fixes v :: "'r \<Rightarrow> rat"
  shows "i < length xs \<Longrightarrow> sum_where v P (xs[i := y])
     = sum_where v P xs - (if P (xs ! i) then v (xs ! i) else 0) + (if P y then v y else 0)"
proof (induction xs arbitrary: i)
  case (Cons x xs)
  then show ?case by (cases i) auto
qed simp

definition bk_key :: "'a pick_bucket_scheme \<Rightarrow> uuid option \<times> uuid option" where
  "bk_key b = (bk_storage_location_id b, bk_lot_id b)"

definition bk_label :: "'a pick_bucket_scheme \<Rightarrow> (uuid option \<times> uuid option) \<times> string option \<times> rat" where
  "bk_label b = (bk_key b, bk_storage_location_name b, bk_available b)"

definition unclaimed_in_range :: "pick_bucket list \<Rightarrow> bool" where
  "unclaimed_in_range pool \<longleftrightarrow> (\<forall>b \<in> set pool. in_range (bk_unclaimed b))"

lemma drain_step:
  assumes "in_range r" "in_range u" "0 < r" "0 < min r u"
  shows "dec_sub u (min r u) = u - min r u" "dec_sub r (min r u) = r - min r u"
    "in_range (u - min r u)" "in_range (r - min r u)" "in_range (min r u)"
  using dec_sub_min [of u r] dec_sub_min [of r u] assms
  by (auto simp: in_range_def min.commute min_def)

lemma sum_list_map_update:
  "i \<notin> set is \<Longrightarrow> sum_list (map (\<lambda>j. g (pool[i := b] ! j)) is) = sum_list (map (\<lambda>j. g (pool ! j)) is)"
  by (rule arg_cong [of _ _ sum_list], rule map_cong [OF refl]) (metis nth_list_update_neq)

lemma drain_pool_effect:
  assumes "drain_pool r is pool = (picks, pool')" and "in_range r" and "unclaimed_in_range pool"
    and "set is \<subseteq> {..< length pool}" and "distinct is"
  shows "map bk_label pool' = map bk_label pool \<and> unclaimed_in_range pool'
    \<and> (\<forall>K. sum_where bk_unclaimed (\<lambda>b. K (bk_key b)) pool' + sum_where pk_take (\<lambda>b. K (bk_key b)) picks
         = sum_where bk_unclaimed (\<lambda>b. K (bk_key b)) pool)
    \<and> sum_list (map pk_take picks) = min r (sum_list (map (\<lambda>i. bk_unclaimed (pool ! i)) is))
    \<and> (\<forall>pk \<in> set picks. in_range (pk_take pk) \<and> bk_label pk \<in> set (map bk_label pool))"
  using assms
proof (induction r "is" pool arbitrary: picks pool' rule: drain_pool.induct)
  case (1 remaining pool)
  then show ?case by (simp add: in_range_def)
next
  case (2 remaining i "is" pool)
  define u where "u = bk_unclaimed (pool ! i)"
  define tk where "tk = min remaining u"
  have i: "i < length pool" "i \<notin> set is" "distinct is" "set is \<subseteq> {..< length pool}"
    using "2.prems"(4,5) by auto
  have u: "in_range u" using "2.prems"(3) i(1) by (simp add: unclaimed_in_range_def u_def)
  have nonneg: "0 \<le> sum_list (map (\<lambda>i. bk_unclaimed (pool ! i)) is)"
    using "2.prems"(3) i(4) by (intro sum_list_nonneg) (auto simp: unclaimed_in_range_def in_range_def)
  consider (enough) "remaining \<le> 0" | (skip) "0 < remaining" "tk \<le> 0" | (some) "0 < remaining" "0 < tk" by linarith
  then show ?case
  proof cases
    case enough
    then have "remaining = 0" "picks = []" "pool' = pool" using "2.prems"(1,2) by (auto simp: in_range_def)
    then show ?thesis using "2.prems"(3) nonneg u by (simp add: in_range_def u_def min_def)
  next
    case skip
    then have u0: "u = 0" using u by (auto simp: tk_def in_range_def min_def split: if_splits)
    have run: "drain_pool remaining is pool = (picks, pool')" using skip "2.prems"(1) u0 by (simp add: u_def Let_def)
    have go: "\<not> remaining \<le> 0" "min remaining (bk_unclaimed (pool ! i)) \<le> 0" using skip by (simp_all add: tk_def u_def)
    from "2.IH"(1) [OF go(1) refl refl go(2) run "2.prems"(2,3) i(4,3)] show ?thesis
      using u0 by (simp add: u_def)
  next
    case some
    define b' where "b' = (pool ! i)\<lparr>bk_unclaimed := dec_sub u tk\<rparr>"
    have go: "\<not> remaining \<le> 0" "\<not> min remaining (bk_unclaimed (pool ! i)) \<le> 0" using some by (simp_all add: tk_def u_def)
    obtain picks0 pool0 where run0: "drain_pool (dec_sub remaining tk) is (pool[i := b']) = (picks0, pool0)" by fastforce
    have "picks = pick_bucket.extend b' \<lparr>pk_take = tk\<rparr> # picks0 \<and> pool' = pool0"
      using "2.prems"(1) some
      unfolding drain_pool.simps(2) Let_def u_def [symmetric] tk_def [symmetric] b'_def [symmetric] run0 by simp
    then have run: "drain_pool (dec_sub remaining tk) is (pool[i := b']) = (picks0, pool')"
      and picks: "picks = pick_bucket.extend b' \<lparr>pk_take = tk\<rparr> # picks0" using run0 by simp_all
    note st = drain_step [OF "2.prems"(2) u some(1) some(2) [unfolded tk_def], folded tk_def]
    have label: "bk_label b' = bk_label (pool ! i)" "bk_key b' = bk_key (pool ! i)" "bk_unclaimed b' = u - tk"
      by (simp_all add: b'_def bk_label_def bk_key_def st)
    have labels: "map bk_label (pool[i := b']) = map bk_label pool"
      using i(1) by (simp add: map_update label(1)) (metis list_update_id nth_map)
    have inr: "in_range (dec_sub remaining tk)" using st by simp
    have pool: "unclaimed_in_range (pool[i := b'])"
      using "2.prems"(3) st(3) label(3) set_update_subset_insert [of pool i b'] by (auto simp: unclaimed_in_range_def)
    have sub: "set is \<subseteq> {..< length (pool[i := b'])}" using i(4) by simp
    from "2.IH"(2) [OF go(1) refl refl go(2) refl, folded u_def, folded tk_def, folded b'_def, OF run inr pool sub i(3)]
    have IH: "map bk_label pool' = map bk_label (pool[i := b'])" "unclaimed_in_range pool'"
      "\<And>K. sum_where bk_unclaimed (\<lambda>b. K (bk_key b)) pool' + sum_where pk_take (\<lambda>b. K (bk_key b)) picks0
         = sum_where bk_unclaimed (\<lambda>b. K (bk_key b)) (pool[i := b'])"
      "sum_list (map pk_take picks0) = min (dec_sub remaining tk) (sum_list (map (\<lambda>j. bk_unclaimed (pool[i := b'] ! j)) is))"
      "\<forall>pk \<in> set picks0. in_range (pk_take pk) \<and> bk_label pk \<in> set (map bk_label (pool[i := b']))"
      by blast+
    define pk where "pk = pick_bucket.extend b' \<lparr>pk_take = tk\<rparr>"
    have first: "pk_take pk = tk" "bk_key pk = bk_key (pool ! i)" "bk_label pk = bk_label (pool ! i)"
      by (simp_all add: pk_def pick_bucket.defs b'_def bk_key_def bk_label_def)
    note picks = picks [folded pk_def]
    have "sum_list (map pk_take picks) = min remaining (u + sum_list (map (\<lambda>j. bk_unclaimed (pool ! j)) is))"
      using IH(4) st(2) nonneg by (simp add: picks first sum_list_map_update [OF i(2)] tk_def min_def)
    moreover have "sum_where bk_unclaimed (\<lambda>b. K (bk_key b)) pool' + sum_where pk_take (\<lambda>b. K (bk_key b)) picks
         = sum_where bk_unclaimed (\<lambda>b. K (bk_key b)) pool" for K
      using IH(3) [of K] i(1) by (cases "K (bk_key (pool ! i))") (simp_all add: picks first sum_where_update label u_def)
    moreover have "\<forall>pk \<in> set picks. in_range (pk_take pk) \<and> bk_label pk \<in> set (map bk_label pool)"
      using IH(5) st(5) i(1) first(3) by (auto simp: picks first(1) labels tk_def)
    ultimately show ?thesis using IH(1,2) by (simp add: labels u_def)
  qed
qed

lemma sum_list_positions: "sum_list (map (\<lambda>i. g (xs ! i)) [0 ..< length xs]) = sum_list (map g xs)"
  by (subst (3) map_nth [of xs, symmetric]) (simp only: map_map comp_def length_map)

text \<open>A part's pool is drained by as much as asked for, or by all it has.\<close>

lemma allocate_picks_effect:
  assumes "allocate_picks r pool = (picks, pool')" and "in_range r \<or> r \<le> 0" and "unclaimed_in_range pool"
  shows "map bk_label pool' = map bk_label pool \<and> unclaimed_in_range pool'
    \<and> (\<forall>K. sum_where bk_unclaimed (\<lambda>b. K (bk_key b)) pool' + sum_where pk_take (\<lambda>b. K (bk_key b)) picks
         = sum_where bk_unclaimed (\<lambda>b. K (bk_key b)) pool)
    \<and> sum_list (map pk_take picks) = min (max 0 r) (sum_list (map bk_unclaimed pool))
    \<and> (\<forall>pk \<in> set picks. in_range (pk_take pk) \<and> bk_label pk \<in> set (map bk_label pool))"
proof (cases "r \<le> 0")
  case True
  have "drain_pool r is pool = ([], pool)" for "is" using True by (cases "is") simp_all
  moreover have "0 \<le> sum_list (map bk_unclaimed pool)"
    using assms(3) by (intro sum_list_nonneg) (auto simp: unclaimed_in_range_def in_range_def)
  ultimately show ?thesis using assms True by (simp add: allocate_picks_def)
next
  case False
  let ?is = "sort_key (\<lambda>i. bucket_order (pool ! i)) [0 ..< length pool]"
  have "sum_list (map (\<lambda>i. bk_unclaimed (pool ! i)) ?is) = sum_list (map (\<lambda>i. bk_unclaimed (pool ! i)) [0 ..< length pool])"
    by (simp flip: sum_mset_sum_list)
  then have "sum_list (map (\<lambda>i. bk_unclaimed (pool ! i)) ?is) = sum_list (map bk_unclaimed pool)"
    by (simp only: sum_list_positions)
  moreover have "set ?is \<subseteq> {..< length pool}" "distinct ?is" by auto
  ultimately show ?thesis
    using drain_pool_effect [OF assms(1) [unfolded allocate_picks_def] _ assms(3)] assms(2) False by (auto simp: max_def)
qed

section \<open>The stops\<close>

text \<open>What the stops so far take of what \<open>Q\<close> asks for.\<close>

definition picked :: "(uuid option \<Rightarrow> stop_pick \<Rightarrow> bool) \<Rightarrow> stop list \<Rightarrow> rat" where
  "picked Q stops = sum_list (map (\<lambda>s. sum_where sp_quantity (Q (st_storage_location_id s)) (st_picks s)) stops)"

lemma picked_simps [simp]: "picked Q [] = 0" "picked Q (s # ss) = sum_where sp_quantity (Q (st_storage_location_id s)) (st_picks s) + picked Q ss"
  "picked Q (ss @ ss') = picked Q ss + picked Q ss'"
  by (simp_all add: picked_def)

lemma stop_pick_of_simps [simp]: "sp_quantity (stop_pick_of e part pk) = pk_take pk" "sp_part_id (stop_pick_of e part pk) = p_id part"
  "sp_project_entry_id (stop_pick_of e part pk) = pe_id e" "sp_lot_id (stop_pick_of e part pk) = bk_lot_id pk"
  by (simp_all add: stop_pick_of_def)

definition put_pick :: "uuid option \<Rightarrow> stop_pick \<Rightarrow> stop list \<Rightarrow> stop list" where
  "put_pick sto x stops = map (\<lambda>s. if st_storage_location_id s = sto then s\<lparr>st_picks := st_picks s @ [x]\<rparr> else s) stops"

lemma put_pick_ids [simp]: "map st_storage_location_id (put_pick sto x stops) = map st_storage_location_id stops"
  "map st_sort (put_pick sto x stops) = map st_sort stops"
  by (simp_all add: put_pick_def)

lemma picked_put_pick:
  "distinct (map st_storage_location_id stops) \<Longrightarrow> picked Q (put_pick sto x stops)
     = picked Q stops + (if sto \<in> set (map st_storage_location_id stops) \<and> Q sto x then sp_quantity x else 0)"
proof (induction stops)
  case (Cons s stops)
  then show ?case by (cases "st_storage_location_id s = sto") (auto simp: put_pick_def)
qed (simp add: put_pick_def)

lemma add_to_stop_picked:
  assumes "distinct (map st_storage_location_id stops)"
  shows "distinct (map st_storage_location_id (add_to_stop e part stops pk))
    \<and> picked Q (add_to_stop e part stops pk)
      = picked Q stops + (if Q (bk_storage_location_id pk) (stop_pick_of e part pk) then pk_take pk else 0)"
proof -
  define stops' where "stops' = (if bk_storage_location_id pk \<in> set (map st_storage_location_id stops) then stops else stops @ [new_stop pk])"
  have eq: "add_to_stop e part stops pk = put_pick (bk_storage_location_id pk) (stop_pick_of e part pk) stops'"
    by (simp add: add_to_stop_def put_pick_def stops'_def Let_def)
  have d: "distinct (map st_storage_location_id stops')" "bk_storage_location_id pk \<in> set (map st_storage_location_id stops')"
    "picked Q stops' = picked Q stops"
    using assms by (auto simp: stops'_def new_stop_def)
  show ?thesis unfolding eq by (simp only: put_pick_ids picked_put_pick [OF d(1)] d stop_pick_of_simps) (use d in simp)
qed

lemma add_picks_picked:
  "distinct (map st_storage_location_id stops) \<Longrightarrow>
   distinct (map st_storage_location_id (foldl (add_to_stop e part) stops picks))
    \<and> picked Q (foldl (add_to_stop e part) stops picks)
      = picked Q stops + sum_where pk_take (\<lambda>pk. Q (bk_storage_location_id pk) (stop_pick_of e part pk)) picks"
proof (induction picks arbitrary: stops)
  case (Cons pk picks)
  note one = add_to_stop_picked [OF Cons.prems, of e part pk]
  from Cons.IH [of "add_to_stop e part stops pk"] one show ?case by simp
qed simp

definition stops_named :: "db \<Rightarrow> uuid \<Rightarrow> stop list \<Rightarrow> bool" where
  "stops_named d ws stops \<longleftrightarrow> (\<forall>s \<in> set stops. st_sort s = sort_key_for_stop (storage_name d ws (st_storage_location_id s)))"

lemma add_picks_named:
  assumes "\<forall>pk \<in> set picks. bk_storage_location_name pk = storage_name d ws (bk_storage_location_id pk)"
    and "stops_named d ws stops"
  shows "stops_named d ws (foldl (add_to_stop e part) stops picks)"
  using assms
proof (induction picks arbitrary: stops)
  case (Cons pk picks)
  have "stops_named d ws (add_to_stop e part stops pk)"
    using Cons.prems by (auto simp: stops_named_def add_to_stop_def Let_def new_stop_def)
  then show ?case using Cons by simp
qed simp

section \<open>One line after the other\<close>

text \<open>What a line says, once the stops are \<open>stops\<close> and the buckets \<open>pools\<close>.\<close>

definition line_true :: "stop list \<Rightarrow> (uuid \<Rightarrow> pick_bucket list) \<Rightarrow> sheet_row \<Rightarrow> sheet_line \<Rightarrow> bool" where
  "line_true stops pools row l \<longleftrightarrow> (case row of (e, part, req, portion) \<Rightarrow>
     sh_project_entry_id l = pe_id e \<and> sh_part_id l = p_id part \<and> sh_required l = req
     \<and> sh_planned l = picked (\<lambda>_ x. sp_project_entry_id x = pe_id e) stops
     \<and> sh_planned l + sh_short_by l = max 0 req \<and> 0 \<le> sh_short_by l \<and> sh_is_short l = (0 < sh_short_by l)
     \<and> (sh_is_short l \<longrightarrow> (\<forall>b \<in> set (pools (p_id part)). bk_unclaimed b = 0)))"

definition row_parts :: "sheet_row list \<Rightarrow> uuid set" where
  "row_parts rows = (\<lambda>(e, part, _). p_id part) ` set rows"

lemma row_partsI: "(e, part, req, portion) \<in> set rows \<Longrightarrow> p_id part \<in> row_parts rows"
  by (force simp: row_parts_def)

definition sheet_inv :: "db \<Rightarrow> uuid \<Rightarrow> sheet_row list \<Rightarrow> sheet_row list \<Rightarrow> sheet_state \<Rightarrow> bool" where
  "sheet_inv d ws rows served st \<longleftrightarrow>
     distinct (map st_storage_location_id (ss_stops st)) \<and> stops_named d ws (ss_stops st)
   \<and> (\<forall>p \<in> row_parts rows. map bk_label (ss_pools st p) = map bk_label (pool_of d ws rows p)
        \<and> unclaimed_in_range (ss_pools st p)
        \<and> (\<forall>K. sum_where bk_unclaimed (\<lambda>b. K (bk_key b)) (ss_pools st p)
               + picked (\<lambda>sto x. sp_part_id x = p \<and> K (sto, sp_lot_id x)) (ss_stops st)
             = sum_where bk_available (\<lambda>b. K (bk_key b)) (pool_of d ws rows p)))
   \<and> list_all2 (line_true (ss_stops st) (ss_pools st)) served (ss_lines st)
   \<and> (\<forall>i. i \<notin> (\<lambda>(e, _). pe_id e) ` set served \<longrightarrow> picked (\<lambda>_ x. sp_project_entry_id x = i) (ss_stops st) = 0)"

lemma sheet_inv_pool:
  assumes "sheet_inv d ws rows served st" and "p \<in> row_parts rows"
  shows "unclaimed_in_range (ss_pools st p)"
    and "sum_where bk_unclaimed (\<lambda>b. K (bk_key b)) (ss_pools st p)
       + picked (\<lambda>sto x. sp_part_id x = p \<and> K (sto, sp_lot_id x)) (ss_stops st)
     = sum_where bk_available (\<lambda>b. K (bk_key b)) (pool_of d ws rows p)"
  using assms by (simp_all add: sheet_inv_def)

lemma unclaimed_zero:
  "unclaimed_in_range pool \<Longrightarrow> sum_list (map bk_unclaimed pool) = 0 \<longleftrightarrow> (\<forall>b \<in> set pool. bk_unclaimed b = 0)"
  by (subst sum_list_nonneg_eq_0_iff) (auto simp: unclaimed_in_range_def in_range_def)

lemma sum_where_all: "sum_where v (\<lambda>_. True) xs = sum_list (map v xs)"
  by (simp add: sum_where_def)

lemma line_payload_true:
  assumes "sum_list (map pk_take picks) = min (max 0 req) avail" "0 \<le> avail"
    and "\<forall>pk \<in> set picks. in_range (pk_take pk)" and "in_range req \<or> req \<le> 0"
  shows "let l = line_payload (e, part, req, portion) oh alt picks in
    sh_planned l = sum_list (map pk_take picks) \<and> sh_short_by l = max 0 req - sum_list (map pk_take picks)"
proof -
  let ?s = "sum_list (map pk_take picks)"
  have "?s < 10 ^ 22" using assms(1,2,4) by (auto simp: in_range_def)
  then have planned: "dec_sum (map pk_take picks) = ?s"
    using assms(3) by (intro dec_sum_grid) (auto simp: in_range_def)
  have grid: "on_grid ?s" using assms(3) on_grid_sum_where [of picks pk_take "\<lambda>_. True"]
    by (auto simp: in_range_def sum_where_all)
  have "max 0 (dec_sub req ?s) = max 0 req - ?s"
  proof (cases "req \<le> 0")
    case True
    then have "?s = 0" using assms(1,2) by simp
    moreover have "dec req \<le> 0" using dec_mono [OF True] by simp
    ultimately show ?thesis using True by (simp add: dec_sub_def)
  next
    case False
    then have r: "0 < req" "req < 10 ^ 22" "on_grid req" using assms(4) by (auto simp: in_range_def)
    have s: "0 \<le> ?s" "?s \<le> req" using assms(1,2) r by auto
    have "dec (req - ?s) = req - ?s" using r s grid by (intro dec_grid on_grid_diff) auto
    then show ?thesis using r s by (simp add: dec_sub_def)
  qed
  with planned show ?thesis by (simp add: line_payload_def Let_def)
qed

text \<open>The step of one line, from its picks.\<close>

lemma drained_stays:
  assumes "allocate_picks req pool = (picks, pool')" and "in_range req \<or> req \<le> 0" and "unclaimed_in_range pool"
    and "(\<forall>b \<in> set pool. bk_unclaimed b = 0) \<or> sum_list (map pk_take picks) < max 0 req"
  shows "\<forall>b \<in> set pool'. bk_unclaimed b = 0"
proof -
  note al = allocate_picks_effect [OF assms(1-3)]
  have "sum_list (map bk_unclaimed pool') + sum_list (map pk_take picks) = sum_list (map bk_unclaimed pool)"
    using conjunct1 [OF conjunct2 [OF conjunct2 [OF al]], THEN spec, of "\<lambda>_. True"] by (simp add: sum_where_all)
  moreover have "sum_list (map pk_take picks) = min (max 0 req) (sum_list (map bk_unclaimed pool))"
    "unclaimed_in_range pool'" using al by blast+
  moreover have "sum_list (map bk_unclaimed pool) = 0" if "\<forall>b \<in> set pool. bk_unclaimed b = 0"
    using that assms(3) by (simp add: unclaimed_zero)
  ultimately have "sum_list (map bk_unclaimed pool') = 0" using assms(4) by auto
  then show ?thesis using unclaimed_zero \<open>unclaimed_in_range pool'\<close> by blast
qed

lemma pools_after:
  assumes inv: "sheet_inv d ws rows served st" and p: "p_id part \<in> row_parts rows" and q: "q \<in> row_parts rows"
    and al: "allocate_picks req (ss_pools st (p_id part)) = (picks, pool')" and req: "in_range req \<or> req \<le> 0"
  shows "map bk_label (((ss_pools st)(p_id part := pool')) q) = map bk_label (pool_of d ws rows q)
    \<and> unclaimed_in_range (((ss_pools st)(p_id part := pool')) q)
    \<and> (\<forall>K. sum_where bk_unclaimed (\<lambda>b. K (bk_key b)) (((ss_pools st)(p_id part := pool')) q)
           + picked (\<lambda>sto x. sp_part_id x = q \<and> K (sto, sp_lot_id x)) (foldl (add_to_stop e part) (ss_stops st) picks)
         = sum_where bk_available (\<lambda>b. K (bk_key b)) (pool_of d ws rows q))"
proof -
  have d: "distinct (map st_storage_location_id (ss_stops st))"
    and lab: "map bk_label (ss_pools st q) = map bk_label (pool_of d ws rows q)"
    using inv q by (simp_all add: sheet_inv_def)
  note old = sheet_inv_pool [OF inv q]
  show ?thesis
  proof (cases "q = p_id part")
    case True
    from allocate_picks_effect [OF al req sheet_inv_pool(1) [OF inv p]]
    have al: "map bk_label pool' = map bk_label (ss_pools st q)" "unclaimed_in_range pool'"
      "\<And>K. sum_where bk_unclaimed (\<lambda>b. K (bk_key b)) pool' + sum_where pk_take (\<lambda>b. K (bk_key b)) picks
         = sum_where bk_unclaimed (\<lambda>b. K (bk_key b)) (ss_pools st q)" by (simp_all add: True)
    have "sum_where bk_unclaimed (\<lambda>b. K (bk_key b)) pool'
        + picked (\<lambda>sto x. sp_part_id x = q \<and> K (sto, sp_lot_id x)) (foldl (add_to_stop e part) (ss_stops st) picks)
      = sum_where bk_available (\<lambda>b. K (bk_key b)) (pool_of d ws rows q)" for K
      using al(3) [of K] old(2) [of K] True by (simp add: add_picks_picked [OF d] bk_key_def)
    then show ?thesis using True al(1,2) lab by simp
  next
    case False
    have "sum_where pk_take (\<lambda>pk. sp_part_id (stop_pick_of e part pk) = q
        \<and> K (bk_storage_location_id pk, sp_lot_id (stop_pick_of e part pk))) picks = 0" for K
      using False by (intro sum_where_none) auto
    then show ?thesis using False old lab by (simp add: add_picks_picked [OF d])
  qed
qed

lemma new_line_true:
  assumes al: "allocate_picks req pool = (picks, pool')" and req: "in_range req \<or> req \<le> 0" and rng: "unclaimed_in_range pool"
    and planned: "picked (\<lambda>_ x. sp_project_entry_id x = pe_id e) stops = sum_list (map pk_take picks)"
    and pools: "pools (p_id part) = pool'"
  shows "line_true stops pools (e, part, req, portion) (line_payload (e, part, req, portion) oh alt picks)"
proof -
  let ?l = "line_payload (e, part, req, portion) oh alt picks"
  from allocate_picks_effect [OF al req rng]
  have sum: "sum_list (map pk_take picks) = min (max 0 req) (sum_list (map bk_unclaimed pool))"
    and takes: "\<forall>pk \<in> set picks. in_range (pk_take pk)" by blast+
  have nonneg: "0 \<le> sum_list (map bk_unclaimed pool)"
    using rng by (intro sum_list_nonneg) (auto simp: unclaimed_in_range_def in_range_def)
  have l: "sh_planned ?l = sum_list (map pk_take picks)" "sh_short_by ?l = max 0 req - sum_list (map pk_take picks)"
    using line_payload_true [OF sum nonneg takes req] by (simp_all add: Let_def)
  have "\<forall>b \<in> set pool'. bk_unclaimed b = 0" if "0 < sh_short_by ?l"
    using drained_stays [OF al req rng] that l(2) by simp
  moreover have "0 \<le> sh_short_by ?l" using l(2) sum nonneg by auto
  moreover have "sh_project_entry_id ?l = pe_id e \<and> sh_part_id ?l = p_id part \<and> sh_required ?l = req
      \<and> sh_is_short ?l = (0 < sh_short_by ?l)"
    by (simp add: line_payload_def Let_def)
  ultimately show ?thesis using l planned pools by (simp add: line_true_def)
qed

lemma sheet_step_inv:
  assumes inv: "sheet_inv d ws rows served st" and row: "(e, part, req, portion) \<in> set rows"
    and req: "in_range req \<or> req \<le> 0" and new: "pe_id e \<notin> (\<lambda>(e, _). pe_id e) ` set served"
  shows "sheet_inv d ws rows (served @ [(e, part, req, portion)]) (sheet_step d ws rows st (e, part, req, portion))"
proof -
  define pool where "pool = ss_pools st (p_id part)"
  obtain picks pool' where al: "allocate_picks req pool = (picks, pool')" by fastforce
  define stops where "stops = foldl (add_to_stop e part) (ss_stops st) picks"
  define pools where "pools = (ss_pools st)(p_id part := pool')"
  obtain oh alt where step: "sheet_step d ws rows st (e, part, req, portion)
      = \<lparr>ss_pools = pools, ss_lines = ss_lines st @ [line_payload (e, part, req, portion) oh alt picks], ss_stops = stops\<rparr>"
    using al by (simp add: sheet_step_def Let_def pool_def stops_def pools_def)
  have p: "p_id part \<in> row_parts rows" using row by (rule row_partsI)
  have d: "distinct (map st_storage_location_id (ss_stops st))" and nm: "stops_named d ws (ss_stops st)"
    and lab: "map bk_label pool = map bk_label (pool_of d ws rows (p_id part))"
    and lines: "list_all2 (line_true (ss_stops st) (ss_pools st)) served (ss_lines st)"
    and unserved: "\<And>i. i \<notin> (\<lambda>(e, _). pe_id e) ` set served \<Longrightarrow> picked (\<lambda>_ x. sp_project_entry_id x = i) (ss_stops st) = 0"
    using inv p by (simp_all add: sheet_inv_def pool_def)
  have rng: "unclaimed_in_range pool" unfolding pool_def by (rule sheet_inv_pool(1) [OF inv p])
  have pk: "picked (\<lambda>_ x. sp_project_entry_id x = i) stops
      = picked (\<lambda>_ x. sp_project_entry_id x = i) (ss_stops st) + (if i = pe_id e then sum_list (map pk_take picks) else 0)" for i
    by (auto simp: stops_def add_picks_picked [OF d] sum_where_def)
  have named: "stops_named d ws stops" unfolding stops_def
  proof (rule add_picks_named [OF _ nm], rule ballI)
    fix k assume "k \<in> set picks"
    then have "bk_label k \<in> set (map bk_label (pool_of d ws rows (p_id part)))"
      using allocate_picks_effect [OF al req rng] lab by metis
    then show "bk_storage_location_name k = storage_name d ws (bk_storage_location_id k)"
      by (auto simp: pool_of_def bk_label_def bk_key_def)
  qed
  have kept: "line_true stops pools row k" if "row \<in> set served" "line_true (ss_stops st) (ss_pools st) row k" for row k
  proof -
    obtain e2 part2 req2 por2 where r: "row = (e2, part2, req2, por2)" by (cases row)
    have "pe_id e2 \<noteq> pe_id e" using new that(1) r by force
    then show ?thesis using that(2) drained_stays [OF al req rng]
      by (auto simp: line_true_def r pk pools_def pool_def)
  qed
  have "list_all2 (line_true stops pools) served (ss_lines st)"
    using lines by (rule list.rel_mono_strong) (use kept in blast)
  moreover have "line_true stops pools (e, part, req, portion) (line_payload (e, part, req, portion) oh alt picks)"
    by (rule new_line_true [OF al req rng]) (use unserved [OF new] in \<open>simp_all add: pk pools_def\<close>)
  ultimately have "list_all2 (line_true stops pools) (served @ [(e, part, req, portion)])
      (ss_lines st @ [line_payload (e, part, req, portion) oh alt picks])"
    by (simp add: list_all2_appendI)
  moreover have "distinct (map st_storage_location_id stops)" using add_picks_picked [OF d] by (simp add: stops_def)
  moreover have "picked (\<lambda>_ x. sp_project_entry_id x = i) stops = 0"
    if "i \<notin> (\<lambda>(e, _). pe_id e) ` set (served @ [(e, part, req, portion)])" for i
    using unserved [of i] that by (simp add: pk)
  ultimately show ?thesis using named pools_after [OF inv p _ al [unfolded pool_def] req, of _ e]
    unfolding sheet_inv_def step stops_def pools_def by simp
qed

section \<open>The pool is the ledger\<close>

lemma bulk_stock_grid:
  assumes "ledger_ok d" and "(k, q) \<in> set (bulk_stock_by_location d ws part_ids st p)"
  shows "0 < q" and "on_grid q"
proof -
  from assms(2) obtain P where "q = sum_where se_quantity_delta P (stock_entries d)" and "0 < q"
    by (auto simp: bulk_stock_by_location_def group_sum_iff split: if_splits)
  then show "0 < q" "on_grid q" using assms(1) by (auto simp: ledger_ok_def row_ok_def intro: on_grid_sum_where)
qed

lemma pool_adds_up:
  assumes "ledger_ok d" "part_in_ws d ws p" and "p \<in> row_parts rows"
  shows "sum_where bk_available (\<lambda>b. K (bk_key b)) (pool_of d ws rows p)
    = sum_where se_quantity_delta (\<lambda>e. se_workspace_id e = ws \<and> se_part_id e = Some p \<and> se_status e = On_hand
        \<and> K (se_storage_location_id e, se_lot_id e)) (stock_entries d)"
proof -
  let ?ids = "map (\<lambda>(e, part, _). p_id part) rows @ alternates d rows"
  have p: "p \<in> set ?ids" using assms(3) by (auto simp: row_parts_def)
  have "sum_where bk_available (\<lambda>b. K (bk_key b)) (pool_of d ws rows p)
    = sum_where snd (\<lambda>((sto, lot, u), q). K (sto, lot)) (bulk_stock_by_location d ws ?ids On_hand p)"
    by (simp add: pool_of_def by_location_def sum_where_def filter_map comp_def case_prod_unfold bk_key_def)
  then show ?thesis using bulk_stock_where [OF assms(1) p assms(2), of K On_hand] by simp
qed

lemma pool_in_range:
  assumes "ledger_ok d" "part_in_ws d ws p" and "p \<in> row_parts rows"
    and "total_for_part d ws p On_hand < 10 ^ 22"
  shows "unclaimed_in_range (pool_of d ws rows p)"
proof -
  have "sum_where bk_available (\<lambda>b. True) (pool_of d ws rows p) = total_for_part d ws p On_hand"
    using pool_adds_up [OF assms(1-3), of "\<lambda>_. True"]
    by (simp add: total_for_part_def current_quantity_def)
  then have total: "sum_list (map bk_available (pool_of d ws rows p)) < 10 ^ 22" using assms(4) by (simp add: sum_where_all)
  have pos: "0 < bk_available b \<and> on_grid (bk_available b) \<and> bk_unclaimed b = bk_available b" if "b \<in> set (pool_of d ws rows p)" for b
    using that bulk_stock_grid [OF assms(1), of _ _ ws] unfolding pool_of_def by_location_def by fastforce
  have "bk_available b < 10 ^ 22" if "b \<in> set (pool_of d ws rows p)" for b
  proof -
    have "bk_available b \<le> sum_list (map bk_available (pool_of d ws rows p))"
      using that pos by (intro member_le_sum_list) (auto simp: less_imp_le)
    then show ?thesis using total by linarith
  qed
  then show ?thesis using pos by (auto simp: unclaimed_in_range_def in_range_def less_imp_le)
qed

section \<open>The sheet\<close>

lemma sheet_loop_inv:
  assumes "sheet_inv d ws rows served st" and "set (served @ todo) \<subseteq> set rows"
    and "\<forall>(e, part, req, portion) \<in> set todo. in_range req \<or> req \<le> 0"
    and "distinct (map (\<lambda>(e, _). pe_id e) (served @ todo))"
  shows "sheet_inv d ws rows (served @ todo) (foldl (sheet_step d ws rows) st todo)"
  using assms
proof (induction todo arbitrary: served st)
  case (Cons row todo)
  obtain e part req portion where row: "row = (e, part, req, portion)" by (cases row)
  have "sheet_inv d ws rows (served @ [(e, part, req, portion)]) (sheet_step d ws rows st (e, part, req, portion))"
    by (rule sheet_step_inv [OF Cons.prems(1)]) (use Cons.prems(2-4) in \<open>auto simp: row\<close>)
  from Cons.IH [OF this] Cons.prems(2-4) show ?case by (simp add: row)
qed simp

lemma sheet_inv_start:
  assumes "\<And>p. p \<in> row_parts rows \<Longrightarrow> unclaimed_in_range (pool_of d ws rows p)"
  shows "sheet_inv d ws rows [] \<lparr>ss_pools = pool_of d ws rows, ss_lines = [], ss_stops = []\<rparr>"
proof -
  have "sum_where bk_unclaimed P (pool_of d ws rows p) = sum_where bk_available P (pool_of d ws rows p)" for P p
    by (rule sum_where_cong) (auto simp: pool_of_def)
  then show ?thesis using assms by (auto simp: sheet_inv_def stops_named_def)
qed

lemma entry_rows_part:
  assumes "catalog_ok d" and "(e, part, req, portion) \<in> set (entry_rows d ws b pr stage)"
  shows "part_in_ws d ws (p_id part)" and "on_grid req"
proof -
  have "part_in_workspace d ws e = Some part \<and> (\<exists>k. req = of_int k)"
    using assms(2) by (auto simp: entry_rows_def Let_def set_map_filter split: option.splits if_splits)
  then show "part_in_ws d ws (p_id part)" "on_grid req"
    using catalog_ok_part [OF assms(1)]
    by (auto simp: part_in_workspace_def part_in_ws_def split: option.splits if_splits bind_splits)
qed

lemma pick_list_inv:
  assumes ok: "ledger_ok d" "catalog_ok d"
    and ids: "distinct (map (\<lambda>(e, _). pe_id e) (entry_rows d ws b pr stage))"
    and range: "\<forall>(e, part, req, portion) \<in> set (entry_rows d ws b pr stage).
       req < 10 ^ 22 \<and> total_for_part d ws (p_id part) On_hand < 10 ^ 22"
  obtains st where "sheet_inv d ws (entry_rows d ws b pr stage) (sort_key (\<lambda>(e, _). pe_order_index e) (entry_rows d ws b pr stage)) st"
    "sheet_lines (pick_list d ws b pr stage) = ss_lines st"
    "sheet_stops (pick_list d ws b pr stage)
       = map (\<lambda>s. s\<lparr>st_picks := sort_key (\<lambda>p. casefold (sp_part_name p)) (st_picks s)\<rparr>) (sort_key st_sort (ss_stops st))"
proof -
  define rows where "rows = entry_rows d ws b pr stage"
  define todo where "todo = sort_key (\<lambda>(e, _). pe_order_index e) rows"
  have start: "sheet_inv d ws rows [] \<lparr>ss_pools = pool_of d ws rows, ss_lines = [], ss_stops = []\<rparr>"
  proof (rule sheet_inv_start)
    fix p assume p: "p \<in> row_parts rows"
    then show "unclaimed_in_range (pool_of d ws rows p)"
      using pool_in_range [OF ok(1) _ p] entry_rows_part [OF ok(2)] range by (auto simp: rows_def row_parts_def)
  qed
  have req: "\<forall>(e, part, req, portion) \<in> set todo. in_range req \<or> req \<le> 0"
    using range entry_rows_part [OF ok(2)] by (fastforce simp: todo_def rows_def in_range_def)
  have "distinct (map (\<lambda>(e, _). pe_id e) todo)" using ids by (simp add: todo_def rows_def distinct_map)
  from sheet_loop_inv [OF start _ req] this
  have "sheet_inv d ws rows todo (foldl (sheet_step d ws rows) \<lparr>ss_pools = pool_of d ws rows, ss_lines = [], ss_stops = []\<rparr> todo)"
    by (simp add: todo_def)
  then show thesis using that by (simp add: pick_list_def Let_def rows_def todo_def)
qed

lemma picked_sorted:
  "picked Q (map (\<lambda>s. s\<lparr>st_picks := sort_key f (st_picks s)\<rparr>) (sort_key g stops)) = picked Q stops"
proof -
  have "sum_where sp_quantity P (sort_key f xs) = sum_where sp_quantity P xs" for P xs
    by (simp add: sum_where_def filter_sort flip: sum_mset_sum_list)
  then show ?thesis by (simp add: picked_def comp_def flip: sum_mset_sum_list)
qed

text \<open>
  C22: the sheet can be walked: the stops are distinct locations in walking order, unassigned stock
  last, and what the sheet takes of a part from a location and lot, over all its lines and
  stops, is at most what the ledger has there.
\<close>

theorem pick_sheet_fits_the_shelves:
  assumes "ledger_ok d" "catalog_ok d"
    and "distinct (map (\<lambda>(e, _). pe_id e) (entry_rows d ws b pr stage))"
    and "\<forall>(e, part, req, portion) \<in> set (entry_rows d ws b pr stage).
       req < 10 ^ 22 \<and> total_for_part d ws (p_id part) On_hand < 10 ^ 22"
    and "p \<in> row_parts (entry_rows d ws b pr stage)"
  shows "picked (\<lambda>s x. s = sto \<and> sp_part_id x = p \<and> sp_lot_id x = lot) (sheet_stops (pick_list d ws b pr stage))
      \<le> current_quantity d ws p sto lot On_hand True
    \<and> distinct (map st_storage_location_id (sheet_stops (pick_list d ws b pr stage)))
    \<and> sorted (map (\<lambda>s. sort_key_for_stop (storage_name d ws (st_storage_location_id s))) (sheet_stops (pick_list d ws b pr stage)))"
proof -
  define rows where "rows = entry_rows d ws b pr stage"
  from pick_list_inv [OF assms(1-4)] obtain st where
    inv: "sheet_inv d ws rows (sort_key (\<lambda>(e, _). pe_order_index e) rows) st"
    and stops: "sheet_stops (pick_list d ws b pr stage)
       = map (\<lambda>s. s\<lparr>st_picks := sort_key (\<lambda>p. casefold (sp_part_name p)) (st_picks s)\<rparr>) (sort_key st_sort (ss_stops st))"
    unfolding rows_def by blast
  have p: "p \<in> row_parts rows" using assms(5) by (simp add: rows_def)
  then have in_ws: "part_in_ws d ws p" using entry_rows_part(1) [OF assms(2)] by (auto simp: rows_def row_parts_def)
  have sums: "unclaimed_in_range (ss_pools st p)"
    "sum_where bk_unclaimed (\<lambda>b. bk_key b = (sto, lot)) (ss_pools st p) + picked (\<lambda>s x. sp_part_id x = p \<and> (s, sp_lot_id x) = (sto, lot)) (ss_stops st)
      = sum_where bk_available (\<lambda>b. bk_key b = (sto, lot)) (pool_of d ws rows p)"
    using sheet_inv_pool(1) [OF inv p] sheet_inv_pool(2) [OF inv p, of "\<lambda>k. k = (sto, lot)"] by simp_all
  have "sum_where bk_available (\<lambda>b. bk_key b = (sto, lot)) (pool_of d ws rows p) = current_quantity d ws p sto lot On_hand True"
    using pool_adds_up [OF assms(1) in_ws p, of "\<lambda>k. k = (sto, lot)"] by (simp add: current_quantity_def)
  moreover have "0 \<le> sum_where bk_unclaimed (\<lambda>b. bk_key b = (sto, lot)) (ss_pools st p)"
    using sums(1) by (intro sum_where_nonneg) (auto simp: unclaimed_in_range_def in_range_def)
  moreover have "picked (\<lambda>s x. sp_part_id x = p \<and> (s, sp_lot_id x) = (sto, lot)) (ss_stops st)
      = picked (\<lambda>s x. s = sto \<and> sp_part_id x = p \<and> sp_lot_id x = lot) (ss_stops st)"
    by (intro arg_cong2 [of _ _ _ _ picked] ext) auto
  ultimately have "picked (\<lambda>s x. s = sto \<and> sp_part_id x = p \<and> sp_lot_id x = lot) (ss_stops st) \<le> current_quantity d ws p sto lot On_hand True"
    using sums(2) by linarith
  moreover have "map (\<lambda>s. sort_key_for_stop (storage_name d ws (st_storage_location_id s))) (sort_key st_sort (ss_stops st))
      = map st_sort (sort_key st_sort (ss_stops st))"
    using inv by (auto simp: sheet_inv_def stops_named_def)
  moreover have "distinct (map st_storage_location_id (sort_key st_sort (ss_stops st)))"
    using inv by (simp add: sheet_inv_def distinct_map)
  moreover have "sorted (map st_sort (sort_key st_sort (ss_stops st)))" by simp
  ultimately show ?thesis by (simp add: stops picked_sorted comp_def del: map_eq_conv)
qed

text \<open>
  the sheet's lines are the rows in bill-of-materials order and add up: what the stops take for
  a line is its planned quantity, planned and short together make the requirement, and a line
  is short only when the sheet takes all stock of its part.
\<close>

theorem pick_sheet_adds_up:
  assumes "ledger_ok d" "catalog_ok d"
    and "distinct (map (\<lambda>(e, _). pe_id e) (entry_rows d ws b pr stage))"
    and "\<forall>(e, part, req, portion) \<in> set (entry_rows d ws b pr stage).
       req < 10 ^ 22 \<and> total_for_part d ws (p_id part) On_hand < 10 ^ 22"
  shows "list_all2 (\<lambda>(e, part, req, portion) l.
      sh_project_entry_id l = pe_id e \<and> sh_part_id l = p_id part \<and> sh_required l = req
      \<and> sh_planned l = picked (\<lambda>s x. sp_project_entry_id x = pe_id e) (sheet_stops (pick_list d ws b pr stage))
      \<and> sh_planned l + sh_short_by l = max 0 req \<and> 0 \<le> sh_short_by l \<and> sh_is_short l = (0 < sh_short_by l)
      \<and> (sh_is_short l \<longrightarrow> picked (\<lambda>s x. sp_part_id x = p_id part) (sheet_stops (pick_list d ws b pr stage))
            = total_for_part d ws (p_id part) On_hand))
    (sort_key (\<lambda>(e, _). pe_order_index e) (entry_rows d ws b pr stage)) (sheet_lines (pick_list d ws b pr stage))"
proof -
  define rows where "rows = entry_rows d ws b pr stage"
  from pick_list_inv [OF assms] obtain st where
    inv: "sheet_inv d ws rows (sort_key (\<lambda>(e, _). pe_order_index e) rows) st"
    and sheet: "sheet_lines (pick_list d ws b pr stage) = ss_lines st" "sheet_stops (pick_list d ws b pr stage)
       = map (\<lambda>s. s\<lparr>st_picks := sort_key (\<lambda>p. casefold (sp_part_name p)) (st_picks s)\<rparr>) (sort_key st_sort (ss_stops st))"
    unfolding rows_def by blast
  have all: "picked (\<lambda>s x. sp_part_id x = p_id part) (ss_stops st) = total_for_part d ws (p_id part) On_hand"
    if row: "(e, part, req, portion) \<in> set rows" and z: "\<forall>b \<in> set (ss_pools st (p_id part)). bk_unclaimed b = 0" for e part req portion
  proof -
    have p: "p_id part \<in> row_parts rows" using row by (rule row_partsI)
    have "sum_where bk_unclaimed (\<lambda>b. True) (ss_pools st (p_id part)) + picked (\<lambda>s x. sp_part_id x = p_id part \<and> True) (ss_stops st)
      = sum_where bk_available (\<lambda>b. True) (pool_of d ws rows (p_id part))"
      by (rule sheet_inv_pool(2) [OF inv p])
    moreover have "sum_where bk_unclaimed (\<lambda>b. True) (ss_pools st (p_id part)) = 0"
      using z by (simp add: sum_where_all sum_list_0 cong: map_cong)
    ultimately show ?thesis
      using pool_adds_up [OF assms(1) entry_rows_part(1) [OF assms(2) row [unfolded rows_def]] p, of "\<lambda>_. True"]
      by (simp add: total_for_part_def current_quantity_def)
  qed
  have "list_all2 (line_true (ss_stops st) (ss_pools st)) (sort_key (\<lambda>(e, _). pe_order_index e) rows) (ss_lines st)"
    using inv by (simp add: sheet_inv_def)
  then show ?thesis unfolding sheet picked_sorted rows_def [symmetric]
    by (rule list.rel_mono_strong) (auto simp: line_true_def dest: all)
qed

section \<open>Witnesses\<close>

definition big_build :: build where
  "big_build = (the (builds demo 60))\<lparr>b_quantity := 50\<rparr>"

definition big_rows :: "sheet_row list" where
  "big_rows = entry_rows demo 1 big_build (the (projects demo 40)) None"

definition big_sheet :: sheet where
  "big_sheet = pick_list demo 1 big_build (the (projects demo 40)) None"

lemma big_rows_eq: "entry_rows demo 1 big_build (the (projects demo 40)) None
    = [(demo_entry 50 Et_part (Some 10) 2 0, demo_part 10 Local ''resistor'', 100, None),
       (demo_entry 51 Et_part (Some 11) 1 1, demo_part 11 Local ''substitute'', 50, None)]"
proof -
  have "required (demo_entry 50 Et_part (Some 10) 2 0) (Some (demo_part 10 Local ''resistor'')) 50 = 100"
    "required (demo_entry 51 Et_part (Some 11) 1 1) (Some (demo_part 11 Local ''substitute'')) 50 = 50" by code_simp+
  then show ?thesis
    by (simp add: entry_rows_def consumable_entries_def project_bom_def demo_def empty_db_def big_build_def
      part_in_workspace_def demo_entry_def demo_part_def List.map_filter_def)
qed

lemma big_rows_ok:
  "distinct (map (\<lambda>(e, _). pe_id e) (entry_rows demo 1 big_build (the (projects demo 40)) None))"
  "\<forall>(e, part, req, portion) \<in> set (entry_rows demo 1 big_build (the (projects demo 40)) None).
     req < 10 ^ 22 \<and> total_for_part demo 1 (p_id part) On_hand < 10 ^ 22"
  "10 \<in> row_parts (entry_rows demo 1 big_build (the (projects demo 40)) None)"
proof -
  have "total_for_part demo 1 10 On_hand = 150" "total_for_part demo 1 11 On_hand = 40"
    by (simp_all add: total_for_part_def current_quantity_def demo_def empty_db_def demo_row_def blank_entry_def)
  then show "distinct (map (\<lambda>(e, _). pe_id e) (entry_rows demo 1 big_build (the (projects demo 40)) None))"
    "\<forall>(e, part, req, portion) \<in> set (entry_rows demo 1 big_build (the (projects demo 40)) None).
     req < 10 ^ 22 \<and> total_for_part demo 1 (p_id part) On_hand < 10 ^ 22"
    "10 \<in> row_parts (entry_rows demo 1 big_build (the (projects demo 40)) None)"
    unfolding big_rows_eq by (simp_all add: row_parts_def demo_entry_def demo_part_def)
qed

theorem pick_sheet_fits_the_shelves_witness:
  "picked (\<lambda>s x. s = Some 21 \<and> sp_part_id x = 10 \<and> sp_lot_id x = None) (sheet_stops big_sheet) \<le> 50"
proof -
  have "current_quantity demo 1 10 (Some 21) None On_hand True = 50"
    by (simp add: current_quantity_def demo_def empty_db_def demo_row_def blank_entry_def)
  with pick_sheet_fits_the_shelves [OF demo_ledger_ok demo_catalog_ok big_rows_ok, of "Some 21" None]
  show ?thesis by (simp add: big_sheet_def)
qed

theorem pick_sheet_adds_up_witness:
  "map sh_required (sheet_lines big_sheet) = [100, 50]
   \<and> list_all2 (\<lambda>(e, part, req, portion) l. sh_planned l + sh_short_by l = max 0 req)
       (sort_key (\<lambda>(e, _). pe_order_index e) big_rows) (sheet_lines big_sheet)"
proof -
  define rows where "rows = sort_key (\<lambda>(e, _). pe_order_index e) big_rows"
  have all: "list_all2 (\<lambda>(e, part, req, portion) l. sh_required l = req \<and> sh_planned l + sh_short_by l = max 0 req)
       rows (sheet_lines big_sheet)"
    using pick_sheet_adds_up [OF demo_ledger_ok demo_catalog_ok big_rows_ok(1,2)]
    unfolding rows_def big_rows_def big_sheet_def by (rule list_all2_mono) auto
  have reqs: "map sh_required ls = map (\<lambda>(e, part, req, portion). req) rs"
    if "list_all2 (\<lambda>(e, part, req, portion) l. sh_required l = req \<and> sh_planned l + sh_short_by l = max 0 req) rs ls" for rs ls
    using that by induction auto
  have "map (\<lambda>(e, part, req, portion). req) rows = [100, 50]" 
    unfolding rows_def big_rows_def big_rows_eq by (simp add: demo_entry_def)
  then have "map sh_required (sheet_lines big_sheet) = [100, 50]" by (simp only: reqs [OF all])
  moreover have "list_all2 (\<lambda>(e, part, req, portion) l. sh_planned l + sh_short_by l = max 0 req) rows (sheet_lines big_sheet)"
    using all by (rule list_all2_mono) auto
  ultimately show ?thesis unfolding rows_def by blast
qed

end
