(* ===== verification/Categories.thy ===== *)
theory Categories
  imports PyText
begin

text \<open>
  Part categories, a tree kept as an adjacency list: \<open>backend/app/domain/categories/tree.py\<close>
  (the walks and the guard on a new parent) and \<open>categories/service.py\<close> (create, update,
  archive, restore). The state is the table, the workspace locks taken, a clock and the next
  id. Columns the tree never reads (KiCad references, templates, list columns) are left out,
  and so are the audit rows of the routes.
\<close>

section \<open>State\<close>

record part_category =
  pc_id :: uuid
  pc_workspace_id :: uuid
  pc_name :: string
  pc_sort_order :: int
  pc_library_slug :: string
  pc_parent_id :: "uuid option"
  pc_archived_at :: "nat option"
  pc_updated_by :: "uuid option"

record cat_db =
  part_categories :: "part_category list"
  tree_locks :: "uuid list"
  cat_clock :: nat
  next_category_id :: uuid

datatype category_error =
  Category_not_found
| Category_name_conflict uuid
| Category_slug_conflict uuid
| Category_parent_cycle
| Category_archived string
| Category_too_deep nat
| Category_field_not_nullable
| Category_workspace_isolation

definition MAX_DEPTH :: nat where "MAX_DEPTH = 6"

text \<open>\<open>id -> parent_id or None\<close>, in table order.\<close>

type_synonym parent_map = "(uuid \<times> uuid option) list"

definition lock_workspace_tree :: "uuid \<Rightarrow> cat_db \<Rightarrow> cat_db" where
  "lock_workspace_tree ws d =
     (if ws \<in> set (tree_locks d) then d else d\<lparr>tree_locks := tree_locks d @ [ws]\<rparr>)"

definition load_parent_map :: "cat_db \<Rightarrow> uuid \<Rightarrow> parent_map" where
  "load_parent_map d ws =
     map (\<lambda>c. (pc_id c, pc_parent_id c)) (filter (\<lambda>c. pc_workspace_id c = ws) (part_categories d))"

section \<open>The walks\<close>

text \<open>\<open>parent_map.get(x)\<close>: no entry and an entry \<open>None\<close> read the same.\<close>

definition parent_of :: "parent_map \<Rightarrow> uuid \<Rightarrow> uuid option" where
  "parent_of m x = (case map_of m x of None \<Rightarrow> None | Some p \<Rightarrow> p)"

function ancestor_walk :: "parent_map \<Rightarrow> uuid set \<Rightarrow> uuid option \<Rightarrow> uuid list" where
  "ancestor_walk m seen None = []"
| "ancestor_walk m seen (Some c) =
     (if c \<in> seen then [] else c # ancestor_walk m (insert c seen) (parent_of m c))"
  by pat_completeness auto
termination
proof (relation "measure (\<lambda>(m, seen, cur). card (fst ` set m - seen) + (if cur = None then 0 else 1))")
  fix m :: parent_map and seen :: "uuid set" and c
  assume c: "c \<notin> seen"
  show "((m, insert c seen, parent_of m c), m, seen, Some c)
      \<in> measure (\<lambda>(m, seen, cur). card (fst ` set m - seen) + (if cur = None then 0 else 1))"
  proof (cases "c \<in> fst ` set m")
    case True
    with c have "c \<in> fst ` set m - seen" by simp
    then have "card (fst ` set m - insert c seen) < card (fst ` set m - seen)"
      by (intro psubset_card_mono) auto
    then show ?thesis by simp
  next
    case False
    then have "map_of m c = None" by (simp add: map_of_eq_None_iff)
    then have "parent_of m c = None" by (simp add: parent_of_def)
    moreover have "fst ` set m - insert c seen = fst ` set m - seen" using False by blast
    ultimately show ?thesis by simp
  qed
qed simp

definition ancestor_ids :: "parent_map \<Rightarrow> uuid \<Rightarrow> uuid list" where
  "ancestor_ids m x = ancestor_walk m {x} (parent_of m x)"

definition depth_of :: "parent_map \<Rightarrow> uuid \<Rightarrow> nat" where
  "depth_of m x = 1 + length (ancestor_ids m x)"

definition children_of :: "parent_map \<Rightarrow> uuid \<Rightarrow> uuid list" where
  "children_of m p = map fst (filter (\<lambda>(_, par). par = Some p) m)"

text \<open>The inner loop of \<open>descendant_ids\<close>: the children not seen yet, each once.\<close>

fun new_children :: "uuid set \<Rightarrow> uuid list \<Rightarrow> uuid list" where
  "new_children out [] = []"
| "new_children out (c # cs) = (if c \<in> out then new_children out cs else c # new_children (insert c out) cs)"

lemma set_new_children [simp]: "set (new_children out cs) = set cs - out"
  by (induction out cs rule: new_children.induct) auto

lemma set_children_of: "y \<in> set (children_of m p) \<longleftrightarrow> (y, Some p) \<in> set m"
  by (force simp: children_of_def)

lemma children_of_keys: "set (children_of m p) \<subseteq> fst ` set m"
  by (force simp: children_of_def)

function descend :: "parent_map \<Rightarrow> uuid set \<Rightarrow> uuid list \<Rightarrow> uuid set" where
  "descend m out [] = out"
| "descend m out (node # queue) =
     (let new = new_children out (children_of m node) in descend m (out \<union> set new) (queue @ new))"
  by pat_completeness auto
termination
proof (relation "measures [\<lambda>(m, out, queue). card (fst ` set m - out), \<lambda>(m, out, queue). length queue]")
  fix m :: parent_map and out :: "uuid set" and node queue and new :: "uuid list"
  assume new: "new = new_children out (children_of m node)"
  show "((m, out \<union> set new, queue @ new), m, out, node # queue)
      \<in> measures [\<lambda>(m, out, queue). card (fst ` set m - out), \<lambda>(m, out, queue). length queue]"
  proof (cases "new = []")
    case False
    then obtain c where c: "c \<in> set new" by (cases new) auto
    then have "c \<in> fst ` set m - out" using new children_of_keys by auto
    with c have "card (fst ` set m - (out \<union> set new)) < card (fst ` set m - out)"
      by (intro psubset_card_mono) auto
    then show ?thesis by simp
  qed simp
qed simp

definition descendant_ids :: "parent_map \<Rightarrow> uuid \<Rightarrow> uuid set" where
  "descendant_ids m x = descend m {x} [x]"

function height_from :: "parent_map \<Rightarrow> uuid set \<Rightarrow> uuid list \<Rightarrow> nat" where
  "height_from m seen level =
     (let next_level = filter (\<lambda>c. c \<notin> seen) (concat (map (children_of m) level)) in
      if next_level = [] then 0 else 1 + height_from m (seen \<union> set next_level) next_level)"
  by pat_completeness auto
termination
proof (relation "measure (\<lambda>(m, seen, level). card (fst ` set m - seen))")
  fix m :: parent_map and seen :: "uuid set" and level next_level
  assume nl: "next_level = filter (\<lambda>c. c \<notin> seen) (concat (map (children_of m) level))" and "next_level \<noteq> []"
  from last_in_set [OF this(2)] obtain c where "c \<in> set next_level" by blast
  then have "c \<in> fst ` set m - seen" "c \<in> set next_level" using nl children_of_keys by auto
  then have "card (fst ` set m - (seen \<union> set next_level)) < card (fst ` set m - seen)"
    by (intro psubset_card_mono) auto
  then show "((m, seen \<union> set next_level, next_level), m, seen, level) \<in> measure (\<lambda>(m, seen, level). card (fst ` set m - seen))"
    by simp
qed simp

declare height_from.simps [simp del]

definition subtree_height :: "parent_map \<Rightarrow> uuid \<Rightarrow> nat" where
  "subtree_height m x = height_from m {x} [x]"

section \<open>The service\<close>

definition get_category :: "cat_db \<Rightarrow> uuid \<Rightarrow> uuid \<Rightarrow> category_error + part_category" where
  "get_category d ws i = (case find (\<lambda>c. pc_id c = i \<and> pc_workspace_id c = ws) (part_categories d) of
     None \<Rightarrow> Inl Category_not_found | Some c \<Rightarrow> Inr c)"

definition validate_parent :: "uuid \<Rightarrow> uuid option \<Rightarrow> uuid option \<Rightarrow> cat_db \<Rightarrow> category_error + cat_db" where
  "validate_parent ws parent_id category_id d = (case parent_id of None \<Rightarrow> Inr d | Some pid \<Rightarrow>
     if category_id = Some pid then Inl Category_parent_cycle
     else let d1 = lock_workspace_tree ws d in
     bindr (get_category d1 ws pid) (\<lambda>parent.
     if pc_archived_at parent \<noteq> None then Inl (Category_archived (pc_name parent))
     else let m = load_parent_map d1 ws in
     if (case category_id of None \<Rightarrow> False | Some c \<Rightarrow> c \<in> set (ancestor_ids m pid)) then Inl Category_parent_cycle
     else let height = (case category_id of None \<Rightarrow> 0 | Some c \<Rightarrow> subtree_height m c);
              resulting_depth = depth_of m pid + 1 + height in
     if MAX_DEPTH < resulting_depth then Inl (Category_too_deep resulting_depth) else Inr d1))"

definition active_by :: "cat_db \<Rightarrow> uuid \<Rightarrow> (part_category \<Rightarrow> string) \<Rightarrow> string \<Rightarrow> uuid option \<Rightarrow> part_category option" where
  "active_by d ws column v exclude_id = find (\<lambda>c. pc_workspace_id c = ws \<and> pc_archived_at c = None
      \<and> column c = v \<and> exclude_id \<noteq> Some (pc_id c)) (part_categories d)"

definition assert_available ::
    "cat_db \<Rightarrow> uuid \<Rightarrow> string \<Rightarrow> string \<Rightarrow> uuid option \<Rightarrow> category_error + unit" where
  "assert_available d ws nm slug exclude_id = (case active_by d ws pc_name nm exclude_id of
     Some clash \<Rightarrow> Inl (Category_name_conflict (pc_id clash))
   | None \<Rightarrow> (case active_by d ws pc_library_slug slug exclude_id of
       Some clash \<Rightarrow> Inl (Category_slug_conflict (pc_id clash)) | None \<Rightarrow> Inr ()))"

text \<open>The trigger \<open>check_part_categories_parent_workspace\<close> of migration 0078.\<close>

definition check_part_categories_parent_workspace :: "cat_db \<Rightarrow> part_category \<Rightarrow> bool" where
  "check_part_categories_parent_workspace d c = (case pc_parent_id c of None \<Rightarrow> True
     | Some p \<Rightarrow> \<exists>x \<in> set (part_categories d). pc_id x = p \<and> pc_workspace_id x = pc_workspace_id c)"

subsection \<open>\<open>slugify\<close>\<close>

definition slug_char :: "char \<Rightarrow> bool" where
  "slug_char c = (let n = (of_char c :: nat) in 97 \<le> n \<and> n \<le> 122 \<or> 48 \<le> n \<and> n \<le> 57)"

text \<open>\<open>re.sub("[^a-z0-9]+", "-", s)\<close>; the flag says that a run was opened already.\<close>

fun sub_runs :: "bool \<Rightarrow> string \<Rightarrow> string" where
  "sub_runs in_run [] = []"
| "sub_runs in_run (c # cs) = (if slug_char c then c # sub_runs False cs
     else if in_run then sub_runs True cs else CHR ''-'' # sub_runs True cs)"

definition strip_dash :: "string \<Rightarrow> string" where
  "strip_dash s = rev (dropWhile ((=) CHR ''-'') (rev (dropWhile ((=) CHR ''-'') s)))"

definition slugify :: "string \<Rightarrow> string" where
  "slugify v = (let slug = strip_dash (sub_runs False (map lower_char (strip v)));
                    out = strip_dash (take 60 slug) in if out = [] then ''category'' else out)"

subsection \<open>Writes\<close>

record category_in =
  ci_name :: string
  ci_sort_order :: int
  ci_library_slug :: "string option"
  ci_parent_id :: "uuid option"

text \<open>A PATCH body: \<open>None\<close> for a field not sent, \<open>Some None\<close> for an explicit null.\<close>

record category_patch =
  cp_name :: "string option option"
  cp_sort_order :: "int option option"
  cp_library_slug :: "string option option"
  cp_parent_id :: "uuid option option"

definition create_category ::
    "uuid \<Rightarrow> uuid option \<Rightarrow> category_in \<Rightarrow> cat_db \<Rightarrow> category_error + part_category \<times> cat_db" where
  "create_category ws user payload d =
     (let slug = (case ci_library_slug payload of Some s \<Rightarrow> if s = [] then slugify (ci_name payload) else s
                  | None \<Rightarrow> slugify (ci_name payload)) in
      bindr (assert_available d ws (ci_name payload) slug None) (\<lambda>_.
      bindr (validate_parent ws (ci_parent_id payload) None d) (\<lambda>d1.
      let c = \<lparr>pc_id = next_category_id d1, pc_workspace_id = ws, pc_name = ci_name payload,
               pc_sort_order = ci_sort_order payload, pc_library_slug = slug,
               pc_parent_id = ci_parent_id payload, pc_archived_at = None, pc_updated_by = user\<rparr> in
      if \<not> check_part_categories_parent_workspace d1 c then Inl Category_workspace_isolation
      else Inr (c, d1\<lparr>part_categories := part_categories d1 @ [c], next_category_id := next_category_id d1 + 1\<rparr>))))"

text \<open>A PATCH field of a column that cannot be null, and the loop of \<open>setattr\<close>.\<close>

definition patch_value :: "'a option option \<Rightarrow> 'a \<Rightarrow> 'a" where
  "patch_value f old = (case f of Some (Some v) \<Rightarrow> v | _ \<Rightarrow> old)"

definition patched_category :: "uuid option \<Rightarrow> category_patch \<Rightarrow> part_category \<Rightarrow> part_category" where
  "patched_category user payload c = c\<lparr>
     pc_name := patch_value (cp_name payload) (pc_name c),
     pc_sort_order := patch_value (cp_sort_order payload) (pc_sort_order c),
     pc_library_slug := patch_value (cp_library_slug payload) (pc_library_slug c),
     pc_parent_id := (case cp_parent_id payload of None \<Rightarrow> pc_parent_id c | Some p \<Rightarrow> p),
     pc_updated_by := user\<rparr>"

definition put_category :: "part_category \<Rightarrow> cat_db \<Rightarrow> cat_db" where
  "put_category c d = d\<lparr>part_categories := map (\<lambda>x. if pc_id x = pc_id c then c else x) (part_categories d)\<rparr>"

definition update_category ::
    "uuid \<Rightarrow> uuid \<Rightarrow> uuid option \<Rightarrow> category_patch \<Rightarrow> cat_db \<Rightarrow> category_error + part_category \<times> cat_db" where
  "update_category ws i user payload d =
     bindr (get_category d ws i) (\<lambda>c.
     if cp_name payload = Some None \<or> cp_sort_order payload = Some None \<or> cp_library_slug payload = Some None
     then Inl Category_field_not_nullable
     else
     bindr (if pc_archived_at c = None
            then assert_available d ws (patch_value (cp_name payload) (pc_name c))
                   (patch_value (cp_library_slug payload) (pc_library_slug c)) (Some (pc_id c))
            else Inr ()) (\<lambda>_.
     bindr (case cp_parent_id payload of None \<Rightarrow> Inr d | Some p \<Rightarrow> validate_parent ws p (Some (pc_id c)) d) (\<lambda>d1.
     let c' = patched_category user payload c in
     if pc_parent_id c' \<noteq> pc_parent_id c \<and> \<not> check_part_categories_parent_workspace d1 c'
     then Inl Category_workspace_isolation
     else Inr (c', put_category c' d1))))"

definition promote_children :: "uuid \<Rightarrow> uuid \<Rightarrow> uuid option \<Rightarrow> cat_db \<Rightarrow> cat_db" where
  "promote_children ws i user d = d\<lparr>part_categories := map (\<lambda>x.
     if pc_workspace_id x = ws \<and> pc_parent_id x = Some i then x\<lparr>pc_parent_id := None, pc_updated_by := user\<rparr> else x)
     (part_categories d)\<rparr>"

definition archive_category ::
    "uuid \<Rightarrow> uuid \<Rightarrow> uuid option \<Rightarrow> cat_db \<Rightarrow> category_error + (part_category \<times> nat) \<times> cat_db" where
  "archive_category ws i user d =
     bindr (get_category d ws i) (\<lambda>c.
     if pc_archived_at c \<noteq> None then Inr ((c, 0), d)
     else let d1 = lock_workspace_tree ws d;
              promoted = length (filter (\<lambda>x. pc_workspace_id x = ws \<and> pc_parent_id x = Some (pc_id c)) (part_categories d1));
              d2 = promote_children ws (pc_id c) user d1;
              c' = c\<lparr>pc_archived_at := Some (cat_clock d), pc_updated_by := user\<rparr> in
     Inr ((c', promoted), put_category c' d2))"

definition restore_category ::
    "uuid \<Rightarrow> uuid \<Rightarrow> uuid option \<Rightarrow> cat_db \<Rightarrow> category_error + part_category \<times> cat_db" where
  "restore_category ws i user d =
     bindr (get_category d ws i) (\<lambda>c.
     if pc_archived_at c = None then Inr (c, d)
     else bindr (assert_available d ws (pc_name c) (pc_library_slug c) (Some (pc_id c))) (\<lambda>_.
     let c' = c\<lparr>pc_archived_at := None, pc_updated_by := user\<rparr> in Inr (c', put_category c' d)))"

end
