(* ===== verification/CategoryProps.thy ===== *)
theory CategoryProps
  imports Categories
begin

text \<open>
  What the category tree promises: the walks compute the ancestors and the descendants of
  the parent relation whatever is stored, and no sequence of requests makes a cycle, a tree
  deeper than \<open>MAX_DEPTH\<close>, a category under an archived one, or two active categories with
  one name or one slug.
\<close>

section \<open>The parent relation and the walks\<close>

definition parent_rel :: "parent_map \<Rightarrow> (uuid \<times> uuid) set" where
  "parent_rel m = {(x, p). parent_of m x = Some p}"

lemma parent_rel_iff [simp]: "(x, p) \<in> parent_rel m \<longleftrightarrow> parent_of m x = Some p"
  by (simp add: parent_rel_def)

lemma ancestor_walk_reaches:
  "y \<in> set (ancestor_walk m seen cur) \<Longrightarrow> y \<notin> seen \<and> (\<exists>c. cur = Some c \<and> (c, y) \<in> (parent_rel m)\<^sup>*)"
proof (induction m seen cur rule: ancestor_walk.induct)
  case (2 m seen c)
  show ?case
  proof (cases "y = c")
    case True
    with 2 show ?thesis by (auto split: if_splits)
  next
    case False
    with "2.prems" have c: "c \<notin> seen" and y: "y \<in> set (ancestor_walk m (insert c seen) (parent_of m c))"
      by (auto split: if_splits)
    from "2.IH" [OF c y] obtain p where "parent_of m c = Some p" "(p, y) \<in> (parent_rel m)\<^sup>*" "y \<notin> seen" by auto
    then show ?thesis by (auto intro: converse_rtrancl_into_rtrancl)
  qed
qed simp

lemma ancestor_walk_closed:
  "(case cur of None \<Rightarrow> True | Some c \<Rightarrow> c \<in> set (ancestor_walk m seen cur) \<union> seen)
   \<and> (\<forall>z \<in> set (ancestor_walk m seen cur). \<forall>w. parent_of m z = Some w \<longrightarrow> w \<in> set (ancestor_walk m seen cur) \<union> seen)"
proof (induction m seen cur rule: ancestor_walk.induct)
  case (2 m seen c)
  then show ?case by (cases "parent_of m c") auto
qed simp

lemma distinct_ancestor_walk: "distinct (ancestor_walk m seen cur)"
proof (induction m seen cur rule: ancestor_walk.induct)
  case (2 m seen c)
  then show ?case using ancestor_walk_reaches [of c m "insert c seen"] by auto
qed simp

lemma set_ancestor_ids: "set (ancestor_ids m x) = {p. (x, p) \<in> (parent_rel m)\<^sup>+} - {x}"
proof -
  have "p \<in> set (ancestor_ids m x) \<union> {x}" if "(x, p) \<in> (parent_rel m)\<^sup>+" for p
    using that
  proof (induction rule: trancl_induct)
    case (base p)
    then show ?case using ancestor_walk_closed [where m = m and seen = "{x}" and cur = "parent_of m x"] by (simp add: ancestor_ids_def)
  next
    case (step p q)
    then show ?case using ancestor_walk_closed [where m = m and seen = "{x}" and cur = "parent_of m x"]
      by (cases "p = x") (auto simp: ancestor_ids_def)
  qed
  moreover have "(x, p) \<in> (parent_rel m)\<^sup>+ \<and> p \<noteq> x" if "p \<in> set (ancestor_ids m x)" for p
    using ancestor_walk_reaches [OF that [unfolded ancestor_ids_def]] by (auto intro: rtrancl_into_trancl2)
  ultimately show ?thesis by blast
qed

lemma parent_of_entry:
  assumes "distinct (map fst m)"
  shows "(y, Some p) \<in> set m \<longleftrightarrow> parent_of m y = Some p"
proof -
  have "(y, Some p) \<in> set m \<longleftrightarrow> map_of m y = Some (Some p)" using map_of_eq_Some_iff [OF assms] by blast
  then show ?thesis unfolding parent_of_def by (cases "map_of m y") (simp_all del: map_of_eq_Some_iff)
qed

lemma descend_grows: "out \<subseteq> descend m out queue"
  by (induction m out queue rule: descend.induct) (auto simp: Let_def)

lemma descend_closed:
  "set queue \<subseteq> out \<Longrightarrow> \<forall>z \<in> out - set queue. set (children_of m z) \<subseteq> out
   \<Longrightarrow> \<forall>z \<in> descend m out queue. set (children_of m z) \<subseteq> descend m out queue"
proof (induction m out queue rule: descend.induct)
  case (2 m out node queue)
  define new where "new = new_children out (children_of m node)"
  have s: "set new = set (children_of m node) - out" by (simp add: new_def)
  have "set (queue @ new) \<subseteq> out \<union> set new" using "2.prems"(1) by auto
  moreover have "\<forall>z \<in> (out \<union> set new) - set (queue @ new). set (children_of m z) \<subseteq> out \<union> set new"
    using "2.prems"(2) s by auto
  ultimately show ?case using "2.IH" [OF new_def] by (simp flip: new_def)
qed auto

lemma descend_reaches:
  assumes "distinct (map fst m)"
  shows "set queue \<subseteq> out \<Longrightarrow> z \<in> descend m out queue \<Longrightarrow> \<exists>y \<in> out. (z, y) \<in> (parent_rel m)\<^sup>*"
  using assms
proof (induction m out queue rule: descend.induct)
  case (2 m out node queue)
  define new where "new = new_children out (children_of m node)"
  have s: "set new = set (children_of m node) - out" by (simp add: new_def)
  have "set (queue @ new) \<subseteq> out \<union> set new" using "2.prems"(1) by auto
  moreover have "z \<in> descend m (out \<union> set new) (queue @ new)" using "2.prems"(2) by (simp flip: new_def)
  ultimately obtain y where y: "y \<in> out \<union> set new" "(z, y) \<in> (parent_rel m)\<^sup>*"
    using "2.IH" [OF new_def _ _ "2.prems"(3)] by blast
  show ?case
  proof (cases "y \<in> out")
    case False
    with y s have "(y, Some node) \<in> set m" by (simp add: set_children_of)
    then have "(y, node) \<in> parent_rel m" by (simp add: parent_of_entry "2.prems"(3))
    with y(2) have "(z, node) \<in> (parent_rel m)\<^sup>*" by (rule rtrancl_into_rtrancl)
    with "2.prems"(1) show ?thesis by auto
  qed (use y in blast)
qed auto

lemma descendant_ids_iff:
  assumes "distinct (map fst m)"
  shows "y \<in> descendant_ids m x \<longleftrightarrow> (y, x) \<in> (parent_rel m)\<^sup>*"
proof
  assume "y \<in> descendant_ids m x"
  then show "(y, x) \<in> (parent_rel m)\<^sup>*" using descend_reaches [OF assms, of "[x]" "{x}" y] by (simp add: descendant_ids_def)
next
  assume "(y, x) \<in> (parent_rel m)\<^sup>*"
  then show "y \<in> descendant_ids m x"
  proof (induction rule: converse_rtrancl_induct)
    case base
    then show ?case using descend_grows [of "{x}" m "[x]"] by (simp add: descendant_ids_def)
  next
    case (step y z)
    then have "y \<in> set (children_of m z)" by (simp add: set_children_of parent_of_entry [OF assms])
    moreover have "\<forall>z \<in> descend m {x} [x]. set (children_of m z) \<subseteq> descend m {x} [x]" by (rule descend_closed) auto
    ultimately show ?case using step(3) unfolding descendant_ids_def by blast
  qed
qed

text \<open>
  C38: the two walks agree, whatever is stored, a cycle from a restored backup included: a
  category is among the descendants of another exactly when it is that one or has it among
  its ancestors; the ancestors are the strict ones of the parent relation, each listed once.
\<close>

theorem descendants_are_converse_ancestors:
  assumes "distinct (map fst m)"
  shows "(y \<in> descendant_ids m x \<longleftrightarrow> y = x \<or> x \<in> set (ancestor_ids m y))
    \<and> set (ancestor_ids m y) = {p. (y, p) \<in> (parent_rel m)\<^sup>+} - {y} \<and> distinct (ancestor_ids m y)"
proof -
  have "distinct (ancestor_ids m y)" unfolding ancestor_ids_def by (rule distinct_ancestor_walk)
  moreover have "y \<in> descendant_ids m x \<longleftrightarrow> y = x \<or> x \<in> set (ancestor_ids m y)"
    unfolding descendant_ids_iff [OF assms] set_ancestor_ids rtrancl_eq_or_trancl by blast
  ultimately show ?thesis unfolding set_ancestor_ids by blast
qed

section \<open>Depth and height\<close>

text \<open>The climb from a node ends within \<open>n\<close> nodes.\<close>

fun climbs :: "parent_map \<Rightarrow> nat \<Rightarrow> uuid \<Rightarrow> bool" where
  "climbs m 0 x = False"
| "climbs m (Suc n) x = (case parent_of m x of None \<Rightarrow> True | Some p \<Rightarrow> climbs m n p)"

lemma climbs_mono: "climbs m n x \<Longrightarrow> n \<le> n' \<Longrightarrow> climbs m n' x"
proof (induction m n x arbitrary: n' rule: climbs.induct)
  case (2 m n x)
  then show ?case by (cases n') (auto split: option.splits)
qed simp

lemma climbs_acyclic: "climbs m n x \<Longrightarrow> (x, x) \<notin> (parent_rel m)\<^sup>+"
proof (induction m n x rule: climbs.induct)
  case (2 m n x)
  show ?case
  proof
    assume "(x, x) \<in> (parent_rel m)\<^sup>+"
    then obtain p where p: "parent_of m x = Some p" "(p, x) \<in> (parent_rel m)\<^sup>*" by (auto dest: tranclD)
    then have "(p, p) \<in> (parent_rel m)\<^sup>+" by (auto intro: rtrancl_into_trancl1)
    with 2 p(1) show False by simp
  qed
qed simp

lemma walk_length: "climbs m n c \<Longrightarrow> length (ancestor_walk m seen (Some c)) \<le> n"
proof (induction n arbitrary: c seen)
  case (Suc n)
  show ?case
  proof (cases "parent_of m c")
    case (Some p)
    with Suc.prems have "length (ancestor_walk m (insert c seen) (Some p)) \<le> n" by (intro Suc.IH) simp
    then show ?thesis unfolding ancestor_walk.simps(2) [of m seen c] Some by (simp del: ancestor_walk.simps)
  qed simp
qed simp

lemma climbs_depth: "climbs m n x \<Longrightarrow> depth_of m x \<le> n"
proof (cases n)
  case (Suc k)
  assume c: "climbs m n x"
  show ?thesis
  proof (cases "parent_of m x")
    case (Some p)
    with c Suc walk_length [of m k p "{x}"] show ?thesis
      by (simp add: depth_of_def ancestor_ids_def del: ancestor_walk.simps)
  qed (simp add: Suc depth_of_def ancestor_ids_def)
qed simp

lemma walk_climbs:
  "climbs m n c \<Longrightarrow> \<forall>z. (c, z) \<in> (parent_rel m)\<^sup>* \<longrightarrow> z \<notin> seen
   \<Longrightarrow> climbs m (length (ancestor_walk m seen (Some c))) c"
proof (induction n arbitrary: c seen)
  case (Suc n)
  have c: "c \<notin> seen" using Suc.prems(2) by blast
  show ?case
  proof (cases "parent_of m c")
    case (Some p)
    have "\<forall>z. (p, z) \<in> (parent_rel m)\<^sup>* \<longrightarrow> z \<notin> insert c seen"
    proof (intro allI impI)
      fix z assume z: "(p, z) \<in> (parent_rel m)\<^sup>*"
      have "(c, z) \<in> (parent_rel m)\<^sup>+" using Some z by (auto intro: rtrancl_into_trancl2)
      with climbs_acyclic [OF Suc.prems(1)] have "z \<noteq> c" by blast
      with Suc.prems(2) trancl_into_rtrancl [OF \<open>(c, z) \<in> (parent_rel m)\<^sup>+\<close>] show "z \<notin> insert c seen" by blast
    qed
    with Suc.IH [of p "insert c seen"] Suc.prems(1) Some c show ?thesis by simp
  qed (use c in simp)
qed simp

lemma climbs_own_depth:
  assumes "climbs m n x"
  shows "climbs m (depth_of m x) x"
proof (cases "parent_of m x")
  case (Some p)
  from assms Some obtain k where k: "climbs m k p" by (cases n) auto
  have "\<forall>z. (p, z) \<in> (parent_rel m)\<^sup>* \<longrightarrow> z \<notin> {x}"
  proof (intro allI impI)
    fix z assume z: "(p, z) \<in> (parent_rel m)\<^sup>*"
    have "(x, z) \<in> (parent_rel m)\<^sup>+" using Some z by (auto intro: rtrancl_into_trancl2)
    with climbs_acyclic [OF assms] show "z \<notin> {x}" by auto
  qed
  with walk_climbs [OF k] Some show ?thesis by (simp add: depth_of_def ancestor_ids_def)
qed (simp add: depth_of_def)

text \<open>The nodes \<open>j\<close> levels below \<open>x\<close>, and the loop of \<open>subtree_height\<close> over them.\<close>

definition below :: "parent_map \<Rightarrow> uuid \<Rightarrow> nat \<Rightarrow> uuid set" where
  "below m x j = {y. (y, x) \<in> parent_rel m ^^ j}"

lemma below_0 [simp]: "below m x 0 = {x}"
  by (auto simp: below_def)

lemma below_Suc: "y \<in> below m x (Suc j) \<longleftrightarrow> (\<exists>p. parent_of m y = Some p \<and> p \<in> below m x j)"
  unfolding below_def mem_Collect_eq parent_rel_iff [symmetric]
  by (blast dest: relpow_Suc_D2 intro: relpow_Suc_I2)

lemma below_disjoint:
  assumes "(x, x) \<notin> (parent_rel m)\<^sup>+" and "y \<in> below m x i" "y \<in> below m x j"
  shows "i = j"
  using assms(2,3)
proof (induction i arbitrary: j y)
  case 0
  then have "(x, x) \<in> parent_rel m ^^ j" by (simp add: below_def)
  with assms(1) show ?case using trancl_power [of "(x, x)" "parent_rel m"] by (cases "j = 0") blast+
next
  case (Suc i)
  show ?case
  proof (cases j)
    case 0
    with Suc.prems have "(x, x) \<in> parent_rel m ^^ Suc i" by (simp add: below_def)
    with assms(1) show ?thesis using trancl_power [of "(x, x)" "parent_rel m"] by blast
  next
    case (Suc k)
    with Suc.prems Suc.IH show ?thesis by (auto simp: below_Suc)
  qed
qed

lemma below_rtrancl: "(\<exists>j. y \<in> below m x j) \<longleftrightarrow> (y, x) \<in> (parent_rel m)\<^sup>*"
  by (simp add: below_def rtrancl_power)

lemma next_level:
  assumes dist: "distinct (map fst m)" and acyc: "(x, x) \<notin> (parent_rel m)\<^sup>+"
    and level: "set level = below m x j" and seen: "seen = (\<Union>i \<le> j. below m x i)"
  shows "set (filter (\<lambda>c. c \<notin> seen) (concat (map (children_of m) level))) = below m x (Suc j)"
proof -
  have "y \<notin> seen" if "y \<in> below m x (Suc j)" for y
    using below_disjoint [OF acyc that] unfolding seen by fastforce
  moreover have "y \<in> set (concat (map (children_of m) level)) \<longleftrightarrow> y \<in> below m x (Suc j)" for y
    by (auto simp: level set_children_of parent_of_entry [OF dist] below_Suc)
  ultimately show ?thesis by (simp only: set_filter) blast
qed

lemma height_from_level:
  assumes dist: "distinct (map fst m)" and acyc: "(x, x) \<notin> (parent_rel m)\<^sup>+"
    and "set level = below m x j" "seen = (\<Union>i \<le> j. below m x i)"
  shows "below m x (j + k) \<noteq> {} \<longleftrightarrow> level \<noteq> [] \<and> k \<le> height_from m seen level"
  using assms(3,4)
proof (induction k arbitrary: j seen level)
  case 0
  then show ?case by auto
next
  case (Suc k)
  let ?next = "filter (\<lambda>c. c \<notin> seen) (concat (map (children_of m) level))"
  have nx: "set ?next = below m x (Suc j)" by (rule next_level [OF dist acyc Suc.prems])
  have seen': "seen \<union> set ?next = (\<Union>i \<le> Suc j. below m x i)"
  proof -
    have "seen \<union> set ?next = seen \<union> below m x (Suc j)" by (simp only: nx)
    also have "\<dots> = (\<Union>i \<le> Suc j. below m x i)" unfolding Suc.prems(2) atMost_Suc by blast
    finally show ?thesis .
  qed
  define nl where "nl = ?next"
  define h where "h = height_from m (seen \<union> set ?next) ?next"
  have "below m x (Suc j + k) \<noteq> {} \<longleftrightarrow> nl \<noteq> [] \<and> k \<le> h"
    unfolding nl_def h_def by (rule Suc.IH [OF nx seen'])
  then have e1: "below m x (j + Suc k) \<noteq> {} \<longleftrightarrow> nl \<noteq> [] \<and> k \<le> h" by simp
  have e2: "level \<noteq> []" if "nl \<noteq> []" using that unfolding nl_def by (cases level) auto
  have e3: "height_from m seen level = (if nl = [] then 0 else 1 + h)"
    unfolding nl_def h_def by (subst height_from.simps) (simp only: Let_def)
  show ?case unfolding e1 e3 using e2 by (cases "nl = []") simp_all
qed

lemma subtree_height_below:
  assumes "distinct (map fst m)" "(x, x) \<notin> (parent_rel m)\<^sup>+"
  shows "below m x k \<noteq> {} \<longleftrightarrow> k \<le> subtree_height m x"
proof -
  have "below m x (0 + k) \<noteq> {} \<longleftrightarrow> [x] \<noteq> [] \<and> k \<le> height_from m {x} [x]"
    by (rule height_from_level [OF assms]) simp_all
  then show ?thesis by (simp add: subtree_height_def)
qed

section \<open>Changing one parent\<close>

lemma climbs_detach:
  "climbs m n x \<Longrightarrow> \<forall>y. parent_of m' y \<noteq> None \<longrightarrow> parent_of m' y = parent_of m y \<Longrightarrow> climbs m' n x"
proof (induction n arbitrary: x)
  case (Suc n)
  show ?case
  proof (cases "parent_of m' x")
    case (Some p)
    with Suc.prems(2) have "parent_of m x = Some p" by (metis option.discI)
    with Suc Some show ?thesis by simp
  qed simp
qed simp

lemma climbs_elsewhere:
  "climbs m n z \<Longrightarrow> (z, x) \<notin> (parent_rel m)\<^sup>* \<Longrightarrow> \<forall>y. y \<noteq> x \<longrightarrow> parent_of m' y = parent_of m y \<Longrightarrow> climbs m' n z"
proof (induction n arbitrary: z)
  case (Suc n)
  have "z \<noteq> x" using Suc.prems(2) by blast
  then have e: "parent_of m' z = parent_of m z" using Suc.prems(3) by blast
  show ?case
  proof (cases "parent_of m z")
    case (Some p)
    have "(p, x) \<notin> (parent_rel m)\<^sup>*"
      using Some Suc.prems(2) converse_rtrancl_into_rtrancl [of z p "parent_rel m" x] by auto
    with Suc Some e show ?thesis by simp
  qed (simp add: e)
qed simp

text \<open>Hanging \<open>x\<close> under \<open>p\<close>: sound when \<open>p\<close> is not below \<open>x\<close> and the heights add up.\<close>

lemma climbs_reparent:
  assumes all: "\<forall>y. climbs m N y" and p: "(p, x) \<notin> (parent_rel m)\<^sup>*"
    and h: "\<forall>k. below m x k \<noteq> {} \<longrightarrow> k \<le> h" and fits: "depth_of m p + 1 + h \<le> N"
    and m': "parent_of m' x = Some p" "\<forall>y. y \<noteq> x \<longrightarrow> parent_of m' y = parent_of m y"
  shows "climbs m' N y"
proof -
  have "climbs m' (depth_of m p) p"
    by (rule climbs_elsewhere [OF climbs_own_depth p m'(2)]) (use all in blast)
  then have x: "climbs m' (depth_of m p + 1) x" using m'(1) by simp
  have up: "climbs m' (depth_of m p + 1 + k) y" if "y \<in> below m x k" for k y
    using that
  proof (induction k arbitrary: y)
    case (Suc k)
    show ?case
    proof (cases "y = x")
      case True
      then show ?thesis using climbs_mono [OF x, of "depth_of m p + 1 + Suc k"] by (simp del: climbs.simps)
    next
      case False
      from Suc.prems obtain z where "parent_of m y = Some z" "z \<in> below m x k" by (auto simp: below_Suc)
      with Suc.IH m'(2) False show ?thesis by simp
    qed
  qed (use x in simp)
  show ?thesis
  proof (cases "(y, x) \<in> (parent_rel m)\<^sup>*")
    case True
    then obtain k where k: "y \<in> below m x k" using below_rtrancl by metis
    with h have "k \<le> h" by blast
    with climbs_mono [OF up [OF k]] fits show ?thesis by simp
  next
    case False
    with climbs_elsewhere all m'(2) show ?thesis by metis
  qed
qed

text \<open>And only then: otherwise there is a cycle, or a node that sits too deep.\<close>

lemma climbs_path: "(y, x) \<in> parent_rel m ^^ k \<Longrightarrow> climbs m n y \<Longrightarrow> k < n \<and> climbs m (n - k) x"
proof (induction k arbitrary: y n)
  case 0
  then show ?case by (cases n) auto
next
  case (Suc k)
  from relpow_Suc_D2 [OF Suc.prems(1)] obtain z where z: "parent_of m y = Some z" "(z, x) \<in> parent_rel m ^^ k" by auto
  with Suc.prems(2) obtain n' where n: "n = Suc n'" "climbs m n' z" by (cases n) auto
  from Suc.IH [OF z(2) n(2)] show ?case by (simp add: n(1))
qed

lemma below_elsewhere:
  assumes m': "\<forall>y. y \<noteq> x \<longrightarrow> parent_of m' y = parent_of m y" and acyc: "(x, x) \<notin> (parent_rel m)\<^sup>+"
  shows "y \<in> below m x k \<Longrightarrow> y \<in> below m' x k"
proof (induction k arbitrary: y)
  case (Suc k)
  have "y \<noteq> x" using below_disjoint [OF acyc Suc.prems, of 0] by auto
  with Suc m' show ?case by (auto simp: below_Suc)
qed simp

lemma depth_elsewhere:
  assumes c: "climbs m n p" and p: "(p, x) \<notin> (parent_rel m)\<^sup>*" and m': "\<forall>y. y \<noteq> x \<longrightarrow> parent_of m' y = parent_of m y"
    and c': "climbs m' k p"
  shows "depth_of m p \<le> k"
proof -
  have "climbs m k p"
    using c' p
  proof (induction k arbitrary: p)
    case (Suc k)
    have "p \<noteq> x" using Suc.prems(2) by blast
    then have e: "parent_of m' p = parent_of m p" using m' by blast
    show ?case
    proof (cases "parent_of m p")
      case (Some q)
      have "(q, x) \<notin> (parent_rel m)\<^sup>*"
        using Some Suc.prems(2) converse_rtrancl_into_rtrancl [of p q "parent_rel m" x] by auto
      with Suc Some e show ?thesis by simp
    qed simp
  qed simp
  then show ?thesis by (rule climbs_depth)
qed

lemma climbs_reparent_iff:
  assumes all: "\<forall>y. climbs m N y" and dist: "distinct (map fst m)"
    and m': "parent_of m' x = Some p" "\<forall>y. y \<noteq> x \<longrightarrow> parent_of m' y = parent_of m y"
  shows "(\<forall>y. climbs m' N y) \<longleftrightarrow> p \<noteq> x \<and> x \<notin> set (ancestor_ids m p) \<and> depth_of m p + 1 + subtree_height m x \<le> N"
proof -
  have acyc: "(x, x) \<notin> (parent_rel m)\<^sup>+" using all climbs_acyclic by blast
  have anc: "p \<noteq> x \<and> x \<notin> set (ancestor_ids m p) \<longleftrightarrow> (p, x) \<notin> (parent_rel m)\<^sup>*"
    by (auto simp: set_ancestor_ids rtrancl_eq_or_trancl)
  have h: "below m x k \<noteq> {} \<longleftrightarrow> k \<le> subtree_height m x" for k by (rule subtree_height_below [OF dist acyc])
  show ?thesis
  proof
    assume "p \<noteq> x \<and> x \<notin> set (ancestor_ids m p) \<and> depth_of m p + 1 + subtree_height m x \<le> N"
    then show "\<forall>y. climbs m' N y" using climbs_reparent [OF all _ _ _ m'] anc h by blast
  next
    assume new: "\<forall>y. climbs m' N y"
    have px: "(p, x) \<notin> (parent_rel m)\<^sup>*"
    proof
      assume "(p, x) \<in> (parent_rel m)\<^sup>*"
      then obtain k where "p \<in> below m x k" using below_rtrancl by metis
      then have "p \<in> below m' x k" by (rule below_elsewhere [OF m'(2) acyc])
      then have "(p, x) \<in> (parent_rel m')\<^sup>*" using below_rtrancl by metis
      with m'(1) have "(x, x) \<in> (parent_rel m')\<^sup>+" by (auto intro: rtrancl_into_trancl2)
      with new climbs_acyclic show False by blast
    qed
    from h [of "subtree_height m x"] obtain y where "y \<in> below m x (subtree_height m x)" by auto
    then have "(y, x) \<in> parent_rel m' ^^ subtree_height m x"
      using below_elsewhere [OF m'(2) acyc] by (simp add: below_def)
    from climbs_path [OF this] new obtain j where j: "subtree_height m x < N" "climbs m' (N - subtree_height m x) x" by blast
    then obtain k where k: "N - subtree_height m x = Suc k" by (cases "N - subtree_height m x") auto
    with j(2) m'(1) have "climbs m' k p" by simp
    from depth_elsewhere [OF _ px m'(2) this] all have "depth_of m p \<le> k" by blast
    with k px anc show "p \<noteq> x \<and> x \<notin> set (ancestor_ids m p) \<and> depth_of m p + 1 + subtree_height m x \<le> N" by simp
  qed
qed

section \<open>The invariant of the table\<close>

definition active_unique :: "part_category list \<Rightarrow> bool" where
  "active_unique cs \<longleftrightarrow> (\<forall>a \<in> set cs. \<forall>b \<in> set cs. pc_archived_at a = None \<longrightarrow> pc_archived_at b = None
     \<longrightarrow> pc_workspace_id a = pc_workspace_id b \<longrightarrow> pc_name a = pc_name b \<or> pc_library_slug a = pc_library_slug b
     \<longrightarrow> pc_id a = pc_id b)"

definition parents_active :: "part_category list \<Rightarrow> bool" where
  "parents_active cs \<longleftrightarrow> (\<forall>c \<in> set cs. \<forall>p. pc_parent_id c = Some p \<longrightarrow>
     (\<exists>x \<in> set cs. pc_id x = p \<and> pc_workspace_id x = pc_workspace_id c \<and> pc_archived_at x = None))"

definition ids_fresh :: "cat_db \<Rightarrow> bool" where
  "ids_fresh d \<longleftrightarrow> distinct (map pc_id (part_categories d)) \<and> (\<forall>i \<in> set (map pc_id (part_categories d)). i < next_category_id d)"

definition categories_ok :: "cat_db \<Rightarrow> bool" where
  "categories_ok d \<longleftrightarrow> ids_fresh d \<and> parents_active (part_categories d) \<and> active_unique (part_categories d)
     \<and> (\<forall>ws x. climbs (load_parent_map d ws) MAX_DEPTH x)"

lemma load_parent_map_keys: "map fst (load_parent_map d ws) = map pc_id (filter (\<lambda>c. pc_workspace_id c = ws) (part_categories d))"
  by (simp add: load_parent_map_def comp_def)

lemma distinct_load_parent_map: "ids_fresh d \<Longrightarrow> distinct (map fst (load_parent_map d ws))"
  unfolding load_parent_map_keys ids_fresh_def by (blast intro: distinct_map_filter)

lemma parent_of_load:
  assumes "ids_fresh d"
  shows "parent_of (load_parent_map d ws) x = Some p
    \<longleftrightarrow> (\<exists>c \<in> set (part_categories d). pc_id c = x \<and> pc_workspace_id c = ws \<and> pc_parent_id c = Some p)"
  unfolding parent_of_entry [OF distinct_load_parent_map [OF assms], symmetric]
  by (auto simp: load_parent_map_def)

lemma load_parent_map_cong: "part_categories d' = part_categories d \<Longrightarrow> load_parent_map d' = load_parent_map d"
  by (simp add: load_parent_map_def fun_eq_iff)

lemma get_category_Inr: "get_category d ws i = Inr c \<Longrightarrow> c \<in> set (part_categories d) \<and> pc_id c = i \<and> pc_workspace_id c = ws"
  by (auto simp: get_category_def find_Some_iff split: option.splits)

lemma lock_workspace_tree_simps [simp]:
  "part_categories (lock_workspace_tree ws d) = part_categories d"
  "next_category_id (lock_workspace_tree ws d) = next_category_id d" "cat_clock (lock_workspace_tree ws d) = cat_clock d"
  by (simp_all add: lock_workspace_tree_def)

lemma lock_workspace_tree_ok [simp]: "categories_ok (lock_workspace_tree ws d) = categories_ok d"
  by (simp add: categories_ok_def ids_fresh_def load_parent_map_cong [of "lock_workspace_tree ws d" d])

lemma climbs_iff: "(\<forall>y. climbs m n y) \<longleftrightarrow> acyclic (parent_rel m) \<and> (\<forall>y. depth_of m y \<le> n)"
proof
  assume "\<forall>y. climbs m n y"
  then show "acyclic (parent_rel m) \<and> (\<forall>y. depth_of m y \<le> n)"
    using climbs_acyclic climbs_depth unfolding acyclic_def by blast
next
  assume a: "acyclic (parent_rel m) \<and> (\<forall>y. depth_of m y \<le> n)"
  have "finite (parent_rel m)"
  proof (rule finite_subset)
    show "parent_rel m \<subseteq> fst ` set m \<times> (the ` snd ` set m)"
      by (force simp: parent_rel_def parent_of_def split: option.splits dest: map_of_SomeD)
  qed simp
  with a have wf: "wf ((parent_rel m)\<inverse>)" by (blast intro: finite_acyclic_wf_converse)
  have "\<exists>k. climbs m k y" for y
    using wf
  proof (induction y rule: wf_induct_rule)
    case (less y)
    show ?case
    proof (cases "parent_of m y")
      case (Some p)
      with less obtain k where "climbs m k p" by auto
      with Some show ?thesis by (intro exI [of _ "Suc k"]) simp
    qed (auto intro: exI [of _ "Suc 0"])
  qed
  then have "climbs m (depth_of m y) y" for y using climbs_own_depth by blast
  then show "\<forall>y. climbs m n y" using a climbs_mono by blast
qed

lemma option_eqI: "(\<And>x. a = Some x \<longleftrightarrow> b = Some x) \<Longrightarrow> a = b"
  by (cases a; cases b) auto

section \<open>One row replaced\<close>

lemma set_put_category:
  assumes "c \<in> set (part_categories d)" "pc_id c' = pc_id c"
  shows "set (part_categories (put_category c' d)) = insert c' {x \<in> set (part_categories d). pc_id x \<noteq> pc_id c}"
  using assms by (auto simp: put_category_def)

lemma ids_fresh_put: "ids_fresh d \<Longrightarrow> ids_fresh (put_category c' d)"
proof -
  have "map pc_id (part_categories (put_category c' d)) = map pc_id (part_categories d)"
    by (simp add: put_category_def)
  moreover have "next_category_id (put_category c' d) = next_category_id d" by (simp add: put_category_def)
  ultimately show "ids_fresh d \<Longrightarrow> ids_fresh (put_category c' d)" unfolding ids_fresh_def by (simp del: set_map)
qed

lemma distinct_ids: "ids_fresh d \<Longrightarrow> a \<in> set (part_categories d) \<Longrightarrow> b \<in> set (part_categories d) \<Longrightarrow> pc_id a = pc_id b \<Longrightarrow> a = b"
  by (auto simp: ids_fresh_def distinct_map dest: inj_onD)

lemma parent_of_put:
  assumes ok: "ids_fresh d" and c: "c \<in> set (part_categories d)" "pc_id c' = pc_id c" "pc_workspace_id c' = pc_workspace_id c"
  shows "parent_of (load_parent_map (put_category c' d) ws) x
    = (if x = pc_id c \<and> ws = pc_workspace_id c then pc_parent_id c' else parent_of (load_parent_map d ws) x)"
proof (rule option_eqI)
  fix p
  have "parent_of (load_parent_map (put_category c' d) ws) x = Some p \<longleftrightarrow>
     (\<exists>y \<in> insert c' {x \<in> set (part_categories d). pc_id x \<noteq> pc_id c}. pc_id y = x \<and> pc_workspace_id y = ws \<and> pc_parent_id y = Some p)"
    unfolding parent_of_load [OF ids_fresh_put [OF ok]] set_put_category [OF c(1,2)] ..
  also have "\<dots> \<longleftrightarrow> (if x = pc_id c \<and> ws = pc_workspace_id c then pc_parent_id c' else parent_of (load_parent_map d ws) x) = Some p"
    using c distinct_ids [OF ok] by (auto simp: parent_of_load [OF ok])
  finally show "parent_of (load_parent_map (put_category c' d) ws) x = Some p
    \<longleftrightarrow> (if x = pc_id c \<and> ws = pc_workspace_id c then pc_parent_id c' else parent_of (load_parent_map d ws) x) = Some p" .
qed

lemma active_unique_insert:
  assumes "active_unique xs" and "set ys = insert c S" "S \<subseteq> set xs"
    and u: "\<And>x. x \<in> S \<Longrightarrow> pc_workspace_id x = pc_workspace_id c \<Longrightarrow> pc_archived_at x = None \<Longrightarrow> pc_archived_at c = None
      \<Longrightarrow> pc_name x \<noteq> pc_name c \<and> pc_library_slug x \<noteq> pc_library_slug c"
  shows "active_unique ys"
  unfolding active_unique_def assms(2)
proof (intro ballI impI)
  fix a b
  assume a: "a \<in> insert c S" and b: "b \<in> insert c S" and act: "pc_archived_at a = None" "pc_archived_at b = None"
    and ws: "pc_workspace_id a = pc_workspace_id b" and same: "pc_name a = pc_name b \<or> pc_library_slug a = pc_library_slug b"
  consider "a = c" "b = c" | "a = c" "b \<in> S" | "a \<in> S" "b = c" | "a \<in> S" "b \<in> S" using a b by blast
  then show "pc_id a = pc_id b"
  proof cases
    case 2
    with u [of b] ws act same show ?thesis by auto
  next
    case 3
    with u [of a] ws act same show ?thesis by auto
  next
    case 4
    with assms(1,3) act ws same show ?thesis unfolding active_unique_def by blast
  qed simp
qed

text \<open>Replacing a row keeps the invariant when the new parent is fit and the name is free.\<close>

lemma put_category_ok:
  assumes ok: "categories_ok d" and c: "c \<in> set (part_categories d)" "pc_id c' = pc_id c" "pc_workspace_id c' = pc_workspace_id c"
    and climb: "\<forall>y. climbs (load_parent_map (put_category c' d) (pc_workspace_id c)) MAX_DEPTH y"
    and parent: "\<forall>p. pc_parent_id c' = Some p \<longrightarrow> p \<noteq> pc_id c \<and> (\<exists>x \<in> set (part_categories d). pc_id x = p
        \<and> pc_workspace_id x = pc_workspace_id c \<and> pc_archived_at x = None)"
    and alive: "pc_archived_at c' = None \<or> (\<forall>x \<in> set (part_categories d). pc_workspace_id x = pc_workspace_id c
        \<longrightarrow> pc_parent_id x \<noteq> Some (pc_id c)) \<or> pc_archived_at c \<noteq> None"
    and unique: "pc_archived_at c' = None \<Longrightarrow> \<forall>x \<in> set (part_categories d). pc_workspace_id x = pc_workspace_id c
        \<longrightarrow> pc_archived_at x = None \<longrightarrow> pc_id x \<noteq> pc_id c \<longrightarrow> pc_name x \<noteq> pc_name c' \<and> pc_library_slug x \<noteq> pc_library_slug c'"
  shows "categories_ok (put_category c' d)"
proof -
  note ok' = ok [unfolded categories_ok_def]
  note s = set_put_category [OF c(1,2)]
  have "climbs (load_parent_map (put_category c' d) ws) MAX_DEPTH y" for ws y
  proof (cases "ws = pc_workspace_id c")
    case False
    have e: "parent_of (load_parent_map (put_category c' d) ws) z = parent_of (load_parent_map d ws) z" for z
      using parent_of_put [OF conjunct1 [OF ok'] c] False by simp
    have "climbs (load_parent_map d ws) MAX_DEPTH y" using ok' by blast
    then show ?thesis by (rule climbs_detach) (simp add: e)
  qed (use climb in simp)
  moreover have "parents_active (part_categories (put_category c' d))"
    unfolding parents_active_def s
  proof (intro ballI allI impI)
    fix y p assume y: "y \<in> insert c' {x \<in> set (part_categories d). pc_id x \<noteq> pc_id c}" and p: "pc_parent_id y = Some p"
    show "\<exists>x \<in> insert c' {x \<in> set (part_categories d). pc_id x \<noteq> pc_id c}.
        pc_id x = p \<and> pc_workspace_id x = pc_workspace_id y \<and> pc_archived_at x = None"
    proof (cases "y = c'")
      case True
      with parent p c(3) show ?thesis by auto
    next
      case False
      with y have y: "y \<in> set (part_categories d)" "pc_id y \<noteq> pc_id c" by auto
      with ok' p obtain x where x: "x \<in> set (part_categories d)" "pc_id x = p" "pc_workspace_id x = pc_workspace_id y"
        "pc_archived_at x = None" unfolding parents_active_def by blast
      show ?thesis
      proof (cases "p = pc_id c")
        case True
        with x c ok' have "x = c" by (auto intro: distinct_ids)
        with alive x y p True have "pc_archived_at c' = None" by auto
        with True x \<open>x = c\<close> c show ?thesis by auto
      qed (use x in blast)
    qed
  qed
  moreover have "active_unique (part_categories (put_category c' d))"
    by (rule active_unique_insert [OF _ s]) (use ok' unique c(3) in auto)
  ultimately show ?thesis using ids_fresh_put ok' by (simp add: categories_ok_def)
qed

section \<open>The requests keep it\<close>

lemma validate_parent_Inr:
  "validate_parent ws pid cid d = Inr d' \<longleftrightarrow> (pid = None \<and> d' = d \<or>
     (\<exists>p x. pid = Some p \<and> cid \<noteq> Some p \<and> get_category d ws p = Inr x \<and> pc_archived_at x = None
        \<and> (\<forall>c. cid = Some c \<longrightarrow> c \<notin> set (ancestor_ids (load_parent_map d ws) p))
        \<and> depth_of (load_parent_map d ws) p + 1 + (case cid of None \<Rightarrow> 0 | Some c \<Rightarrow> subtree_height (load_parent_map d ws) c) \<le> MAX_DEPTH
        \<and> d' = lock_workspace_tree ws d))"
proof -
  have g: "get_category (lock_workspace_tree ws d) = get_category d" by (simp add: get_category_def fun_eq_iff)
  show ?thesis
    unfolding validate_parent_def Let_def g load_parent_map_cong [of "lock_workspace_tree ws d" d, OF lock_workspace_tree_simps(1)]
    by (auto simp: bindr_Inr not_less split: option.splits if_splits)
qed

lemma assert_available_Inr:
  "assert_available d ws nm slug ex = Inr u \<longleftrightarrow> (\<forall>c \<in> set (part_categories d). pc_workspace_id c = ws
     \<longrightarrow> pc_archived_at c = None \<longrightarrow> ex \<noteq> Some (pc_id c) \<longrightarrow> pc_name c \<noteq> nm \<and> pc_library_slug c \<noteq> slug)"
  by (auto simp: assert_available_def active_by_def find_None_iff find_Some_iff split: option.splits dest: nth_mem)

lemma categories_ok_climbs: "categories_ok d \<Longrightarrow> climbs (load_parent_map d ws) MAX_DEPTH x"
  by (simp add: categories_ok_def)

lemma categories_ok_parent:
  "categories_ok d \<Longrightarrow> c \<in> set (part_categories d) \<Longrightarrow> pc_parent_id c = Some p \<Longrightarrow>
   p \<noteq> pc_id c \<and> (\<exists>x \<in> set (part_categories d). pc_id x = p \<and> pc_workspace_id x = pc_workspace_id c \<and> pc_archived_at x = None)"
proof -
  assume ok: "categories_ok d" and c: "c \<in> set (part_categories d)" "pc_parent_id c = Some p"
  then have "parent_of (load_parent_map d (pc_workspace_id c)) (pc_id c) = Some p"
    by (auto simp: categories_ok_def parent_of_load)
  with climbs_acyclic [OF categories_ok_climbs [OF ok, where ws = "pc_workspace_id c" and x = "pc_id c"]] have "p \<noteq> pc_id c"
    by (metis parent_rel_iff r_into_trancl')
  with ok c show ?thesis unfolding categories_ok_def parents_active_def by blast
qed

lemma categories_ok_cong:
  "part_categories d' = part_categories d \<Longrightarrow> next_category_id d' = next_category_id d \<Longrightarrow> categories_ok d' = categories_ok d"
  by (simp add: categories_ok_def ids_fresh_def load_parent_map_cong [of d' d])

text \<open>A reparent that \<open>validate_parent\<close> accepted.\<close>

lemma reparent_climbs:
  assumes ok: "categories_ok d" and c: "c \<in> set (part_categories d)" "pc_id c' = pc_id c" "pc_workspace_id c' = pc_workspace_id c"
    and v: "validate_parent (pc_workspace_id c) (pc_parent_id c') (Some (pc_id c)) d = Inr d'"
  shows "climbs (load_parent_map (put_category c' d) (pc_workspace_id c)) MAX_DEPTH y"
proof -
  let ?ws = "pc_workspace_id c"
  have fr: "ids_fresh d" using ok by (simp add: categories_ok_def)
  note pp = parent_of_put [OF fr c]
  show ?thesis
  proof (cases "pc_parent_id c'")
    case None
    show ?thesis by (rule climbs_detach [OF categories_ok_climbs [OF ok, of ?ws]]) (simp add: pp None)
  next
    case (Some p)
    with v have "p \<noteq> pc_id c \<and> pc_id c \<notin> set (ancestor_ids (load_parent_map d ?ws) p)
       \<and> depth_of (load_parent_map d ?ws) p + 1 + subtree_height (load_parent_map d ?ws) (pc_id c) \<le> MAX_DEPTH"
      by (auto simp: validate_parent_Inr)
    moreover have "parent_of (load_parent_map (put_category c' d) ?ws) (pc_id c) = Some p" by (simp add: pp Some)
    moreover have "\<forall>y. y \<noteq> pc_id c \<longrightarrow> parent_of (load_parent_map (put_category c' d) ?ws) y = parent_of (load_parent_map d ?ws) y"
      by (simp add: pp)
    ultimately show ?thesis
      using climbs_reparent_iff [OF _ distinct_load_parent_map [OF fr]] categories_ok_climbs [OF ok] by blast
  qed
qed

lemma validated_parent:
  assumes "validate_parent ws (Some p) cid d = Inr d'"
  shows "cid \<noteq> Some p \<and> (\<exists>x \<in> set (part_categories d). pc_id x = p \<and> pc_workspace_id x = ws \<and> pc_archived_at x = None)"
  using assms by (auto simp: validate_parent_Inr dest!: get_category_Inr)

lemma validate_parent_frame:
  "validate_parent ws p cid d = Inr d' \<Longrightarrow> part_categories d' = part_categories d \<and> next_category_id d' = next_category_id d"
  by (auto simp: validate_parent_Inr)

lemma same_parent_climbs:
  assumes ok: "categories_ok d" and c: "c \<in> set (part_categories d)" "pc_id c' = pc_id c" "pc_workspace_id c' = pc_workspace_id c"
    and p: "pc_parent_id c' = None \<or> pc_parent_id c' = pc_parent_id c"
  shows "climbs (load_parent_map (put_category c' d) (pc_workspace_id c)) MAX_DEPTH y"
proof (rule climbs_detach [OF categories_ok_climbs [OF ok, of "pc_workspace_id c"]])
  have fr: "ids_fresh d" using ok by (simp add: categories_ok_def)
  have "parent_of (load_parent_map d (pc_workspace_id c)) (pc_id c) = pc_parent_id c"
    by (rule option_eqI) (use parent_of_load [OF fr] c(1) distinct_ids [OF fr] in blast)
  with p show "\<forall>y. parent_of (load_parent_map (put_category c' d) (pc_workspace_id c)) y \<noteq> None \<longrightarrow>
      parent_of (load_parent_map (put_category c' d) (pc_workspace_id c)) y = parent_of (load_parent_map d (pc_workspace_id c)) y"
    by (auto simp: parent_of_put [OF fr c])
qed

lemma update_category_ok:
  assumes ok: "categories_ok d" and u: "update_category ws i user payload d = Inr (c', d')"
  shows "categories_ok d'"
proof -
  from u obtain c d1 where c: "get_category d ws i = Inr c"
    and av: "pc_archived_at c = None \<longrightarrow> assert_available d ws (patch_value (cp_name payload) (pc_name c))
                   (patch_value (cp_library_slug payload) (pc_library_slug c)) (Some (pc_id c)) = Inr ()"
    and v: "(case cp_parent_id payload of None \<Rightarrow> Inr d | Some p \<Rightarrow> validate_parent ws p (Some (pc_id c)) d) = Inr d1"
    and res: "c' = patched_category user payload c" "d' = put_category c' d1"
    by (auto simp: update_category_def bindr_Inr Let_def split: if_splits)
  note cm = get_category_Inr [OF c]
  have c': "pc_id c' = pc_id c" "pc_workspace_id c' = pc_workspace_id c" "pc_archived_at c' = pc_archived_at c"
    "pc_name c' = patch_value (cp_name payload) (pc_name c)" "pc_library_slug c' = patch_value (cp_library_slug payload) (pc_library_slug c)"
    "pc_parent_id c' = (case cp_parent_id payload of None \<Rightarrow> pc_parent_id c | Some p \<Rightarrow> p)"
    by (simp_all add: res patched_category_def)
  have d1: "part_categories d1 = part_categories d" "next_category_id d1 = next_category_id d"
    using v validate_parent_frame by (auto split: option.splits)
  have cc: "c \<in> set (part_categories d)" "pc_id c' = pc_id c" "pc_workspace_id c' = pc_workspace_id c" using cm c' by auto
  have "categories_ok (put_category c' d)"
  proof (rule put_category_ok [OF ok cc])
    show "\<forall>y. climbs (load_parent_map (put_category c' d) (pc_workspace_id c)) MAX_DEPTH y"
    proof (cases "cp_parent_id payload")
      case None
      with c' have "pc_parent_id c' = pc_parent_id c" by simp
      then show ?thesis using same_parent_climbs [OF ok cc] by blast
    next
      case (Some p)
      with v c' cm have "validate_parent (pc_workspace_id c) (pc_parent_id c') (Some (pc_id c)) d = Inr d1" by simp
      then show ?thesis using reparent_climbs [OF ok cc] by blast
    qed
    show "\<forall>p. pc_parent_id c' = Some p \<longrightarrow> p \<noteq> pc_id c \<and> (\<exists>x \<in> set (part_categories d). pc_id x = p
        \<and> pc_workspace_id x = pc_workspace_id c \<and> pc_archived_at x = None)"
    proof (cases "cp_parent_id payload")
      case None
      with c' cm categories_ok_parent [OF ok, of c] show ?thesis by auto
    next
      case (Some p)
      with v c' cm validated_parent [of ws _ "Some (pc_id c)" d d1] show ?thesis by fastforce
    qed
    show "pc_archived_at c' = None \<or> (\<forall>x \<in> set (part_categories d). pc_workspace_id x = pc_workspace_id c
        \<longrightarrow> pc_parent_id x \<noteq> Some (pc_id c)) \<or> pc_archived_at c \<noteq> None" unfolding c' by blast
    assume "pc_archived_at c' = None"
    with c' have "pc_archived_at c = None" by simp
    with av have "assert_available d ws (pc_name c') (pc_library_slug c') (Some (pc_id c)) = Inr ()" by (simp add: c')
    then show "\<forall>x \<in> set (part_categories d). pc_workspace_id x = pc_workspace_id c
        \<longrightarrow> pc_archived_at x = None \<longrightarrow> pc_id x \<noteq> pc_id c \<longrightarrow> pc_name x \<noteq> pc_name c' \<and> pc_library_slug x \<noteq> pc_library_slug c'"
      using cm by (auto simp: assert_available_Inr)
  qed
  moreover have "categories_ok d' = categories_ok (put_category c' d)"
    by (rule categories_ok_cong) (simp_all add: res put_category_def d1)
  ultimately show ?thesis by simp
qed

definition promoted :: "uuid \<Rightarrow> uuid \<Rightarrow> uuid option \<Rightarrow> part_category \<Rightarrow> part_category" where
  "promoted ws i user x = (if pc_workspace_id x = ws \<and> pc_parent_id x = Some i
     then x\<lparr>pc_parent_id := None, pc_updated_by := user\<rparr> else x)"

lemma promoted_simps [simp]:
  "pc_id (promoted ws i user x) = pc_id x" "pc_workspace_id (promoted ws i user x) = pc_workspace_id x"
  "pc_archived_at (promoted ws i user x) = pc_archived_at x" "pc_name (promoted ws i user x) = pc_name x"
  "pc_library_slug (promoted ws i user x) = pc_library_slug x"
  "pc_parent_id (promoted ws i user x) = Some p \<longleftrightarrow> pc_parent_id x = Some p \<and> \<not> (pc_workspace_id x = ws \<and> p = i)"
  by (auto simp: promoted_def)

lemma promote_children_simps [simp]:
  "part_categories (promote_children ws i user d) = map (promoted ws i user) (part_categories d)"
  "next_category_id (promote_children ws i user d) = next_category_id d"
  by (auto simp: promote_children_def promoted_def)

lemma promote_children_ok:
  assumes ok: "categories_ok d"
  shows "categories_ok (promote_children ws i user d)"
proof -
  let ?d = "promote_children ws i user d"
  have ids: "map pc_id (part_categories ?d) = map pc_id (part_categories d)" by simp
  have fr: "ids_fresh d" and fr': "ids_fresh ?d"
    using ok unfolding categories_ok_def ids_fresh_def ids promote_children_simps(2) by blast+
  have "climbs (load_parent_map ?d w) MAX_DEPTH y" for w y
  proof (rule climbs_detach [OF categories_ok_climbs [OF ok, of w]], intro allI impI)
    fix z assume "parent_of (load_parent_map ?d w) z \<noteq> None"
    then obtain p where p: "parent_of (load_parent_map ?d w) z = Some p" by auto
    then have "parent_of (load_parent_map d w) z = Some p" by (auto simp: parent_of_load [OF fr] parent_of_load [OF fr'])
    with p show "parent_of (load_parent_map ?d w) z = parent_of (load_parent_map d w) z" by simp
  qed
  moreover have "parents_active (part_categories ?d)"
    unfolding parents_active_def
  proof (intro ballI allI impI)
    fix y p assume "y \<in> set (part_categories ?d)" and p: "pc_parent_id y = Some p"
    then obtain x where x: "x \<in> set (part_categories d)" "y = promoted ws i user x" by auto
    with p have "pc_parent_id x = Some p" by simp
    from categories_ok_parent [OF ok x(1) this] obtain q where "q \<in> set (part_categories d)" "pc_id q = p"
      "pc_workspace_id q = pc_workspace_id x" "pc_archived_at q = None" by blast
    with x(2) show "\<exists>z \<in> set (part_categories ?d). pc_id z = p \<and> pc_workspace_id z = pc_workspace_id y \<and> pc_archived_at z = None"
      by (intro bexI [of _ "promoted ws i user q"]) auto
  qed
  moreover have "active_unique (part_categories ?d)"
    using ok unfolding categories_ok_def active_unique_def promote_children_simps set_map ball_simps promoted_simps by blast
  ultimately show ?thesis using fr' by (simp add: categories_ok_def)
qed

lemma archive_category_ok:
  assumes ok: "categories_ok d" and a: "archive_category ws i user d = Inr (r, d')"
  shows "categories_ok d'"
proof -
  from a obtain c where c: "get_category d ws i = Inr c" by (auto simp: archive_category_def bindr_Inr)
  note cm = get_category_Inr [OF c]
  show ?thesis
  proof (cases "pc_archived_at c = None")
    case False
    with a c show ?thesis using ok by (simp add: archive_category_def)
  next
    case True
    let ?d2 = "promote_children ws (pc_id c) user (lock_workspace_tree ws d)" and ?c' = "c\<lparr>pc_archived_at := Some (cat_clock d), pc_updated_by := user\<rparr>"
    have d': "d' = put_category ?c' ?d2" using a c True by (simp add: archive_category_def Let_def)
    have ok2: "categories_ok ?d2" by (intro promote_children_ok) (simp add: ok)
    have own: "pc_parent_id c \<noteq> Some (pc_id c)" using categories_ok_parent [OF ok] cm by blast
    then have "promoted ws (pc_id c) user c = c" by (simp add: promoted_def)
    then have mem: "c \<in> set (part_categories ?d2)" using cm by (metis image_eqI list.set_map lock_workspace_tree_simps(1) promote_children_simps(1))
    have cc: "c \<in> set (part_categories ?d2)" "pc_id ?c' = pc_id c" "pc_workspace_id ?c' = pc_workspace_id c" using mem by simp_all
    show ?thesis unfolding d'
    proof (rule put_category_ok [OF ok2 cc])
      show "\<forall>y. climbs (load_parent_map (put_category ?c' ?d2) (pc_workspace_id c)) MAX_DEPTH y"
        using same_parent_climbs [OF ok2 cc] by simp
      show "\<forall>p. pc_parent_id ?c' = Some p \<longrightarrow> p \<noteq> pc_id c \<and> (\<exists>x \<in> set (part_categories ?d2). pc_id x = p
        \<and> pc_workspace_id x = pc_workspace_id c \<and> pc_archived_at x = None)"
        using categories_ok_parent [OF ok2 cc(1)] by simp
      show "pc_archived_at ?c' = None \<or> (\<forall>x \<in> set (part_categories ?d2). pc_workspace_id x = pc_workspace_id c
        \<longrightarrow> pc_parent_id x \<noteq> Some (pc_id c)) \<or> pc_archived_at c \<noteq> None"
        using cm by auto
    qed simp
  qed
qed

lemma restore_category_ok:
  assumes ok: "categories_ok d" and r: "restore_category ws i user d = Inr (x, d')"
  shows "categories_ok d'"
proof -
  from r obtain c where c: "get_category d ws i = Inr c" by (auto simp: restore_category_def bindr_Inr)
  note cm = get_category_Inr [OF c]
  show ?thesis
  proof (cases "pc_archived_at c = None")
    case True
    with r c show ?thesis using ok by (simp add: restore_category_def)
  next
    case False
    let ?c' = "c\<lparr>pc_archived_at := None, pc_updated_by := user\<rparr>"
    have av: "assert_available d ws (pc_name c) (pc_library_slug c) (Some (pc_id c)) = Inr ()"
      and d': "d' = put_category ?c' d" using r c False by (auto simp: restore_category_def Let_def bindr_Inr)
    have cc: "c \<in> set (part_categories d)" "pc_id ?c' = pc_id c" "pc_workspace_id ?c' = pc_workspace_id c" using cm by simp_all
    show ?thesis unfolding d'
    proof (rule put_category_ok [OF ok cc])
      show "\<forall>y. climbs (load_parent_map (put_category ?c' d) (pc_workspace_id c)) MAX_DEPTH y"
        using same_parent_climbs [OF ok cc] by simp
      show "\<forall>p. pc_parent_id ?c' = Some p \<longrightarrow> p \<noteq> pc_id c \<and> (\<exists>x \<in> set (part_categories d). pc_id x = p
        \<and> pc_workspace_id x = pc_workspace_id c \<and> pc_archived_at x = None)"
        using categories_ok_parent [OF ok cc(1)] by simp
      show "\<forall>x \<in> set (part_categories d). pc_workspace_id x = pc_workspace_id c \<longrightarrow> pc_archived_at x = None
        \<longrightarrow> pc_id x \<noteq> pc_id c \<longrightarrow> pc_name x \<noteq> pc_name ?c' \<and> pc_library_slug x \<noteq> pc_library_slug ?c'"
        using av cm by (auto simp: assert_available_Inr)
    qed simp
  qed
qed

text \<open>A new row, which nothing points to yet.\<close>

lemma parent_of_append:
  assumes "ids_fresh (d\<lparr>part_categories := part_categories d @ [c], next_category_id := n\<rparr>)" "ids_fresh d"
  shows "parent_of (load_parent_map (d\<lparr>part_categories := part_categories d @ [c], next_category_id := n\<rparr>) ws) x
    = (if x = pc_id c \<and> ws = pc_workspace_id c then pc_parent_id c else parent_of (load_parent_map d ws) x)"
proof (rule option_eqI)
  fix p
  have "y \<in> set (part_categories d) \<Longrightarrow> pc_id y \<noteq> pc_id c" for y using assms(1) by (auto simp: ids_fresh_def image_iff)
  then show "parent_of (load_parent_map (d\<lparr>part_categories := part_categories d @ [c], next_category_id := n\<rparr>) ws) x = Some p
    \<longleftrightarrow> (if x = pc_id c \<and> ws = pc_workspace_id c then pc_parent_id c else parent_of (load_parent_map d ws) x) = Some p"
    unfolding parent_of_load [OF assms(1)] by (auto simp: parent_of_load [OF assms(2)])
qed

lemma create_category_ok:
  assumes ok: "categories_ok d" and cr: "create_category ws user payload d = Inr (c, d')"
  shows "categories_ok d'"
proof -
  from cr obtain d1 slug where
    av: "assert_available d ws (ci_name payload) slug None = Inr ()"
    and v: "validate_parent ws (ci_parent_id payload) None d = Inr d1"
    and c: "pc_id c = next_category_id d1" "pc_workspace_id c = ws" "pc_name c = ci_name payload" "pc_library_slug c = slug"
      "pc_parent_id c = ci_parent_id payload" "pc_archived_at c = None"
    and d': "d' = d1\<lparr>part_categories := part_categories d1 @ [c], next_category_id := next_category_id d1 + 1\<rparr>"
    unfolding create_category_def Let_def by (auto simp: bindr_Inr split: if_splits)
  have e: "part_categories d1 = part_categories d" "next_category_id d1 = next_category_id d"
    using validate_parent_frame [OF v] by simp_all
  have ok1: "categories_ok d1" using ok categories_ok_cong [OF e] by simp
  have fr: "ids_fresh d1" using ok1 by (simp add: categories_ok_def)
  have fr': "ids_fresh d'" using fr c(1) by (auto simp: d' ids_fresh_def)
  have pa: "\<exists>x \<in> set (part_categories d1). pc_id x = p \<and> pc_workspace_id x = ws \<and> pc_archived_at x = None"
    if "pc_parent_id c = Some p" for p
    using validated_parent [of ws p None d d1] v c(5) that e by simp
  have fresh: "pc_id x \<noteq> pc_id c" if "x \<in> set (part_categories d1)" for x using fr that c(1) by (auto simp: ids_fresh_def)
  note po = parent_of_append [OF fr' [unfolded d'] fr, folded d']
  have "climbs (load_parent_map d' w) MAX_DEPTH y" for w y
  proof (cases "w = ws \<and> pc_parent_id c \<noteq> None")
    case False
    show ?thesis by (rule climbs_detach [OF categories_ok_climbs [OF ok1, of w]]) (use False c(2) po in auto)
  next
    case True
    then obtain p where p: "pc_parent_id c = Some p" and w: "w = ws" by auto
    from pa [OF p] fresh have np: "p \<noteq> pc_id c" by blast
    have nobody: "parent_of (load_parent_map d1 ws) z \<noteq> Some (pc_id c)" for z
      using categories_ok_parent [OF ok1] fresh by (auto simp: parent_of_load [OF fr])
    have b: "k = 0" if "y \<in> below (load_parent_map d1 ws) (pc_id c) k" for k y
      using that
    proof (induction k arbitrary: y)
      case (Suc k)
      then obtain z where z: "parent_of (load_parent_map d1 ws) y = Some z" "z \<in> below (load_parent_map d1 ws) (pc_id c) k"
        by (auto simp: below_Suc)
      with Suc.IH have "z = pc_id c" by fastforce
      with z nobody show ?case by simp
    qed simp
    have "(p, pc_id c) \<notin> (parent_rel (load_parent_map d1 ws))\<^sup>*"
      using b np below_rtrancl [of p "load_parent_map d1 ws" "pc_id c"] by fastforce
    moreover have "\<forall>k. below (load_parent_map d1 ws) (pc_id c) k \<noteq> {} \<longrightarrow> k \<le> 0" using b by blast
    moreover have "depth_of (load_parent_map d1 ws) p + 1 + 0 \<le> MAX_DEPTH"
      using v p c(5) load_parent_map_cong [OF e(1)] by (auto simp: validate_parent_Inr)
    moreover have "parent_of (load_parent_map d' ws) (pc_id c) = Some p" using po p c(2) by simp
    moreover have "\<forall>y. y \<noteq> pc_id c \<longrightarrow> parent_of (load_parent_map d' ws) y = parent_of (load_parent_map d1 ws) y" using po by simp
    ultimately show ?thesis unfolding w using climbs_reparent [of "load_parent_map d1 ws"] categories_ok_climbs [OF ok1] by blast
  qed
  moreover have "parents_active (part_categories d')"
  proof -
    have s: "set (part_categories d') = insert c (set (part_categories d1))" by (simp add: d')
    show ?thesis unfolding parents_active_def s using pa c(2) categories_ok_parent [OF ok1] by blast
  qed
  moreover have "active_unique (part_categories d')"
  proof -
    have s: "set (part_categories d') = insert c (set (part_categories d1))" by (simp add: d')
    have u: "pc_name x \<noteq> pc_name c \<and> pc_library_slug x \<noteq> pc_library_slug c"
      if "x \<in> set (part_categories d1)" "pc_workspace_id x = pc_workspace_id c" "pc_archived_at x = None" for x
      using av that c e(1) by (simp add: assert_available_Inr)
    have "active_unique (part_categories d1)" using ok1 by (simp add: categories_ok_def)
    then show ?thesis by (rule active_unique_insert [OF _ s subset_refl]) (rule u)
  qed
  ultimately show ?thesis using fr' by (simp add: categories_ok_def)
qed

section \<open>The tree as a state machine\<close>

text \<open>Any request of any workspace, from an empty table.\<close>

inductive cat_reachable :: "cat_db \<Rightarrow> bool" where
  empty: "part_categories d = [] \<Longrightarrow> cat_reachable d"
| create: "cat_reachable d \<Longrightarrow> create_category ws user pl d = Inr (c, d') \<Longrightarrow> cat_reachable d'"
| update: "cat_reachable d \<Longrightarrow> update_category ws i user patch d = Inr (c, d') \<Longrightarrow> cat_reachable d'"
| archive: "cat_reachable d \<Longrightarrow> archive_category ws i user d = Inr (r, d') \<Longrightarrow> cat_reachable d'"
| restore: "cat_reachable d \<Longrightarrow> restore_category ws i user d = Inr (c, d') \<Longrightarrow> cat_reachable d'"

lemma cat_reachable_ok: "cat_reachable d \<Longrightarrow> categories_ok d"
proof (induction rule: cat_reachable.induct)
  case (empty d)
  then show ?case
    by (simp add: categories_ok_def ids_fresh_def parents_active_def active_unique_def load_parent_map_def MAX_DEPTH_def
        parent_of_def eval_nat_numeral)
qed (blast intro: create_category_ok update_category_ok archive_category_ok restore_category_ok)+

text \<open>
  C12: whatever sequence of requests creates, edits, moves, archives and restores categories,
  no category is its own ancestor, none sits deeper than \<open>MAX_DEPTH\<close>, the parent of every
  category (archived ones too) is an active category of the same workspace, and no two active
  categories of a workspace share a name or a slug.
\<close>

theorem category_tree_invariant:
  assumes "cat_reachable d"
  shows "acyclic (parent_rel (load_parent_map d ws)) \<and> depth_of (load_parent_map d ws) x \<le> MAX_DEPTH
    \<and> parents_active (part_categories d) \<and> active_unique (part_categories d)"
  using cat_reachable_ok [OF assms] climbs_iff [of "load_parent_map d ws" MAX_DEPTH]
  unfolding categories_ok_def by blast

text \<open>
  C37: the guard on a move is exact. On any reachable table, moving a category under a parent is
  accepted exactly when the parent is an active category of the workspace and the tree with
  that one link changed has no cycle and stays within \<open>MAX_DEPTH\<close>: nothing unfit gets through
  and nothing fit is refused.
\<close>

theorem reparent_guard_exact:
  assumes "cat_reachable d" and "get_category d ws i = Inr c"
  shows "(\<exists>d'. validate_parent ws (Some p) (Some i) d = Inr d')
    \<longleftrightarrow> (\<exists>x. get_category d ws p = Inr x \<and> pc_archived_at x = None)
      \<and> acyclic (parent_rel ((i, Some p) # load_parent_map d ws))
      \<and> (\<forall>y. depth_of ((i, Some p) # load_parent_map d ws) y \<le> MAX_DEPTH)"
proof -
  have ok: "categories_ok d" using cat_reachable_ok [OF assms(1)] .
  then have dist: "distinct (map fst (load_parent_map d ws))" by (simp add: categories_ok_def distinct_load_parent_map)
  have "(\<forall>y. climbs ((i, Some p) # load_parent_map d ws) MAX_DEPTH y) \<longleftrightarrow> p \<noteq> i
      \<and> i \<notin> set (ancestor_ids (load_parent_map d ws) p)
      \<and> depth_of (load_parent_map d ws) p + 1 + subtree_height (load_parent_map d ws) i \<le> MAX_DEPTH"
    by (rule climbs_reparent_iff [OF _ dist]) (use categories_ok_climbs [OF ok] in \<open>auto simp: parent_of_def\<close>)
  then show ?thesis unfolding climbs_iff by (auto simp: validate_parent_Inr)
qed

section \<open>Slugs\<close>

text \<open>The shape the schema's \<open>LibrarySlug\<close> pattern asks of a slug.\<close>

definition slug_ok :: "string \<Rightarrow> bool" where
  "slug_ok s \<longleftrightarrow> s \<noteq> [] \<and> length s \<le> 60 \<and> (\<forall>c \<in> set s. slug_char c \<or> c = CHR ''-'') \<and> hd s \<noteq> CHR ''-''
     \<and> last s \<noteq> CHR ''-'' \<and> successively (\<lambda>a b. \<not> (a = CHR ''-'' \<and> b = CHR ''-'')) s"

abbreviation single_dashes :: "string \<Rightarrow> bool" where
  "single_dashes \<equiv> successively (\<lambda>a b. \<not> (a = CHR ''-'' \<and> b = CHR ''-''))"

lemma slug_char_dash [simp]: "\<not> slug_char (CHR ''-'')"
  by (simp add: slug_char_def)

lemma set_sub_runs: "\<forall>c \<in> set (sub_runs r s). slug_char c \<or> c = CHR ''-''"
  by (induction r s rule: sub_runs.induct) auto

lemma hd_sub_runs: "sub_runs True s \<noteq> [] \<Longrightarrow> hd (sub_runs True s) \<noteq> CHR ''-''"
proof (induction s)
  case (Cons c s)
  then show ?case by (cases "slug_char c") auto
qed simp

lemma single_dashes_sub_runs: "single_dashes (sub_runs r s)"
proof (induction r s rule: sub_runs.induct)
  case (2 r c cs)
  then show ?case using hd_sub_runs [of cs] by (auto simp: successively_Cons)
qed simp

lemma sub_runs_id:
  "\<forall>c \<in> set s. slug_char c \<or> c = CHR ''-'' \<Longrightarrow> single_dashes s \<Longrightarrow> r \<longrightarrow> s \<noteq> [] \<longrightarrow> hd s \<noteq> CHR ''-'' \<Longrightarrow> sub_runs r s = s"
proof (induction r s rule: sub_runs.induct)
  case (2 r c cs)
  then show ?case by (cases "slug_char c") (auto simp: successively_Cons)
qed simp

lemma strip_dash_infix: "\<exists>xs ys. s = xs @ strip_dash s @ ys"
proof -
  let ?t = "dropWhile ((=) CHR ''-'') s"
  have "s = takeWhile ((=) CHR ''-'') s @ ?t" by simp
  moreover have "?t = strip_dash s @ rev (takeWhile ((=) CHR ''-'') (rev ?t))"
    unfolding strip_dash_def by (metis rev_append rev_rev_ident takeWhile_dropWhile_id)
  ultimately show ?thesis by metis
qed

lemma strip_dash_ends:
  assumes "strip_dash s \<noteq> []"
  shows "hd (strip_dash s) \<noteq> CHR ''-''" "last (strip_dash s) \<noteq> CHR ''-''"
proof -
  let ?t = "dropWhile ((=) CHR ''-'') s"
  have r: "dropWhile ((=) CHR ''-'') (rev ?t) \<noteq> []" using assms by (simp add: strip_dash_def)
  then show "last (strip_dash s) \<noteq> CHR ''-''" using hd_dropWhile [OF r] by (simp add: strip_dash_def last_rev)
  have t: "?t = strip_dash s @ rev (takeWhile ((=) CHR ''-'') (rev ?t))"
    unfolding strip_dash_def by (metis rev_append rev_rev_ident takeWhile_dropWhile_id)
  then have ne: "?t \<noteq> []" using assms by (metis Nil_is_append_conv)
  have "hd ?t = hd (strip_dash s)" using trans [OF arg_cong [OF t, of hd] hd_append2 [OF assms]] .
  with hd_dropWhile [OF ne] show "hd (strip_dash s) \<noteq> CHR ''-''" by metis
qed

lemma strip_dash_id: "s = [] \<or> hd s \<noteq> CHR ''-'' \<and> last s \<noteq> CHR ''-'' \<Longrightarrow> strip_dash s = s"
proof -
  assume s: "s = [] \<or> hd s \<noteq> CHR ''-'' \<and> last s \<noteq> CHR ''-''"
  have "dropWhile ((=) CHR ''-'') t = t" if "t = [] \<or> hd t \<noteq> CHR ''-''" for t using that by (cases t) auto
  from this [of s] this [of "rev s"] s show ?thesis by (auto simp: strip_dash_def hd_rev)
qed

lemma strip_id: "\<forall>c \<in> set s. \<not> is_space c \<Longrightarrow> strip s = s"
proof -
  assume s: "\<forall>c \<in> set s. \<not> is_space c"
  have "dropWhile is_space t = t" if "\<forall>c \<in> set t. \<not> is_space c" for t using that by (cases t) auto
  from this [of s] this [of "rev s"] s show ?thesis by (simp add: strip_def)
qed

lemma slug_char_plain: "slug_char c \<or> c = CHR ''-'' \<Longrightarrow> \<not> is_space c \<and> lower_char c = c"
  by (auto simp: slug_char_def is_space_def lower_char_def Let_def)

lemma slug_ok_slugify: "slug_ok (slugify v)"
proof -
  let ?t = "sub_runs False (map lower_char (strip v))"
  define u where "u = strip_dash ?t"
  define w where "w = strip_dash (take 60 u)"
  obtain xs ys where u: "?t = xs @ u @ ys" using strip_dash_infix [of ?t] by (auto simp: u_def)
  obtain xs' ys' where w: "take 60 u = xs' @ w @ ys'" using strip_dash_infix [of "take 60 u"] by (auto simp: w_def)
  have "single_dashes u" using single_dashes_sub_runs [of False "map lower_char (strip v)"] by (simp add: u successively_append_iff)
  then have "single_dashes (take 60 u)" by (metis append_take_drop_id successively_append_iff)
  then have 1: "single_dashes w" by (simp add: w successively_append_iff)
  have "set w \<subseteq> set u" using w set_take_subset [of 60 u] by auto
  then have 2: "\<forall>c \<in> set w. slug_char c \<or> c = CHR ''-''"
    using set_sub_runs [of False "map lower_char (strip v)"] u by auto
  have "length w \<le> length (take 60 u)" by (simp add: w)
  then have 3: "length w \<le> 60" by simp
  have "slug_ok (if w = [] then ''category'' else w)"
  proof (cases "w = []")
    case True
    have "slug_ok ''category''" by code_simp
    then show ?thesis unfolding if_P [OF True] .
  next
    case False
    with 1 2 3 strip_dash_ends [of "take 60 u"] show ?thesis by (simp add: slug_ok_def w_def)
  qed
  then show ?thesis unfolding w_def u_def slugify_def Let_def .
qed

lemma slugify_id:
  assumes "slug_ok s"
  shows "slugify s = s"
proof -
  note s = assms [unfolded slug_ok_def]
  have plain: "\<forall>c \<in> set s. \<not> is_space c \<and> lower_char c = c" using s slug_char_plain by blast
  then have "strip s = s" using strip_id by blast
  moreover have "map lower_char s = s" using plain by (simp add: map_idI)
  moreover have "sub_runs False s = s" using s by (intro sub_runs_id) auto
  moreover have "strip_dash s = s" using s strip_dash_id by blast
  ultimately show ?thesis using s by (simp add: slugify_def Let_def)
qed

text \<open>
  whatever the name, \<open>slugify\<close> returns a slug the column and the schema accept: one to sixty
  lower-case letters, digits and single dashes, none at either end; and a slug is its own
  slug, so the slugs are exactly the values of \<open>slugify\<close>.
\<close>

theorem slugify_canonical:
  "slug_ok (slugify v) \<and> (slug_ok s \<longleftrightarrow> slugify s = s)"
  using slug_ok_slugify slugify_id by metis

section \<open>Witnesses\<close>

definition demo_category :: "string \<Rightarrow> uuid option \<Rightarrow> category_in" where
  "demo_category n p = \<lparr>ci_name = n, ci_sort_order = 0, ci_library_slug = None, ci_parent_id = p\<rparr>"

definition no_categories :: cat_db where
  "no_categories = \<lparr>part_categories = [], tree_locks = [], cat_clock = 5, next_category_id = 10\<rparr>"

definition demo_tree_run :: "category_error + cat_db" where
  "demo_tree_run =
     bindr (create_category 1 None (demo_category ''Capacitors'' None) no_categories) (\<lambda>(_, d1).
     bindr (create_category 1 None (demo_category ''Ceramic'' (Some 10)) d1) (\<lambda>(_, d2).
     bindr (create_category 1 None (demo_category ''X7R'' (Some 11)) d2) (\<lambda>(_, d3).
     bindr (create_category 1 None (demo_category ''Passives'' None) d3) (\<lambda>(_, d4). Inr d4))))"

definition demo_tree :: cat_db where "demo_tree = projr demo_tree_run"

lemma demo_tree_reachable: "cat_reachable demo_tree"
proof -
  have "\<not> isl demo_tree_run" by code_simp
  then have "demo_tree_run = Inr demo_tree" by (simp add: demo_tree_def)
  moreover have "cat_reachable no_categories" by (simp add: cat_reachable.empty no_categories_def)
  ultimately show ?thesis unfolding demo_tree_run_def
    by (auto simp: bindr_Inr) (metis cat_reachable.create)
qed

lemma category_tree_invariant_witness:
  "cat_reachable demo_tree \<and> acyclic (parent_rel (load_parent_map demo_tree 1))
    \<and> depth_of (load_parent_map demo_tree 1) 12 = 3"
proof -
  have "depth_of (load_parent_map demo_tree 1) 12 = 3" by code_simp
  with category_tree_invariant [OF demo_tree_reachable, of 1] demo_tree_reachable show ?thesis by blast
qed

lemma reparent_guard_exact_witness:
  "(\<exists>d'. validate_parent 1 (Some 13) (Some 10) demo_tree = Inr d')
   \<and> acyclic (parent_rel ((10, Some 13) # load_parent_map demo_tree 1))"
proof -
  obtain c where c: "get_category demo_tree 1 10 = Inr c"
  proof -
    have "\<not> isl (get_category demo_tree 1 10)" by code_simp
    from sum.collapse(2) [OF this] show thesis by (intro that) (rule sym)
  qed
  have "\<not> isl (validate_parent 1 (Some 13) (Some 10) demo_tree)" by code_simp
  from sum.collapse(2) [OF this, symmetric] have "\<exists>d'. validate_parent 1 (Some 13) (Some 10) demo_tree = Inr d'" by blast
  with reparent_guard_exact [OF demo_tree_reachable c, of 13] show ?thesis by blast
qed

lemma descendants_are_converse_ancestors_witness:
  "let m = [(1, Some 2), (2, Some 1), (3, Some 2)] :: parent_map in
     3 \<in> descendant_ids m 1 \<and> 1 \<in> set (ancestor_ids m 3)"
proof -
  have "distinct (map fst ([(1, Some 2), (2, Some 1), (3, Some 2)] :: parent_map))" by simp
  from descendants_are_converse_ancestors [OF this, of 3 1]
  have "3 \<in> descendant_ids [(1, Some 2), (2, Some 1), (3, Some 2)] 1
      \<longleftrightarrow> (3::nat) = 1 \<or> 1 \<in> set (ancestor_ids [(1, Some 2), (2, Some 1), (3, Some 2)] 3)" by blast
  moreover have "1 \<in> set (ancestor_ids [(1, Some 2), (2, Some 1), (3, Some 2)] 3)" by code_simp
  ultimately show ?thesis by (simp add: Let_def)
qed

end
