(* ===== verification/CategoryPaths.thy ===== *)
theory CategoryPaths
  imports CategoryProps "HOL-Library.List_Lexorder" "HOL-Library.Char_ord"
begin

text \<open>
  Category paths such as \<open>"Capacitors / Ceramic"\<close>: \<open>tree_paths\<close> of
  \<open>backend/app/domain/categories/tree.py\<close> writes them, and the second half of
  \<open>categories/service.py\<close> resolves them. The theorem is the round trip between the two.
\<close>

section \<open>Writing paths\<close>

text \<open>The children of a category among the rows selected, in \<open>(sort_order, name)\<close> order; a parent
  that is not selected counts as none.\<close>

definition selected_parent :: "part_category list \<Rightarrow> part_category \<Rightarrow> uuid option" where
  "selected_parent cs c = (case pc_parent_id c of None \<Rightarrow> None
     | Some p \<Rightarrow> if p \<in> set (map pc_id cs) then Some p else None)"

definition siblings :: "part_category list \<Rightarrow> uuid option \<Rightarrow> part_category list" where
  "siblings cs parent = sort_key pc_sort_order (sort_key pc_name (filter (\<lambda>c. selected_parent cs c = parent) cs))"

lemma set_siblings: "x \<in> set (siblings cs parent) \<longleftrightarrow> x \<in> set cs \<and> selected_parent cs x = parent"
  by (simp add: siblings_def)

text \<open>The loop over the explicit stack, its top first: the entries written and the ids seen.\<close>

function walk_paths :: "part_category list \<Rightarrow> string \<Rightarrow> uuid set \<Rightarrow> (part_category \<times> string) list
    \<Rightarrow> (part_category \<times> string) list \<times> uuid set" where
  "walk_paths cs sep seen [] = ([], seen)"
| "walk_paths cs sep seen ((c, prefix) # stack) =
     (if pc_id c \<in> seen then walk_paths cs sep seen stack
      else let nm = prefix @ pc_name c;
               (out, seen') = walk_paths cs sep (insert (pc_id c) seen)
                 (map (\<lambda>child. (child, nm @ sep)) (siblings cs (Some (pc_id c))) @ stack)
           in ((c, nm) # out, seen'))"
  by pat_completeness auto
termination
proof (relation "measures [\<lambda>(cs, sep, seen, stack). card (set (map pc_id cs) - seen), \<lambda>(cs, sep, seen, stack). length stack]")
  fix cs :: "part_category list" and sep :: string and seen :: "uuid set" and c :: part_category
    and prefix nm :: string and stack :: "(part_category \<times> string) list"
  assume c: "pc_id c \<notin> seen"
  let ?kids = "map (\<lambda>child. (child, nm @ sep)) (siblings cs (Some (pc_id c)))"
  show "((cs, sep, insert (pc_id c) seen, ?kids @ stack), cs, sep, seen, (c, prefix) # stack)
      \<in> measures [\<lambda>(cs, sep, seen, stack). card (set (map pc_id cs) - seen), \<lambda>(cs, sep, seen, stack). length stack]"
  proof (cases "pc_id c \<in> set (map pc_id cs)")
    case True
    with c have "card (set (map pc_id cs) - insert (pc_id c) seen) < card (set (map pc_id cs) - seen)"
      by (intro psubset_card_mono) auto
    then show ?thesis by simp
  next
    case False
    then have "\<forall>x \<in> set cs. selected_parent cs x \<noteq> Some (pc_id c)"
      by (auto simp: selected_parent_def image_iff split: option.split)
    then have "siblings cs (Some (pc_id c)) = []"
      using set_siblings [of _ cs "Some (pc_id c)"] last_in_set by blast
    moreover have "set (map pc_id cs) - insert (pc_id c) seen = set (map pc_id cs) - seen" using False by blast
    ultimately show ?thesis by simp
  qed
qed simp_all

definition tree_paths :: "part_category list \<Rightarrow> string \<Rightarrow> (part_category \<times> string) list" where
  "tree_paths cs sep =
     (let (out, seen) = walk_paths cs sep {} (map (\<lambda>c. (c, [])) (siblings cs None)) in
      out @ map (\<lambda>c. (c, pc_name c))
        (sort_key pc_sort_order (sort_key pc_name (filter (\<lambda>c. pc_id c \<notin> seen) cs))))"

section \<open>The index\<close>

definition PATH_SEPARATOR :: string where "PATH_SEPARATOR = '' / ''"

record category_index =
  ix_rows :: "part_category list"
  ix_active_children :: "uuid option \<Rightarrow> part_category list"
  ix_paths :: "uuid \<Rightarrow> string option"

definition index_rows :: "cat_db \<Rightarrow> uuid \<Rightarrow> part_category list" where
  "index_rows d ws = sort_key pc_sort_order (sort_key pc_name (sort_key pc_id
     (filter (\<lambda>c. pc_workspace_id c = ws) (part_categories d))))"

definition category_index :: "cat_db \<Rightarrow> uuid \<Rightarrow> category_index" where
  "category_index d ws =
     (let rows = index_rows d ws in
      \<lparr>ix_rows = rows,
       ix_active_children = (\<lambda>p. filter (\<lambda>c. pc_archived_at c = None \<and> pc_parent_id c = p) rows),
       ix_paths = map_of (rev (map (\<lambda>(c, path). (pc_id c, path)) (tree_paths rows PATH_SEPARATOR)))\<rparr>)"

text \<open>\<open>_index\<close>: the caller's index, or a fresh one.\<close>

definition index_or_load :: "cat_db \<Rightarrow> uuid \<Rightarrow> category_index option \<Rightarrow> category_index" where
  "index_or_load d ws index = (case index of None \<Rightarrow> category_index d ws | Some ix \<Rightarrow> ix)"

definition category_filter_ids ::
    "cat_db \<Rightarrow> uuid \<Rightarrow> uuid \<Rightarrow> bool \<Rightarrow> category_index option \<Rightarrow> category_error + uuid set" where
  "category_filter_ids d ws i include_descendants index =
     bindr (case index of
         None \<Rightarrow> bindr (get_category d ws i) (\<lambda>_. Inr (load_parent_map d ws))
       | Some ix \<Rightarrow> if i \<notin> set (map pc_id (ix_rows ix)) then Inl Category_not_found
                    else Inr (map (\<lambda>c. (pc_id c, pc_parent_id c)) (ix_rows ix))) (\<lambda>m.
     if \<not> include_descendants then Inr {i} else Inr (descendant_ids m i))"

section \<open>Resolving paths\<close>

fun split_slash :: "string \<Rightarrow> string list" where
  "split_slash [] = [[]]"
| "split_slash (c # cs) = (if c = CHR ''/'' then [] # split_slash cs
     else case split_slash cs of [] \<Rightarrow> [[c]] | s # ss \<Rightarrow> (c # s) # ss)"

definition split_category_path :: "string option \<Rightarrow> string list" where
  "split_category_path path = (case path of None \<Rightarrow> []
     | Some s \<Rightarrow> if s = [] then [] else filter (\<lambda>x. x \<noteq> []) (map strip (split_slash s)))"

fun match_name :: "part_category option \<Rightarrow> part_category list \<Rightarrow> string \<Rightarrow> part_category option" where
  "match_name fallback [] segment = fallback"
| "match_name fallback (row # rows) segment = (if pc_name row = segment then Some row
     else match_name (if fallback = None \<and> casefold (pc_name row) = casefold segment then Some row else fallback) rows segment)"

fun walk_segments :: "(uuid option \<Rightarrow> part_category list) \<Rightarrow> uuid option \<Rightarrow> part_category option
    \<Rightarrow> string list \<Rightarrow> part_category option" where
  "walk_segments children parent node [] = node"
| "walk_segments children parent node (s # ss) = (case match_name None (children parent) s of None \<Rightarrow> None
     | Some n \<Rightarrow> walk_segments children (Some (pc_id n)) (Some n) ss)"

definition resolve_category_path ::
    "cat_db \<Rightarrow> uuid \<Rightarrow> string option \<Rightarrow> category_index option \<Rightarrow> part_category option" where
  "resolve_category_path d ws path index = (case split_category_path path of [] \<Rightarrow> None
     | s # ss \<Rightarrow> walk_segments (ix_active_children (index_or_load d ws index)) None None (s # ss))"

definition resolve_category_path_or_root ::
    "cat_db \<Rightarrow> uuid \<Rightarrow> string option \<Rightarrow> category_index option \<Rightarrow> part_category option" where
  "resolve_category_path_or_root d ws path index = (case split_category_path path of [] \<Rightarrow> None
     | s # ss \<Rightarrow> let children = ix_active_children (index_or_load d ws index) in
        (case walk_segments children None None (s # ss) of Some c \<Rightarrow> Some c
         | None \<Rightarrow> if ss \<noteq> [] then walk_segments children None None [s] else None))"

definition category_name_path :: "cat_db \<Rightarrow> uuid \<Rightarrow> uuid option \<Rightarrow> category_index option \<Rightarrow> string option" where
  "category_name_path d ws i index = (case i of None \<Rightarrow> None | Some c \<Rightarrow> ix_paths (index_or_load d ws index) c)"

definition category_name_paths ::
    "cat_db \<Rightarrow> uuid \<Rightarrow> uuid option list \<Rightarrow> category_index option \<Rightarrow> uuid \<Rightarrow> string option" where
  "category_name_paths d ws ids index c =
     (if Some c \<in> set ids then ix_paths (index_or_load d ws index) c else None)"

section \<open>What the walk writes\<close>

text \<open>The names from the root of the selected forest down to a category.\<close>

inductive has_names :: "part_category list \<Rightarrow> part_category \<Rightarrow> string list \<Rightarrow> bool" for cs where
  root: "c \<in> set cs \<Longrightarrow> selected_parent cs c = None \<Longrightarrow> has_names cs c [pc_name c]"
| child: "has_names cs p ns \<Longrightarrow> c \<in> set cs \<Longrightarrow> selected_parent cs c = Some (pc_id p) \<Longrightarrow> has_names cs c (ns @ [pc_name c])"

definition prefix_of :: "string \<Rightarrow> string list \<Rightarrow> string" where
  "prefix_of sep ns = concat (map (\<lambda>n. n @ sep) ns)"

definition path_of :: "string \<Rightarrow> string list \<Rightarrow> string" where
  "path_of sep ns = prefix_of sep (butlast ns) @ last ns"

lemma prefix_of_snoc: "ns \<noteq> [] \<Longrightarrow> prefix_of sep ns = path_of sep ns @ sep"
  by (cases ns rule: rev_cases) (simp_all add: prefix_of_def path_of_def)

lemma has_names_nonempty: "has_names cs c ns \<Longrightarrow> ns \<noteq> [] \<and> last ns = pc_name c \<and> c \<in> set cs"
  by (induction rule: has_names.induct) auto

lemma walk_paths_sound:
  assumes "\<forall>(c, prefix) \<in> set stack. \<exists>ns. has_names cs c (ns @ [pc_name c]) \<and> prefix = prefix_of sep ns"
    and "walk_paths cs sep seen stack = (out, seen')" and "(c, path) \<in> set out"
  shows "\<exists>ns. has_names cs c ns \<and> path = path_of sep ns"
  using assms
proof (induction cs sep seen stack arbitrary: out seen' rule: walk_paths.induct)
  case (2 cs sep seen c0 prefix stack)
  show ?case
  proof (cases "pc_id c0 \<in> seen")
    case True
    with "2.prems" "2.IH"(1) [OF True] show ?thesis by simp
  next
    case False
    let ?nm = "prefix @ pc_name c0" and ?kids = "map (\<lambda>child. (child, (prefix @ pc_name c0) @ sep)) (siblings cs (Some (pc_id c0)))"
    obtain out1 where w: "walk_paths cs sep (insert (pc_id c0) seen) (?kids @ stack) = (out1, seen')"
      and out: "out = (c0, ?nm) # out1"
      using "2.prems"(2) False by (auto simp: Let_def split: prod.splits)
    from "2.prems"(1) obtain ns where ns: "has_names cs c0 (ns @ [pc_name c0])" "prefix = prefix_of sep ns" by auto
    have nm: "?nm = path_of sep (ns @ [pc_name c0])" by (simp add: path_of_def ns(2))
    have kid: "has_names cs k ((ns @ [pc_name c0]) @ [pc_name k]) \<and> ?nm @ sep = prefix_of sep (ns @ [pc_name c0])"
      if "k \<in> set (siblings cs (Some (pc_id c0)))" for k
      using that has_names.child [OF ns(1), of k] by (simp add: set_siblings nm prefix_of_snoc del: append_assoc)
    have "\<forall>(c, prefix) \<in> set (?kids @ stack). \<exists>ns. has_names cs c (ns @ [pc_name c]) \<and> prefix = prefix_of sep ns"
      using "2.prems"(1) kid by fastforce
    from "2.IH"(2) [OF False refl this w] "2.prems"(3) out nm ns(1) show ?thesis by auto
  qed
qed simp

lemma walk_paths_seen:
  "walk_paths cs sep seen stack = (out, seen') \<Longrightarrow> seen' = seen \<union> pc_id ` fst ` set out
     \<and> pc_id ` fst ` set stack \<subseteq> seen' \<and> fst ` set out \<inter> {c. pc_id c \<in> seen} = {}
     \<and> (\<forall>(c, path) \<in> set out. \<forall>k \<in> set (siblings cs (Some (pc_id c))). pc_id k \<in> seen')"
proof (induction cs sep seen stack arbitrary: out seen' rule: walk_paths.induct)
  case (2 cs sep seen c0 prefix stack)
  show ?case
  proof (cases "pc_id c0 \<in> seen")
    case True
    with "2.prems" "2.IH"(1) [OF True] show ?thesis by auto
  next
    case False
    let ?kids = "map (\<lambda>child. (child, (prefix @ pc_name c0) @ sep)) (siblings cs (Some (pc_id c0)))"
    obtain out1 where w: "walk_paths cs sep (insert (pc_id c0) seen) (?kids @ stack) = (out1, seen')"
      and out: "out = (c0, prefix @ pc_name c0) # out1"
      using "2.prems" False by (auto simp: Let_def split: prod.splits)
    note ih = "2.IH"(2) [OF False refl w]
    have "pc_id k \<in> seen'" if "k \<in> set (siblings cs (Some (pc_id c0)))" for k
      using that conjunct1 [OF conjunct2 [OF ih]] by force
    with ih False show ?thesis unfolding out by auto
  qed
qed simp

text \<open>Every category with a chain to a root is written, under the path of its chain.\<close>

lemma tree_paths_complete:
  assumes dist: "distinct (map pc_id cs)" and w: "walk_paths cs sep {} (map (\<lambda>c. (c, [])) (siblings cs None)) = (out, seen)"
  shows "has_names cs c ns \<Longrightarrow> \<exists>path. (c, path) \<in> set out"
proof -
  note ws = walk_paths_seen [OF w]
  have in_cs: "x \<in> set cs" if "x \<in> fst ` set out" for x
  proof -
    have "\<forall>(c, prefix) \<in> set (map (\<lambda>c. (c, [])) (siblings cs None)). \<exists>ns. has_names cs c (ns @ [pc_name c]) \<and> prefix = prefix_of sep ns"
      by (auto simp: set_siblings prefix_of_def intro!: exI [of _ "[]"] has_names.root)
    from walk_paths_sound [OF this w] that show ?thesis using has_names_nonempty by force
  qed
  have emit: "\<exists>path. (c, path) \<in> set out" if "pc_id c \<in> seen" "c \<in> set cs" for c
  proof -
    have "pc_id c \<in> pc_id ` fst ` set out" using ws that(1) by simp
    then obtain x where x: "x \<in> fst ` set out" "pc_id x = pc_id c" by (metis imageE)
    with in_cs that(2) dist have "x = c" by (auto simp: distinct_map dest: inj_onD)
    with x(1) show ?thesis by force
  qed
  show "has_names cs c ns \<Longrightarrow> \<exists>path. (c, path) \<in> set out"
  proof (induction rule: has_names.induct)
    case (root c)
    then have "c \<in> set (siblings cs None)" by (simp add: set_siblings)
    then have "c \<in> fst ` set (map (\<lambda>c. (c, [])) (siblings cs None))" by (simp add: image_image)
    from subsetD [OF conjunct1 [OF conjunct2 [OF ws]] imageI [OF this]] have "pc_id c \<in> seen" .
    with root emit show ?case by blast
  next
    case (child p ns c)
    then obtain path where "(p, path) \<in> set out" by blast
    moreover have "c \<in> set (siblings cs (Some (pc_id p)))" using child by (simp add: set_siblings)
    ultimately have "pc_id c \<in> seen" using ws by blast
    with child emit show ?case by blast
  qed
qed

lemma map_of_all:
  assumes "(k, v) \<in> set xs" and "\<forall>v'. (k, v') \<in> set xs \<longrightarrow> v' = v"
  shows "map_of xs k = Some v"
proof -
  from assms(1) have "map_of xs k \<noteq> None" using map_of_eq_None_iff [of xs k] by (metis fst_conv image_eqI)
  then show ?thesis using assms(2) map_of_SomeD by fastforce
qed

lemma tree_path_of:
  assumes dist: "distinct (map pc_id cs)" and c: "has_names cs c ns"
    and uniq: "\<And>ms. has_names cs c ms \<Longrightarrow> ms = ns"
  shows "map_of (rev (map (\<lambda>(c, path). (pc_id c, path)) (tree_paths cs sep))) (pc_id c) = Some (path_of sep ns)"
proof -
  obtain out seen where w: "walk_paths cs sep {} (map (\<lambda>c. (c, [])) (siblings cs None)) = (out, seen)" by fastforce
  have pre: "\<forall>(c, prefix) \<in> set (map (\<lambda>c. (c, [])) (siblings cs None)). \<exists>ns. has_names cs c (ns @ [pc_name c]) \<and> prefix = prefix_of sep ns"
    by (auto simp: set_siblings prefix_of_def intro!: exI [of _ "[]"] has_names.root)
  note sound = walk_paths_sound [OF pre w]
  have c_in: "c \<in> set cs" using has_names_nonempty [OF c] by blast
  obtain path where path: "(c, path) \<in> set out" using tree_paths_complete [OF dist w c] by blast
  with sound uniq have p: "path = path_of sep ns" by blast
  have "c \<in> fst ` set out" using path by force
  then have seen: "pc_id c \<in> seen" using walk_paths_seen [OF w] by blast
  have tp: "tree_paths cs sep = out @ map (\<lambda>c. (c, pc_name c))
        (sort_key pc_sort_order (sort_key pc_name (filter (\<lambda>c. pc_id c \<notin> seen) cs)))"
    by (simp add: tree_paths_def w)
  show ?thesis
  proof (rule map_of_all)
    show "(pc_id c, path_of sep ns) \<in> set (rev (map (\<lambda>(c, path). (pc_id c, path)) (tree_paths cs sep)))"
      using path p by (force simp: tp)
    show "\<forall>v'. (pc_id c, v') \<in> set (rev (map (\<lambda>(c, path). (pc_id c, path)) (tree_paths cs sep))) \<longrightarrow> v' = path_of sep ns"
    proof (intro allI impI)
      fix v' assume "(pc_id c, v') \<in> set (rev (map (\<lambda>(c, path). (pc_id c, path)) (tree_paths cs sep)))"
      then obtain x where x: "(x, v') \<in> set (tree_paths cs sep)" "pc_id x = pc_id c" by auto
      with seen have "(x, v') \<in> set out" by (auto simp: tp)
      with sound obtain ms where ms: "has_names cs x ms" "v' = path_of sep ms" by blast
      then have "x = c" using has_names_nonempty [OF ms(1)] c_in dist x(2) by (auto simp: distinct_map dest: inj_onD)
      with ms uniq show "v' = path_of sep ns" by blast
    qed
  qed
qed

section \<open>Reading them back\<close>

text \<open>A name with nothing around it to strip and no separator in it.\<close>

definition plain_name :: "string \<Rightarrow> bool" where
  "plain_name n \<longleftrightarrow> n \<noteq> [] \<and> CHR ''/'' \<notin> set n \<and> \<not> is_space (hd n) \<and> \<not> is_space (last n)"

lemma split_slash_name: "CHR ''/'' \<notin> set n \<Longrightarrow> split_slash n = [n]"
  by (induction n) auto

lemma split_slash_cons: "CHR ''/'' \<notin> set n \<Longrightarrow> split_slash (n @ CHR ''/'' # s) = n # split_slash s"
  by (induction n) auto

lemma strip_around:
  assumes "plain_name n" "\<forall>c \<in> set xs. is_space c" "\<forall>c \<in> set ys. is_space c"
  shows "strip (xs @ n @ ys) = n"
proof -
  have front: "dropWhile is_space (as @ m @ bs) = m @ bs" if "\<forall>c \<in> set as. is_space c" "m \<noteq> []" "\<not> is_space (hd m)" for as bs m
    using that by (cases m) (auto simp: dropWhile_append2 dropWhile_append)
  have "rev n \<noteq> []" "\<not> is_space (hd (rev n))" using assms(1) by (simp_all add: plain_name_def hd_rev)
  with front [of xs n ys] front [of "rev ys" "rev n" "[]"] assms show ?thesis
    by (simp add: strip_def plain_name_def)
qed

lemma split_path:
  assumes "ns \<noteq> []" "\<forall>n \<in> set ns. plain_name n" "set lead \<subseteq> {CHR '' ''}"
  shows "map strip (split_slash (lead @ path_of PATH_SEPARATOR ns)) = ns"
  using assms
proof (induction ns arbitrary: lead)
  case (Cons n ns)
  have sp: "is_space (CHR '' '')" by code_simp
  have lead: "\<forall>c \<in> set lead. is_space c" "CHR ''/'' \<notin> set lead" using Cons.prems(3) sp by auto
  have n: "plain_name n" "CHR ''/'' \<notin> set n" using Cons.prems(2) by (auto simp: plain_name_def)
  show ?case
  proof (cases "ns = []")
    case True
    have "CHR ''/'' \<notin> set (lead @ n)" using lead n by simp
    from split_slash_name [OF this] strip_around [OF n(1) lead(1), of "[]"] True show ?thesis
      by (simp add: path_of_def prefix_of_def)
  next
    case False
    have "path_of PATH_SEPARATOR (n # ns) = n @ '' '' @ CHR ''/'' # ('' '' @ path_of PATH_SEPARATOR ns)"
      using False by (simp add: path_of_def prefix_of_def PATH_SEPARATOR_def)
    then have "split_slash (lead @ path_of PATH_SEPARATOR (n # ns))
        = (lead @ n @ '' '') # split_slash ('' '' @ path_of PATH_SEPARATOR ns)"
      using split_slash_cons [of "lead @ n @ '' ''"] lead(2) n(2) by simp
    moreover have "map strip (split_slash ('' '' @ path_of PATH_SEPARATOR ns)) = ns"
      by (rule Cons.IH) (use False Cons.prems(2) in auto)
    moreover have "strip (lead @ n @ '' '') = n" by (rule strip_around [OF n(1) lead(1)]) (simp add: sp)
    ultimately show ?thesis by simp
  qed
qed simp

lemma match_name_exact:
  "c \<in> set rows \<Longrightarrow> \<forall>x \<in> set rows. pc_name x = pc_name c \<longrightarrow> x = c \<Longrightarrow> match_name f rows (pc_name c) = Some c"
  by (induction f rows "pc_name c" rule: match_name.induct) auto

section \<open>The round trip\<close>

lemma category_index_simps [simp]:
  "ix_rows (category_index d ws) = index_rows d ws"
  "ix_active_children (category_index d ws) p
     = filter (\<lambda>c. pc_archived_at c = None \<and> pc_parent_id c = p) (index_rows d ws)"
  "ix_paths (category_index d ws)
     = map_of (rev (map (\<lambda>(c, path). (pc_id c, path)) (tree_paths (index_rows d ws) PATH_SEPARATOR)))"
  by (simp_all add: category_index_def Let_def)

lemma index_rows_set: "set (index_rows d ws) = {c \<in> set (part_categories d). pc_workspace_id c = ws}"
  by (simp add: index_rows_def)

lemma distinct_index_rows:
  assumes "ids_fresh d"
  shows "distinct (map pc_id (index_rows d ws))"
proof -
  have "mset (map pc_id (index_rows d ws)) = mset (map pc_id (filter (\<lambda>c. pc_workspace_id c = ws) (part_categories d)))"
    by (simp add: index_rows_def)
  moreover have "distinct (map pc_id (filter (\<lambda>c. pc_workspace_id c = ws) (part_categories d)))"
    using assms unfolding ids_fresh_def by (blast intro: distinct_map_filter)
  ultimately show ?thesis by (metis mset_eq_imp_distinct_iff)
qed

lemma selected_parent_rows:
  assumes "categories_ok d" "c \<in> set (index_rows d ws)"
  shows "selected_parent (index_rows d ws) c = pc_parent_id c"
proof (cases "pc_parent_id c")
  case (Some p)
  have c: "c \<in> set (part_categories d)" "pc_workspace_id c = ws" using assms(2) by (simp_all add: index_rows_set)
  from categories_ok_parent [OF assms(1) c(1) Some] obtain x where "x \<in> set (index_rows d ws)" "pc_id x = p"
    unfolding index_rows_set using c(2) by blast
  then have "p \<in> set (map pc_id (index_rows d ws))" by auto
  with Some show ?thesis by (simp add: selected_parent_def)
qed (simp add: selected_parent_def)

lemma has_names_exists:
  assumes ok: "categories_ok d"
  shows "climbs (load_parent_map d ws) n (pc_id c) \<Longrightarrow> c \<in> set (index_rows d ws) \<Longrightarrow> \<exists>ns. has_names (index_rows d ws) c ns"
proof (induction n arbitrary: c)
  case (Suc n)
  note sp = selected_parent_rows [OF ok Suc.prems(2)]
  have c: "c \<in> set (part_categories d)" "pc_workspace_id c = ws" using Suc.prems(2) by (simp_all add: index_rows_set)
  show ?case
  proof (cases "pc_parent_id c")
    case None
    with sp Suc.prems(2) show ?thesis by (auto intro: has_names.root)
  next
    case (Some p)
    from categories_ok_parent [OF ok c(1) Some] c(2) obtain x where x: "x \<in> set (index_rows d ws)" "pc_id x = p"
      unfolding index_rows_set by blast
    have "parent_of (load_parent_map d ws) (pc_id c) = Some p"
      using ok c Some by (auto simp: categories_ok_def parent_of_load)
    with Suc.prems(1) x(2) have "climbs (load_parent_map d ws) n (pc_id x)" by simp
    from Suc.IH [OF this x(1)] obtain ns where "has_names (index_rows d ws) x ns" by blast
    from has_names.child [OF this Suc.prems(2)] sp Some x(2) show ?thesis by auto
  qed
qed simp

lemma has_names_unique:
  assumes dist: "distinct (map pc_id cs)"
  shows "has_names cs c ns \<Longrightarrow> has_names cs c ms \<Longrightarrow> ms = ns"
proof (induction arbitrary: ms rule: has_names.induct)
  case (root c)
  from root.prems root(2) show ?case by cases simp_all
next
  case (child p ns c)
  from child.prems show ?case
  proof cases
    case (child q ks)
    then have "pc_id q = pc_id p" using child.hyps(3) by simp
    moreover have "q \<in> set cs" "p \<in> set cs"
      using has_names_nonempty [OF child(2)] has_names_nonempty [OF child.hyps(1)] by simp_all
    ultimately have "q = p" using dist by (auto simp: distinct_map dest: inj_onD)
    with child show ?thesis using child.IH by blast
  qed (use child.hyps(3) in simp)
qed

text \<open>Resolving the names of an active category, one level after the other.\<close>

lemma walk_segments_names:
  assumes ok: "categories_ok d"
  shows "has_names (index_rows d ws) c ns \<Longrightarrow> pc_archived_at c = None \<Longrightarrow>
    walk_segments (ix_active_children (category_index d ws)) None None (ns @ rest)
      = walk_segments (ix_active_children (category_index d ws)) (Some (pc_id c)) (Some c) rest"
proof (induction arbitrary: rest rule: has_names.induct)
  have found: "match_name None (ix_active_children (category_index d ws) (pc_parent_id c)) (pc_name c) = Some c"
    if "c \<in> set (index_rows d ws)" "pc_archived_at c = None" for c
  proof (rule match_name_exact)
    show "c \<in> set (ix_active_children (category_index d ws) (pc_parent_id c))"
      using that by simp
    show "\<forall>x \<in> set (ix_active_children (category_index d ws) (pc_parent_id c)). pc_name x = pc_name c \<longrightarrow> x = c"
    proof (intro ballI impI)
      fix x assume "x \<in> set (ix_active_children (category_index d ws) (pc_parent_id c))" and n: "pc_name x = pc_name c"
      then have x: "x \<in> set (part_categories d)" "pc_workspace_id x = ws" "pc_archived_at x = None"
        by (simp_all add: index_rows_set)
      have c: "c \<in> set (part_categories d)" "pc_workspace_id c = ws" using that(1) by (simp_all add: index_rows_set)
      have "active_unique (part_categories d)" "ids_fresh d" using ok by (simp_all add: categories_ok_def)
      with x c that(2) n have "pc_id x = pc_id c" unfolding active_unique_def by metis
      with distinct_ids [OF \<open>ids_fresh d\<close>] x(1) c(1) show "x = c" by blast
    qed
  qed
  {
    case (root c)
    then have "pc_parent_id c = None" using selected_parent_rows [OF ok] by metis
    with found [OF root(1,3)] show ?case by simp
  next
    case (child p ns c)
    have par: "pc_parent_id c = Some (pc_id p)" using selected_parent_rows [OF ok child(2)] child(3) by simp
    have c: "c \<in> set (part_categories d)" "pc_workspace_id c = ws" using child(2) by (simp_all add: index_rows_set)
    from categories_ok_parent [OF ok c(1) par] obtain x where x: "x \<in> set (part_categories d)" "pc_id x = pc_id p"
      "pc_archived_at x = None" by blast
    have "p \<in> set (part_categories d)" using has_names_nonempty [OF child(1)] by (simp add: index_rows_set)
    with x ok have "x = p" by (auto simp: categories_ok_def intro: distinct_ids)
    with x(3) have p: "pc_archived_at p = None" by simp
    show ?case using child.IH [OF p, of "pc_name c # rest"] found [OF child(2) child.prems] par by simp
  }
qed

text \<open>
  C29: paths and categories are a round trip. On any reachable table every active category has a
  path, the names from its root down joined by \<open>" / "\<close>, and resolving that path finds the
  category again, provided the names on it hold no slash and no blank at either end.
\<close>

theorem category_path_roundtrip:
  assumes reach: "cat_reachable d" and c: "c \<in> set (part_categories d)" "pc_workspace_id c = ws" "pc_archived_at c = None"
    and plain: "\<forall>x \<in> set (part_categories d). plain_name (pc_name x)"
  shows "\<exists>path. category_name_path d ws (Some (pc_id c)) None = Some path
     \<and> resolve_category_path d ws (Some path) None = Some c"
proof -
  have ok: "categories_ok d" using cat_reachable_ok [OF reach] .
  then have fr: "ids_fresh d" by (simp add: categories_ok_def)
  have rows: "c \<in> set (index_rows d ws)" using c by (simp add: index_rows_set)
  from has_names_exists [OF ok categories_ok_climbs [OF ok] rows] obtain ns where ns: "has_names (index_rows d ws) c ns" by blast
  note dist = distinct_index_rows [OF fr, of ws]
  have path: "category_name_path d ws (Some (pc_id c)) None = Some (path_of PATH_SEPARATOR ns)"
    using tree_path_of [OF dist ns has_names_unique [OF dist ns], of PATH_SEPARATOR]
    by (simp add: category_name_path_def index_or_load_def)
  have names: "\<forall>n \<in> set ns. plain_name n"
    using ns
  proof (induction rule: has_names.induct)
    case (root c)
    then show ?case using plain by (simp add: index_rows_set)
  next
    case (child p ns c)
    then show ?case using plain by (simp add: index_rows_set)
  qed
  have ne: "ns \<noteq> []" using has_names_nonempty [OF ns] by blast
  from split_path [OF ne names, of "[]"] have sp: "map strip (split_slash (path_of PATH_SEPARATOR ns)) = ns" by simp
  have "path_of PATH_SEPARATOR ns \<noteq> []"
  proof
    assume e: "path_of PATH_SEPARATOR ns = []"
    with sp have "ns = [strip []]" by simp
    with names show False by (auto simp: plain_name_def strip_def)
  qed
  then have seg: "split_category_path (Some (path_of PATH_SEPARATOR ns)) = ns"
    using sp names by (auto simp: split_category_path_def plain_name_def filter_id_conv)
  have "walk_segments (ix_active_children (category_index d ws)) None None ns = Some c"
    using walk_segments_names [OF ok ns c(3), of "[]"] by simp
  moreover from ne obtain s ss where "ns = s # ss" by (cases ns) auto
  ultimately have "resolve_category_path d ws (Some (path_of PATH_SEPARATOR ns)) None = Some c"
    unfolding resolve_category_path_def seg by (simp add: index_or_load_def del: walk_segments.simps)
  with path show ?thesis by blast
qed

lemma category_path_roundtrip_witness:
  "\<exists>c path. category_name_path demo_tree 1 (Some 12) None = Some path
     \<and> resolve_category_path demo_tree 1 (Some path) None = Some c \<and> pc_id c = 12"
proof -
  have ex: "\<exists>c \<in> set (part_categories demo_tree). pc_id c = 12 \<and> pc_workspace_id c = 1 \<and> pc_archived_at c = None" by code_simp
  have plain: "\<forall>x \<in> set (part_categories demo_tree). plain_name (pc_name x)" by code_simp
  from ex obtain c where c: "c \<in> set (part_categories demo_tree)" "pc_workspace_id c = 1" "pc_archived_at c = None" "pc_id c = 12" by blast
  from category_path_roundtrip [OF demo_tree_reachable c(1-3) plain] c(4) show ?thesis by auto
qed

text \<open>A name with a slash in it, which nothing refuses, is not found again under its own path.\<close>

definition slash_tree :: "category_error + part_category \<times> cat_db" where
  "slash_tree = create_category 1 None (demo_category ''I/O'' None) no_categories"

lemma slash_in_a_name_breaks_its_path:
  "case slash_tree of Inl _ \<Rightarrow> False | Inr (c, d) \<Rightarrow>
     category_name_path d 1 (Some (pc_id c)) None = Some ''I/O''
     \<and> resolve_category_path d 1 (Some ''I/O'') None = None"
  by code_simp

end
