(* ===== verification/Optimizer.thy ===== *)
theory Optimizer
  imports CategoryPaths Decimal28 "HOL-Library.Product_Lexorder"
begin

text \<open>
  The purchase-plan optimizer: \<open>backend/app/domain/sourcing/pricing.py\<close> (price breaks) and
  \<open>optimizer.py\<close> (one offer per shortage line, under four strategies). Tuples compare
  lexicographically and strings by code point, as Python's do; the micro sign, which
  \<open>casefold\<close> sends above the code points modelled, is left out of the alphabet.
\<close>

section \<open>Price breaks\<close>

record price_break =
  pb_quantity :: "int option"
  pb_unit_price :: "rat option"

definition normalise_break :: "price_break \<Rightarrow> (int \<times> rat) option" where
  "normalise_break b = (case (pb_quantity b, pb_unit_price b) of
     (Some q, Some p) \<Rightarrow> if q < 1 then None else Some (q, p) | _ \<Rightarrow> None)"

fun select_break :: "int \<Rightarrow> int \<times> rat \<Rightarrow> (int \<times> rat) list \<Rightarrow> int \<times> rat" where
  "select_break qty selected [] = selected"
| "select_break qty selected (c # cs) = (if qty < fst c then selected else select_break qty c cs)"

definition best_unit_price_at_qty :: "price_break list \<Rightarrow> int \<Rightarrow> (rat \<times> int) option" where
  "best_unit_price_at_qty price_breaks qty =
     (case sort_key fst (List.map_filter normalise_break price_breaks) of [] \<Rightarrow> None
      | b # bs \<Rightarrow> if qty < 1 then None
                  else let (quantity, unit_price) = select_break qty b (b # bs) in Some (unit_price, quantity))"

definition extended_price :: "price_break list \<Rightarrow> int \<Rightarrow> rat option" where
  "extended_price price_breaks qty = (case best_unit_price_at_qty price_breaks qty of None \<Rightarrow> None
     | Some (unit_price, _) \<Rightarrow> Some (dec_mul unit_price (of_int qty)))"

section \<open>Lines, offers, candidates\<close>

record bom_offer =
  of_mpn :: string
  of_distributor :: string
  of_stock :: int
  of_unit_price :: "rat option"
  of_currency :: "string option"
  of_packaging :: "string option"
  of_moq :: "int option"
  of_lead_time_days :: "int option"
  of_price_breaks :: "price_break list"
  of_url :: "string option"

record bom_line =
  bl_project_entry_id :: uuid
  bl_part_id :: uuid
  bl_mpn :: "string option"
  bl_required :: int
  bl_available :: int
  bl_substitute_available :: int
  bl_short_by :: int
  bl_offers :: "bom_offer list"
  bl_risk_flags :: "string list"

record candidate =
  cd_line :: bom_line
  cd_offer :: bom_offer
  cd_selected_qty :: int
  cd_unit_price :: rat
  cd_extended_cost :: rat

record selection =
  sn_project_entry :: uuid
  sn_part :: uuid
  sn_mpn_searched :: string
  sn_required_qty :: int
  sn_internal_available_qty :: int
  sn_shortage_qty :: int
  sn_distributor :: "string option"
  sn_selected_qty :: int
  sn_selected_unit_price :: "rat option"
  sn_selected_currency :: "string option"
  sn_selected_packaging :: "string option"
  sn_selected_moq :: "int option"
  sn_selected_lead_time_days :: "int option"
  sn_selected_url :: "string option"
  sn_risk_flags :: "string list"

text \<open>\<open>x or y\<close> on an optional string and an optional integer.\<close>

definition or_text :: "string option \<Rightarrow> string \<Rightarrow> string" where
  "or_text s d = (case s of None \<Rightarrow> d | Some t \<Rightarrow> if t = [] then d else t)"

definition selected_qty :: "int \<Rightarrow> int option \<Rightarrow> int" where
  "selected_qty shortage_qty moq = max shortage_qty (case moq of None \<Rightarrow> 1 | Some m \<Rightarrow> if m = 0 then 1 else m)"

definition offer_unit_price :: "bom_offer \<Rightarrow> int \<Rightarrow> rat option" where
  "offer_unit_price offer qty = (case best_unit_price_at_qty (of_price_breaks offer) qty of
     Some (p, _) \<Rightarrow> Some p | None \<Rightarrow> of_unit_price offer)"

definition alpha_key :: "candidate \<Rightarrow> string \<times> string \<times> string" where
  "alpha_key c = (casefold (of_distributor (cd_offer c)), casefold (of_mpn (cd_offer c)), or_text (of_url (cd_offer c)) [])"

definition candidate_of :: "bom_line \<Rightarrow> int option \<Rightarrow> bom_offer \<Rightarrow> candidate option" where
  "candidate_of row moq_overbuy_cap offer =
     (let qty = selected_qty (bl_short_by row) (of_moq offer) in
      if (case moq_overbuy_cap of None \<Rightarrow> False | Some cap \<Rightarrow> bl_short_by row * cap < qty) then None
      else if of_stock offer < qty then None
      else case offer_unit_price offer qty of None \<Rightarrow> None
        | Some p \<Rightarrow> Some \<lparr>cd_line = row, cd_offer = offer, cd_selected_qty = qty, cd_unit_price = p,
                          cd_extended_cost = dec_mul p (of_int qty)\<rparr>)"

definition candidates :: "bom_line \<Rightarrow> int option \<Rightarrow> candidate list" where
  "candidates row moq_overbuy_cap = (if bl_short_by row < 1 then []
     else sort_key alpha_key (List.map_filter (candidate_of row moq_overbuy_cap) (bl_offers row)))"

text \<open>\<open>min(\<dots>, key=\<dots>)\<close>: the first of the smallest.\<close>

fun min_by :: "('a \<Rightarrow> 'k::linorder) \<Rightarrow> 'a \<Rightarrow> 'a list \<Rightarrow> 'a" where
  "min_by key best [] = best"
| "min_by key best (x # xs) = min_by key (if key x < key best then x else best) xs"

definition lowest_price_key :: "candidate \<Rightarrow> rat \<times> string \<times> string \<times> string" where
  "lowest_price_key c = (cd_extended_cost c, alpha_key c)"

definition lowest_unit_price_key :: "candidate \<Rightarrow> rat \<times> rat \<times> string \<times> string \<times> string" where
  "lowest_unit_price_key c = (cd_unit_price c, cd_extended_cost c, alpha_key c)"

definition INFINITE_LEAD_TIME_DAYS :: int where "INFINITE_LEAD_TIME_DAYS = 10 ^ 9"

definition fastest_key :: "candidate \<Rightarrow> int \<times> rat \<times> string \<times> string \<times> string" where
  "fastest_key c = ((case of_lead_time_days (cd_offer c) of None \<Rightarrow> INFINITE_LEAD_TIME_DAYS | Some t \<Rightarrow> t),
     cd_unit_price c, alpha_key c)"

definition selection_from_candidate :: "candidate \<Rightarrow> selection" where
  "selection_from_candidate c = (let row = cd_line c; offer = cd_offer c in
     \<lparr>sn_project_entry = bl_project_entry_id row, sn_part = bl_part_id row,
      sn_mpn_searched = or_text (bl_mpn row) (of_mpn offer), sn_required_qty = bl_required row,
      sn_internal_available_qty = bl_available row + bl_substitute_available row,
      sn_shortage_qty = bl_short_by row, sn_distributor = Some (of_distributor offer),
      sn_selected_qty = cd_selected_qty c, sn_selected_unit_price = Some (cd_unit_price c),
      sn_selected_currency = of_currency offer, sn_selected_packaging = of_packaging offer,
      sn_selected_moq = of_moq offer, sn_selected_lead_time_days = of_lead_time_days offer,
      sn_selected_url = of_url offer, sn_risk_flags = bl_risk_flags row\<rparr>)"

definition unfilled_selection :: "bom_line \<Rightarrow> selection" where
  "unfilled_selection row =
     \<lparr>sn_project_entry = bl_project_entry_id row, sn_part = bl_part_id row,
      sn_mpn_searched = or_text (bl_mpn row) [], sn_required_qty = bl_required row,
      sn_internal_available_qty = bl_available row + bl_substitute_available row,
      sn_shortage_qty = bl_short_by row, sn_distributor = None, sn_selected_qty = 0,
      sn_selected_unit_price = None, sn_selected_currency = None, sn_selected_packaging = None,
      sn_selected_moq = None, sn_selected_lead_time_days = None, sn_selected_url = None,
      sn_risk_flags = bl_risk_flags row\<rparr>"

section \<open>The strategies that look at one line\<close>

definition select_min :: "(candidate \<Rightarrow> 'k::linorder) \<Rightarrow> int option \<Rightarrow> bom_line \<Rightarrow> selection" where
  "select_min key moq_overbuy_cap row = (case candidates row moq_overbuy_cap of [] \<Rightarrow> unfilled_selection row
     | c # cs \<Rightarrow> selection_from_candidate (min_by key c cs))"

definition select_lowest_total_price :: "int option \<Rightarrow> bom_line \<Rightarrow> selection" where
  "select_lowest_total_price = select_min lowest_price_key"

definition select_fastest_availability :: "int option \<Rightarrow> bom_line \<Rightarrow> selection" where
  "select_fastest_availability = select_min fastest_key"

text \<open>Ranks of the preferred distributors; a name listed twice has the later rank.\<close>

definition preferred_rank :: "string list option \<Rightarrow> string \<Rightarrow> nat option" where
  "preferred_rank preferred = map_of (rev (List.map_filter (\<lambda>(i, d).
     if strip d = [] then None else Some (casefold (strip d), i))
     (List.enumerate 0 (case preferred of None \<Rightarrow> [] | Some ds \<Rightarrow> ds))))"

definition within_tolerance :: "rat \<Rightarrow> rat \<Rightarrow> rat \<Rightarrow> bool" where
  "within_tolerance unit_price cheapest tolerance = (if cheapest \<le> 0 then unit_price = cheapest
     else dec_div (dec_sub unit_price cheapest) cheapest \<le> tolerance)"

definition select_preferred_first ::
    "(string \<Rightarrow> nat option) \<Rightarrow> int option \<Rightarrow> rat \<Rightarrow> bom_line \<Rightarrow> selection" where
  "select_preferred_first rank moq_overbuy_cap price_tolerance_pct row =
     (case candidates row moq_overbuy_cap of [] \<Rightarrow> unfilled_selection row
      | c # cs \<Rightarrow>
        let cheapest = min_by lowest_unit_price_key c cs;
            tolerance = dec_div price_tolerance_pct 100;
            pref = filter (\<lambda>x. rank (casefold (of_distributor (cd_offer x))) \<noteq> None
                      \<and> within_tolerance (cd_unit_price x) (cd_unit_price cheapest) tolerance) (c # cs)
        in case pref of [] \<Rightarrow> selection_from_candidate cheapest
           | p # ps \<Rightarrow> selection_from_candidate (min_by (\<lambda>x.
               (the (rank (casefold (of_distributor (cd_offer x)))), cd_unit_price x, alpha_key x)) p ps))"

section \<open>Fewest distributors\<close>

definition distributor_key :: "candidate \<Rightarrow> string" where
  "distributor_key c = casefold (of_distributor (cd_offer c))"

text \<open>The dict \<open>best_by_line\<close>: per line, the first of its cheapest candidates.\<close>

definition line_of :: "candidate \<Rightarrow> uuid" where
  "line_of c = bl_project_entry_id (cd_line c)"

definition best_candidates :: "candidate list \<Rightarrow> (uuid \<times> candidate) list" where
  "best_candidates cs = List.map_filter (\<lambda>i. case filter (\<lambda>c. line_of c = i) cs of [] \<Rightarrow> None
       | c # ds \<Rightarrow> Some (i, min_by lowest_price_key c ds)) (dict_keys (map line_of cs))"

definition of_distributor_key :: "candidate list \<Rightarrow> string \<Rightarrow> candidate list" where
  "of_distributor_key cs key = filter (\<lambda>c. distributor_key c = key) cs"

definition fewest_distributor_key :: "candidate list \<Rightarrow> string \<Rightarrow> int \<times> rat \<times> string" where
  "fewest_distributor_key cs key =
     (let best = best_candidates (of_distributor_key cs key) in
      (- int (length best), foldl dec_add 0 (map (cd_extended_cost \<circ> snd) best),
       case of_distributor_key cs key of [] \<Rightarrow> key | c # _ \<Rightarrow> casefold (of_distributor (cd_offer c))))"

text \<open>\<open>{row.project_entry_id: row for row in rows}\<close>: first position, last value.\<close>

definition rows_by_id :: "bom_line list \<Rightarrow> bom_line list" where
  "rows_by_id rows = List.map_filter (map_of (rev (map (\<lambda>r. (bl_project_entry_id r, r)) rows)))
     (dict_keys (map bl_project_entry_id rows))"

lemma set_best_candidates: "fst ` set (best_candidates cs) = line_of ` set cs"
proof -
  have "\<exists>c. (i, c) \<in> set (best_candidates cs)" if "i \<in> line_of ` set cs" for i
  proof -
    from that have "filter (\<lambda>c. line_of c = i) cs \<noteq> []" by (auto simp: filter_empty_conv)
    then obtain c ds where "filter (\<lambda>c. line_of c = i) cs = c # ds" by (cases "filter (\<lambda>c. line_of c = i) cs") auto
    then have "(case filter (\<lambda>c. line_of c = i) cs of [] \<Rightarrow> None
       | c # ds \<Rightarrow> Some (i, min_by lowest_price_key c ds)) = Some (i, min_by lowest_price_key c ds)" by simp
    moreover have "i \<in> set (dict_keys (map line_of cs))" using that by simp
    ultimately have "(i, min_by lowest_price_key c ds) \<in> set (best_candidates cs)"
      unfolding best_candidates_def set_map_filter by blast
    then show ?thesis by blast
  qed
  moreover have "i \<in> line_of ` set cs" if "(i, c) \<in> set (best_candidates cs)" for i c
  proof -
    from that obtain j where j: "j \<in> line_of ` set cs"
      and eq: "(case filter (\<lambda>c. line_of c = j) cs of [] \<Rightarrow> None
        | c # ds \<Rightarrow> Some (j, min_by lowest_price_key c ds)) = Some (i, c)"
      unfolding best_candidates_def set_map_filter by auto
    from eq have "i = j" by (cases "filter (\<lambda>c. line_of c = j) cs") auto
    with j show ?thesis by simp
  qed
  ultimately show ?thesis by force
qed

definition all_candidates :: "int option \<Rightarrow> bom_line list \<Rightarrow> candidate list" where
  "all_candidates cap rows = concat (map (\<lambda>row. candidates row cap) rows)"

text \<open>The best distributor of a round and its candidates, one per line; none when nobody can deliver.\<close>

definition best_round :: "int option \<Rightarrow> bom_line list \<Rightarrow> (uuid \<times> candidate) list" where
  "best_round cap remaining = (let cs = all_candidates cap remaining in
     case dict_keys (map distributor_key cs) of [] \<Rightarrow> []
     | k # ks \<Rightarrow> best_candidates (of_distributor_key cs (min_by (fewest_distributor_key cs) k ks)))"

lemma min_by_in: "min_by key x xs \<in> set (x # xs)"
  by (induction xs arbitrary: x) (auto split: if_splits)

lemma candidates_line: "c \<in> set (candidates row cap) \<Longrightarrow> cd_line c = row"
  by (auto simp: candidates_def candidate_of_def set_map_filter Let_def split: if_splits option.splits)

lemma all_candidates_line: "c \<in> set (all_candidates cap rows) \<Longrightarrow> cd_line c \<in> set rows"
  by (auto simp: all_candidates_def dest: candidates_line)

lemma best_round_lines:
  assumes "best_round cap remaining \<noteq> []"
  shows "\<exists>r \<in> set remaining. bl_project_entry_id r \<in> fst ` set (best_round cap remaining)"
proof -
  let ?cs = "all_candidates cap remaining"
  obtain k ks where k: "dict_keys (map distributor_key ?cs) = k # ks"
    using assms by (cases "dict_keys (map distributor_key ?cs)") (auto simp: best_round_def Let_def)
  let ?m = "min_by (fewest_distributor_key ?cs) k ks"
  have "?m \<in> set (dict_keys (map distributor_key ?cs))" unfolding k by (rule min_by_in)
  then obtain c where c: "c \<in> set ?cs" "distributor_key c = ?m" by auto
  have "best_round cap remaining = best_candidates (of_distributor_key ?cs ?m)" by (simp add: best_round_def Let_def k)
  moreover have "line_of c \<in> fst ` set (best_candidates (of_distributor_key ?cs ?m))"
    unfolding set_best_candidates using c by (auto simp: of_distributor_key_def)
  ultimately show ?thesis using all_candidates_line [OF c(1)] by (auto simp: line_of_def)
qed

text \<open>The \<open>while\<close> loop: each round takes one distributor and drops the lines it fills.\<close>

function fewest_loop :: "nat option \<Rightarrow> int option \<Rightarrow> nat \<Rightarrow> bom_line list \<Rightarrow> (uuid \<times> selection) list
    \<Rightarrow> (uuid \<times> selection) list \<times> bom_line list" where
  "fewest_loop max_distributors cap used remaining selected =
     (if remaining = [] \<or> (case max_distributors of None \<Rightarrow> False | Some m \<Rightarrow> m \<le> used) then (selected, remaining)
      else let best = best_round cap remaining in
      if best = [] then (selected, remaining)
      else fewest_loop max_distributors cap (used + 1)
             (filter (\<lambda>r. bl_project_entry_id r \<notin> fst ` set best) remaining)
             (selected @ map (\<lambda>(i, c). (i, selection_from_candidate c)) (sort_key fst best)))"
  by pat_completeness auto
termination
proof (relation "measure (\<lambda>(m, cap, used, remaining, selected). length remaining)")
  fix max_distributors :: "nat option" and cap :: "int option" and used :: nat and remaining selected best
  assume best: "best = best_round cap remaining" "best \<noteq> []"
  then obtain r where "r \<in> set remaining" "bl_project_entry_id r \<in> fst ` set best" using best_round_lines by blast
  then have "length (filter (\<lambda>r. bl_project_entry_id r \<notin> fst ` set best) remaining) < length remaining"
    by (intro length_filter_less) auto
  then show "((max_distributors, cap, used + 1, filter (\<lambda>r. bl_project_entry_id r \<notin> fst ` set best) remaining,
      selected @ map (\<lambda>(i, c). (i, selection_from_candidate c)) (sort_key fst best)), max_distributors, cap, used, remaining, selected)
      \<in> measure (\<lambda>(m, cap, used, remaining, selected). length remaining)" by simp
qed simp

declare fewest_loop.simps [simp del]

definition optimize_fewest_distributors :: "nat option \<Rightarrow> int option \<Rightarrow> bom_line list \<Rightarrow> selection list" where
  "optimize_fewest_distributors max_distributors cap rows =
     (let (selected, remaining) = fewest_loop max_distributors cap 0 (rows_by_id rows) [];
          by_line = map_of (rev (selected @ map (\<lambda>r. (bl_project_entry_id r, unfilled_selection r)) remaining))
      in List.map_filter (\<lambda>r. by_line (bl_project_entry_id r)) rows)"

section \<open>The plan\<close>

datatype optimizer_error =
  Unsupported_strategy string
| Max_distributors_not_positive
| Overbuy_cap_not_positive

record outcome =
  oc_selections :: "selection list"
  oc_unfilled_lines :: "uuid list"
  oc_distributors_used :: "string list"
  oc_est_total_cost :: "rat option"
  oc_worst_lead_time_days :: "int option"

text \<open>A Python set is iterated in an order the language leaves open: \<open>set_order\<close> lists the members
  of the set of a list.\<close>

definition outcome_of :: "(string list \<Rightarrow> string list) \<Rightarrow> selection list \<Rightarrow> outcome" where
  "outcome_of set_order selections =
     (let unfilled = map sn_project_entry (filter (\<lambda>s. sn_distributor s = None) selections);
          leads = List.map_filter sn_selected_lead_time_days selections in
      \<lparr>oc_selections = selections, oc_unfilled_lines = unfilled,
       oc_distributors_used = sort_key casefold (set_order (List.map_filter sn_distributor selections)),
       oc_est_total_cost = (if unfilled \<noteq> [] then None
         else Some (foldl dec_add 0 (List.map_filter (\<lambda>s. map_option (\<lambda>p. dec_mul p (of_int (sn_selected_qty s)))
                (sn_selected_unit_price s)) selections))),
       oc_worst_lead_time_days = (if leads = [] then None else Some (Max (set leads)))\<rparr>)"

definition valid_strategies :: "string list" where
  "valid_strategies = [''lowest_total_price'', ''fewest_distributors'', ''fastest_availability'', ''preferred_first'']"

definition line_key :: "bom_line \<Rightarrow> uuid \<times> string" where
  "line_key row = (bl_project_entry_id row, or_text (bl_mpn row) [])"

definition optimize ::
    "(string list \<Rightarrow> string list) \<Rightarrow> bom_line list \<Rightarrow> string \<Rightarrow> string list option \<Rightarrow> int option \<Rightarrow> int option \<Rightarrow> rat
     \<Rightarrow> optimizer_error + outcome" where
  "optimize set_order bom_rows strategy preferred_distributors max_distributors moq_overbuy_cap price_tolerance_pct =
     (if strategy \<notin> set valid_strategies then Inl (Unsupported_strategy strategy)
      else if (case max_distributors of None \<Rightarrow> False | Some m \<Rightarrow> m < 1) then Inl Max_distributors_not_positive
      else if (case moq_overbuy_cap of None \<Rightarrow> False | Some m \<Rightarrow> m < 1) then Inl Overbuy_cap_not_positive
      else let rows = sort_key line_key bom_rows in
      Inr (outcome_of set_order
        (if strategy = ''fewest_distributors''
         then optimize_fewest_distributors (map_option nat max_distributors) moq_overbuy_cap rows
         else if strategy = ''lowest_total_price'' then map (select_lowest_total_price moq_overbuy_cap) rows
         else if strategy = ''fastest_availability'' then map (select_fastest_availability moq_overbuy_cap) rows
         else map (select_preferred_first (preferred_rank preferred_distributors) moq_overbuy_cap price_tolerance_pct) rows)))"

end
