(* ===== verification/OptimizerProps.thy ===== *)
theory OptimizerProps
  imports Optimizer
begin

text \<open>
  What the optimizer promises: the price used is the one of the right break, a selection is
  always an offer that can deliver, a line is left open only when nobody can, the cheapest
  plan is the cheapest, and the distributor limit is kept.
\<close>

section \<open>The minimum of a list\<close>

lemma min_by_le: "y \<in> set (x # xs) \<Longrightarrow> key (min_by key x xs) \<le> key y"
proof (induction xs arbitrary: x y)
  case (Cons a xs)
  let ?b = "if key a < key x then a else x"
  have "key ?b \<le> key x" "key ?b \<le> key a" by auto
  moreover have "key (min_by key ?b xs) \<le> key ?b" by (rule Cons.IH) simp
  moreover have "key (min_by key ?b xs) \<le> key y" if "y \<in> set xs" by (rule Cons.IH) (use that in simp)
  ultimately show ?case using Cons.prems by (auto intro: order_trans)
qed simp

section \<open>Price breaks\<close>

definition usable_breaks :: "price_break list \<Rightarrow> (int \<times> rat) set" where
  "usable_breaks bs = {(q, p). \<exists>b \<in> set bs. pb_quantity b = Some q \<and> pb_unit_price b = Some p \<and> 1 \<le> q}"

lemma set_normalised: "set (List.map_filter normalise_break bs) = usable_breaks bs"
  by (auto simp: set_map_filter usable_breaks_def normalise_break_def split: option.splits if_splits) force+

lemma select_break_spec:
  assumes "sorted (map fst (s # bs))"
  shows "select_break qty s bs \<in> set (s # bs)
    \<and> (fst (select_break qty s bs) \<le> qty \<or> select_break qty s bs = s)
    \<and> (\<forall>b \<in> set (s # bs). fst b \<le> qty \<longrightarrow> fst b \<le> fst (select_break qty s bs))"
  using assms
proof (induction bs arbitrary: s)
  case (Cons c bs)
  show ?case
  proof (cases "qty < fst c")
    case True
    with Cons.prems show ?thesis by fastforce
  next
    case False
    have "sorted (map fst (c # bs))" using Cons.prems by simp
    note ih = Cons.IH [OF this]
    have "fst s \<le> fst c" using Cons.prems by simp
    moreover have "fst c \<le> fst (select_break qty c bs)" using ih False by auto
    ultimately show ?thesis using ih False by auto
  qed
qed simp

text \<open>
  the unit price at a quantity is the price of the break with the greatest quantity not
  above it, or of the smallest break when every break is above; without a usable break, or
  below one piece, there is none.
\<close>

theorem best_unit_price_is_the_right_break:
  "case best_unit_price_at_qty bs qty of
     None \<Rightarrow> qty < 1 \<or> usable_breaks bs = {}
   | Some (p, q) \<Rightarrow> 1 \<le> qty \<and> (q, p) \<in> usable_breaks bs
       \<and> (if \<exists>b \<in> usable_breaks bs. fst b \<le> qty
          then q \<le> qty \<and> (\<forall>b \<in> usable_breaks bs. fst b \<le> qty \<longrightarrow> fst b \<le> q)
          else \<forall>b \<in> usable_breaks bs. q \<le> fst b)"
proof (cases "sort_key fst (List.map_filter normalise_break bs)")
  case Nil
  then have "usable_breaks bs = {}" by (metis set_normalised set_sort set_empty)
  then show ?thesis by (simp add: best_unit_price_at_qty_def Nil)
next
  case (Cons b cs)
  have set: "set (b # cs) = usable_breaks bs" unfolding Cons [symmetric] set_sort set_normalised ..
  have srt: "sorted (map fst (b # cs))" unfolding Cons [symmetric] by simp
  then have srt2: "sorted (map fst (b # b # cs))" by simp
  obtain q p where r: "select_break qty b (b # cs) = (q, p)" by fastforce
  note sp = select_break_spec [OF srt2, of qty, unfolded r]
  have least: "\<forall>x \<in> usable_breaks bs. fst b \<le> fst x" using srt set by auto
  show ?thesis
  proof (cases "qty < 1")
    case False
    then have eq: "best_unit_price_at_qty bs qty = Some (p, q)" by (simp add: best_unit_price_at_qty_def Cons r del: select_break.simps)
    have "(q, p) \<in> usable_breaks bs" using sp set by auto
    moreover have "q \<le> qty \<and> (\<forall>b \<in> usable_breaks bs. fst b \<le> qty \<longrightarrow> fst b \<le> q)"
      if "\<exists>b \<in> usable_breaks bs. fst b \<le> qty"
    proof -
      from that least have "fst b \<le> qty" by (meson order_trans)
      with sp set show ?thesis by auto
    qed
    moreover have "\<forall>x \<in> usable_breaks bs. q \<le> fst x" if "\<not> (\<exists>b \<in> usable_breaks bs. fst b \<le> qty)"
    proof -
      have "\<not> q \<le> qty" using that calculation(1) by force
      with sp have "fst b = q" by force
      with least show ?thesis by simp
    qed
    ultimately show ?thesis using False by (simp add: eq)
  qed (simp add: best_unit_price_at_qty_def Cons)
qed

section \<open>Admissible choices\<close>

text \<open>An offer that can deliver a line: a price at the quantity to order, the stock, the overbuy cap.\<close>

definition admissible :: "int option \<Rightarrow> bom_line \<Rightarrow> bom_offer \<Rightarrow> bool" where
  "admissible cap row offer \<longleftrightarrow> 1 \<le> bl_short_by row \<and> offer \<in> set (bl_offers row)
     \<and> selected_qty (bl_short_by row) (of_moq offer) \<le> of_stock offer
     \<and> (\<forall>n. cap = Some n \<longrightarrow> selected_qty (bl_short_by row) (of_moq offer) \<le> bl_short_by row * n)
     \<and> offer_unit_price offer (selected_qty (bl_short_by row) (of_moq offer)) \<noteq> None"

definition costing :: "bom_line \<Rightarrow> bom_offer \<Rightarrow> rat" where
  "costing row offer = (let qty = selected_qty (bl_short_by row) (of_moq offer) in
     dec_mul (the (offer_unit_price offer qty)) (of_int qty))"

lemma set_candidates:
  "c \<in> set (candidates row cap) \<longleftrightarrow> (\<exists>offer. admissible cap row offer \<and>
     c = \<lparr>cd_line = row, cd_offer = offer, cd_selected_qty = selected_qty (bl_short_by row) (of_moq offer),
          cd_unit_price = the (offer_unit_price offer (selected_qty (bl_short_by row) (of_moq offer))),
          cd_extended_cost = costing row offer\<rparr>)"
proof
  assume "c \<in> set (candidates row cap)"
  then obtain offer where "1 \<le> bl_short_by row" "offer \<in> set (bl_offers row)" "candidate_of row cap offer = Some c"
    by (auto simp: candidates_def set_map_filter split: if_splits)
  then have "admissible cap row offer \<and>
     c = \<lparr>cd_line = row, cd_offer = offer, cd_selected_qty = selected_qty (bl_short_by row) (of_moq offer),
          cd_unit_price = the (offer_unit_price offer (selected_qty (bl_short_by row) (of_moq offer))),
          cd_extended_cost = costing row offer\<rparr>"
    by (auto simp: candidate_of_def admissible_def costing_def Let_def not_less split: option.splits if_splits)
  then show "\<exists>offer. admissible cap row offer \<and>
     c = \<lparr>cd_line = row, cd_offer = offer, cd_selected_qty = selected_qty (bl_short_by row) (of_moq offer),
          cd_unit_price = the (offer_unit_price offer (selected_qty (bl_short_by row) (of_moq offer))),
          cd_extended_cost = costing row offer\<rparr>" ..
next
  assume "\<exists>offer. admissible cap row offer \<and>
     c = \<lparr>cd_line = row, cd_offer = offer, cd_selected_qty = selected_qty (bl_short_by row) (of_moq offer),
          cd_unit_price = the (offer_unit_price offer (selected_qty (bl_short_by row) (of_moq offer))),
          cd_extended_cost = costing row offer\<rparr>"
  then obtain offer where adm: "admissible cap row offer"
    and c: "c = \<lparr>cd_line = row, cd_offer = offer, cd_selected_qty = selected_qty (bl_short_by row) (of_moq offer),
          cd_unit_price = the (offer_unit_price offer (selected_qty (bl_short_by row) (of_moq offer))),
          cd_extended_cost = costing row offer\<rparr>" by blast
  have "candidate_of row cap offer = Some c"
    using adm unfolding c
    by (auto simp: candidate_of_def admissible_def costing_def Let_def not_less split: option.splits)
  with adm show "c \<in> set (candidates row cap)"
    by (auto simp: candidates_def set_map_filter admissible_def)
qed

text \<open>What a selection of a line may be: a delivery by an admissible offer, or an open line.\<close>

definition delivers :: "int option \<Rightarrow> bom_line \<Rightarrow> selection \<Rightarrow> bool" where
  "delivers cap row s \<longleftrightarrow> (\<exists>offer. admissible cap row offer
     \<and> sn_project_entry s = bl_project_entry_id row \<and> sn_distributor s = Some (of_distributor offer)
     \<and> sn_selected_qty s = selected_qty (bl_short_by row) (of_moq offer) \<and> bl_short_by row \<le> sn_selected_qty s
     \<and> sn_selected_unit_price s = offer_unit_price offer (sn_selected_qty s))"

lemma selection_delivers: "c \<in> set (candidates row cap) \<Longrightarrow> delivers cap row (selection_from_candidate c)"
  by (auto simp: set_candidates delivers_def selection_from_candidate_def Let_def selected_qty_def admissible_def)

lemma no_candidates: "candidates row cap = [] \<longleftrightarrow> (\<nexists>offer. admissible cap row offer)"
  using set_candidates [of _ row cap] by (metis list.set_intros(1) neq_Nil_conv empty_iff empty_set)

lemma select_min_delivers:
  "if \<exists>offer. admissible cap row offer then delivers cap row (select_min key cap row)
   else select_min key cap row = unfilled_selection row"
proof (cases "candidates row cap")
  case Nil
  then show ?thesis using no_candidates [of row cap] by (simp add: select_min_def)
next
  case (Cons c cs)
  then have "min_by key c cs \<in> set (candidates row cap)" using min_by_in by metis
  moreover have "\<exists>offer. admissible cap row offer" using no_candidates [of row cap] Cons by auto
  ultimately show ?thesis by (simp add: select_min_def Cons selection_delivers)
qed

lemma select_preferred_delivers:
  "if \<exists>offer. admissible cap row offer then delivers cap row (select_preferred_first rank cap pct row)
   else select_preferred_first rank cap pct row = unfilled_selection row"
proof (cases "candidates row cap")
  case Nil
  then show ?thesis using no_candidates [of row cap] by (simp add: select_preferred_first_def)
next
  case (Cons c cs)
  define cheapest where "cheapest = min_by lowest_unit_price_key c cs"
  define pref where "pref = filter (\<lambda>x. rank (casefold (of_distributor (cd_offer x))) \<noteq> None
                      \<and> within_tolerance (cd_unit_price x) (cd_unit_price cheapest) (dec_div pct 100)) (c # cs)"
  have "cheapest \<in> set (candidates row cap)" unfolding cheapest_def Cons by (rule min_by_in)
  moreover have "min_by k p ps \<in> set (candidates row cap)" if "pref = p # ps" for p ps and k :: "candidate \<Rightarrow> nat \<times> rat \<times> string \<times> string \<times> string"
    using min_by_in [of k p ps] that unfolding Cons pref_def by (metis (no_types, lifting) filter_is_subset subsetD)
  moreover have "\<exists>offer. admissible cap row offer" using no_candidates [of row cap] Cons by auto
  moreover have "delivers cap row (select_preferred_first rank cap pct row)"
    using selection_delivers [OF calculation(1)] selection_delivers [OF calculation(2)]
    unfolding select_preferred_first_def Cons list.case Let_def cheapest_def [symmetric] pref_def [symmetric]
    by (cases pref) simp_all
  ultimately show ?thesis by presburger
qed

section \<open>Fewest distributors\<close>

lemma line_of_all_candidates:
  assumes "c \<in> set (all_candidates cap rows)"
  obtains row where "row \<in> set rows" "line_of c = bl_project_entry_id row" "c \<in> set (candidates row cap)"
  using assms candidates_line [of c] by (auto simp: all_candidates_def line_of_def)

lemma best_candidates_in:
  assumes "(i, c) \<in> set (best_candidates cs)"
  shows "c \<in> set cs \<and> line_of c = i"
proof -
  from assms obtain j where eq: "(case filter (\<lambda>c. line_of c = j) cs of [] \<Rightarrow> None
        | c # ds \<Rightarrow> Some (j, min_by lowest_price_key c ds)) = Some (i, c)"
    unfolding best_candidates_def set_map_filter by auto
  then obtain d ds where ds: "filter (\<lambda>c. line_of c = j) cs = d # ds" "i = j" "c = min_by lowest_price_key d ds"
    by (cases "filter (\<lambda>c. line_of c = j) cs") auto
  have "c \<in> set (filter (\<lambda>c. line_of c = j) cs)" unfolding ds by (rule min_by_in)
  then have "c \<in> set cs" "line_of c = j" by (simp_all only: set_filter mem_Collect_eq)
  with ds(2) show ?thesis by blast
qed

lemma distinct_best_candidates: "distinct (map fst (best_candidates cs))"
proof -
  have "distinct (map fst (List.map_filter (\<lambda>i. case filter (\<lambda>c. line_of c = i) cs of [] \<Rightarrow> None
       | c # ds \<Rightarrow> Some (i, min_by lowest_price_key c ds)) is))" if "distinct is" for "is"
    using that by (induction "is") (auto simp: List.map_filter_def split: list.splits option.splits)
  then show ?thesis by (simp add: best_candidates_def)
qed

text \<open>A round takes candidates of one distributor, each for a line that is still open.\<close>

lemma best_round_one_distributor:
  "\<exists>k. \<forall>(i, c) \<in> set (best_round cap remaining). distributor_key c = k"
proof (cases "dict_keys (map distributor_key (all_candidates cap remaining))")
  case (Cons k ks)
  let ?m = "min_by (fewest_distributor_key (all_candidates cap remaining)) k ks"
  have "distributor_key c = ?m" if "(i, c) \<in> set (best_round cap remaining)" for i c
    using that by (auto simp: best_round_def Let_def Cons of_distributor_key_def dest: best_candidates_in)
  then show ?thesis by blast
qed (simp add: best_round_def)

lemma best_round_in:
  assumes "(i, c) \<in> set (best_round cap remaining)"
  obtains row where "row \<in> set remaining" "bl_project_entry_id row = i" "c \<in> set (candidates row cap)"
proof -
  have "c \<in> set (all_candidates cap remaining) \<and> line_of c = i"
    using assms by (auto simp: best_round_def Let_def of_distributor_key_def dest!: best_candidates_in split: list.splits)
  then show thesis using that by (metis line_of_all_candidates)
qed

lemma best_round_empty:
  assumes "best_round cap remaining = []" and "row \<in> set remaining"
  shows "candidates row cap = []"
proof (rule ccontr)
  assume "candidates row cap \<noteq> []"
  then obtain c where c: "c \<in> set (all_candidates cap remaining)"
    using assms(2) unfolding all_candidates_def by (cases "candidates row cap") fastforce+
  define cs where "cs = all_candidates cap remaining"
  have "distributor_key c \<in> set (dict_keys (map distributor_key cs))" using c by (simp add: cs_def)
  then obtain k ks where k: "dict_keys (map distributor_key cs) = k # ks"
    by (cases "dict_keys (map distributor_key cs)") auto
  define m where "m = min_by (fewest_distributor_key cs) k ks"
  have "m \<in> set (dict_keys (map distributor_key cs))" unfolding k m_def by (rule min_by_in)
  then obtain d where d: "d \<in> set (of_distributor_key cs m)" by (auto simp: of_distributor_key_def)
  have "best_candidates (of_distributor_key cs m) = []"
    using assms(1) by (simp add: best_round_def Let_def k m_def flip: cs_def)
  then have "line_of ` set (of_distributor_key cs m) = {}" using set_best_candidates [of "of_distributor_key cs m"] by simp
  with d show False by auto
qed

text \<open>What the loop has done when it stops: the lines filled and those left open are the lines
  it had, each filled by one of its candidates, with at most the distributors still allowed.\<close>

lemma fewest_loop_result:
  assumes "fewest_loop m cap used remaining selected = (selected', remaining')"
  shows "\<exists>new. selected' = selected @ new
    \<and> set remaining' \<subseteq> set remaining
    \<and> fst ` set new = bl_project_entry_id ` set remaining - bl_project_entry_id ` set remaining'
    \<and> distinct (map fst new)
    \<and> (\<forall>(i, s) \<in> set new. \<exists>row \<in> set remaining. bl_project_entry_id row = i
         \<and> (\<exists>c \<in> set (candidates row cap). s = selection_from_candidate c))
    \<and> (m = None \<longrightarrow> (\<forall>row \<in> set remaining'. candidates row cap = []))
    \<and> (\<forall>n. m = Some n \<longrightarrow> card ((\<lambda>s. map_option casefold (sn_distributor s)) ` snd ` set new) \<le> n - used)"
  using assms
proof (induction m cap used remaining selected arbitrary: selected' remaining' rule: fewest_loop.induct)
  case (1 m cap used remaining selected)
  note eq = 1(2) [unfolded fewest_loop.simps [of m cap used remaining selected] Let_def]
  show ?case
  proof (cases "remaining = [] \<or> (case m of None \<Rightarrow> False | Some n \<Rightarrow> n \<le> used)")
    case stop: True
    then have "selected' = selected @ [] \<and> remaining' = remaining" using eq by simp
    moreover have "m = None \<longrightarrow> remaining = []" using stop by auto
    ultimately show ?thesis by (intro exI [of _ "[]"]) auto
  next
    case go: False
    show ?thesis
    proof (cases "best_round cap remaining = []")
      case True
      then have "selected' = selected @ [] \<and> remaining' = remaining" using eq go by simp
      then show ?thesis using best_round_empty [OF True] by (intro exI [of _ "[]"]) auto
    next
      case False
      define best where "best = best_round cap remaining"
      define rest where "rest = filter (\<lambda>r. bl_project_entry_id r \<notin> fst ` set best) remaining"
      define now where "now = map (\<lambda>(i, c). (i, selection_from_candidate c)) (sort_key fst best)"
      have "fewest_loop m cap (used + 1) rest (selected @ now) = (selected', remaining')"
        using eq go False by (simp add: rest_def now_def best_def)
      from 1(1) [OF go refl False, folded best_def, folded rest_def now_def, OF this]
      obtain new where new: "selected' = (selected @ now) @ new" "set remaining' \<subseteq> set rest"
        "fst ` set new = bl_project_entry_id ` set rest - bl_project_entry_id ` set remaining'"
        "distinct (map fst new)"
        "\<forall>(i, s) \<in> set new. \<exists>row \<in> set rest. bl_project_entry_id row = i
         \<and> (\<exists>c \<in> set (candidates row cap). s = selection_from_candidate c)"
        "m = None \<longrightarrow> (\<forall>row \<in> set remaining'. candidates row cap = [])"
        "\<forall>n. m = Some n \<longrightarrow> card ((\<lambda>s. map_option casefold (sn_distributor s)) ` snd ` set new) \<le> n - (used + 1)"
        by blast
      have keys: "fst ` set now = fst ` set best" by (force simp: now_def)
      have sub: "fst ` set best \<subseteq> bl_project_entry_id ` set remaining"
        by (auto simp: best_def elim!: best_round_in)
      have ids: "bl_project_entry_id ` set rest = bl_project_entry_id ` set remaining - fst ` set best"
        by (auto simp: rest_def)
      have rem: "bl_project_entry_id ` set remaining' \<subseteq> bl_project_entry_id ` set rest" using new(2) by blast
      have fsts: "fst ` set (now @ new) = bl_project_entry_id ` set remaining - bl_project_entry_id ` set remaining'"
        using new(3) keys sub ids rem by (auto simp: image_Un)
      have "map fst now = map fst (sort_key fst best)" by (auto simp: now_def)
      moreover have "distinct (map fst (sort_key fst best))"
        using distinct_best_candidates by (simp add: distinct_map best_def best_round_def Let_def split: list.split)
      ultimately have dn: "distinct (map fst now)" by metis
      have dist: "distinct (map fst (now @ new))" using dn new(3,4) keys ids by auto
      have each: "\<forall>(i, s) \<in> set (now @ new). \<exists>row \<in> set remaining. bl_project_entry_id row = i
         \<and> (\<exists>c \<in> set (candidates row cap). s = selection_from_candidate c)"
      proof -
        have "\<exists>row \<in> set remaining. bl_project_entry_id row = i
         \<and> (\<exists>c \<in> set (candidates row cap). s = selection_from_candidate c)" if "(i, s) \<in> set now" for i s
        proof -
          from that obtain c where "(i, c) \<in> set best" "s = selection_from_candidate c" by (auto simp: now_def)
          then show ?thesis unfolding best_def by (metis best_round_in)
        qed
        moreover have "set rest \<subseteq> set remaining" by (auto simp: rest_def)
        ultimately show ?thesis using new(5) by fastforce
      qed
      have "card ((\<lambda>s. map_option casefold (sn_distributor s)) ` snd ` set (now @ new)) \<le> n - used" if m: "m = Some n" for n
      proof -
        let ?f = "\<lambda>s. map_option casefold (sn_distributor s)"
        obtain k where k: "\<forall>(i, c) \<in> set best. distributor_key c = k"
          using best_round_one_distributor [of cap remaining] unfolding best_def by blast
        have "?f ` snd ` set now \<subseteq> {Some k}"
          using k by (auto simp: now_def selection_from_candidate_def Let_def distributor_key_def)
        then have "card (?f ` snd ` set now) \<le> 1" by (metis card.empty card_insert_disjoint card_mono empty_iff finite.intros One_nat_def)
        moreover have "card (?f ` snd ` set (now @ new)) \<le> card (?f ` snd ` set now) + card (?f ` snd ` set new)"
          by (simp add: image_Un card_Un_le)
        moreover have "card (?f ` snd ` set new) \<le> n - (used + 1)" using new(7) m by blast
        moreover have "used < n" using go m by simp
        ultimately show ?thesis by linarith
      qed
      then show ?thesis using fsts dist each new(1,2,6)
        by (intro exI [of _ "now @ new"]) (auto simp: rest_def)
    qed
  qed
qed

lemma rows_by_id_distinct: "distinct (map bl_project_entry_id rows) \<Longrightarrow> rows_by_id rows = rows"
proof -
  assume d: "distinct (map bl_project_entry_id rows)"
  have "map_of (rev (map (\<lambda>r. (bl_project_entry_id r, r)) rows)) (bl_project_entry_id r) = Some r" if "r \<in> set rows" for r
    using d that by (intro map_of_is_SomeI) (auto simp: rev_map [symmetric] comp_def)
  then have "List.map_filter (map_of (rev (map (\<lambda>r. (bl_project_entry_id r, r)) rows))) (map bl_project_entry_id rows') = rows'"
    if "set rows' \<subseteq> set rows" for rows'
    using that by (induction rows') (simp_all add: List.map_filter_def)
  moreover have "dict_keys (map bl_project_entry_id rows) = map bl_project_entry_id rows"
    using d by (simp add: dict_keys_def distinct_remdups_id)
  ultimately show ?thesis by (simp add: rows_by_id_def)
qed

section \<open>The plan\<close>

lemma list_all2_map_filter:
  "(\<And>x. x \<in> set xs \<Longrightarrow> \<exists>y. f x = Some y \<and> P x y) \<Longrightarrow> list_all2 P xs (List.map_filter f xs)"
  by (induction xs) (force simp: List.map_filter_def)+

text \<open>The selection of a line: open lines are reported as such, and only the distributor limit of
  \<open>fewest_distributors\<close> leaves a line open that somebody can deliver.\<close>

definition serves :: "int option \<Rightarrow> bool \<Rightarrow> bom_line \<Rightarrow> selection \<Rightarrow> bool" where
  "serves cap limited row s \<longleftrightarrow> (if sn_distributor s = None
     then s = unfilled_selection row \<and> (limited \<or> (\<nexists>offer. admissible cap row offer))
     else delivers cap row s)"

lemma deliversD: "delivers cap row s \<Longrightarrow> sn_distributor s \<noteq> None"
  by (auto simp: delivers_def)

lemma serves_if:
  "(if \<exists>offer. admissible cap row offer then delivers cap row s else s = unfilled_selection row) \<Longrightarrow> serves cap limited row s"
  by (auto simp: serves_def unfilled_selection_def split: if_splits dest: deliversD)

text \<open>The contract of a strategy that looks at one line at a time, and the plan it gives.\<close>

locale line_strategy =
  fixes cap :: "int option" and select :: "bom_line \<Rightarrow> selection"
  assumes picks: "if \<exists>offer. admissible cap row offer then delivers cap row (select row)
    else select row = unfilled_selection row"
begin

lemma plan_serves: "list_all2 (serves cap limited) rows (map select rows)"
  by (simp add: list_all2_conv_all_nth serves_if picks)

lemma open_iff: "sn_distributor (select row) = None \<longleftrightarrow> (\<nexists>offer. admissible cap row offer)"
  using picks [of row] by (auto simp: unfilled_selection_def split: if_splits dest: deliversD)

end

interpretation lowest: line_strategy cap "select_lowest_total_price cap" for cap
  by unfold_locales (simp add: select_lowest_total_price_def select_min_delivers)

interpretation fastest: line_strategy cap "select_fastest_availability cap" for cap
  by unfold_locales (simp add: select_fastest_availability_def select_min_delivers)

interpretation preferred: line_strategy cap "select_preferred_first rank cap pct" for cap rank pct
  by unfold_locales (rule select_preferred_delivers)

lemma fewest_serves:
  assumes d: "distinct (map bl_project_entry_id rows)"
  shows "list_all2 (serves cap (m \<noteq> None)) rows (optimize_fewest_distributors m cap rows)"
proof -
  obtain selected remaining where loop: "fewest_loop m cap 0 rows [] = (selected, remaining)" by fastforce
  from fewest_loop_result [OF this]
  have sub: "set remaining \<subseteq> set rows"
    and keys: "fst ` set selected = bl_project_entry_id ` set rows - bl_project_entry_id ` set remaining"
    and dist: "distinct (map fst selected)"
    and each: "\<forall>(i, s) \<in> set selected. \<exists>row \<in> set rows. bl_project_entry_id row = i
         \<and> (\<exists>c \<in> set (candidates row cap). s = selection_from_candidate c)"
    and none: "m = None \<longrightarrow> (\<forall>row \<in> set remaining. candidates row cap = [])"
    by auto
  define open_lines where "open_lines = map (\<lambda>r. (bl_project_entry_id r, unfilled_selection r)) remaining"
  define by_line where "by_line = map_of (rev (selected @ open_lines))"
  have inj: "r = r'" if "r \<in> set rows" "r' \<in> set rows" "bl_project_entry_id r = bl_project_entry_id r'" for r r'
    using d that by (auto simp: distinct_map dest: inj_onD)
  have "\<exists>s. by_line (bl_project_entry_id row) = Some s \<and> serves cap (m \<noteq> None) row s" if row: "row \<in> set rows" for row
  proof -
    have "bl_project_entry_id row \<in> fst ` set (rev (selected @ open_lines))"
      using row keys by (force simp: open_lines_def)
    then obtain s where s: "by_line (bl_project_entry_id row) = Some s" unfolding by_line_def by (metis map_of_eq_None_iff not_None_eq)
    then have "(bl_project_entry_id row, s) \<in> set selected \<or> (bl_project_entry_id row, s) \<in> set open_lines"
      unfolding by_line_def by (auto dest: map_of_SomeD)
    then have "serves cap (m \<noteq> None) row s"
    proof
      assume "(bl_project_entry_id row, s) \<in> set selected"
      with each obtain row' c where "row' \<in> set rows" "bl_project_entry_id row' = bl_project_entry_id row"
        "c \<in> set (candidates row' cap)" "s = selection_from_candidate c" by blast
      with inj row have "delivers cap row s" using selection_delivers by blast
      with deliversD [OF this] show ?thesis by (auto simp: serves_def)
    next
      assume "(bl_project_entry_id row, s) \<in> set open_lines"
      then obtain r where "r \<in> set remaining" "bl_project_entry_id r = bl_project_entry_id row" "s = unfilled_selection r"
        by (auto simp: open_lines_def)
      moreover from this have "r = row" using inj row sub by blast
      ultimately show ?thesis using none no_candidates [of row cap] by (auto simp: serves_def unfilled_selection_def)
    qed
    with s show ?thesis by blast
  qed
  moreover have "optimize_fewest_distributors m cap rows = List.map_filter (\<lambda>r. by_line (bl_project_entry_id r)) rows"
    by (simp add: optimize_fewest_distributors_def rows_by_id_distinct [OF d] loop by_line_def open_lines_def)
  ultimately show ?thesis by (simp add: list_all2_map_filter)
qed

lemma optimize_cases:
  assumes "optimize so rows strategy pref maxd cap pct = Inr out"
  obtains "strategy = ''fewest_distributors''"
      "out = outcome_of so (optimize_fewest_distributors (map_option nat maxd) cap (sort_key line_key rows))"
      "\<And>n. maxd = Some n \<Longrightarrow> 1 \<le> n"
  | "strategy = ''lowest_total_price''" "out = outcome_of so (map (select_lowest_total_price cap) (sort_key line_key rows))"
  | "strategy = ''fastest_availability''" "out = outcome_of so (map (select_fastest_availability cap) (sort_key line_key rows))"
  | "strategy = ''preferred_first''"
      "out = outcome_of so (map (select_preferred_first (preferred_rank pref) cap pct) (sort_key line_key rows))"
  using assms by (auto simp: optimize_def valid_strategies_def Let_def split: if_splits option.splits)

lemma outcome_selections [simp]: "oc_selections (outcome_of so ss) = ss"
  by (simp add: outcome_of_def Let_def)

text \<open>
  C23: under every strategy the plan has one selection per line, in the order of the lines'
  ids; a filled line is ordered from an offer of its own that has a price for the quantity
  ordered, the stock for it and stays within the overbuy cap, the quantity covers the
  shortage, and a line somebody can deliver stays open only under
  \<open>fewest_distributors\<close> with a limit.
\<close>

theorem optimize_serves_every_line:
  assumes "optimize so rows strategy pref maxd cap pct = Inr out"
    and "distinct (map bl_project_entry_id rows)"
  shows "list_all2 (serves cap (strategy = ''fewest_distributors'' \<and> maxd \<noteq> None)) (sort_key line_key rows) (oc_selections out)"
  using assms(1)
proof (cases rule: optimize_cases)
  case 1
  have "distinct (map bl_project_entry_id (sort_key line_key rows))" using assms(2) by (simp add: distinct_map)
  from fewest_serves [OF this, of cap "map_option nat maxd"] show ?thesis by (simp add: 1)
qed (simp_all add: lowest.plan_serves fastest.plan_serves preferred.plan_serves)

definition cheap_offer :: bom_offer where
  "cheap_offer = \<lparr>of_mpn = ''R1'', of_distributor = ''Mouser'', of_stock = 500, of_unit_price = None,
     of_currency = Some ''USD'', of_packaging = None, of_moq = Some 10, of_lead_time_days = Some 3,
     of_price_breaks = [\<lparr>pb_quantity = Some 1, pb_unit_price = Some 2\<rparr>, \<lparr>pb_quantity = Some 10, pb_unit_price = Some 1\<rparr>],
     of_url = None\<rparr>"

definition dear_offer :: bom_offer where
  "dear_offer = cheap_offer\<lparr>of_distributor := ''Acme'', of_moq := None, of_unit_price := Some 5, of_price_breaks := []\<rparr>"

definition demo_line :: bom_line where
  "demo_line = \<lparr>bl_project_entry_id = 1, bl_part_id = 2, bl_mpn = Some ''R1'', bl_required = 8, bl_available = 1,
     bl_substitute_available = 0, bl_short_by = 7, bl_offers = [dear_offer, cheap_offer], bl_risk_flags = []\<rparr>"


lemma demo_fields: "bl_project_entry_id demo_line = Suc 0" "bl_offers demo_line = [dear_offer, cheap_offer]"
  "\<not> bl_short_by demo_line < 1" "of_distributor cheap_offer = ''Mouser''" "of_distributor dear_offer = ''Acme''"
  by (simp_all add: demo_line_def dear_offer_def cheap_offer_def)

lemma demo_values: "casefold ''Acme'' = ''acme''" "casefold ''Mouser'' = ''mouser''" "casefold ''R1'' = ''r1''"
    "''acme'' < ''mouser''" "dec 10 = 10" "dec 35 = 35"
  using dec_of_int [of 10] dec_of_int [of 35] by (simp_all; code_simp)+

lemma demo_prices: "best_unit_price_at_qty (of_price_breaks cheap_offer) 10 = Some (1, 10)" 
 "best_unit_price_at_qty (of_price_breaks dear_offer) 7 = None" 
  by (simp_all add: best_unit_price_at_qty_def cheap_offer_def dear_offer_def List.map_filter_def normalise_break_def)

lemma demo_candidates: "candidates demo_line (Some 3) = [
  \<lparr>cd_line = demo_line, cd_offer = dear_offer, cd_selected_qty = 7, cd_unit_price = 5, cd_extended_cost = 35\<rparr>, 
  \<lparr>cd_line = demo_line, cd_offer = cheap_offer, cd_selected_qty = 10, cd_unit_price = 1, cd_extended_cost = 10\<rparr>]"
proof -
  have 1: "candidate_of demo_line (Some 3) cheap_offer = Some \<lparr>cd_line = demo_line, cd_offer = cheap_offer, cd_selected_qty = 10, cd_unit_price = 1, cd_extended_cost = 10\<rparr>"
    using demo_prices by (simp add: dec_mul_def demo_values candidate_of_def selected_qty_def offer_unit_price_def cheap_offer_def demo_line_def)
  have 2: "candidate_of demo_line (Some 3) dear_offer = Some \<lparr>cd_line = demo_line, cd_offer = dear_offer, cd_selected_qty = 7, cd_unit_price = 5, cd_extended_cost = 35\<rparr>"
    using demo_prices by (simp add: dec_mul_def demo_values candidate_of_def selected_qty_def offer_unit_price_def dear_offer_def cheap_offer_def demo_line_def)
  have 4: "alpha_key \<lparr>cd_line = demo_line, cd_offer = dear_offer, cd_selected_qty = 7, cd_unit_price = 5, cd_extended_cost = 35\<rparr> < alpha_key \<lparr>cd_line = demo_line, cd_offer = cheap_offer, cd_selected_qty = 10, cd_unit_price = 1, cd_extended_cost = 10\<rparr>"
    by (simp add: alpha_key_def demo_fields demo_values)
  show ?thesis using 4 by (simp add: candidates_def 1 2 demo_fields List.map_filter_def)
qed

lemma optimize_demo:
  "optimize id [demo_line] s None (Some 1) (Some 3) 5 = Inr (outcome_of id [selection_from_candidate
     \<lparr>cd_line = demo_line, cd_offer = cheap_offer, cd_selected_qty = 10, cd_unit_price = 1, cd_extended_cost = 10\<rparr>])"
  if "s \<in> {''lowest_total_price'', ''fewest_distributors''}"
proof -
  let ?a = "\<lparr>cd_line = demo_line, cd_offer = dear_offer, cd_selected_qty = 7, cd_unit_price = 5, cd_extended_cost = 35 :: rat\<rparr>"
  let ?c = "\<lparr>cd_line = demo_line, cd_offer = cheap_offer, cd_selected_qty = 10, cd_unit_price = 1, cd_extended_cost = 10 :: rat\<rparr>"
  have "best_candidates [?c] = [(1, ?c)]"
    by (simp add: best_candidates_def dict_keys_def line_of_def demo_fields List.map_filter_def)
  moreover have "min_by (fewest_distributor_key [?a, ?c]) ''acme'' [''mouser''] = ''mouser''"
    by (simp add: fewest_distributor_key_def of_distributor_key_def distributor_key_def best_candidates_def dict_keys_def
       line_of_def demo_fields demo_values List.map_filter_def dec_add_def)
  ultimately have "best_round (Some 3) [demo_line] = [(1, ?c)]"
    by (simp add: best_round_def all_candidates_def demo_candidates demo_values distributor_key_def demo_fields dict_keys_def
       of_distributor_key_def)
  then have "fewest_loop (Some 1) (Some 3) 0 [demo_line] [] = ([(1, selection_from_candidate ?c)], [])"
    by (simp add: fewest_loop.simps demo_fields)
  then have "optimize_fewest_distributors (Some 1) (Some 3) [demo_line] = [selection_from_candidate ?c]"
   by (simp add: optimize_fewest_distributors_def rows_by_id_distinct demo_fields List.map_filter_def)
  moreover have "select_lowest_total_price (Some 3) demo_line = selection_from_candidate ?c"
    by (simp add: select_lowest_total_price_def select_min_def demo_candidates lowest_price_key_def)
  ultimately show ?thesis using that by (auto simp: optimize_def valid_strategies_def)
qed

theorem optimize_serves_every_line_witness:
  "\<exists>out. optimize id [demo_line] ''lowest_total_price'' None (Some 1) (Some 3) 5 = Inr out
     \<and> list_all2 (serves (Some 3) False) (sort_key line_key [demo_line]) (oc_selections out)"
proof -
  have "distinct (map bl_project_entry_id [demo_line])" by simp
  from optimize_serves_every_line [OF optimize_demo [of "''lowest_total_price''"] this]
    optimize_demo [of "''lowest_total_price''"] show ?thesis by (simp cong: list.rel_cong)
qed

section \<open>The cheapest plan\<close>

lemma lowest_total_price_cost:
  assumes "admissible cap row offer"
  shows "\<exists>p. sn_selected_unit_price (select_lowest_total_price cap row) = Some p
    \<and> dec_mul p (of_int (sn_selected_qty (select_lowest_total_price cap row))) \<le> costing row offer"
proof -
  obtain c cs where cs: "candidates row cap = c # cs" using assms no_candidates by (cases "candidates row cap") auto
  let ?b = "min_by lowest_price_key c cs"
  have b: "?b \<in> set (candidates row cap)" unfolding cs by (rule min_by_in)
  obtain x where x: "x \<in> set (c # cs)" "cd_extended_cost x = costing row offer"
    using assms set_candidates [of _ row cap] unfolding cs by fastforce
  have "lowest_price_key ?b \<le> lowest_price_key x" by (rule min_by_le [OF x(1)])
  then have "cd_extended_cost ?b \<le> costing row offer" using x(2) by (auto simp: lowest_price_key_def)
  moreover have "cd_extended_cost ?b = dec_mul (cd_unit_price ?b) (of_int (cd_selected_qty ?b))"
    using b by (auto simp: set_candidates costing_def Let_def)
  moreover have "select_lowest_total_price cap row = selection_from_candidate ?b"
    by (simp add: select_lowest_total_price_def select_min_def cs)
  ultimately show ?thesis by (auto simp: selection_from_candidate_def Let_def)
qed

lemma foldl_dec_add_mono:
  assumes "list_all2 (\<le>) xs ys" "a \<le> b"
  shows "foldl dec_add a xs \<le> foldl dec_add b ys"
  using assms
proof (induction arbitrary: a b rule: list_all2_induct)
  case (Cons x xs y ys)
  have "dec_add a x \<le> dec_add b y" unfolding dec_add_def by (intro dec_mono add_mono Cons)
  from Cons.IH [OF this] show ?case by simp
qed simp

text \<open>
  C24: the plan of \<open>lowest_total_price\<close>, when it fills every line, costs no more than any other
  plan that takes an admissible offer for each line, rounding of every product and of the
  sum to 28 digits included.
\<close>

theorem lowest_total_price_is_cheapest:
  assumes "optimize so rows ''lowest_total_price'' pref maxd cap pct = Inr out"
    and "\<And>row. row \<in> set rows \<Longrightarrow> admissible cap row (choice row)"
  shows "\<exists>total. oc_est_total_cost out = Some total
    \<and> total \<le> foldl dec_add 0 (map (\<lambda>row. costing row (choice row)) (sort_key line_key rows))"
proof -
  define lines where "lines = sort_key line_key rows"
  define pick where "pick = select_lowest_total_price cap"
  define paid where "paid = (\<lambda>row. dec_mul (the (sn_selected_unit_price (pick row))) (of_int (sn_selected_qty (pick row))))"
  have out: "out = outcome_of so (map pick lines)"
    using assms(1) by (auto simp: lines_def pick_def elim!: optimize_cases)
  have adm: "admissible cap row (choice row)" if "row \<in> set lines" for row using that assms(2) by (simp add: lines_def)
  have some: "sn_selected_unit_price (pick row) \<noteq> None" "paid row \<le> costing row (choice row)" if "row \<in> set lines" for row
    using lowest_total_price_cost [OF adm [OF that]] by (auto simp: pick_def paid_def)
  have "sn_distributor (pick row) \<noteq> None" if "row \<in> set lines" for row
    using lowest.open_iff [of cap row] adm [OF that] by (auto simp: pick_def)
  then have "filter (\<lambda>s. sn_distributor s = None) (map pick lines) = []" by (auto simp: filter_empty_conv)
  moreover have "List.map_filter (\<lambda>s. map_option (\<lambda>p. dec_mul p (of_int (sn_selected_qty s))) (sn_selected_unit_price s)) (map pick ls)
      = map paid ls" if "set ls \<subseteq> set lines" for ls
    using that some(1) by (induction ls) (force simp: List.map_filter_def paid_def)+
  ultimately have "oc_est_total_cost out = Some (foldl dec_add 0 (map paid lines))"
    by (simp add: out outcome_of_def Let_def)
  moreover have "foldl dec_add 0 (map paid lines) \<le> foldl dec_add 0 (map (\<lambda>row. costing row (choice row)) lines)"
    using some(2) by (intro foldl_dec_add_mono) (auto simp: list_all2_conv_all_nth)
  ultimately show ?thesis by (simp add: lines_def)
qed

theorem lowest_total_price_is_cheapest_witness:
  "\<exists>out total. optimize id [demo_line] ''lowest_total_price'' None (Some 1) (Some 3) 5 = Inr out
     \<and> oc_est_total_cost out = Some total \<and> total \<le> foldl dec_add 0 [costing demo_line dear_offer]"
proof -
  have "admissible (Some 3) demo_line dear_offer"
    by (simp add: admissible_def demo_line_def dear_offer_def cheap_offer_def selected_qty_def offer_unit_price_def
        best_unit_price_at_qty_def)
  then have "\<And>row. row \<in> set [demo_line] \<Longrightarrow> admissible (Some 3) row dear_offer" by simp
  from lowest_total_price_is_cheapest [OF optimize_demo this] optimize_demo [of "''lowest_total_price''"] show ?thesis by (simp del: foldl_Cons)
qed

text \<open>
  C28: a plan of \<open>fewest_distributors\<close> with a limit names at most that many distributors, names
  that differ only in case counting as one, when \<open>set_order\<close> lists the members of a set.
\<close>

theorem fewest_distributors_keeps_the_limit:
  assumes "optimize so rows ''fewest_distributors'' pref (Some n) cap pct = Inr out"
    and "distinct (map bl_project_entry_id rows)" and "\<And>xs. set (so xs) = set xs"
  shows "int (card (casefold ` set (oc_distributors_used out))) \<le> n"
proof -
  let ?rows = "sort_key line_key rows"
  have out: "out = outcome_of so (optimize_fewest_distributors (Some (nat n)) cap ?rows)" and n: "1 \<le> n"
    using assms(1) by (auto elim!: optimize_cases)
  have d: "distinct (map bl_project_entry_id ?rows)" using assms(2) by (simp add: distinct_map)
  obtain selected remaining where loop: "fewest_loop (Some (nat n)) cap 0 ?rows [] = (selected, remaining)" by fastforce
  from fewest_loop_result [OF this]
  have le: "card ((\<lambda>s. map_option casefold (sn_distributor s)) ` snd ` set selected) \<le> nat n" by auto
  have "Some ` casefold ` set (oc_distributors_used out) \<subseteq> (\<lambda>s. map_option casefold (sn_distributor s)) ` snd ` set selected"
  proof safe
    fix x assume "x \<in> set (oc_distributors_used out)"
    then obtain s where s: "s \<in> set (optimize_fewest_distributors (Some (nat n)) cap ?rows)" "sn_distributor s = Some x"
      by (auto simp: out outcome_of_def Let_def assms(3) set_map_filter)
    then obtain i where "map_of (rev (selected @ map (\<lambda>r. (bl_project_entry_id r, unfilled_selection r)) remaining)) i = Some s"
      by (auto simp: optimize_fewest_distributors_def rows_by_id_distinct [OF d] loop set_map_filter simp del: rev_append)
    then have "(i, s) \<in> set (rev (selected @ map (\<lambda>r. (bl_project_entry_id r, unfilled_selection r)) remaining))"
      by (rule map_of_SomeD)
    then have "(i, s) \<in> set selected" using s(2) by (auto simp: unfilled_selection_def)
    with s(2) show "Some (casefold x) \<in> (\<lambda>s. map_option casefold (sn_distributor s)) ` snd ` set selected" by force
  qed
  then have "card (Some ` casefold ` set (oc_distributors_used out)) \<le> nat n"
    using le by (meson card_mono finite_imageI finite_set le_trans)
  then show ?thesis using n by (simp add: card_image)
qed

theorem fewest_distributors_keeps_the_limit_witness:
  "\<exists>out. optimize id [demo_line] ''fewest_distributors'' None (Some 1) (Some 3) 5 = Inr out
     \<and> int (card (casefold ` set (oc_distributors_used out))) \<le> 1"
proof -
  have "distinct (map bl_project_entry_id [demo_line])" "\<And>xs. set (id xs) = set xs" by simp_all
  from fewest_distributors_keeps_the_limit [OF optimize_demo this] optimize_demo [of "''fewest_distributors''"]
  show ?thesis by simp
qed

theorem best_unit_price_is_the_right_break_witness:
  "\<exists>p q. best_unit_price_at_qty (of_price_breaks cheap_offer) 10 = Some (p, q)
     \<and> (q, p) \<in> usable_breaks (of_price_breaks cheap_offer)"
  using best_unit_price_is_the_right_break [where bs = "of_price_breaks cheap_offer" and qty = 10] by (simp add: demo_prices)

end
