(* ===== verification/Coverage.thy ===== *)
theory Coverage
  imports OptimizerProps "HOL-Library.Log_Nat"
begin

text \<open>
  \<open>backend/app/domain/sourcing/coverage.py\<close>: how far each distributor, pair and set of distributors
  covers the lines of a sourced bill of materials, and how many builds the stock supports. Python
  floats are the rationals they stand for, rounded to 53 bits after each operation.
\<close>

section \<open>Floats and cents\<close>

definition binary_exponent :: "rat \<Rightarrow> int" where
  "binary_exponent x = (let a = \<bar>x\<bar> in
     if 1 \<le> a then int (floorlog 2 (nat \<lfloor>a\<rfloor>)) - 1 else - int (floorlog 2 (nat (\<lceil>1 / a\<rceil> - 1))))"

definition float64 :: "rat \<Rightarrow> rat" where
  "float64 x = (if x = 0 then 0
     else let e = binary_exponent x - 52 in of_int (half_even (x / 2 powi e)) * 2 powi e)"

text \<open>\<open>quantize(Decimal("0.01"), ROUND_HALF_UP)\<close>; more than 28 digits is an \<open>InvalidOperation\<close>.\<close>

definition quantize_cents :: "rat \<Rightarrow> rat option" where
  "quantize_cents x = (let cents = (if 0 \<le> x then \<lfloor>x * 100 + 1 / 2\<rfloor> else - \<lfloor>- x * 100 + 1 / 2\<rfloor>) in
     if 10 ^ 28 \<le> \<bar>cents\<bar> then None else Some (of_int cents / 100))"

text \<open>\<open>str.upper\<close> below code point 256; the micro sign and the y with diaeresis leave that range.\<close>

definition upper_text :: "string \<Rightarrow> string" where
  "upper_text s = concat (map (\<lambda>c. let n = (of_char c :: nat) in
     if c = CHR 0xDF then ''SS''
     else if 97 \<le> n \<and> n \<le> 122 \<or> 224 \<le> n \<and> n \<le> 254 \<and> n \<noteq> 247 then [char_of (n - 32)] else [c]) s)"

section \<open>Lines and offers\<close>

record sourced_offer = bom_offer +
  so_unit_price_converted :: "rat option"
  so_currency_displayed :: "string option"
  so_price_breaks_converted :: "price_break list option"

record sourced_line =
  sl_project_entry_id :: uuid
  sl_part_id :: uuid
  sl_mpn :: "string option"
  sl_required :: int
  sl_available :: int
  sl_substitute_available :: int
  sl_short_by :: int
  sl_authorized_stock :: int
  sl_offers :: "sourced_offer list"
  sl_best_offer :: "sourced_offer option"
  sl_risk_flags :: "string list"

text \<open>What the optimizer reads of a line.\<close>

definition optimizer_line :: "sourced_line \<Rightarrow> bom_line" where
  "optimizer_line l = \<lparr>bl_project_entry_id = sl_project_entry_id l, bl_part_id = sl_part_id l, bl_mpn = sl_mpn l,
     bl_required = sl_required l, bl_available = sl_available l, bl_substitute_available = sl_substitute_available l,
     bl_short_by = sl_short_by l, bl_offers = map bom_offer.truncate (sl_offers l), bl_risk_flags = sl_risk_flags l\<rparr>"

definition coverage_selected_qty :: "int \<Rightarrow> int option \<Rightarrow> int" where
  "coverage_selected_qty short_by moq = (if short_by \<le> 0 then 0
     else max short_by (case moq of None \<Rightarrow> 1 | Some m \<Rightarrow> if m = 0 then 1 else m))"

definition sourced_unit_price :: "sourced_offer \<Rightarrow> int \<Rightarrow> rat option" where
  "sourced_unit_price offer qty =
     (let price_breaks = (case so_price_breaks_converted offer of Some (b # bs) \<Rightarrow> b # bs | _ \<Rightarrow> of_price_breaks offer) in
      case best_unit_price_at_qty price_breaks qty of Some (p, _) \<Rightarrow> Some p
      | None \<Rightarrow> (case so_unit_price_converted offer of
            Some p \<Rightarrow> if p = 0 then of_unit_price offer else Some p
          | None \<Rightarrow> of_unit_price offer))"

definition offer_extended_cost :: "sourced_offer \<Rightarrow> int \<Rightarrow> rat option" where
  "offer_extended_cost offer qty = (if qty \<le> 0 then Some 0
     else map_option (\<lambda>p. dec_mul p (of_int qty)) (sourced_unit_price offer qty))"

text \<open>A missing price sorts as \<open>Decimal("Infinity")\<close>.\<close>

definition price_sort_value :: "rat option \<Rightarrow> bool \<times> rat" where
  "price_sort_value p = (case p of None \<Rightarrow> (True, 0) | Some v \<Rightarrow> (False, v))"

definition best_offer_for_quantity ::
    "string \<Rightarrow> sourced_line \<Rightarrow> (sourced_offer \<Rightarrow> int) \<Rightarrow> sourced_offer option" where
  "best_offer_for_quantity key line quantity_for_offer =
     (case filter (\<lambda>offer. casefold (of_distributor offer) = key
         \<and> quantity_for_offer offer \<le> of_stock offer) (sl_offers line) of
        [] \<Rightarrow> None
      | c # cs \<Rightarrow> Some (min_by (\<lambda>offer. (price_sort_value (sourced_unit_price offer (quantity_for_offer offer)),
          (case of_lead_time_days offer of None \<Rightarrow> INFINITE_LEAD_TIME_DAYS | Some t \<Rightarrow> t), casefold (of_mpn offer))) c cs))"

definition best_covering_offer :: "string \<Rightarrow> sourced_line \<Rightarrow> sourced_offer option" where
  "best_covering_offer key line = best_offer_for_quantity key line (\<lambda>_. sl_short_by line)"

definition best_purchaseable_offer :: "string \<Rightarrow> sourced_line \<Rightarrow> sourced_offer option" where
  "best_purchaseable_offer key line =
     best_offer_for_quantity key line (\<lambda>offer. coverage_selected_qty (sl_short_by line) (of_moq offer))"

section \<open>One distributor\<close>

record coverage_row =
  cr_distributor :: string
  cr_lines_covered :: nat
  cr_lines_uncovered :: "uuid list"
  cr_coverage_pct :: rat
  cr_est_total_cost :: "rat option"
  cr_worst_lead_time_days :: "int option"

definition distributor_keys :: "sourced_line list \<Rightarrow> string list" where
  "distributor_keys rows = dict_keys (map (casefold \<circ> of_distributor) (concat (map sl_offers rows)))"

definition display_name :: "sourced_line list \<Rightarrow> string \<Rightarrow> string" where
  "display_name rows key = (case find (\<lambda>x. casefold (of_distributor x) = key) (concat (map sl_offers rows)) of
     None \<Rightarrow> key | Some offer \<Rightarrow> of_distributor offer)"

definition covered_by :: "sourced_line list \<Rightarrow> string \<Rightarrow> uuid set" where
  "covered_by rows key = set (map sl_project_entry_id (filter (\<lambda>l. best_covering_offer key l \<noteq> None) rows))"

definition purchaseable_by :: "sourced_line list \<Rightarrow> string \<Rightarrow> uuid set" where
  "purchaseable_by rows key = set (map sl_project_entry_id (filter (\<lambda>l. best_purchaseable_offer key l \<noteq> None) rows))"

text \<open>The running total is lost for good at the first line without a price.\<close>

definition add_line_cost :: "string \<Rightarrow> sourced_line \<Rightarrow> rat option \<Rightarrow> rat option" where
  "add_line_cost key line total_cost = (case best_covering_offer key line of None \<Rightarrow> total_cost
     | Some offer \<Rightarrow> (case offer_extended_cost offer (sl_short_by line) of None \<Rightarrow> None
         | Some line_cost \<Rightarrow> map_option (\<lambda>t. dec_add t line_cost) total_cost))"

definition add_lead_time :: "string \<Rightarrow> sourced_line \<Rightarrow> int option \<Rightarrow> int option" where
  "add_lead_time key line worst = (case best_covering_offer key line of None \<Rightarrow> worst
     | Some offer \<Rightarrow> (case of_lead_time_days offer of None \<Rightarrow> worst
         | Some days \<Rightarrow> Some (case worst of None \<Rightarrow> days | Some w \<Rightarrow> max w days)))"

definition coverage_row_of :: "sourced_line list \<Rightarrow> string \<Rightarrow> coverage_row" where
  "coverage_row_of rows key = (let covered = covered_by rows key in
     \<lparr>cr_distributor = display_name rows key, cr_lines_covered = card covered,
      cr_lines_uncovered = filter (\<lambda>i. i \<notin> covered) (map sl_project_entry_id rows),
      cr_coverage_pct = float64 (of_nat (card covered) / of_nat (length rows)),
      cr_est_total_cost = fold (add_line_cost key) rows (Some 0),
      cr_worst_lead_time_days = fold (add_lead_time key) rows None\<rparr>)"

definition single_sort_key :: "(string \<Rightarrow> nat option) \<Rightarrow> coverage_row \<Rightarrow> int \<times> nat \<times> (bool \<times> rat) \<times> string" where
  "single_sort_key rank row = (- int (cr_lines_covered row),
     (case rank (casefold (cr_distributor row)) of None \<Rightarrow> 10 ^ 9 | Some r \<Rightarrow> r),
     price_sort_value (cr_est_total_cost row), casefold (cr_distributor row))"

definition coverage_rows :: "(string \<Rightarrow> nat option) \<Rightarrow> sourced_line list \<Rightarrow> coverage_row list" where
  "coverage_rows rank rows = sort_key (single_sort_key rank) (map (coverage_row_of rows) (distributor_keys rows))"

section \<open>Pairs\<close>

text \<open>\<open>itertools.combinations\<close>: by position.\<close>

fun combinations :: "'a list \<Rightarrow> nat \<Rightarrow> 'a list list" where
  "combinations xs 0 = [[]]"
| "combinations [] (Suc n) = []"
| "combinations (x # xs) (Suc n) = map ((#) x) (combinations xs n) @ combinations xs (Suc n)"

definition EXHAUSTIVE_COMBO_DISTRIBUTOR_LIMIT :: nat where "EXHAUSTIVE_COMBO_DISTRIBUTOR_LIMIT = 30"

text \<open>\<open>rows_by_key[key]\<close>.\<close>

definition row_by_key :: "coverage_row list \<Rightarrow> string \<Rightarrow> coverage_row" where
  "row_by_key rows key = the (map_of (rev (map (\<lambda>r. (casefold (cr_distributor r), r)) rows)) key)"

definition pair_sort_key :: "(string \<Rightarrow> nat option) \<Rightarrow> (string \<Rightarrow> uuid set) \<Rightarrow> coverage_row list \<Rightarrow> string \<times> string
    \<Rightarrow> int \<times> (int \<times> nat \<times> (bool \<times> rat) \<times> string) \<times> int \<times> nat \<times> (bool \<times> rat) \<times> string" where
  "pair_sort_key rank covered rows pair =
     (let key = \<lambda>k. single_sort_key rank (row_by_key rows k);
          (first, second) = (if key (snd pair) < key (fst pair) then (snd pair, fst pair) else pair) in
      (- int (card (covered first \<union> covered second)), key first, key second))"

definition best_two_distributors ::
    "(string \<Rightarrow> nat option) \<Rightarrow> (string \<Rightarrow> uuid set) \<Rightarrow> nat \<Rightarrow> coverage_row list \<Rightarrow> (string \<times> string) option" where
  "best_two_distributors rank covered total_lines rows =
     (if length rows < 2 \<or> cr_lines_covered (hd rows) = total_lines then None
      else let keys = map (casefold \<circ> cr_distributor) rows;
               (first_key, second_key) =
                 (if length keys \<le> EXHAUSTIVE_COMBO_DISTRIBUTOR_LIMIT
                  then let pairs = map (\<lambda>c. (c ! 0, c ! 1)) (combinations keys 2)
                    in min_by (pair_sort_key rank covered rows) (hd pairs) (tl pairs)
                  else let first = hd keys; remaining = (\<Union> (set (map covered keys))) - covered first;
                           others = filter (\<lambda>k. k \<noteq> first) keys
                    in (first, min_by (\<lambda>k. (- int (card (covered k \<inter> remaining)), single_sort_key rank (row_by_key rows k)))
                          (hd others) (tl others)))
           in Some (cr_distributor (row_by_key rows first_key), cr_distributor (row_by_key rows second_key)))"

section \<open>Sets of distributors\<close>

definition combo_covered :: "(string \<Rightarrow> uuid set) \<Rightarrow> string list \<Rightarrow> uuid set" where
  "combo_covered covered combo = \<Union> (set (map covered combo))"

definition cheapest_in_combo :: "string list \<Rightarrow> sourced_line \<Rightarrow> rat option" where
  "cheapest_in_combo combo line =
     (case List.map_filter (\<lambda>key. case best_purchaseable_offer key line of None \<Rightarrow> None
         | Some offer \<Rightarrow> offer_extended_cost offer (coverage_selected_qty (sl_short_by line) (of_moq offer))) combo of
        [] \<Rightarrow> None | c # cs \<Rightarrow> Some (min_by (\<lambda>x. x) c cs))"

definition combo_total_cost :: "sourced_line list \<Rightarrow> string list \<Rightarrow> rat option" where
  "combo_total_cost rows combo = (case List.map_filter (cheapest_in_combo combo) rows of [] \<Rightarrow> None
     | costs \<Rightarrow> Some (foldl dec_add 0 costs))"

definition row_name :: "coverage_row list \<Rightarrow> string \<Rightarrow> string" where
  "row_name crows key = casefold (cr_distributor (row_by_key crows key))"

definition combo_sort_key :: "coverage_row list \<Rightarrow> sourced_line list \<Rightarrow> string list \<Rightarrow> (bool \<times> rat) \<times> string list" where
  "combo_sort_key crows rows combo = (price_sort_value (combo_total_cost rows combo), sort (map (row_name crows) combo))"

text \<open>The sizes are tried from one up.\<close>

fun fewest_of_size :: "(string list \<Rightarrow> 'k::linorder) \<Rightarrow> (string list \<Rightarrow> bool) \<Rightarrow> string list \<Rightarrow> nat list \<Rightarrow> string list" where
  "fewest_of_size key enough keys [] = []"
| "fewest_of_size key enough keys (n # ns) = (case filter enough (combinations keys n) of
     [] \<Rightarrow> fewest_of_size key enough keys ns
   | c # cs \<Rightarrow> min_by key c cs)"

definition fewest_exhaustive_combo ::
    "coverage_row list \<Rightarrow> sourced_line list \<Rightarrow> (string \<Rightarrow> uuid set) \<Rightarrow> nat \<Rightarrow> string list \<Rightarrow> string list" where
  "fewest_exhaustive_combo crows rows covered target_count keys =
     fewest_of_size (combo_sort_key crows rows) (\<lambda>combo. target_count \<le> card (combo_covered covered combo)) keys
       [1..<length keys + 1]"

definition greedy_key :: "coverage_row list \<Rightarrow> sourced_line list \<Rightarrow> (string \<Rightarrow> uuid set) \<Rightarrow> uuid set \<Rightarrow> string list \<Rightarrow> string
    \<Rightarrow> int \<times> (bool \<times> rat) \<times> string" where
  "greedy_key crows rows covered uncovered selected key =
     (- int (card (covered key \<inter> uncovered)), price_sort_value (combo_total_cost rows (selected @ [key])), row_name crows key)"

function fewest_greedy_combo ::
    "coverage_row list \<Rightarrow> sourced_line list \<Rightarrow> (string \<Rightarrow> uuid set) \<Rightarrow> nat \<Rightarrow> string list \<Rightarrow> string list \<Rightarrow> uuid set \<Rightarrow> string list" where
  "fewest_greedy_combo crows rows covered target_count keys selected uncovered =
     (if target_count \<le> card (combo_covered covered selected) then selected
      else case filter (\<lambda>k. k \<notin> set selected) keys of [] \<Rightarrow> selected
        | k # ks \<Rightarrow> let next_key = min_by (greedy_key crows rows covered uncovered selected) k ks in
            if covered next_key \<inter> uncovered = {} then selected
            else fewest_greedy_combo crows rows covered target_count keys (selected @ [next_key]) (uncovered - covered next_key))"
  by pat_completeness auto
termination
proof (relation "measure (\<lambda>(crows, rows, covered, target, keys, selected, uncovered). length (filter (\<lambda>k. k \<notin> set selected) keys))")
  fix crows rows covered target_count keys selected uncovered k ks next_key
  assume remaining: "filter (\<lambda>k. k \<notin> set selected) keys = k # ks"
    and step: "next_key = min_by (greedy_key crows rows covered uncovered selected) k ks"
  have "next_key \<in> set (k # ks)" unfolding step by (rule min_by_in)
  then have "next_key \<in> set (filter (\<lambda>k. k \<notin> set selected) keys)" unfolding remaining .
  then have "length (filter (\<lambda>x. x \<noteq> next_key) (filter (\<lambda>k. k \<notin> set selected) keys))
      < length (filter (\<lambda>k. k \<notin> set selected) keys)"
    by (intro length_filter_less) auto
  moreover have "filter (\<lambda>k. k \<notin> set (selected @ [next_key])) keys
      = filter (\<lambda>x. x \<noteq> next_key) (filter (\<lambda>k. k \<notin> set selected) keys)"
    by (auto intro: filter_cong)
  ultimately show "((crows, rows, covered, target_count, keys, selected @ [next_key], uncovered - covered next_key),
      crows, rows, covered, target_count, keys, selected, uncovered)
    \<in> measure (\<lambda>(crows, rows, covered, target, keys, selected, uncovered). length (filter (\<lambda>k. k \<notin> set selected) keys))" by simp
qed simp

declare fewest_greedy_combo.simps [simp del]

definition FEWEST_DISTRIBUTORS_EXHAUSTIVE_LIMIT :: nat where "FEWEST_DISTRIBUTORS_EXHAUSTIVE_LIMIT = 10"

definition target_count_of :: "sourced_line list \<Rightarrow> (string \<Rightarrow> uuid set) \<Rightarrow> string list \<Rightarrow> rat \<Rightarrow> int" where
  "target_count_of rows covered keys target_coverage_pct =
     min \<lceil>float64 (of_nat (length rows) * target_coverage_pct)\<rceil> (int (card (combo_covered covered keys)))"

definition fewest_combo :: "coverage_row list \<Rightarrow> sourced_line list \<Rightarrow> (string \<Rightarrow> uuid set) \<Rightarrow> string list \<Rightarrow> rat \<Rightarrow> string list" where
  "fewest_combo crows rows covered keys target_coverage_pct =
     (let target_count = target_count_of rows covered keys target_coverage_pct in
      if keys = [] \<or> rows = [] \<or> target_count \<le> 0 then []
      else if length keys \<le> FEWEST_DISTRIBUTORS_EXHAUSTIVE_LIMIT
      then fewest_exhaustive_combo crows rows covered (nat target_count) keys
      else fewest_greedy_combo crows rows covered (nat target_count) keys [] (combo_covered covered keys))"

definition fewest_distributors_variant ::
    "coverage_row list \<Rightarrow> sourced_line list \<Rightarrow> (string \<Rightarrow> uuid set) \<Rightarrow> rat \<Rightarrow> string list \<times> rat option" where
  "fewest_distributors_variant crows rows covered target_coverage_pct =
     (case fewest_combo crows rows covered (map (casefold \<circ> cr_distributor) crows) target_coverage_pct of
        [] \<Rightarrow> ([], None)
      | k # ks \<Rightarrow> (sort_key casefold (map (cr_distributor \<circ> row_by_key crows) (k # ks)), combo_total_cost rows (k # ks)))"

definition lowest_total_price_variant :: "(string list \<Rightarrow> string list) \<Rightarrow> sourced_line list
    \<Rightarrow> optimizer_error + string list \<times> rat option" where
  "lowest_total_price_variant set_order rows =
     bindr (optimize set_order (map optimizer_line rows) ''lowest_total_price'' None None None 5) (\<lambda>outcome.
     Inr (oc_distributors_used outcome, combo_total_cost rows (map casefold (oc_distributors_used outcome))))"

section \<open>The matrix\<close>

record coverage_matrix =
  cx_rows :: "coverage_row list"
  cx_total_lines :: nat
  cx_best_single :: "string option"
  cx_best_two :: "(string \<times> string) option"
  cx_lowest_price_combo :: "string list"
  cx_lowest_price_total :: "rat option"
  cx_fewest_combo :: "string list"
  cx_fewest_total :: "rat option"
  cx_target_coverage_pct :: rat

definition compute_coverage :: "(string list \<Rightarrow> string list) \<Rightarrow> sourced_line list \<Rightarrow> string list option \<Rightarrow> rat
    \<Rightarrow> optimizer_error + coverage_matrix" where
  "compute_coverage set_order bom_rows preferred target_coverage_pct =
     (if bom_rows = [] then Inr \<lparr>cx_rows = [], cx_total_lines = 0, cx_best_single = None, cx_best_two = None,
        cx_lowest_price_combo = [], cx_lowest_price_total = None, cx_fewest_combo = [], cx_fewest_total = None,
        cx_target_coverage_pct = target_coverage_pct\<rparr>
      else let rank = preferred_rank preferred; rows = coverage_rows rank bom_rows;
               fewest = fewest_distributors_variant rows bom_rows (purchaseable_by bom_rows) target_coverage_pct in
        bindr (lowest_total_price_variant set_order bom_rows) (\<lambda>lowest.
        Inr \<lparr>cx_rows = rows, cx_total_lines = length bom_rows,
          cx_best_single = (case rows of [] \<Rightarrow> None | r # _ \<Rightarrow> Some (cr_distributor r)),
          cx_best_two = best_two_distributors rank (covered_by bom_rows) (length bom_rows) rows,
          cx_lowest_price_combo = fst lowest, cx_lowest_price_total = snd lowest,
          cx_fewest_combo = fst fewest, cx_fewest_total = snd fewest,
          cx_target_coverage_pct = target_coverage_pct\<rparr>))"

section \<open>Build capacity\<close>

definition supported_builds :: "int \<Rightarrow> int \<Rightarrow> int \<Rightarrow> int" where
  "supported_builds available required requested_build_quantity =
     (if available \<le> 0 \<or> requested_build_quantity \<le> 0 then 0 else available * requested_build_quantity div required)"

definition clean_currency :: "string option \<Rightarrow> string option" where
  "clean_currency code = (case code of None \<Rightarrow> None
     | Some s \<Rightarrow> (let cleaned = upper_text (strip s) in if cleaned = [] then None else Some cleaned))"

definition offer_display_currency :: "sourced_offer \<Rightarrow> string option" where
  "offer_display_currency offer = (case clean_currency (so_currency_displayed offer) of
     Some c \<Rightarrow> Some c | None \<Rightarrow> clean_currency (of_currency offer))"

definition first_if_all_equal :: "'a list \<Rightarrow> 'a option" where
  "first_if_all_equal xs = (case xs of [] \<Rightarrow> None | x # _ \<Rightarrow> if \<forall>y \<in> set xs. y = x then Some x else None)"

definition display_currencies :: "sourced_line list \<Rightarrow> string list" where
  "display_currencies rows =
     List.map_filter (\<lambda>r. case sl_best_offer r of None \<Rightarrow> None | Some offer \<Rightarrow> offer_display_currency offer) rows"

definition total_currency :: "sourced_line list \<Rightarrow> string option" where
  "total_currency rows =
     (let converted = List.map_filter (\<lambda>r. case sl_best_offer r of None \<Rightarrow> None
            | Some offer \<Rightarrow> if so_unit_price_converted offer \<noteq> None \<and> so_currency_displayed offer \<noteq> None
                then Some (clean_currency (so_currency_displayed offer)) else None) rows in
      if converted \<noteq> [] then (case first_if_all_equal converted of None \<Rightarrow> None | Some c \<Rightarrow> c)
      else first_if_all_equal (display_currencies rows))"

definition has_mixed_offer_currencies :: "sourced_line list \<Rightarrow> bool" where
  "has_mixed_offer_currencies rows \<longleftrightarrow> 1 < card (set (display_currencies rows))"

definition best_offer_priced_for_total :: "sourced_offer option \<Rightarrow> string option \<Rightarrow> (rat \<times> string option) option" where
  "best_offer_priced_for_total best_offer tc = (case best_offer of None \<Rightarrow> None
     | Some offer \<Rightarrow>
         let offer_currency = offer_display_currency offer;
             native_currency = clean_currency (of_currency offer);
             displayed_currency = clean_currency (so_currency_displayed offer) in
         if tc \<noteq> None \<and> offer_currency \<noteq> None \<and> offer_currency \<noteq> tc then None
         else if so_unit_price_converted offer \<noteq> None \<and> so_currency_displayed offer \<noteq> None
         then Some (the (so_unit_price_converted offer), displayed_currency)
         else if native_currency \<noteq> None \<and> displayed_currency \<noteq> None \<and> native_currency \<noteq> displayed_currency then None
         else map_option (\<lambda>p. (p, offer_currency)) (of_unit_price offer))"

definition sum_best_offer_cost :: "sourced_line list \<Rightarrow> (sourced_line \<Rightarrow> int) \<Rightarrow> rat option" where
  "sum_best_offer_cost rows quantity_for_row =
     (let tc = total_currency rows in
      if tc = None \<and> has_mixed_offer_currencies rows then None
      else case List.map_filter (\<lambda>row. if quantity_for_row row \<le> 0 then None
          else map_option (\<lambda>(unit_price, _). dec_mul unit_price (of_int (quantity_for_row row)))
            (best_offer_priced_for_total (sl_best_offer row) tc)) rows of
        [] \<Rightarrow> None | costs \<Rightarrow> Some (foldl dec_add 0 costs))"

datatype capacity_error = Invalid_operation

definition cost_per_single_bom :: "rat option \<Rightarrow> int \<Rightarrow> capacity_error + rat option" where
  "cost_per_single_bom total_bom_cost requested_build_quantity = (case total_bom_cost of None \<Rightarrow> Inr None
     | Some tc \<Rightarrow> if requested_build_quantity \<le> 0 then Inr None
         else case quantize_cents (dec_div tc (of_int requested_build_quantity)) of
             None \<Rightarrow> Inl Invalid_operation | Some c \<Rightarrow> Inr (Some c))"

record build_capacity =
  bc_can_build_now :: int
  bc_can_build_after_purchase :: int
  bc_total_bom_cost :: "rat option"
  bc_cost_per_single_bom :: "rat option"
  bc_purchase_to_pay_cost :: "rat option"
  bc_est_purchase_cost :: "rat option"
  bc_blocking_lines_now :: "uuid list"
  bc_blocking_lines_after_purchase :: "uuid list"

text \<open>A dict by entry id: the value of the last row under an id counts.\<close>

definition builds_by_entry :: "(sourced_line \<Rightarrow> int) \<Rightarrow> int \<Rightarrow> sourced_line list \<Rightarrow> uuid \<Rightarrow> int" where
  "builds_by_entry stock requested rows i = the (map_of (rev (map (\<lambda>row.
     (sl_project_entry_id row, supported_builds (stock row) (sl_required row) requested)) rows)) i)"

definition stock_now :: "sourced_line \<Rightarrow> int" where
  "stock_now row = sl_available row + sl_substitute_available row"

definition stock_after_purchase :: "sourced_line \<Rightarrow> int" where
  "stock_after_purchase row = sl_available row + sl_substitute_available row + sl_authorized_stock row"

definition can_build :: "(sourced_line \<Rightarrow> int) \<Rightarrow> int \<Rightarrow> sourced_line list \<Rightarrow> int" where
  "can_build stock requested rows = (case map (builds_by_entry stock requested rows \<circ> sl_project_entry_id) rows of
     [] \<Rightarrow> 0 | b # bs \<Rightarrow> min_by (\<lambda>x. x) b bs)"

definition blocking_lines :: "(sourced_line \<Rightarrow> int) \<Rightarrow> int \<Rightarrow> sourced_line list \<Rightarrow> uuid list" where
  "blocking_lines stock requested rows = filter (\<lambda>i. builds_by_entry stock requested rows i = can_build stock requested rows)
     (map sl_project_entry_id rows)"

definition payable_rows :: "uuid list \<Rightarrow> sourced_line list \<Rightarrow> sourced_line list" where
  "payable_rows blocking rows = (let payable = filter (\<lambda>r. sl_project_entry_id r \<notin> set blocking) rows in
     if payable = [] \<and> (\<exists>r \<in> set rows. 0 < sl_short_by r) then rows else payable)"

definition purchase_to_pay_cost :: "uuid list \<Rightarrow> sourced_line list \<Rightarrow> rat option" where
  "purchase_to_pay_cost blocking rows = (if \<forall>r \<in> set rows. sl_short_by r = 0 then Some 0
     else sum_best_offer_cost (payable_rows blocking rows) sl_short_by)"

definition compute_build_capacity :: "sourced_line list \<Rightarrow> int \<Rightarrow> capacity_error + build_capacity" where
  "compute_build_capacity bom_rows requested_build_quantity =
     (let rows = filter (\<lambda>r. 0 < sl_required r) bom_rows in
      if rows = [] then Inr \<lparr>bc_can_build_now = 0, bc_can_build_after_purchase = 0, bc_total_bom_cost = None,
        bc_cost_per_single_bom = None, bc_purchase_to_pay_cost = None, bc_est_purchase_cost = None,
        bc_blocking_lines_now = [], bc_blocking_lines_after_purchase = []\<rparr>
      else let blocking_after = blocking_lines stock_after_purchase requested_build_quantity rows;
               total_bom_cost = sum_best_offer_cost rows sl_required;
               purchase = purchase_to_pay_cost blocking_after rows in
        bindr (cost_per_single_bom total_bom_cost requested_build_quantity) (\<lambda>single.
        Inr \<lparr>bc_can_build_now = can_build stock_now requested_build_quantity rows,
          bc_can_build_after_purchase = can_build stock_after_purchase requested_build_quantity rows,
          bc_total_bom_cost = total_bom_cost, bc_cost_per_single_bom = single,
          bc_purchase_to_pay_cost = purchase, bc_est_purchase_cost = purchase,
          bc_blocking_lines_now = blocking_lines stock_now requested_build_quantity rows,
          bc_blocking_lines_after_purchase = blocking_after\<rparr>))"

end
