(* ===== verification/CoverageProps.thy ===== *)
theory CoverageProps
  imports Coverage
begin

text \<open>
  What the coverage matrix promises: it counts the lines a distributor can deliver, no pair covers
  more lines than the one named, no smaller set of distributors reaches the target, and the build
  capacity is the largest number of builds every line supports.
\<close>

section \<open>Combinations\<close>

lemma combinations_sound: "c \<in> set (combinations xs n) \<Longrightarrow> length c = n \<and> set c \<subseteq> set xs \<and> (distinct xs \<longrightarrow> distinct c)"
  by (induction xs n arbitrary: c rule: combinations.induct) (fastforce simp: subset_iff)+

lemma combinations_complete: "filter P xs \<in> set (combinations xs (length (filter P xs)))"
proof (induction xs)
  case (Cons x xs)
  have "filter P xs \<in> set (combinations (x # xs) (length (filter P xs)))" if "\<not> P x"
    using Cons by (cases "length (filter P xs)") auto
  then show ?case using Cons by auto
qed simp

lemma combination_of_set:
  assumes "distinct xs" "K \<subseteq> set xs"
  shows "\<exists>c \<in> set (combinations xs (card K)). set c = K"
proof -
  let ?c = "filter (\<lambda>x. x \<in> K) xs"
  have "set ?c = K" using assms(2) by auto
  moreover from this have "length ?c = card K" using assms(1) distinct_card [of ?c] by simp
  ultimately show ?thesis using combinations_complete [of "\<lambda>x. x \<in> K" xs] by (intro bexI [of _ ?c]) simp_all
qed

lemma combinations_nonempty: "n \<le> length xs \<Longrightarrow> combinations xs n \<noteq> []"
  by (induction xs n rule: combinations.induct) auto

section \<open>Rows\<close>

definition sells :: "(sourced_line \<Rightarrow> sourced_offer \<Rightarrow> int) \<Rightarrow> string \<Rightarrow> sourced_line \<Rightarrow> bool" where
  "sells quantity key line \<longleftrightarrow>
     (\<exists>offer \<in> set (sl_offers line). casefold (of_distributor offer) = key \<and> quantity line offer \<le> of_stock offer)"

definition shortage_quantity :: "sourced_line \<Rightarrow> sourced_offer \<Rightarrow> int" where
  "shortage_quantity line offer = sl_short_by line"

definition order_quantity :: "sourced_line \<Rightarrow> sourced_offer \<Rightarrow> int" where
  "order_quantity line offer = coverage_selected_qty (sl_short_by line) (of_moq offer)"

lemma best_offer_for_quantity_None:
  "best_offer_for_quantity key line q = None \<longleftrightarrow> \<not> sells (\<lambda>_. q) key line"
proof -
  let ?fs = "filter (\<lambda>offer. casefold (of_distributor offer) = key \<and> q offer \<le> of_stock offer) (sl_offers line)"
  have "best_offer_for_quantity key line q = None \<longleftrightarrow> ?fs = []"
    by (cases ?fs) (simp_all add: best_offer_for_quantity_def)
  then show ?thesis by (auto simp: filter_empty_conv sells_def)
qed

lemma best_covering_offer_None: "best_covering_offer key line = None \<longleftrightarrow> \<not> sells shortage_quantity key line"
  by (simp add: best_covering_offer_def best_offer_for_quantity_None sells_def shortage_quantity_def)

lemma best_purchaseable_offer_None: "best_purchaseable_offer key line = None \<longleftrightarrow> \<not> sells order_quantity key line"
  by (simp add: best_purchaseable_offer_def best_offer_for_quantity_None sells_def order_quantity_def)

definition lines_sold :: "(sourced_line \<Rightarrow> sourced_offer \<Rightarrow> int) \<Rightarrow> sourced_line list \<Rightarrow> string set \<Rightarrow> uuid set" where
  "lines_sold quantity rows keys =
     sl_project_entry_id ` {l \<in> set rows. \<exists>k \<in> keys. sells quantity k l}"

lemma covered_by_lines: "covered_by rows key = lines_sold shortage_quantity rows {key}"
  by (auto simp: covered_by_def lines_sold_def best_covering_offer_None)

lemma purchaseable_by_lines: "purchaseable_by rows key = lines_sold order_quantity rows {key}"
  by (auto simp: purchaseable_by_def lines_sold_def best_purchaseable_offer_None)

lemma lines_sold_Un: "lines_sold q rows (A \<union> B) = lines_sold q rows A \<union> lines_sold q rows B"
  by (auto simp: lines_sold_def)

lemma finite_lines_sold [simp]: "finite (lines_sold q rows K)"
  by (simp add: lines_sold_def)

lemma combo_covered_lines: "combo_covered (purchaseable_by rows) combo = lines_sold order_quantity rows (set combo)"
  by (auto simp: combo_covered_def purchaseable_by_lines lines_sold_def)

lemma set_distributor_keys:
  "set (distributor_keys rows) = {casefold (of_distributor offer) | l offer. l \<in> set rows \<and> offer \<in> set (sl_offers l)}"
  by (force simp: distributor_keys_def)

lemma lines_sold_keys: "lines_sold q rows K = lines_sold q rows (K \<inter> set (distributor_keys rows))"
  unfolding lines_sold_def set_distributor_keys sells_def by blast

lemma display_name_key:
  assumes "k \<in> set (distributor_keys rows)"
  shows "casefold (display_name rows k) = k"
proof (cases "find (\<lambda>x. casefold (of_distributor x) = k) (concat (map sl_offers rows))")
  case None
  then show ?thesis using assms by (auto simp: find_None_iff set_distributor_keys)
next
  case (Some x)
  then have "casefold (of_distributor x) = k" by (auto simp: find_Some_iff)
  then show ?thesis using Some by (simp add: display_name_def)
qed

lemma coverage_row_name [simp]: "cr_distributor (coverage_row_of rows k) = display_name rows k"
  by (simp add: coverage_row_of_def Let_def)

lemma coverage_rows_mset:
  "mset (map (casefold \<circ> cr_distributor) (coverage_rows rank rows)) = mset (distributor_keys rows)"
proof -
  have "map (casefold \<circ> cr_distributor) (map (coverage_row_of rows) (distributor_keys rows)) = distributor_keys rows"
    by (simp add: map_idI display_name_key)
  then show ?thesis by (metis coverage_rows_def mset_map mset_sort)
qed

lemma coverage_rows_keys:
  "set (map (casefold \<circ> cr_distributor) (coverage_rows rank rows)) = set (distributor_keys rows)"
  "distinct (map (casefold \<circ> cr_distributor) (coverage_rows rank rows))"
  "length (coverage_rows rank rows) = length (distributor_keys rows)"
  using coverage_rows_mset [of rank rows]
  by (metis set_mset_mset, metis distributor_keys_def dict_keys_simps(2) mset_eq_imp_distinct_iff,
      simp add: coverage_rows_def)

lemma coverage_rows_in: "r \<in> set (coverage_rows rank rows) \<Longrightarrow>
  casefold (cr_distributor r) \<in> set (distributor_keys rows) \<and> r = coverage_row_of rows (casefold (cr_distributor r))"
  by (auto simp: coverage_rows_def display_name_key)

lemma row_by_key_coverage:
  assumes "k \<in> set (distributor_keys rows)"
  shows "row_by_key (coverage_rows rank rows) k = coverage_row_of rows k"
proof -
  let ?ps = "map (\<lambda>r. (casefold (cr_distributor r), r)) (coverage_rows rank rows)"
  have "(k, coverage_row_of rows k) \<in> set ?ps"
    using assms by (auto simp: coverage_rows_def image_iff display_name_key)
  moreover have "distinct (map fst (rev ?ps))"
    using coverage_rows_keys(2) by (simp add: rev_map [symmetric] comp_def)
  ultimately show ?thesis unfolding row_by_key_def by (metis map_of_is_SomeI option.sel set_rev)
qed

lemma single_key_le:
  assumes "coverage_rows rank rows = r # rs" "r' \<in> set (coverage_rows rank rows)"
  shows "single_sort_key rank r \<le> single_sort_key rank r'"
proof -
  have "sorted (map (single_sort_key rank) (coverage_rows rank rows))" by (simp add: coverage_rows_def)
  then show ?thesis using assms by auto
qed

lemma covered_count:
  assumes "distinct (map sl_project_entry_id rows)"
  shows "card (lines_sold q rows {k}) = length (filter (sells q k) rows)"
    "filter (\<lambda>i. i \<notin> lines_sold q rows {k}) (map sl_project_entry_id rows) = map sl_project_entry_id (filter (\<lambda>l. \<not> sells q k l) rows)"
proof -
  have inj: "inj_on sl_project_entry_id (set rows)" using assms by (simp add: distinct_map)
  have eq: "lines_sold q rows {k} = set (map sl_project_entry_id (filter (sells q k) rows))" by (auto simp: lines_sold_def)
  have "distinct (map sl_project_entry_id (filter (sells q k) rows))" using assms by (rule distinct_map_filter)
  then show "card (lines_sold q rows {k}) = length (filter (sells q k) rows)" unfolding eq by (metis distinct_card length_map)
  have "sl_project_entry_id l \<notin> lines_sold q rows {k} \<longleftrightarrow> \<not> sells q k l" if "l \<in> set rows" for l
    using that inj by (auto simp: lines_sold_def dest: inj_onD)
  then show "filter (\<lambda>i. i \<notin> lines_sold q rows {k}) (map sl_project_entry_id rows)
      = map sl_project_entry_id (filter (\<lambda>l. \<not> sells q k l) rows)"
    by (simp add: filter_map comp_def cong: filter_cong)
qed

lemma coverage_row_lines:
  assumes "r \<in> set (coverage_rows rank rows)" "distinct (map sl_project_entry_id rows)"
  shows "cr_lines_covered r = length (filter (sells shortage_quantity (casefold (cr_distributor r))) rows)"
    "cr_lines_uncovered r = map sl_project_entry_id (filter (\<lambda>l. \<not> sells shortage_quantity (casefold (cr_distributor r)) l) rows)"
proof -
  define key where "key = casefold (cr_distributor r)"
  have "r = coverage_row_of rows key" using coverage_rows_in assms(1) key_def by metis
  then show "cr_lines_covered r = length (filter (sells shortage_quantity (casefold (cr_distributor r))) rows)"
    "cr_lines_uncovered r = map sl_project_entry_id (filter (\<lambda>l. \<not> sells shortage_quantity (casefold (cr_distributor r)) l) rows)"
    unfolding key_def [symmetric] by (simp_all add: coverage_row_of_def Let_def covered_by_lines covered_count [OF assms(2)])
qed

section \<open>The matrix\<close>

text \<open>The matrix of a non-empty bill of materials, field by field.\<close>

lemma compute_coverage_cases:
  assumes "compute_coverage set_order rows preferred pct = Inr m"
  obtains "rows = []" "cx_rows m = []" "cx_best_single m = None" "cx_best_two m = None" "cx_fewest_combo m = []"
      "cx_fewest_total m = None"
  | "rows \<noteq> []" "cx_rows m = coverage_rows (preferred_rank preferred) rows"
      "cx_best_single m = (case cx_rows m of [] \<Rightarrow> None | r # _ \<Rightarrow> Some (cr_distributor r))"
      "cx_best_two m = best_two_distributors (preferred_rank preferred) (covered_by rows) (length rows) (cx_rows m)"
      "(cx_fewest_combo m, cx_fewest_total m) = fewest_distributors_variant (cx_rows m) rows (purchaseable_by rows) pct"
  using assms by (auto simp: compute_coverage_def bindr_Inr Let_def split: if_splits)

text \<open>
  The coverage matrix has one row per distributor, names compared without case; a row counts the
  lines the distributor has in stock for the whole shortage and lists the others, and the best
  single distributor covers at least as many lines as every other.\<close>

theorem coverage_rows_count_the_lines:
  assumes "compute_coverage set_order rows preferred pct = Inr m" "distinct (map sl_project_entry_id rows)"
  shows "distinct (map (casefold \<circ> cr_distributor) (cx_rows m))
    \<and> set (map (casefold \<circ> cr_distributor) (cx_rows m))
        = {casefold (of_distributor offer) | l offer. l \<in> set rows \<and> offer \<in> set (sl_offers l)}
    \<and> (\<forall>r \<in> set (cx_rows m). let key = casefold (cr_distributor r) in
        cr_lines_covered r = length (filter (sells shortage_quantity key) rows)
        \<and> cr_lines_uncovered r = map sl_project_entry_id (filter (\<lambda>l. \<not> sells shortage_quantity key l) rows)
        \<and> (\<exists>best. cx_best_single m = Some best
            \<and> length (filter (sells shortage_quantity key) rows) \<le> length (filter (sells shortage_quantity (casefold best)) rows)))"
  using assms(1)
proof (cases rule: compute_coverage_cases)
  case 2
  let ?rank = "preferred_rank preferred"
  note row = coverage_row_lines [where rank = ?rank, OF _ assms(2), folded 2(2)]
  have best: "\<exists>best. cx_best_single m = Some best
      \<and> length (filter (sells shortage_quantity (casefold (cr_distributor r))) rows)
        \<le> length (filter (sells shortage_quantity (casefold best)) rows)" if r: "r \<in> set (cx_rows m)" for r
  proof -
    obtain b bs where b: "cx_rows m = b # bs" using r by (cases "cx_rows m") auto
    have "single_sort_key ?rank b \<le> single_sort_key ?rank r" using single_key_le b r 2(2) by metis
    then have "cr_lines_covered r \<le> cr_lines_covered b" by (auto simp: single_sort_key_def less_eq_prod_def)
    then show ?thesis using row(1) [OF r] row(1) [of b] b 2(3) by simp
  qed
  show ?thesis using row best coverage_rows_keys [of ?rank rows] 2(2) by (simp add: Let_def set_distributor_keys)
qed (auto simp: Let_def)

section \<open>The best pair\<close>

lemma pair_sort_key_card: "fst (pair_sort_key rank covered rows pair) = - int (card (covered (fst pair) \<union> covered (snd pair)))"
  by (cases pair) (simp add: pair_sort_key_def Let_def Un_commute)

lemma length_2_conv: "length c = 2 \<Longrightarrow> c = [c ! 0, c ! 1]"
  by (cases c; cases "tl c") auto

text \<open>The minimum over all pairs of keys, when the sort key starts with minus what a pair covers.\<close>

lemma min_pair:
  fixes covered :: "string \<Rightarrow> uuid set" and key :: "string \<times> string \<Rightarrow> int \<times> 'k::linorder"
  assumes "distinct keys" "2 \<le> length keys"
    and "\<And>p. fst (key p) = - int (card (covered (fst p) \<union> covered (snd p)))"
    and "pairs = map (\<lambda>c. (c ! 0, c ! 1)) (combinations keys 2)" "best = min_by key (hd pairs) (tl pairs)"
  shows "fst best \<in> set keys \<and> snd best \<in> set keys \<and> fst best \<noteq> snd best
    \<and> (\<forall>x \<in> set keys. \<forall>y \<in> set keys. x \<noteq> y \<longrightarrow> card (covered x \<union> covered y) \<le> card (covered (fst best) \<union> covered (snd best)))"
proof -
  have "pairs \<noteq> []" using combinations_nonempty [of 2 keys] assms(2) by (simp add: assms(4))
  then have hd_tl: "set (hd pairs # tl pairs) = set pairs" by (metis list.collapse)
  then have "best \<in> set pairs" unfolding assms(5) using min_by_in by metis
  then obtain c where c: "c \<in> set (combinations keys 2)" "best = (c ! 0, c ! 1)" by (auto simp: assms(4))
  note c' = combinations_sound [OF c(1)]
  have in_c: "c ! 0 \<in> set c" "c ! 1 \<in> set c" "c ! 0 \<noteq> c ! 1"
    using c' assms(1) by (simp_all add: nth_eq_iff_index_eq)
  moreover have "card (covered x \<union> covered y) \<le> card (covered (fst best) \<union> covered (snd best))"
    if xy: "x \<in> set keys" "y \<in> set keys" "x \<noteq> y" for x y
  proof -
    obtain e where e: "e \<in> set (combinations keys 2)" "set e = {x, y}"
    proof -
      have "{x, y} \<subseteq> set keys" "card {x, y} = 2" using xy by simp_all
      from combination_of_set [OF assms(1) this(1), unfolded this(2)] show thesis using that by blast
    qed
    then have "(e ! 0, e ! 1) \<in> set pairs" by (auto simp: assms(4))
    then have "key best \<le> key (e ! 0, e ! 1)" unfolding assms(5) by (intro min_by_le) (simp only: hd_tl)
    then have "fst (key best) \<le> fst (key (e ! 0, e ! 1))" by (auto simp: less_eq_prod_def)
    then have "card (covered (e ! 0) \<union> covered (e ! 1)) \<le> card (covered (fst best) \<union> covered (snd best))"
      by (simp add: assms(3))
    moreover have "{e ! 0, e ! 1} = {x, y}"
      using e(2) length_2_conv [of e] combinations_sound [OF e(1)] by (metis empty_set list.simps(15))
    ultimately show ?thesis by (auto simp: doubleton_eq_iff Un_commute)
  qed
  ultimately show ?thesis using c' c(2) by auto
qed

text \<open>
  C27: Among at most thirty distributors no pair covers more lines than the pair the matrix names; no
  pair is named only when fewer than two distributors quote or one distributor covers every line.
\<close>

theorem best_pair_covers_most:
  assumes "compute_coverage set_order rows preferred pct = Inr m" "distinct (map sl_project_entry_id rows)"
    and "length (cx_rows m) \<le> 30"
  shows "case cx_best_two m of
      None \<Rightarrow> length (cx_rows m) < 2
        \<or> (\<exists>r \<in> set (cx_rows m). cr_lines_uncovered r = [] \<and> cx_best_single m = Some (cr_distributor r))
    | Some (a, b) \<Rightarrow> casefold a \<noteq> casefold b
        \<and> (\<forall>x \<in> set (cx_rows m). \<forall>y \<in> set (cx_rows m). casefold (cr_distributor x) \<noteq> casefold (cr_distributor y) \<longrightarrow>
             card (lines_sold shortage_quantity rows {casefold (cr_distributor x), casefold (cr_distributor y)})
               \<le> card (lines_sold shortage_quantity rows {casefold a, casefold b}))"
  using assms(1)
proof (cases rule: compute_coverage_cases)
  case 2
  let ?rank = "preferred_rank preferred" and ?keys = "map (casefold \<circ> cr_distributor) (cx_rows m)"
  define pairs where "pairs = map (\<lambda>c. (c ! 0, c ! 1)) (combinations ?keys 2)"
  define best where "best = min_by (pair_sort_key ?rank (covered_by rows) (cx_rows m)) (hd pairs) (tl pairs)"
  have keys: "distinct ?keys" "set ?keys = set (distributor_keys rows)" using coverage_rows_keys 2(2) by metis+
  show ?thesis
  proof (cases "length (cx_rows m) < 2")
    case True
    then show ?thesis by (simp add: 2(4) best_two_distributors_def)
  next
    case False
    then have len: "2 \<le> length ?keys" by simp
    obtain r rs where r: "cx_rows m = r # rs" using False by (cases "cx_rows m") auto
    have two: "cx_best_two m = (if cr_lines_covered r = length rows then None
        else Some (cr_distributor (row_by_key (cx_rows m) (fst best)), cr_distributor (row_by_key (cx_rows m) (snd best))))"
      unfolding best_def pairs_def using len assms(3)
      by (cases rs) (simp_all add: 2(4) best_two_distributors_def EXHAUSTIVE_COMBO_DISTRIBUTOR_LIMIT_def Let_def split_beta r)
    show ?thesis
    proof (cases "cr_lines_covered r = length rows")
      case True
      have "r \<in> set (coverage_rows ?rank rows)" using r 2(2) by simp
      from coverage_row_lines [OF this assms(2)] True have "cr_lines_uncovered r = []"
        by (metis (no_types, lifting) filter_False length_filter_less less_irrefl map_is_Nil_conv)
      then show ?thesis using True two r 2(3) by auto
    next
      case some: False
      note best = min_pair [OF keys(1) len pair_sort_key_card pairs_def best_def]
      have name: "casefold (cr_distributor (row_by_key (cx_rows m) k)) = k" if "k \<in> set ?keys" for k
        using that keys(2) row_by_key_coverage [of k rows ?rank] 2(2) by (simp add: display_name_key)
      have union: "covered_by rows a \<union> covered_by rows b = lines_sold shortage_quantity rows {a, b}" for a b
        by (auto simp: covered_by_lines lines_sold_def)
      show ?thesis using best some two name unfolding union by auto
    qed
  qed
qed simp

section \<open>The fewest distributors\<close>

lemma fewest_of_size_spec:
  assumes "sorted ns" "n \<in> set ns" "e \<in> set (combinations keys n)" "enough e"
  shows "let c = fewest_of_size key enough keys ns in
    enough c \<and> length c \<le> n \<and> c \<in> set (combinations keys (length c)) \<and> (length c = n \<longrightarrow> key c \<le> key e)"
  using assms
proof (induction ns)
  case (Cons m ns)
  show ?case
  proof (cases "filter enough (combinations keys m)")
    case Nil
    then have "e \<notin> set (combinations keys m)" using Cons.prems(4) by (auto simp: filter_empty_conv)
    then show ?thesis using Cons Nil by auto
  next
    case (Cons c cs)
    let ?c = "min_by key c cs"
    have "?c \<in> set (filter enough (combinations keys m))" unfolding Cons by (rule min_by_in)
    then have c: "?c \<in> set (combinations keys m)" "enough ?c" by auto
    moreover have "key ?c \<le> key e" if "m = n"
      using Cons.prems(3,4) that by (intro min_by_le) (simp flip: Cons)
    moreover have "m \<le> n" using Cons.prems(1,2) by auto
    ultimately show ?thesis using combinations_sound [OF c(1)] by (simp add: Cons Let_def)
  qed
qed simp

lemma pair_le_fst: "(a::'a::linorder \<times> 'b::linorder) \<le> b \<Longrightarrow> fst a \<le> fst b"
  by (auto simp: less_eq_prod_def)

lemma min_by_id: "min_by (\<lambda>x. x) c cs = Min (set (c # cs))"
  using min_by_le [of _ c cs "\<lambda>x. x"] min_by_in [of "\<lambda>x. x" c cs] by (metis Min_eqI finite_set)

lemma combo_total_cost_set:
  assumes "set c = set e"
  shows "combo_total_cost rows c = combo_total_cost rows e"
proof -
  have smallest: "(case xs of [] \<Rightarrow> None | x # ys \<Rightarrow> Some (min_by (\<lambda>x. x) x ys))
      = (case zs of [] \<Rightarrow> None | x # ys \<Rightarrow> Some (min_by (\<lambda>x. x) x ys))" if "set xs = set zs" for xs zs :: "rat list"
    using that by (cases xs; cases zs) (simp_all only: min_by_id list.simps, simp_all)
  have "set (List.map_filter f c) = set (List.map_filter f e)" for f :: "string \<Rightarrow> rat option"
    using assms by (simp add: set_map_filter)
  then have "cheapest_in_combo c = cheapest_in_combo e"
    unfolding cheapest_in_combo_def by (intro ext smallest)
  then show ?thesis by (simp add: combo_total_cost_def)
qed

lemma greedy_reaches:
  assumes "uncovered = combo_covered covered keys - combo_covered covered selected"
    and "\<And>k. finite (covered k)" "target_count \<le> card (combo_covered covered keys)"
  shows "target_count \<le> card (combo_covered covered (fewest_greedy_combo crows rows covered target_count keys selected uncovered))
    \<and> set (fewest_greedy_combo crows rows covered target_count keys selected uncovered) \<subseteq> set selected \<union> set keys"
  using assms
proof (induction crows rows covered target_count keys selected uncovered rule: fewest_greedy_combo.induct)
  case (1 crows rows covered target_count keys selected uncovered)
  note unfold = fewest_greedy_combo.simps [of crows rows covered target_count keys selected uncovered]
  show ?case
  proof (cases "target_count \<le> card (combo_covered covered selected)")
    case True
    then show ?thesis by (simp add: unfold)
  next
    case False
    have "\<not> combo_covered covered keys \<subseteq> combo_covered covered selected"
      using False 1(4) card_mono [of "combo_covered covered selected" "combo_covered covered keys"] 1(3)
      by (auto simp: combo_covered_def)
    then obtain i k where i: "k \<in> set keys" "i \<in> covered k" "i \<in> uncovered" by (auto simp: combo_covered_def 1(2))
    then have k: "k \<in> set (filter (\<lambda>k. k \<notin> set selected) keys)" by (auto simp: combo_covered_def 1(2))
    then obtain k0 ks where ks: "filter (\<lambda>k. k \<notin> set selected) keys = k0 # ks" by (cases "filter (\<lambda>k. k \<notin> set selected) keys") auto
    define n where "n = min_by (greedy_key crows rows covered uncovered selected) k0 ks"
    have "greedy_key crows rows covered uncovered selected n \<le> greedy_key crows rows covered uncovered selected k"
      unfolding n_def using k ks by (intro min_by_le) simp
    then have "card (covered k \<inter> uncovered) \<le> card (covered n \<inter> uncovered)" by (auto simp: greedy_key_def less_eq_prod_def)
    moreover have "0 < card (covered k \<inter> uncovered)" using i(2,3) 1(3) by (auto simp: card_gt_0_iff)
    ultimately have ne: "covered n \<inter> uncovered \<noteq> {}" by auto
    have "n \<in> set (k0 # ks)" unfolding n_def by (rule min_by_in)
    then have n: "n \<in> set keys" using ks by (metis filter_is_subset subsetD)
    have eq: "fewest_greedy_combo crows rows covered target_count keys selected uncovered
        = fewest_greedy_combo crows rows covered target_count keys (selected @ [n]) (uncovered - covered n)"
      using False ne by (simp add: unfold ks Let_def flip: n_def)
    have "uncovered - covered n = combo_covered covered keys - combo_covered covered (selected @ [n])"
      by (auto simp: 1(2) combo_covered_def)
    from 1(1) [OF False ks n_def ne this 1(3,4)] n show ?thesis unfolding eq by auto
  qed
qed

lemma exhaustive_reaches:
  assumes "distinct keys" "target_count \<le> card (combo_covered covered keys)" "0 < target_count"
    and "c = fewest_exhaustive_combo crows rows covered target_count keys"
    and "K \<subseteq> set keys" "target_count \<le> card (\<Union> (covered ` K))"
  shows "target_count \<le> card (combo_covered covered c) \<and> set c \<subseteq> set keys \<and> distinct c \<and> length c \<le> card K
    \<and> (length c = card K \<longrightarrow> (\<exists>e. set e = K \<and> combo_sort_key crows rows c \<le> combo_sort_key crows rows e))"
proof -
  obtain e where e: "e \<in> set (combinations keys (card K))" "set e = K" using combination_of_set [OF assms(1,5)] by auto
  have "0 < card K" using assms(3,6) assms(5) by (cases "K = {}") (auto simp: card_gt_0_iff dest: finite_subset)
  moreover have "card K \<le> length keys" using assms(1,5) by (metis card_mono distinct_card finite_set)
  ultimately have n: "card K \<in> set [1..<length keys + 1]" by auto
  have "target_count \<le> card (combo_covered covered e)" using assms(6) e(2) by (simp add: combo_covered_def)
  from fewest_of_size_spec [OF sorted_upt n e(1), of "\<lambda>combo. target_count \<le> card (combo_covered covered combo)", OF this]
  show ?thesis unfolding assms(4) fewest_exhaustive_combo_def Let_def
    using combinations_sound assms(1) e(2) by blast
qed

lemma fewest_combo_reaches:
  assumes "distinct keys" "\<And>k. finite (covered k)"
    and "target_count = target_count_of rows covered keys pct" "c = fewest_combo crows rows covered keys pct"
  shows "target_count \<le> int (card (combo_covered covered c)) \<and> set c \<subseteq> set keys
    \<and> (length keys \<le> 10 \<and> K \<subseteq> set keys \<and> target_count \<le> int (card (\<Union> (covered ` K))) \<longrightarrow>
        length c \<le> card K
        \<and> (c \<noteq> [] \<and> length c = card K \<longrightarrow> (\<exists>e. set e = K \<and> combo_sort_key crows rows c \<le> combo_sort_key crows rows e)))"
proof (cases "keys = [] \<or> rows = [] \<or> target_count \<le> 0")
  case True
  have "target_count \<le> 0"
    using True assms(3) by (auto simp: target_count_of_def combo_covered_def float64_def)
  then show ?thesis using True by (simp add: assms(4) fewest_combo_def Let_def flip: assms(3))
next
  case False
  have coverable: "nat target_count \<le> card (combo_covered covered keys)"
    by (simp add: assms(3) target_count_of_def)
  show ?thesis
  proof (cases "length keys \<le> 10")
    case True
    then have c: "c = fewest_exhaustive_combo crows rows covered (nat target_count) keys"
      using False by (simp add: assms(4) fewest_combo_def FEWEST_DISTRIBUTORS_EXHAUSTIVE_LIMIT_def Let_def flip: assms(3))
    have pos: "0 < nat target_count" using False by simp
    note reach = exhaustive_reaches [OF assms(1) coverable pos c]
    show ?thesis
      using reach [of "set keys"] reach [of K] coverable False by (auto simp: combo_covered_def nat_le_iff)
  next
    case more: False
    then have "c = fewest_greedy_combo crows rows covered (nat target_count) keys [] (combo_covered covered keys)"
      using False by (simp add: assms(4) fewest_combo_def FEWEST_DISTRIBUTORS_EXHAUSTIVE_LIMIT_def Let_def flip: assms(3))
    then show ?thesis
      using greedy_reaches [of "combo_covered covered keys" covered keys "[]", OF _ assms(2) coverable] more
      by (simp add: combo_covered_def nat_le_iff)
  qed
qed

text \<open>
  C26: The set the matrix names as fewest distributors can deliver at least the target share of the lines,
  as far as any distributor can deliver them, overbuying to the minimum order included; with at
  most ten distributors no smaller set can, and no set of the same size that can is cheaper.
\<close>

theorem fewest_set_reaches_the_target:
  fixes rows :: "sourced_line list" and names :: "string list"
  defines "sold \<equiv> \<lambda>names. int (card (lines_sold order_quantity rows names))"
  assumes "compute_coverage set_order rows preferred pct = Inr m"
    and "target = min \<lceil>float64 (of_nat (length rows) * pct)\<rceil> (sold UNIV)"
  shows "target \<le> sold (casefold ` set (cx_fewest_combo m))
    \<and> (length (cx_rows m) \<le> 10 \<and> target \<le> sold (set names) \<longrightarrow> length (cx_fewest_combo m) \<le> card (set names)
      \<and> (cx_fewest_combo m \<noteq> [] \<and> length (cx_fewest_combo m) = card (set names) \<longrightarrow>
          price_sort_value (cx_fewest_total m) \<le> price_sort_value (combo_total_cost rows names)))"
  using assms(2)
proof (cases rule: compute_coverage_cases)
  case 1
  then show ?thesis by (simp add: assms(3) float64_def min_def sold_def)
next
  case 2
  let ?crows = "cx_rows m" and ?keys = "map (casefold \<circ> cr_distributor) (cx_rows m)"
  define c where "c = fewest_combo ?crows rows (purchaseable_by rows) ?keys pct"
  have keys: "distinct ?keys" "set ?keys = set (distributor_keys rows)" using coverage_rows_keys 2(2) by metis+
  have finite: "finite (purchaseable_by rows k)" for k by (simp add: purchaseable_by_lines)
  have union: "\<Union> (purchaseable_by rows ` K) = lines_sold order_quantity rows K" for K
    by (auto simp: purchaseable_by_lines lines_sold_def)
  have known: "lines_sold order_quantity rows K = lines_sold order_quantity rows (K \<inter> set ?keys)" for K
    using lines_sold_keys keys(2) by metis
  have target: "target = target_count_of rows (purchaseable_by rows) ?keys pct"
    by (simp only: assms(3) target_count_of_def combo_covered_lines known [of UNIV] sold_def Int_UNIV_left)
  have name: "casefold (cr_distributor (row_by_key ?crows k)) = k" if "k \<in> set ?keys" for k
    using that keys(2) row_by_key_coverage [of k rows "preferred_rank preferred"] 2(2) by (simp add: display_name_key)
  note reach = fewest_combo_reaches [OF keys(1) finite target c_def]
  have c: "cx_fewest_combo m = sort_key casefold (map (cr_distributor \<circ> row_by_key ?crows) c)"
    "c \<noteq> [] \<longrightarrow> cx_fewest_total m = combo_total_cost rows c"
    using 2(5) by (auto simp: fewest_distributors_variant_def split: list.splits simp flip: c_def)
  have "(\<lambda>k. casefold (cr_distributor (row_by_key ?crows k))) ` set c = (\<lambda>k. k) ` set c"
    using reach [of "{}"] name by (intro image_cong refl) (simp only: subset_iff)
  then have "casefold ` set (cx_fewest_combo m) = set c" by (simp add: c(1) image_image)
  moreover have "length (cx_fewest_combo m) = length c" by (simp add: c(1))
  moreover have "cx_fewest_combo m = [] \<longleftrightarrow> c = []" by (metis calculation(2) length_0_conv)
  moreover have "length c \<le> card (set names)" if "length ?crows \<le> 10" "target \<le> sold (set names)"
    using that reach [of "set names \<inter> set ?keys"] known [of "set names"] card_mono [of "set names" "set names \<inter> set ?keys"]
    by (simp add: union sold_def)
  moreover have "price_sort_value (combo_total_cost rows c) \<le> price_sort_value (combo_total_cost rows names)"
    if small: "length ?crows \<le> 10" "target \<le> sold (set names)" "c \<noteq> []" "length c = card (set names)"
  proof -
    have le: "length c \<le> card (set names \<inter> set ?keys)"
      using small reach [of "set names \<inter> set ?keys"] known [of "set names"] by (simp add: union sold_def)
    then have "set names \<inter> set ?keys = set names" using small(4) card_seteq [of "set names" "set names \<inter> set ?keys"] by simp
    then obtain e where "set e = set names" "combo_sort_key ?crows rows c \<le> combo_sort_key ?crows rows e"
      using small reach [of "set names"] by (auto simp: union sold_def)
    then show ?thesis using combo_total_cost_set [of e names] pair_le_fst by (fastforce simp: combo_sort_key_def)
  qed
  ultimately show ?thesis using reach c(2) by (auto simp: combo_covered_lines sold_def)
qed

section \<open>Build capacity\<close>

lemma builds_by_entry_row:
  assumes "distinct (map sl_project_entry_id rows)" "r \<in> set rows"
  shows "builds_by_entry stock q rows (sl_project_entry_id r) = supported_builds (stock r) (sl_required r) q"
proof -
  let ?ps = "map (\<lambda>row. (sl_project_entry_id row, supported_builds (stock row) (sl_required row) q)) rows"
  have "distinct (map fst (rev ?ps))" using assms(1) by (simp add: rev_map [symmetric] comp_def)
  then have "map_of (rev ?ps) (sl_project_entry_id r) = Some (supported_builds (stock r) (sl_required r) q)"
    using assms(2) by (intro map_of_is_SomeI) auto
  then show ?thesis by (simp add: builds_by_entry_def)
qed

text \<open>Builds the stock supports, on one line: the greatest count whose share of the requirement it has.\<close>

lemma supported_builds_iff:
  assumes "0 < q" "0 < req" "0 \<le> n"
  shows "n \<le> supported_builds stock req q \<longleftrightarrow> n * req \<le> max 0 stock * q"
proof (cases "stock \<le> 0")
  case True
  then show ?thesis using assms by (simp add: supported_builds_def mult_le_0_iff)
next
  case False
  define a where "a = stock * q"
  have "n \<le> a div req \<longleftrightarrow> n * req \<le> a"
  proof
    assume "n \<le> a div req"
    then have "n * req \<le> a div req * req" using assms(2) by (simp add: mult_right_mono)
    also have "\<dots> \<le> a" using assms(2) by (metis div_mult_mod_eq le_add_same_cancel1 pos_mod_sign)
    finally show "n * req \<le> a" .
  next
    assume "n * req \<le> a"
    then have "n * req div req \<le> a div req" using assms(2) by (rule zdiv_mono1)
    then show "n \<le> a div req" using assms(2) by simp
  qed
  then show ?thesis using False assms(1) by (simp add: supported_builds_def a_def)
qed

lemma can_build_spec:
  assumes "rows \<noteq> []" "distinct (map sl_project_entry_id rows)" "0 < q" "\<forall>r \<in> set rows. 0 < sl_required r"
  shows "0 \<le> can_build stock q rows"
    "0 \<le> n \<Longrightarrow> n \<le> can_build stock q rows \<longleftrightarrow> (\<forall>r \<in> set rows. n * sl_required r \<le> max 0 (stock r) * q)"
    "set (blocking_lines stock q rows) = sl_project_entry_id ` {r \<in> set rows. max 0 (stock r) * q < (can_build stock q rows + 1) * sl_required r}"
    "blocking_lines stock q rows \<noteq> []"
proof -
  let ?b = "\<lambda>r. supported_builds (stock r) (sl_required r) q"
  have map: "map (builds_by_entry stock q rows \<circ> sl_project_entry_id) rows = map ?b rows"
    using builds_by_entry_row [OF assms(2)] by simp
  have min: "can_build stock q rows = Min (?b ` set rows)"
    using assms(1) unfolding can_build_def map by (cases rows) (simp_all only: list.map list.case min_by_id, simp_all)
  have b: "0 \<le> ?b r" if "r \<in> set rows" for r
    using that assms(3,4) by (simp add: supported_builds_def pos_imp_zdiv_nonneg_iff)
  then show nonneg: "0 \<le> can_build stock q rows" using assms(1) by (simp add: min)
  show "0 \<le> n \<Longrightarrow> n \<le> can_build stock q rows \<longleftrightarrow> (\<forall>r \<in> set rows. n * sl_required r \<le> max 0 (stock r) * q)"
    using assms(1,3,4) by (simp add: min supported_builds_iff)
  have blocking: "set (blocking_lines stock q rows) = sl_project_entry_id ` {r \<in> set rows. ?b r = can_build stock q rows}"
    using builds_by_entry_row [OF assms(2)] by (auto simp: blocking_lines_def)
  have "?b r = can_build stock q rows \<longleftrightarrow> max 0 (stock r) * q < (can_build stock q rows + 1) * sl_required r" if "r \<in> set rows" for r
  proof -
    have "can_build stock q rows \<le> ?b r" using that by (simp add: min)
    moreover have "can_build stock q rows + 1 \<le> ?b r \<longleftrightarrow> (can_build stock q rows + 1) * sl_required r \<le> max 0 (stock r) * q"
      using that assms(3,4) nonneg by (intro supported_builds_iff) auto
    ultimately show ?thesis by linarith
  qed
  then show "set (blocking_lines stock q rows) = sl_project_entry_id ` {r \<in> set rows. max 0 (stock r) * q < (can_build stock q rows + 1) * sl_required r}"
    unfolding blocking by auto
  have "can_build stock q rows \<in> ?b ` set rows" unfolding min using assms(1) by (intro Min_in) auto
  then show "blocking_lines stock q rows \<noteq> []" using blocking by fastforce
qed

text \<open>
  C25: The build capacity is exact: that many builds and no more are covered on every required line,
  from what is on the shelves now and from that with the distributors' authorized stock, and the
  blocking lines, never none, are exactly the lines one build more would fail on.
\<close>

theorem capacity_is_the_most_buildable:
  assumes "compute_build_capacity bom_rows q = Inr c" "distinct (map sl_project_entry_id bom_rows)" "0 < q"
    and "rows = {r \<in> set bom_rows. 0 < sl_required r}" "rows \<noteq> {}" "0 \<le> n"
  shows "(n \<le> bc_can_build_now c \<longleftrightarrow> (\<forall>r \<in> rows. n * sl_required r \<le> max 0 (stock_now r) * q))
    \<and> (n \<le> bc_can_build_after_purchase c \<longleftrightarrow> (\<forall>r \<in> rows. n * sl_required r \<le> max 0 (stock_after_purchase r) * q))
    \<and> bc_blocking_lines_now c \<noteq> [] \<and> set (bc_blocking_lines_now c) = sl_project_entry_id `
        {r \<in> rows. max 0 (stock_now r) * q < (bc_can_build_now c + 1) * sl_required r}
    \<and> bc_blocking_lines_after_purchase c \<noteq> [] \<and> set (bc_blocking_lines_after_purchase c) = sl_project_entry_id `
        {r \<in> rows. max 0 (stock_after_purchase r) * q < (bc_can_build_after_purchase c + 1) * sl_required r}"
proof -
  let ?rows = "filter (\<lambda>r. 0 < sl_required r) bom_rows"
  have rows: "set ?rows = rows" "?rows \<noteq> []" using assms(4,5) by (auto simp: filter_empty_conv)
  have dist: "distinct (map sl_project_entry_id ?rows)" using assms(2) by (rule distinct_map_filter)
  have c: "bc_can_build_now c = can_build stock_now q ?rows" "bc_blocking_lines_now c = blocking_lines stock_now q ?rows"
    "bc_can_build_after_purchase c = can_build stock_after_purchase q ?rows"
    "bc_blocking_lines_after_purchase c = blocking_lines stock_after_purchase q ?rows"
    using assms(1) unfolding compute_build_capacity_def Let_def if_not_P [OF rows(2)] by (auto simp: bindr_Inr)
  have "\<forall>r \<in> set ?rows. 0 < sl_required r" by simp
  note spec = can_build_spec [OF rows(2) dist assms(3) this, unfolded rows(1)]
  show ?thesis using spec(2) [OF assms(6)] spec(3,4) unfolding c by simp
qed

section \<open>Witnesses\<close>

lemma compute_coverage_returns: "\<exists>m. compute_coverage set_order rows preferred pct = Inr m"
  by (auto simp: compute_coverage_def lowest_total_price_variant_def optimize_def valid_strategies_def Let_def)

text \<open>Asking for seven percent of a hundred lines asks for eight: the product of the floats is above seven.\<close>

lemma float_target_above: "\<lceil>float64 (100 * float64 (7 / 100))\<rceil> = 8"
  by code_simp

lemma float64_2: "float64 2 = 2"
  by code_simp

definition sourced :: "string \<Rightarrow> int \<Rightarrow> sourced_offer" where
  "sourced name stock = \<lparr>of_mpn = ''R1'', of_distributor = name, of_stock = stock, of_unit_price = Some 2, of_currency = None,
     of_packaging = None, of_moq = None, of_lead_time_days = None, of_price_breaks = [], of_url = None,
     so_unit_price_converted = None, so_currency_displayed = None, so_price_breaks_converted = None\<rparr>"

definition sourced_rows :: "sourced_line list" where
  "sourced_rows = [\<lparr>sl_project_entry_id = 1, sl_part_id = 1, sl_mpn = None, sl_required = 8, sl_available = 3,
      sl_substitute_available = 0, sl_short_by = 5, sl_authorized_stock = 10, sl_offers = [sourced ''Acme'' 10],
      sl_best_offer = None, sl_risk_flags = []\<rparr>,
    \<lparr>sl_project_entry_id = 2, sl_part_id = 2, sl_mpn = None, sl_required = 4, sl_available = 1,
      sl_substitute_available = 1, sl_short_by = 2, sl_authorized_stock = 9, sl_offers = [sourced ''Mouser'' 9, sourced ''ACME'' 1],
      sl_best_offer = None, sl_risk_flags = []\<rparr>]"

lemma sourced_values [simp]:
  "casefold ''Acme'' = ''acme''" "casefold ''ACME'' = ''acme''" "casefold ''Mouser'' = ''mouser''"
  "of_distributor (sourced name stock) = name" "of_stock (sourced name stock) = stock" "of_moq (sourced name stock) = None"
  by (code_simp, code_simp, code_simp) (simp_all add: sourced_def)

lemma sourced_ids: "distinct (map sl_project_entry_id sourced_rows)"
  by (simp add: sourced_rows_def)

lemma sourced_keys: "distributor_keys sourced_rows = [''acme'', ''mouser'']"
  by (simp add: distributor_keys_def sourced_rows_def dict_keys_def)

lemma sourced_matrix:
  assumes "compute_coverage id sourced_rows None 1 = Inr m"
  shows "cx_rows m = coverage_rows (preferred_rank None) sourced_rows" "length (cx_rows m) = 2"
    "k \<in> {''acme'', ''mouser''} \<Longrightarrow> coverage_row_of sourced_rows k \<in> set (cx_rows m)"
    "k \<in> {''acme'', ''mouser''} \<Longrightarrow> casefold (cr_distributor (coverage_row_of sourced_rows k)) = k"
proof -
  have "sourced_rows \<noteq> []" by (simp add: sourced_rows_def)
  with assms show rows: "cx_rows m = coverage_rows (preferred_rank None) sourced_rows"
    by (cases rule: compute_coverage_cases [OF assms]) simp_all
  show "length (cx_rows m) = 2" by (simp add: rows coverage_rows_keys(3) sourced_keys)
  show "coverage_row_of sourced_rows k \<in> set (cx_rows m)" if "k \<in> {''acme'', ''mouser''}"
    unfolding rows coverage_rows_def set_sort set_map sourced_keys using that by (intro imageI) simp
  show "casefold (cr_distributor (coverage_row_of sourced_rows k)) = k" if "k \<in> {''acme'', ''mouser''}"
    using that display_name_key [of k sourced_rows] by (simp only: coverage_row_name sourced_keys) simp
qed

lemma lines_sold_list: "lines_sold q rows K = set (map sl_project_entry_id (filter (\<lambda>l. \<exists>k \<in> K. sells q k l) rows))"
  by (auto simp: lines_sold_def)

lemma sourced_names: "casefold (display_name sourced_rows ''acme'') = ''acme''" "casefold (display_name sourced_rows ''mouser'') = ''mouser''"
  using display_name_key [of _ sourced_rows] by (simp_all add: sourced_keys)

lemma sourced_sold: "lines_sold shortage_quantity sourced_rows {''acme'', ''mouser''} = {1, 2}"
  "lines_sold order_quantity sourced_rows {''acme'', ''mouser''} = {1, 2}" "lines_sold order_quantity sourced_rows UNIV = {1, 2}"
  by (auto simp: lines_sold_list sells_def shortage_quantity_def order_quantity_def coverage_selected_qty_def sourced_rows_def)

theorem coverage_rows_count_the_lines_witness:
  "\<exists>m. compute_coverage id sourced_rows None 1 = Inr m
    \<and> set (map (casefold \<circ> cr_distributor) (cx_rows m)) = {''acme'', ''mouser''}
    \<and> cr_lines_covered (coverage_row_of sourced_rows ''acme'') = 1"
proof -
  obtain m where m: "compute_coverage id sourced_rows None 1 = Inr m" using compute_coverage_returns by blast
  note matrix = sourced_matrix [OF m]
  note counts = coverage_rows_count_the_lines [OF m sourced_ids]
  have "cr_lines_covered (coverage_row_of sourced_rows ''acme'') = length (filter (sells shortage_quantity ''acme'') sourced_rows)"
    using counts matrix(3,4) [of "''acme''"] unfolding Let_def by fastforce
  also have "\<dots> = 1" by (simp add: sells_def shortage_quantity_def sourced_rows_def)
  finally show ?thesis using m counts set_distributor_keys [of sourced_rows] by (simp add: sourced_keys)
qed

theorem best_pair_covers_most_witness:
  "\<exists>m. compute_coverage id sourced_rows None 1 = Inr m
    \<and> (case cx_best_two m of None \<Rightarrow> (\<exists>r \<in> set (cx_rows m). cr_lines_uncovered r = [])
       | Some (a, b) \<Rightarrow> 2 \<le> card (lines_sold shortage_quantity sourced_rows {casefold a, casefold b}))"
proof -
  obtain m where m: "compute_coverage id sourced_rows None 1 = Inr m" using compute_coverage_returns by blast
  note matrix = sourced_matrix [OF m]
  have "length (cx_rows m) \<le> 30" by (simp add: matrix(2))
  note best = best_pair_covers_most [OF m sourced_ids this]
  show ?thesis
  proof (cases "cx_best_two m")
    case None
    then show ?thesis using m best matrix(2) by auto
  next
    case (Some ab)
    obtain a b where ab: "ab = (a, b)" by (cases ab)
    have "card (lines_sold shortage_quantity sourced_rows {''acme'', ''mouser''})
        \<le> card (lines_sold shortage_quantity sourced_rows {casefold a, casefold b})"
      using best matrix(3,4) [of "''acme''"] matrix(3,4) [of "''mouser''"] by (fastforce simp: Some ab)
    then show ?thesis using m by (simp add: Some ab sourced_sold)
  qed
qed

theorem fewest_set_reaches_the_target_witness:
  "\<exists>m. compute_coverage id sourced_rows None 1 = Inr m
    \<and> 2 \<le> card (lines_sold order_quantity sourced_rows (casefold ` set (cx_fewest_combo m))) \<and> length (cx_fewest_combo m) \<le> 2"
proof -
  obtain m where m: "compute_coverage id sourced_rows None 1 = Inr m" using compute_coverage_returns by blast
  have "(2::int) = min \<lceil>float64 (of_nat (length sourced_rows) * 1)\<rceil> (int (card (lines_sold order_quantity sourced_rows UNIV)))"
    by (simp add: sourced_sold) (simp add: sourced_rows_def float64_2)
  from fewest_set_reaches_the_target [OF m this, of "[''acme'', ''mouser'']"]
  show ?thesis using m sourced_matrix(2) [OF m] by (simp add: sourced_sold)
qed

theorem capacity_is_the_most_buildable_witness:
  "\<exists>c. compute_build_capacity sourced_rows 1 = Inr c \<and> bc_can_build_now c < 1 \<and> 1 \<le> bc_can_build_after_purchase c"
proof -
  obtain c where c: "compute_build_capacity sourced_rows 1 = Inr c"
    by (simp add: compute_build_capacity_def sourced_rows_def sum_best_offer_cost_def best_offer_priced_for_total_def
        total_currency_def display_currencies_def first_if_all_equal_def has_mixed_offer_currencies_def map_filter_simps
        cost_per_single_bom_def Let_def)
  have rows: "set sourced_rows = {r \<in> set sourced_rows. 0 < sl_required r}" "set sourced_rows \<noteq> {}"
    by (auto simp: sourced_rows_def)
  note most = capacity_is_the_most_buildable [OF c sourced_ids _ rows]
  show ?thesis using c most [of 1] by (simp add: not_le [symmetric]) (simp add: sourced_rows_def stock_now_def stock_after_purchase_def)
qed

end
