(* ===== verification/Sexpr.thy ===== *)
theory Sexpr
  imports PyText
begin

text \<open>
  KiCad library files: \<open>backend/app/domain/eda/sexpr.py\<close>. An s-expression is an atom, quoted in the
  source or bare, or a node, the list of its members; the reader is the loop of \<open>parse\<close> over an
  explicit stack of open nodes, the writer is \<open>emit\<close>. A node under construction is the list of
  the members read so far; it becomes a member of the enclosing node when its parenthesis closes,
  at the place the source put it when the parenthesis opened, since nothing is appended to
  the enclosing node in between. Characters are 8-bit; only the eight special ones matter.
\<close>

datatype sexpr = Atom (quoted: bool) (atom_text: string) | Node (members: "sexpr list")

datatype sexpr_error =
  Second_top_level | Nesting_too_deep | Unbalanced_close | String_outside | Atom_outside
| Unbalanced_open | Empty_document | Unterminated_escape | Unterminated_string
| No_name_argument | Unexpected_root

definition SYMBOL_LIB_ROOT :: string where "SYMBOL_LIB_ROOT = ''kicad_symbol_lib''"
definition SYMBOL_ROOT :: string where "SYMBOL_ROOT = ''symbol''"
definition PROPERTY :: string where "PROPERTY = ''property''"
definition MODEL :: string where "MODEL = ''model''"

definition MAX_NESTING :: nat where "MAX_NESTING = 32"

section \<open>Characters\<close>

abbreviation "tab \<equiv> CHR 0x09"
abbreviation "newline \<equiv> CHR 0x0A"
abbreviation "carriage_return \<equiv> CHR 0x0D"
abbreviation "double_quote \<equiv> CHR 0x22"
abbreviation "backslash \<equiv> CHR 0x5C"

definition white :: "char \<Rightarrow> bool" where
  "white c \<longleftrightarrow> c = CHR '' '' \<or> c = tab \<or> c = carriage_return \<or> c = newline"

definition atom_end :: "char \<Rightarrow> bool" where
  "atom_end c \<longleftrightarrow> white c \<or> c = CHR ''('' \<or> c = CHR '')'' \<or> c = double_quote"

definition unescape :: "char \<Rightarrow> char option" where
  "unescape c = (if c = CHR ''n'' then Some newline else if c = CHR ''t'' then Some tab
     else if c = CHR ''r'' then Some carriage_return else if c = double_quote then Some double_quote
     else if c = backslash then Some backslash else None)"

definition escape :: "char \<Rightarrow> string" where
  "escape c = (if c = backslash then [backslash, backslash] else if c = double_quote then [backslash, double_quote]
     else if c = newline then [backslash, CHR ''n''] else if c = tab then [backslash, CHR ''t'']
     else if c = carriage_return then [backslash, CHR ''r''] else [c])"

section \<open>Reading\<close>

text \<open>\<open>_read_quoted\<close> from just after the opening quote: the decoded value and the text after the
  closing quote.\<close>

fun read_quoted :: "string \<Rightarrow> string \<Rightarrow> sexpr_error + string \<times> string" where
  "read_quoted out [] = Inl Unterminated_string"
| "read_quoted out (ch # cs) =
     (if ch = backslash then
        (case cs of [] \<Rightarrow> Inl Unterminated_escape
         | nxt # cs' \<Rightarrow> read_quoted (out @ (case unescape nxt of Some c \<Rightarrow> [c] | None \<Rightarrow> [backslash, nxt])) cs')
      else if ch = double_quote then Inr (out, cs)
      else read_quoted (out @ [ch]) cs)"

lemma read_quoted_shrinks: "read_quoted out cs = Inr (v, rest) \<Longrightarrow> length rest < length cs"
  by (induction out cs rule: read_quoted.induct) (force split: if_splits list.splits)+

function parse_loop :: "string \<Rightarrow> sexpr list list \<Rightarrow> sexpr option \<Rightarrow> sexpr_error + sexpr" where
  "parse_loop [] stack doc = (if stack \<noteq> [] then Inl Unbalanced_open
     else case doc of None \<Rightarrow> Inl Empty_document | Some r \<Rightarrow> Inr r)"
| "parse_loop (ch # cs) stack doc =
     (if white ch then parse_loop cs stack doc
      else if ch = CHR ''('' then
        (if stack = [] \<and> doc \<noteq> None then Inl Second_top_level
         else if MAX_NESTING < length stack + 1 then Inl Nesting_too_deep
         else parse_loop cs ([] # stack) doc)
      else if ch = CHR '')'' then
        (case stack of [] \<Rightarrow> Inl Unbalanced_close
         | [node] \<Rightarrow> parse_loop cs [] (Some (Node node))
         | node # parent # rest \<Rightarrow> parse_loop cs ((parent @ [Node node]) # rest) doc)
      else if ch = double_quote then
        (case read_quoted [] cs of Inl e \<Rightarrow> Inl e
         | Inr (v, cs') \<Rightarrow> (case stack of [] \<Rightarrow> Inl String_outside
             | node # rest \<Rightarrow> parse_loop cs' ((node @ [Atom True v]) # rest) doc))
      else (case stack of [] \<Rightarrow> Inl Atom_outside
             | node # rest \<Rightarrow> parse_loop (dropWhile (\<lambda>c. \<not> atom_end c) cs)
                 ((node @ [Atom False (ch # takeWhile (\<lambda>c. \<not> atom_end c) cs)]) # rest) doc))"
  by pat_completeness auto
termination
  by (relation "measure (\<lambda>(cs, stack, doc). length cs)")
     (auto dest: read_quoted_shrinks simp: less_Suc_eq_le length_dropWhile_le intro: less_SucI)

declare parse_loop.simps [simp del]

definition parse :: "string \<Rightarrow> sexpr_error + sexpr" where
  "parse text = parse_loop text [] None"

section \<open>Writing\<close>

fun join :: "string \<Rightarrow> string list \<Rightarrow> string" where
  "join sep [] = []"
| "join sep [s] = s"
| "join sep (s # t # ts) = s @ sep @ join sep (t # ts)"

definition needs_quoting :: "string \<Rightarrow> bool" where
  "needs_quoting text \<longleftrightarrow> text = [] \<or> list_ex atom_end text"

fun emit_atom :: "sexpr \<Rightarrow> string" where
  "emit_atom (Atom q text) = (if q \<or> needs_quoting text
     then [double_quote] @ concat (map escape text) @ [double_quote] else text)"
| "emit_atom (Node ms) = []"

definition is_node :: "sexpr \<Rightarrow> bool" where
  "is_node x = (case x of Atom _ _ \<Rightarrow> False | Node _ \<Rightarrow> True)"

definition pad :: "nat \<Rightarrow> string" where
  "pad indent = concat (replicate indent ''  '')"

function render :: "nat \<Rightarrow> sexpr \<Rightarrow> string" where
  "render indent (Atom q text) = pad indent @ emit_atom (Atom q text)"
| "render indent (Node ms) =
     (if \<not> list_ex is_node ms then pad indent @ ''('' @ join '' '' (map emit_atom ms) @ '')''
      else join [newline]
        ((pad indent @ ''('' @ join '' '' (map emit_atom (takeWhile (\<lambda>x. \<not> is_node x) ms)))
         # map (render (indent + 1)) (dropWhile (\<lambda>x. \<not> is_node x) ms)
         @ [pad indent @ '')'']))"
  by pat_completeness auto
termination
  by (relation "measure (\<lambda>(indent, x). size x)")
     (auto dest!: set_dropWhileD simp: less_Suc_eq_le intro: size_list_estimation')

declare render.simps [simp del]

definition emit :: "sexpr \<Rightarrow> string" where
  "emit node = render 0 node"

section \<open>Library entries\<close>

definition head :: "sexpr \<Rightarrow> string option" where
  "head x = (case x of Node (Atom _ t # _) \<Rightarrow> Some t | _ \<Rightarrow> None)"

definition entry_name :: "sexpr list \<Rightarrow> sexpr_error + string" where
  "entry_name node = (case node of _ # Atom _ t # _ \<Rightarrow> Inr t | _ \<Rightarrow> Inl No_name_argument)"

definition entries :: "string \<Rightarrow> sexpr_error + (string \<times> sexpr) list" where
  "entries libtext = bindr (parse libtext) (\<lambda>doc.
     if head doc = Some SYMBOL_LIB_ROOT then
       foldr_r (\<lambda>child out. if is_node child \<and> head child = Some SYMBOL_ROOT
           then bindr (entry_name (members child)) (\<lambda>n. Inr (out @ [(n, child)])) else Inr out)
         (tl (members doc)) []
     else if head doc = Some SYMBOL_ROOT then bindr (entry_name (members doc)) (\<lambda>n. Inr [(n, doc)])
     else Inl Unexpected_root)"

definition with_name :: "sexpr list \<Rightarrow> string \<Rightarrow> sexpr list" where
  "with_name node name = hd node # Atom True name # drop 2 node"

text \<open>A unit of the entry follows its name; anything else is left alone.\<close>

definition unit_name :: "string \<Rightarrow> sexpr \<Rightarrow> string option" where
  "unit_name old_name child = (if is_node child \<and> head child = Some SYMBOL_ROOT
     then (case entry_name (members child) of Inl _ \<Rightarrow> None
           | Inr t \<Rightarrow> if take (length old_name + 1) t = old_name @ ''_'' then Some t else None)
     else None)"

definition rename :: "sexpr list \<Rightarrow> string \<Rightarrow> sexpr_error + sexpr list" where
  "rename node new_name = bindr (entry_name node) (\<lambda>old_name.
     Inr ([hd node, Atom True new_name] @ map (\<lambda>child. case unit_name old_name child of None \<Rightarrow> child
         | Some t \<Rightarrow> Node (with_name (members child) (new_name @ drop (length old_name) t))) (drop 2 node)))"

section \<open>Properties\<close>

fun is_property :: "string \<Rightarrow> sexpr \<Rightarrow> bool" where
  "is_property key (Node (Atom _ h # Atom _ k # _ # _)) \<longleftrightarrow> h = PROPERTY \<and> k = key"
| "is_property key _ \<longleftrightarrow> False"

fun get_property :: "sexpr list \<Rightarrow> string \<Rightarrow> string option" where
  "get_property [] key = None"
| "get_property (child # cs) key = (if is_property key child
     then (case members child ! 2 of Atom _ v \<Rightarrow> Some v | Node _ \<Rightarrow> get_property cs key)
     else get_property cs key)"

text \<open>The loop of \<open>set_property\<close>: the members so far, whether the key was found, and the index
  of the last property among them.\<close>

fun set_property_loop :: "string \<Rightarrow> string \<Rightarrow> sexpr list \<Rightarrow> sexpr list \<Rightarrow> bool \<Rightarrow> int \<Rightarrow> sexpr list \<times> bool \<times> int" where
  "set_property_loop key value [] out replaced last_property_index = (out, replaced, last_property_index)"
| "set_property_loop key value (child # cs) out replaced last_property_index =
     (let hit = (is_property key child \<and> \<not> replaced);
          out' = out @ [if hit then Node (take 2 (members child) @ [Atom True value] @ drop 3 (members child)) else child]
      in set_property_loop key value cs out' (replaced \<or> hit)
           (if is_node child \<and> head child = Some PROPERTY then int (length out') - 1 else last_property_index))"

definition set_property :: "sexpr list \<Rightarrow> string \<Rightarrow> string \<Rightarrow> sexpr list" where
  "set_property node key value =
     (let (out, replaced, last_property_index) = set_property_loop key value node [] False (- 1) in
      if replaced then out
      else let insert_at = (if 0 \<le> last_property_index then nat last_property_index + 1 else length out)
           in take insert_at out @ [Node [Atom False PROPERTY, Atom True key, Atom True value]] @ drop insert_at out)"

section \<open>3D models\<close>

fun is_model :: "sexpr \<Rightarrow> bool" where
  "is_model (Node (Atom _ h # Atom _ _ # _)) \<longleftrightarrow> h = MODEL"
| "is_model _ \<longleftrightarrow> False"

definition model_paths :: "sexpr list \<Rightarrow> string list" where
  "model_paths node = map (\<lambda>child. atom_text (members child ! 1)) (filter is_model node)"

definition rewrite_model_paths :: "(string \<Rightarrow> string option) \<Rightarrow> sexpr list \<Rightarrow> sexpr list" where
  "rewrite_model_paths fn node = List.map_filter (\<lambda>child. if \<not> is_model child then Some child
     else map_option (\<lambda>replacement. Node (hd (members child) # Atom True replacement # drop 2 (members child)))
            (fn (atom_text (members child ! 1)))) node"

definition bare :: "string \<Rightarrow> sexpr" where "bare = Atom False"

definition append_model :: "sexpr list \<Rightarrow> string \<Rightarrow> sexpr list" where
  "append_model node path = node @ [Node [bare MODEL, Atom True path,
     Node [bare ''offset'', Node (map bare [''xyz'', ''0'', ''0'', ''0''])],
     Node [bare ''scale'', Node (map bare [''xyz'', ''1'', ''1'', ''1''])],
     Node [bare ''rotate'', Node (map bare [''xyz'', ''0'', ''0'', ''0''])]]]"

end
