(* ===== verification/SexprProps.thy ===== *)
theory SexprProps
  imports Sexpr
begin

text \<open>
  The reader against a grammar of the text format, the contract \<open>parse (emit node) = node\<close>, and the
  edits of a library entry.
\<close>

section \<open>The grammar\<close>

inductive quoted_text :: "string \<Rightarrow> string \<Rightarrow> bool" where
  end_of_text: "quoted_text [] []"
| plain: "c \<noteq> backslash \<Longrightarrow> c \<noteq> double_quote \<Longrightarrow> quoted_text s v \<Longrightarrow> quoted_text (c # s) (c # v)"
| escaped: "unescape c = Some d \<Longrightarrow> quoted_text s v \<Longrightarrow> quoted_text (backslash # c # s) (d # v)"
| kept: "unescape c = None \<Longrightarrow> quoted_text s v \<Longrightarrow> quoted_text (backslash # c # s) (backslash # c # v)"

text \<open>A text that may follow a bare atom.\<close>

definition delimited :: "string \<Rightarrow> bool" where
  "delimited s \<longleftrightarrow> s = [] \<or> atom_end (hd s)"

definition bare_text :: "string \<Rightarrow> bool" where
  "bare_text s \<longleftrightarrow> s \<noteq> [] \<and> list_all (\<lambda>c. \<not> atom_end c) s"

inductive items :: "string \<Rightarrow> sexpr list \<Rightarrow> bool" where
  nothing: "items [] []"
| blank: "white c \<Longrightarrow> items s xs \<Longrightarrow> items (c # s) xs"
| string: "quoted_text q v \<Longrightarrow> items s xs \<Longrightarrow> items ([double_quote] @ q @ [double_quote] @ s) (Atom True v # xs)"
| bare_atom: "bare_text a \<Longrightarrow> delimited s \<Longrightarrow> items s xs \<Longrightarrow> items (a @ s) (Atom False a # xs)"
| node: "items s xs \<Longrightarrow> items t ys \<Longrightarrow> items (''('' @ s @ '')'' @ t) (Node xs # ys)"

inductive_cases items_NilE: "items s []"

fun nesting :: "sexpr \<Rightarrow> nat" where
  "nesting (Atom _ _) = 0"
| "nesting (Node ms) = Suc (fold max (map nesting ms) 0)"

lemma fold_max_le: "fold max ns (a::nat) \<le> n \<longleftrightarrow> a \<le> n \<and> (\<forall>x \<in> set ns. x \<le> n)"
  by (induction ns arbitrary: a) auto

lemma nesting_Node_le: "nesting (Node ms) \<le> Suc n \<longleftrightarrow> (\<forall>x \<in> set ms. nesting x \<le> n)"
  by (simp add: fold_max_le)

declare nesting.simps(2) [simp del]

lemma nesting_Node_0 [simp]: "\<not> nesting (Node ms) \<le> 0"
  by (simp add: nesting.simps)

section \<open>Quoted strings\<close>

lemma read_quoted_complete:
  "quoted_text q v \<Longrightarrow> read_quoted out (q @ double_quote # rest) = Inr (out @ v, rest)"
  by (induction q v arbitrary: out rule: quoted_text.induct) auto

lemma read_quoted_sound:
  "read_quoted out cs = Inr (v, rest) \<Longrightarrow> \<exists>q w. cs = q @ double_quote # rest \<and> quoted_text q w \<and> v = out @ w"
proof (induction out cs arbitrary: v rest rule: read_quoted.induct)
  case (2 out ch cs)
  show ?case
  proof (cases "ch = backslash")
    case True
    then obtain nxt cs' where cs: "cs = nxt # cs'" using 2(3) by (cases cs) auto
    let ?d = "case unescape nxt of Some c \<Rightarrow> [c] | None \<Rightarrow> [backslash, nxt]"
    have "read_quoted (out @ ?d) cs' = Inr (v, rest)" using 2(3) True cs by simp
    from 2(1) [OF True cs this] obtain q w where q: "cs' = q @ double_quote # rest" "quoted_text q w" "v = (out @ ?d) @ w" by blast
    have "quoted_text (backslash # nxt # q) (?d @ w)"
      using q(2) by (cases "unescape nxt") (auto intro: quoted_text.intros)
    then show ?thesis using q True cs by (intro exI [of _ "backslash # nxt # q"] exI [of _ "?d @ w"]) simp
  next
    case nb: False
    show ?thesis
    proof (cases "ch = double_quote")
      case True
      then show ?thesis using 2(3) nb by (intro exI [of _ "[]"]) (auto intro: quoted_text.intros)
    next
      case False
      have "read_quoted (out @ [ch]) cs = Inr (v, rest)" using 2(3) nb False by simp
      from 2(2) [OF nb False this] obtain q w where "cs = q @ double_quote # rest" "quoted_text q w" "v = (out @ [ch]) @ w" by blast
      then show ?thesis using nb False
        by (intro exI [of _ "ch # q"] exI [of _ "ch # w"]) (auto intro: quoted_text.intros)
    qed
  qed
qed simp

section \<open>The reader accepts what the grammar describes\<close>

text \<open>What closing the innermost open node does to the stack.\<close>

definition close_node :: "string \<Rightarrow> sexpr list \<Rightarrow> sexpr list list \<Rightarrow> sexpr option \<Rightarrow> sexpr_error + sexpr" where
  "close_node cs node stack doc = (case stack of [] \<Rightarrow> parse_loop cs [] (Some (Node node))
     | parent # rest \<Rightarrow> parse_loop cs ((parent @ [Node node]) # rest) doc)"

lemma parse_loop_white [simp]: "white c \<Longrightarrow> parse_loop (c # cs) stack doc = parse_loop cs stack doc"
  by (simp add: parse_loop.simps)

lemma atom_end_special [simp]:
  "atom_end (CHR ''('')" "atom_end (CHR '')'')" "atom_end double_quote" "white c \<Longrightarrow> atom_end c"
  "\<not> white (CHR ''('')" "\<not> white (CHR '')'')" "\<not> white double_quote" "white newline" "white (CHR '' '')"
  by (simp_all add: atom_end_def white_def)

lemma parse_loop_open: "parse_loop (CHR ''('' # cs) (node # stack) doc =
    (if MAX_NESTING < length stack + 2 then Inl Nesting_too_deep else parse_loop cs ([] # node # stack) doc)"
  by (simp add: parse_loop.simps)

lemma parse_loop_close: "parse_loop (CHR '')'' # cs) (node # stack) doc = close_node cs node stack doc"
  by (simp add: parse_loop.simps close_node_def split: list.split)

lemma parse_loop_string:
  "quoted_text q v \<Longrightarrow> parse_loop (double_quote # q @ double_quote # cs) (node # stack) doc
     = parse_loop cs ((node @ [Atom True v]) # stack) doc"
  by (simp add: parse_loop.simps read_quoted_complete)

lemma parse_loop_bare:
  assumes "bare_text a" and "delimited cs"
  shows "parse_loop (a @ cs) (node # stack) doc = parse_loop cs ((node @ [Atom False a]) # stack) doc"
proof -
  obtain c as where a: "a = c # as" using assms(1) by (cases a) (auto simp: bare_text_def)
  have "takeWhile (\<lambda>c. \<not> atom_end c) (as @ cs) = as \<and> dropWhile (\<lambda>c. \<not> atom_end c) (as @ cs) = cs"
    using assms by (cases cs) (auto simp: bare_text_def delimited_def a list_all_iff takeWhile_append dropWhile_append)
  moreover have "\<not> atom_end c" using assms(1) by (simp add: bare_text_def a)
  ultimately show ?thesis by (auto simp: a parse_loop.simps atom_end_def)
qed

lemma delimited_append: "delimited s \<Longrightarrow> delimited t \<Longrightarrow> delimited (s @ t)"
  by (auto simp: delimited_def hd_append)

lemma parse_loop_items:
  assumes "items s xs" and "\<forall>x \<in> set xs. nesting x + Suc (length stack) \<le> MAX_NESTING" and "delimited cs"
  shows "parse_loop (s @ cs) (node # stack) doc = parse_loop cs ((node @ xs) # stack) doc"
  using assms
proof (induction s xs arbitrary: node stack cs doc rule: items.induct)
  case (node s xs t ys)
  have deep: "nesting (Node xs) + Suc (length stack) \<le> MAX_NESTING" using node.prems(1) by simp
  obtain m where m: "nesting (Node xs) = Suc m" by (simp add: nesting.simps)
  then have "\<forall>x \<in> set xs. nesting x \<le> m" using nesting_Node_le [of xs m] by simp
  with deep m have inner: "\<forall>x \<in> set xs. nesting x + Suc (length (a # stack)) \<le> MAX_NESTING" for a :: "sexpr list"
    by fastforce
  have "0 < nesting (Node xs)" by (simp add: nesting.simps)
  then have "\<not> MAX_NESTING < length stack + 2" using deep by simp
  then have "parse_loop ((''('' @ s @ '')'' @ t) @ cs) (node # stack) doc
      = parse_loop (s @ ('')'' @ t @ cs)) ([] # node # stack) doc" by (simp add: parse_loop_open)
  also have "\<dots> = parse_loop ('')'' @ t @ cs) (xs # node # stack) doc"
    using node.IH(1) [OF inner [of node], of "'')'' @ t @ cs" "[]" doc] by (simp add: delimited_def)
  also have "\<dots> = parse_loop (t @ cs) ((node @ [Node xs]) # stack) doc" by (simp add: parse_loop_close close_node_def)
  also have "\<dots> = parse_loop cs ((node @ Node xs # ys) # stack) doc"
    using node.IH(2) [of stack cs "node @ [Node xs]" doc] node.prems by simp
  finally show ?case .
next
  case (bare_atom a s xs)
  then show ?case using parse_loop_bare [of a "s @ cs" node stack doc] by (simp add: delimited_append)
next
  case (string q v s xs)
  then show ?case using parse_loop_string [of q v "s @ cs" node stack doc] by simp
qed simp_all

section \<open>The grammar describes what the reader accepts\<close>

text \<open>The text from inside an open node up to the parenthesis that closes it.\<close>

definition closes_with :: "string \<Rightarrow> sexpr list \<Rightarrow> sexpr list list \<Rightarrow> sexpr option \<Rightarrow> sexpr \<Rightarrow> bool" where
  "closes_with s node stack doc n \<longleftrightarrow> (\<exists>s1 xs s2. s = s1 @ '')'' @ s2 \<and> items s1 xs
     \<and> (\<forall>x \<in> set xs. nesting x + Suc (length stack) \<le> MAX_NESTING)
     \<and> close_node s2 (node @ xs) stack doc = Inr n)"

lemma closes_with_member:
  assumes "closes_with t (node @ [x]) stack doc n" and "nesting x + Suc (length stack) \<le> MAX_NESTING"
    and "\<And>s1 xs. t = s1 @ '')'' @ drop (Suc (length s1)) t \<Longrightarrow> items s1 xs \<Longrightarrow> items (s @ s1) (x # xs)"
  shows "closes_with (s @ t) node stack doc n"
proof -
  obtain s1 xs s2 where t: "t = s1 @ '')'' @ s2" "items s1 xs"
    "\<forall>x \<in> set xs. nesting x + Suc (length stack) \<le> MAX_NESTING" "close_node s2 ((node @ [x]) @ xs) stack doc = Inr n"
    using assms(1) unfolding closes_with_def by blast
  have "items (s @ s1) (x # xs)" using t(1,2) by (intro assms(3)) simp_all
  then show ?thesis using t assms(2) unfolding closes_with_def
    by (intro exI [of _ "s @ s1"] exI [of _ "x # xs"] exI [of _ s2]) simp
qed

lemma special_cases:
  obtains "white c" | "c = CHR ''(''" | "c = CHR '')''" | "c = double_quote" | "\<not> atom_end c"
  by (auto simp: atom_end_def)

lemma bare_token: "\<not> atom_end c \<Longrightarrow> bare_text (c # takeWhile (\<lambda>c. \<not> atom_end c) cs)"
  by (auto simp: bare_text_def list_all_iff dest: set_takeWhileD)

lemma delimited_rest: "delimited (dropWhile (\<lambda>c. \<not> atom_end c) cs)"
  using hd_dropWhile [of "\<lambda>c. \<not> atom_end c" cs] by (auto simp: delimited_def)

lemma parse_loop_sound:
  "(parse_loop s [] doc = Inr n \<longrightarrow> (doc = Some n \<and> items s [])
      \<or> (doc = None \<and> items s [n] \<and> is_node n \<and> nesting n \<le> MAX_NESTING))
   \<and> (parse_loop s (node # stack) doc = Inr n \<longrightarrow> length stack < MAX_NESTING \<longrightarrow> closes_with s node stack doc n)"
proof (induction s arbitrary: doc node stack rule: measure_induct_rule [of length])
  case (less s)
  show ?case
  proof (cases s)
    case Nil
    then show ?thesis by (auto simp: parse_loop.simps intro: items.nothing split: option.splits)
  next
    case (Cons c cs)
    have IHA: "(doc = Some n \<and> items t []) \<or> (doc = None \<and> items t [n] \<and> is_node n \<and> nesting n \<le> MAX_NESTING)"
      if "length t < length s" "parse_loop t [] doc = Inr n" for t doc using less.IH [OF that(1)] that(2) by blast
    have IHB: "closes_with t node stack doc n"
      if "length t < length s" "parse_loop t (node # stack) doc = Inr n" "length stack < MAX_NESTING" for t doc node stack
      using less.IH [OF that(1)] that(2,3) by blast
    have top: "(doc = Some n \<and> items s []) \<or> (doc = None \<and> items s [n] \<and> is_node n \<and> nesting n \<le> MAX_NESTING)"
      if run: "parse_loop s [] doc = Inr n"
    proof (cases rule: special_cases [of c])
      case 1
      then show ?thesis using IHA [of cs doc] run by (auto simp: Cons intro: items.blank)
    next
      case 2
      then have run: "doc = None" "parse_loop cs ([] # []) None = Inr n" using run by (auto simp: Cons parse_loop.simps split: if_splits)
      obtain s1 xs s2 where cs: "cs = s1 @ '')'' @ s2" "items s1 xs" "\<forall>x \<in> set xs. nesting x + 1 \<le> MAX_NESTING"
        "parse_loop s2 [] (Some (Node xs)) = Inr n"
        using IHB [OF _ run(2)] by (auto simp: Cons closes_with_def close_node_def MAX_NESTING_def)
      then have n: "n = Node xs" "items s2 []" using IHA [of s2 "Some (Node xs)"] by (auto simp: Cons)
      have "nesting n \<le> MAX_NESTING" using cs(3) nesting_Node_le [of xs "MAX_NESTING - 1"] by (auto simp: n MAX_NESTING_def)
      then show ?thesis using items.node [OF cs(2) n(2)] run(1) 2 by (auto simp: Cons cs(1) n(1) is_node_def)
    qed (use run in \<open>auto simp: Cons parse_loop.simps atom_end_def split: if_splits sum.splits\<close>)
    have inside: "closes_with s node stack doc n" if run: "parse_loop s (node # stack) doc = Inr n" and shallow: "length stack < MAX_NESTING"
    proof (cases rule: special_cases [of c])
      case 1
      then have "closes_with cs node stack doc n" using IHB run shallow by (simp add: Cons)
      then obtain s1 xs s2 where "cs = s1 @ '')'' @ s2" "items s1 xs"
        "\<forall>x \<in> set xs. nesting x + Suc (length stack) \<le> MAX_NESTING" "close_node s2 (node @ xs) stack doc = Inr n"
        unfolding closes_with_def by blast
      with 1 show ?thesis unfolding closes_with_def Cons
        by (intro exI [of _ "c # s1"] exI [of _ xs] exI [of _ s2]) (auto intro: items.blank)
    next
      case 2
      then have deep: "length stack + 2 \<le> MAX_NESTING" and run: "parse_loop cs ([] # node # stack) doc = Inr n"
        using run by (auto simp: Cons parse_loop_open split: if_splits)
      obtain s1 xs s2 where cs: "cs = s1 @ '')'' @ s2" "items s1 xs" "\<forall>x \<in> set xs. nesting x + Suc (Suc (length stack)) \<le> MAX_NESTING"
        "parse_loop s2 ((node @ [Node xs]) # stack) doc = Inr n"
        using IHB [OF _ run] deep by (auto simp: Cons closes_with_def close_node_def)
      have "closes_with s2 (node @ [Node xs]) stack doc n" using IHB [OF _ cs(4)] shallow by (simp add: Cons cs(1))
      moreover have "nesting (Node xs) + Suc (length stack) \<le> MAX_NESTING"
        using cs(3) deep nesting_Node_le [of xs "MAX_NESTING - Suc (Suc (length stack))"] by (auto simp: le_diff_conv2)
      moreover have "items ((''('' @ s1 @ '')'') @ t) (Node xs # ys)" if "items t ys" for t ys
        using items.node [OF cs(2) that] by simp
      ultimately have "closes_with ((''('' @ s1 @ '')'') @ s2) node stack doc n" by (rule closes_with_member)
      then show ?thesis by (simp add: Cons cs(1) 2)
    next
      case 3
      then have "close_node cs node stack doc = Inr n" using run by (simp add: Cons parse_loop_close)
      then show ?thesis unfolding closes_with_def Cons 3
        by (intro exI [of _ "[]"] exI [of _ cs]) (auto intro: items.nothing)
    next
      case 4
      then obtain v rest where q: "read_quoted [] cs = Inr (v, rest)" "parse_loop rest ((node @ [Atom True v]) # stack) doc = Inr n"
        using run by (auto simp: Cons parse_loop.simps split: sum.splits)
      from read_quoted_sound [OF q(1)] obtain t where t: "cs = t @ double_quote # rest" "quoted_text t v" by auto
      have "closes_with rest (node @ [Atom True v]) stack doc n" using IHB [OF _ q(2) shallow] read_quoted_shrinks [OF q(1)] by (simp add: Cons)
      moreover have "nesting (Atom True v) + Suc (length stack) \<le> MAX_NESTING" using shallow by simp
      moreover have "items (([double_quote] @ t @ [double_quote]) @ u) (Atom True v # ys)" if "items u ys" for u ys
        using items.string [OF t(2) that] by simp
      ultimately have "closes_with (([double_quote] @ t @ [double_quote]) @ rest) node stack doc n" by (rule closes_with_member)
      then show ?thesis by (simp add: Cons t(1) 4)
    next
      case 5
      let ?a = "c # takeWhile (\<lambda>c. \<not> atom_end c) cs" and ?rest = "dropWhile (\<lambda>c. \<not> atom_end c) cs"
      have "parse_loop ?rest ((node @ [Atom False ?a]) # stack) doc = Inr n"
        using run 5 by (auto simp: Cons parse_loop.simps atom_end_def)
      then have "closes_with ?rest (node @ [Atom False ?a]) stack doc n"
        using IHB [OF _ _ shallow] by (simp add: Cons less_Suc_eq_le length_dropWhile_le)
      moreover have "nesting (Atom False ?a) + Suc (length stack) \<le> MAX_NESTING" using shallow by simp
      moreover have "items (?a @ s1) (Atom False ?a # xs)"
        if "?rest = s1 @ '')'' @ drop (Suc (length s1)) ?rest" "items s1 xs" for s1 xs
      proof (rule items.bare_atom [OF bare_token [OF 5] _ that(2)])
        have "hd ?rest = hd s1" if "s1 \<noteq> []" using that \<open>?rest = s1 @ _\<close> by (metis hd_append2)
        then show "delimited s1" using delimited_rest [of cs] that(1) by (cases ?rest) (auto simp: delimited_def)
      qed
      ultimately have "closes_with (?a @ ?rest) node stack doc n" by (rule closes_with_member)
      then show ?thesis by (simp add: Cons)
    qed
    show ?thesis using top inside by blast
  qed
qed

section \<open>The documents\<close>

lemma items_blank_only: "items s [] \<Longrightarrow> list_all white s"
  by (induction s "[] :: sexpr list" rule: items.induct) simp_all

lemma parse_loop_blank: "list_all white s \<Longrightarrow> parse_loop (s @ t) stack doc = parse_loop t stack doc"
  by (induction s) simp_all

lemma items_single_node:
  assumes "items s [Node xs]"
  obtains b t c where "s = b @ ''('' @ t @ '')'' @ c" "list_all white b" "items t xs" "items c []"
proof -
  have "\<exists>b t c. s = b @ ''('' @ t @ '')'' @ c \<and> list_all white b \<and> items t xs \<and> items c []"
    using assms
  proof (induction s "[Node xs]" rule: items.induct)
    case (blank c s)
    then obtain b t d where "s = b @ ''('' @ t @ '')'' @ d" "list_all white b" "items t xs" "items d []" by blast
    with blank.hyps(1) show ?case by (intro exI [of _ "c # b"] exI [of _ t] exI [of _ d]) simp
  next
    case (node s t)
    then show ?case by (intro exI [of _ "[]"] exI [of _ s] exI [of _ t]) simp
  qed
  then show thesis using that by blast
qed

text \<open>
  C30: \<open>parse\<close> accepts exactly the documents of the grammar, one parenthesised expression between
  blanks, nested at most thirty-two deep, and returns the tree the grammar gives the text.
\<close>

theorem parse_accepts_the_grammar:
  "parse chars = Inr n \<longleftrightarrow> items chars [n] \<and> is_node n \<and> nesting n \<le> MAX_NESTING"
proof
  assume "parse chars = Inr n"
  then show "items chars [n] \<and> is_node n \<and> nesting n \<le> MAX_NESTING"
    using parse_loop_sound [of chars None n] by (simp add: parse_def)
next
  assume n: "items chars [n] \<and> is_node n \<and> nesting n \<le> MAX_NESTING"
  then obtain xs where xs: "n = Node xs" by (cases n) (auto simp: is_node_def)
  with n obtain b t c where t: "chars = b @ ''('' @ t @ '')'' @ c" "list_all white b" "items t xs" "items c []"
    using items_single_node by blast
  have "\<forall>x \<in> set xs. nesting x + Suc (length ([] :: sexpr list list)) \<le> MAX_NESTING"
    using n nesting_Node_le [of xs "MAX_NESTING - 1"] by (auto simp: xs MAX_NESTING_def)
  then have "parse_loop (t @ '')'' @ c) [[]] None = parse_loop ('')'' @ c) [xs] None"
    using parse_loop_items [OF t(3), of "[]" "'')'' @ c" "[]" None] by (simp add: delimited_def)
  also have "\<dots> = Inr n" using items_blank_only [OF t(4)] parse_loop_blank [of c "[]" "[]" "Some n"]
    by (simp add: parse_loop_close close_node_def parse_loop.simps(1) xs)
  finally show "parse chars = Inr n"
    by (simp add: parse_def t(1) parse_loop_blank [OF t(2)] parse_loop.simps(2) [of "CHR ''(''"] MAX_NESTING_def)
qed

section \<open>The writer writes the grammar\<close>

text \<open>A tree as the reader gives it: a bare atom is one token.\<close>

fun well_formed :: "sexpr \<Rightarrow> bool" where
  "well_formed (Atom q chars) \<longleftrightarrow> q \<or> \<not> needs_quoting chars"
| "well_formed (Node ms) \<longleftrightarrow> list_all well_formed ms"

lemma bare_text_iff: "bare_text chars \<longleftrightarrow> \<not> needs_quoting chars"
  by (auto simp: bare_text_def needs_quoting_def list_all_iff list_ex_iff)

lemma items_well_formed: "items s xs \<Longrightarrow> list_all well_formed xs"
  by (induction rule: items.induct) (simp_all add: bare_text_iff)

lemma items_append:
  assumes "items s xs" and "items t ys" and "delimited t"
  shows "items (s @ t) (xs @ ys)"
  using assms(1)
proof induction
  case (bare_atom a s xs)
  then show ?case using items.bare_atom [of a "s @ t" "xs @ ys"] assms(3) by (simp add: delimited_append)
next
  case (string q v s xs)
  then show ?case using items.string [of q v "s @ t" "xs @ ys"] by simp
next
  case (node s xs u zs)
  then show ?case using items.node [of s xs "u @ t" "zs @ ys"] by simp
qed (use assms(2) in \<open>auto intro: items.blank\<close>)

lemma quoted_text_escape: "quoted_text (concat (map escape chars)) chars"
proof (induction chars)
  case (Cons c chars)
  consider "c = backslash" | "c = double_quote" | "c = newline" | "c = tab" | "c = carriage_return"
    | "c \<noteq> backslash" "c \<noteq> double_quote" "escape c = [c]" by (metis escape_def)
  then show ?case
  proof cases
    case 6
    then show ?thesis using quoted_text.plain [OF _ _ Cons.IH] by simp
  qed (use quoted_text.escaped [OF _ Cons.IH] in \<open>simp add: escape_def unescape_def\<close>)+
qed (simp add: quoted_text.end_of_text)

lemma items_emit_atom: "well_formed (Atom q chars) \<Longrightarrow> items (emit_atom (Atom q chars)) [Atom q chars]"
  using items.string [OF quoted_text_escape items.nothing, of chars] items.bare_atom [OF _ _ items.nothing, of chars]
  by (auto simp: bare_text_iff delimited_def)

lemma items_join:
  assumes "\<And>x. x \<in> set xs \<Longrightarrow> items (f x) [x]" and "white c"
  shows "items (join [c] (map f xs)) xs"
  using assms(1)
proof (induction "[c]" "map f xs" arbitrary: xs rule: join.induct)
  case (3 s t ts)
  then obtain x y ys where xs: "xs = x # y # ys" by (cases xs; cases "tl xs") auto
  have "items (join [c] (map f (y # ys))) (y # ys)" by (rule 3(1)) (use 3(2,3) in \<open>simp_all add: xs\<close>)
  then have "items ([c] @ join [c] (map f (y # ys))) (y # ys)" using items.blank assms(2) by simp
  moreover have "delimited ([c] @ join [c] (map f (y # ys)))" using assms(2) by (simp add: delimited_def)
  ultimately have "items (f x @ [c] @ join [c] (map f (y # ys))) ([x] @ y # ys)"
    using 3(3) [of x] by (intro items_append) (simp_all add: xs)
  then show ?case by (simp add: xs)
qed (auto intro: items.nothing)

lemma items_pad: "items s xs \<Longrightarrow> items (pad indent @ s) xs"
  by (induction indent) (auto simp: pad_def intro!: items.blank)

lemma items_parens: "items s xs \<Longrightarrow> items (''('' @ s @ '')'') [Node xs]"
  using items.node [OF _ items.nothing, of s xs] by simp

lemma items_atoms: "list_all well_formed xs \<Longrightarrow> \<forall>x \<in> set xs. \<not> is_node x \<Longrightarrow> items (join '' '' (map emit_atom xs)) xs"
proof (rule items_join)
  fix x assume "list_all well_formed xs" "\<forall>x \<in> set xs. \<not> is_node x" "x \<in> set xs"
  then show "items (emit_atom x) [x]"
    by (cases x) (auto simp: list_all_iff is_node_def simp del: emit_atom.simps intro!: items_emit_atom)
qed simp

lemma join_lines: "join sep (s # ts @ [u]) = s @ sep @ (if ts = [] then [] else join sep ts @ sep) @ u"
  by (induction sep ts arbitrary: s rule: join.induct) simp_all

lemma items_render: "well_formed x \<Longrightarrow> items (render indent x) [x]"
proof (induction x arbitrary: indent)
  case (Atom q chars)
  then show ?case using items_emit_atom by (simp add: render.simps items_pad)
next
  case (Node ms)
  let ?hd = "takeWhile (\<lambda>x. \<not> is_node x) ms" and ?tl = "dropWhile (\<lambda>x. \<not> is_node x) ms"
  have wf: "list_all well_formed ms" using Node.prems by simp
  show ?case
  proof (cases "list_ex is_node ms")
    case False
    then have "items (''('' @ join '' '' (map emit_atom ms) @ '')'') [Node ms]"
      using wf by (intro items_parens items_atoms) (auto simp: list_ex_iff)
    then show ?thesis using False by (simp add: render.simps items_pad)
  next
    case True
    have first: "items (join '' '' (map emit_atom ?hd)) ?hd"
      using wf by (intro items_atoms) (auto simp: list_all_iff dest: set_takeWhileD)
    have "items (join [newline] (map (render (indent + 1)) ?tl)) ?tl"
      using Node.IH wf by (intro items_join) (auto simp: list_all_iff dest: set_dropWhileD)
    moreover have blanks: "items ([newline] @ pad indent) []"
      using items_pad [OF items.nothing, of indent] by (auto intro: items.blank)
    ultimately have "items (join [newline] (map (render (indent + 1)) ?tl) @ ([newline] @ pad indent)) (?tl @ [])"
      by (rule items_append) (simp add: delimited_def)
    then have "items (newline # (join [newline] (map (render (indent + 1)) ?tl) @ [newline] @ pad indent)) (?tl @ [])"
      by (intro items.blank) simp
    from items_append [OF first this] have body:
      "items (join '' '' (map emit_atom ?hd) @ [newline] @ join [newline] (map (render (indent + 1)) ?tl) @ [newline] @ pad indent) ms"
      by (simp add: delimited_def)
    have "?tl \<noteq> []" using True by (auto simp: list_ex_iff)
    then have "render indent (Node ms) = pad indent @ ''('' @ (join '' '' (map emit_atom ?hd) @ [newline]
        @ join [newline] (map (render (indent + 1)) ?tl) @ [newline] @ pad indent) @ '')''"
      using True by (simp add: render.simps join_lines [simplified])
    then show ?thesis using items_parens [OF body] by (simp add: items_pad)
  qed
qed

text \<open>
  C15: the contract of the module: what \<open>emit\<close> writes for a tree the reader can give reads back
  as that tree, with every atom's content, quoting and place, and so does the text of any document
  read and written again.
\<close>

theorem parse_emit:
  "(is_node n \<and> well_formed n \<and> nesting n \<le> MAX_NESTING \<longrightarrow> parse (emit n) = Inr n)
   \<and> (parse chars = Inr n \<longrightarrow> parse (emit n) = Inr n)"
proof -
  have "parse (emit n) = Inr n" if "is_node n" "well_formed n" "nesting n \<le> MAX_NESTING"
    using that items_render by (simp add: parse_accepts_the_grammar emit_def)
  then show ?thesis using items_well_formed [of chars "[n]"] by (auto simp: parse_accepts_the_grammar)
qed

theorem parse_emit_witness:
  "\<exists>n. parse ''(a \"b\" (c))'' = Inr n \<and> parse (emit n) = Inr n
     \<and> is_node (Node [Atom False ''a'']) \<and> parse (emit (Node [Atom False ''a''])) = Inr (Node [Atom False ''a''])"
proof -
  let ?n = "Node [Atom False ''a'', Atom True ''b'', Node [Atom False ''c'']]"
  have "parse ''(a \"b\" (c))'' = Inr ?n" by code_simp
  moreover have "is_node (Node [Atom False ''a'']) \<and> well_formed (Node [Atom False ''a'']) \<and> nesting (Node [Atom False ''a'']) \<le> MAX_NESTING"
    by code_simp
  ultimately show ?thesis
    using parse_emit [of ?n "''(a \"b\" (c))''"] parse_emit [of "Node [Atom False ''a'']" "[]"] by blast
qed

section \<open>Editing an entry\<close>

definition property_node :: "sexpr \<Rightarrow> bool" where
  "property_node x \<longleftrightarrow> is_node x \<and> head x = Some PROPERTY"

lemma is_property_iff: "is_property key child \<longleftrightarrow>
    (\<exists>q r x ms. child = Node (Atom q PROPERTY # Atom r key # x # ms))"
  by (cases "(key, child)" rule: is_property.cases) auto

definition with_value :: "string \<Rightarrow> sexpr \<Rightarrow> sexpr" where
  "with_value val child = Node (take 2 (members child) @ [Atom True val] @ drop 3 (members child))"

definition new_property :: "string \<Rightarrow> string \<Rightarrow> sexpr" where
  "new_property key val = Node [Atom False PROPERTY, Atom True key, Atom True val]"

lemma set_property_loop_skip:
  "replaced \<or> \<not> is_property key c \<Longrightarrow> set_property_loop key val (c # cs) out replaced last_index
     = set_property_loop key val cs (out @ [c]) replaced (if property_node c then int (length out) else last_index)"
  by (auto simp: Let_def property_node_def)

lemma set_property_loop_hit:
  "is_property key c \<Longrightarrow> set_property_loop key val (c # cs) out False last_index
     = set_property_loop key val cs (out @ [with_value val c]) True (if property_node c then int (length out) else last_index)"
  by (auto simp: Let_def property_node_def with_value_def)

declare set_property_loop.simps(2) [simp del]

lemma set_property_loop_found:
  "\<exists>i. set_property_loop key val cs out True last_index = (out @ cs, True, i)"
proof (induction cs arbitrary: out last_index)
  case (Cons c cs)
  from Cons [of "out @ [c]"] show ?case by (simp add: set_property_loop_skip)
qed simp

lemma set_property_loop_present:
  assumes "\<forall>x \<in> set pre. \<not> is_property key x" and "is_property key child"
  shows "\<exists>i. set_property_loop key val (pre @ child # post) out False last_index
    = (out @ pre @ with_value val child # post, True, i)"
  using assms(1)
proof (induction pre arbitrary: out last_index)
  case Nil
  then show ?case using assms(2) set_property_loop_found [of key val post "out @ [with_value val child]"]
    by (simp add: set_property_loop_hit)
next
  case (Cons x pre)
  from Cons.IH [of "out @ [x]"] Cons.prems show ?case by (simp add: set_property_loop_skip)
qed

lemma set_property_loop_absent:
  "\<forall>x \<in> set cs. \<not> is_property key x \<Longrightarrow>
   \<exists>j. set_property_loop key val cs out False last_index = (out @ cs, False, j)
     \<and> (j = last_index \<and> (\<forall>x \<in> set cs. \<not> property_node x)
        \<or> (\<exists>pre x post. cs = pre @ x # post \<and> property_node x \<and> (\<forall>y \<in> set post. \<not> property_node y)
             \<and> j = int (length out + length pre)))"
proof (induction cs arbitrary: out last_index)
  case (Cons c cs)
  let ?last = "if property_node c then int (length out) else last_index"
  obtain j where j: "set_property_loop key val cs (out @ [c]) False ?last = (out @ c # cs, False, j)"
    "j = ?last \<and> (\<forall>x \<in> set cs. \<not> property_node x)
        \<or> (\<exists>pre x post. cs = pre @ x # post \<and> property_node x \<and> (\<forall>y \<in> set post. \<not> property_node y)
             \<and> j = int (length (out @ [c]) + length pre))"
    using Cons.IH [of "out @ [c]" ?last] Cons.prems by auto
  have run: "set_property_loop key val (c # cs) out False last_index = (out @ c # cs, False, j)"
    using j(1) Cons.prems by (simp add: set_property_loop_skip)
  from j(2) show ?case
  proof
    assume *: "j = ?last \<and> (\<forall>x \<in> set cs. \<not> property_node x)"
    show ?thesis
    proof (cases "property_node c")
      case True
      then show ?thesis using * run by (intro exI [of _ j] conjI disjI2 exI [of _ "[]"] exI [of _ c] exI [of _ cs]) auto
    qed (use * run in auto)
  next
    assume "\<exists>pre x post. cs = pre @ x # post \<and> property_node x \<and> (\<forall>y \<in> set post. \<not> property_node y)
             \<and> j = int (length (out @ [c]) + length pre)"
    then obtain pre x post where "cs = pre @ x # post" "property_node x" "\<forall>y \<in> set post. \<not> property_node y"
      "j = int (length (out @ [c]) + length pre)" by blast
    then show ?thesis using run
      by (intro exI [of _ j] conjI disjI2 exI [of _ "c # pre"] exI [of _ x] exI [of _ post]) auto
  qed
qed simp

text \<open>An existing property keeps its place and its trailing nodes; a new one comes right after
  the last property.\<close>

lemma set_property_shape:
  obtains (replaced) pre child post where "node = pre @ child # post" "is_property key child" "\<forall>x \<in> set pre. \<not> is_property key x"
      "set_property node key val = pre @ with_value val child # post"
  | (added) pre post where "node = pre @ post" "\<forall>x \<in> set node. \<not> is_property key x"
      "set_property node key val = pre @ new_property key val # post"
      "\<forall>x \<in> set post. \<not> property_node x" "post = [] \<or> pre \<noteq> [] \<and> property_node (last pre)"
proof (cases "\<exists>x \<in> set node. is_property key x")
  case True
  then obtain pre child post where "node = pre @ child # post" "is_property key child" "\<forall>x \<in> set pre. \<not> is_property key x"
    by (metis split_list_first_prop)
  then show thesis using replaced set_property_loop_present [of pre key child val post "[]" "- 1"]
    by (auto simp: set_property_def)
next
  case False
  then obtain j where j: "set_property_loop key val node [] False (- 1) = (node, False, j)"
    and cases: "j = - 1 \<and> (\<forall>x \<in> set node. \<not> property_node x)
        \<or> (\<exists>pre x post. node = pre @ x # post \<and> property_node x \<and> (\<forall>y \<in> set post. \<not> property_node y) \<and> j = int (length pre))"
    using set_property_loop_absent [of node key val "[]" "- 1"] by auto
  from cases show thesis
  proof
    assume "j = - 1 \<and> (\<forall>x \<in> set node. \<not> property_node x)"
    then show thesis using added [of node "[]"] False by (simp add: set_property_def j new_property_def)
  next
    assume "\<exists>pre x post. node = pre @ x # post \<and> property_node x \<and> (\<forall>y \<in> set post. \<not> property_node y) \<and> j = int (length pre)"
    then obtain pre x post where "node = pre @ x # post" "property_node x" "\<forall>y \<in> set post. \<not> property_node y" "j = int (length pre)" by blast
    then show thesis using added [of "pre @ [x]" post] False j by (simp add: set_property_def new_property_def)
  qed
qed

lemma get_property_append:
  "\<forall>x \<in> set pre. \<not> is_property key x \<Longrightarrow> get_property (pre @ post) key = get_property post key"
  by (induction pre) auto

lemma get_property_cong:
  "get_property xs k = get_property ys k \<Longrightarrow> get_property (pre @ xs) k = get_property (pre @ ys) k"
  by (induction pre) (auto split: sexpr.split)

lemma get_property_skip: "\<not> is_property k x \<Longrightarrow> get_property (pre @ x # post) k = get_property (pre @ post) k"
  by (rule get_property_cong) simp

lemma with_value_property: "is_property key child \<Longrightarrow>
    is_property k (with_value v child) = (k = key) \<and> members (with_value v child) ! 2 = Atom True v \<and> is_property k child = (k = key)"
  by (auto simp: is_property_iff with_value_def)

lemma get_property_other:
  "k \<noteq> key \<Longrightarrow> is_property key child
   \<Longrightarrow> get_property (pre @ with_value v child # post) k = get_property (pre @ child # post) k"
  by (rule get_property_cong) (simp add: with_value_property)

text \<open>
  \<open>set_property\<close> then \<open>get_property\<close> gives the value set, every other property reads as before, the
  members outside the property are the same in the same order, a replaced property keeps
  its place and its trailing nodes, and a new one comes after the last property and before everything
  behind it.
\<close>

theorem set_property_sets:
  "get_property (set_property node key val) k = (if k = key then Some val else get_property node k)
   \<and> ((\<exists>pre child rest. node = pre @ child # rest \<and> is_property key child
          \<and> set_property node key val = pre @ with_value val child # rest)
      \<or> (\<exists>pre rest. node = pre @ rest \<and> (\<forall>x \<in> set rest. \<not> property_node x)
          \<and> set_property node key val = pre @ new_property key val # rest))"
proof (cases rule: set_property_shape [of node key val])
  case (replaced pre child post)
  have "get_property (set_property node key val) key = Some val"
    using replaced(2) by (simp add: replaced(3,4) get_property_append with_value_property)
  then show ?thesis using replaced(1,2,4) get_property_other [OF _ replaced(2), of k pre val post] by auto
next
  case (added pre post)
  have "is_property key (new_property key val)" "members (new_property key val) ! 2 = Atom True val"
    by (simp_all add: new_property_def )
  then have "get_property (set_property node key val) key = Some val"
    using added(1,2) unfolding added(3) by (simp add: get_property_append)
  moreover have "\<not> is_property k (new_property key val)" if "k \<noteq> key"
    using that by (simp add: new_property_def )
  then have "get_property (set_property node key val) k = get_property node k" if "k \<noteq> key"
    using that unfolding added(3) by (simp add: added(1) get_property_skip)
  ultimately show ?thesis using added(1,3,4) by (cases "k = key") (simp_all, blast+)
qed

theorem set_property_sets_witness:
  "get_property (set_property [bare ''symbol'', new_property ''Value'' ''10k'', bare ''x''] ''MPN'' ''R1'') ''Value'' = Some ''10k''"
  using set_property_sets [of "[bare ''symbol'', new_property ''Value'' ''10k'', bare ''x'']" "''MPN''" "''R1''" "''Value''"]
  by (auto simp: new_property_def bare_def PROPERTY_def)

lemma is_model_iff: "is_model child \<longleftrightarrow> (\<exists>q r p ms. child = Node (Atom q MODEL # Atom r p # ms))"
  by (cases child rule: is_model.cases) auto

text \<open>
  rewriting the model references maps the paths in order, dropping those without a
  replacement, and leaves every other member alone; an appended model comes last.
\<close>

theorem rewrite_model_paths_maps:
  "model_paths (rewrite_model_paths fn node) = List.map_filter fn (model_paths node)
   \<and> filter (\<lambda>x. \<not> is_model x) (rewrite_model_paths fn node) = filter (\<lambda>x. \<not> is_model x) node
   \<and> model_paths (append_model node path) = model_paths node @ [path]"
proof -
  have "model_paths (rewrite_model_paths fn node) = List.map_filter fn (model_paths node)
   \<and> filter (\<lambda>x. \<not> is_model x) (rewrite_model_paths fn node) = filter (\<lambda>x. \<not> is_model x) node"
  proof (induction node)
    case (Cons child node)
    show ?case
    proof (cases "is_model child")
      case True
      then obtain q r p ms where child: "child = Node (Atom q MODEL # Atom r p # ms)" by (auto simp: is_model_iff)
      show ?thesis using Cons by (cases "fn p")
        (simp_all add: rewrite_model_paths_def model_paths_def List.map_filter_def child)
    next
      case False
      then show ?thesis using Cons by (simp add: rewrite_model_paths_def model_paths_def List.map_filter_def)
    qed
  qed (simp add: rewrite_model_paths_def model_paths_def)
  moreover have "model_paths (append_model node path) = model_paths node @ [path]"
    by (simp add: append_model_def model_paths_def bare_def)
  ultimately show ?thesis by blast
qed

section \<open>Renaming\<close>

text \<open>
  renaming an entry and renaming it back gives the entry, units included, when its name and those
  of its units are quoted and no unit already follows the new name only.
\<close>

theorem rename_back:
  assumes "entry_name node = Inr old" and "rename node new = Inr node'"
    and "quoted (node ! 1)" and "\<And>c t. c \<in> set (drop 2 node) \<Longrightarrow> unit_name old c = Some t \<Longrightarrow> quoted (members c ! 1)"
    and "\<And>c. c \<in> set (drop 2 node) \<Longrightarrow> unit_name new c \<noteq> None \<Longrightarrow> unit_name old c \<noteq> None"
  shows "entry_name node' = Inr new \<and> rename node' old = Inr node"
proof -
  obtain h rest where node: "node = h # Atom True old # rest"
    using assms(1,3) by (auto simp: entry_name_def split: list.splits sexpr.splits)
  define there where "there = (\<lambda>child. case unit_name old child of None \<Rightarrow> child
         | Some t \<Rightarrow> Node (with_name (members child) (new @ drop (length old) t)))"
  define undo where "undo = (\<lambda>child. case unit_name new child of None \<Rightarrow> child
         | Some t \<Rightarrow> Node (with_name (members child) (old @ drop (length new) t)))"
  have node': "node' = h # Atom True new # map there rest"
    using assms(1,2) by (simp add: rename_def node there_def)
  have "undo (there c) = c" if c: "c \<in> set rest" for c
  proof (cases "unit_name old c")
    case None
    moreover have "unit_name new c \<noteq> None \<Longrightarrow> unit_name old c \<noteq> None" using assms(5) [of c] c by (simp add: node)
    ultimately have "unit_name new c = None" by blast
    then show ?thesis using None by (simp add: there_def undo_def)
  next
    case (Some t)
    then obtain q ms where cc: "c = Node (Atom q SYMBOL_ROOT # Atom True t # ms)" and t: "take (length old + 1) t = old @ ''_''"
      using assms(4) [of c] c
      by (auto simp: node unit_name_def is_node_def head_def entry_name_def split: if_splits sexpr.splits list.splits sum.splits)
    have d: "drop (length old) t = ''_'' @ drop (length old + 1) t"
      using append_take_drop_id [of "length old + 1" t, unfolded t] by (metis append.assoc append_eq_conv_conj)
    then have "t = old @ drop (length old) t" using append_take_drop_id [of "length old + 1" t, unfolded t] by simp
    then show ?thesis using t
      by (simp add: there_def undo_def Some cc with_name_def unit_name_def is_node_def head_def entry_name_def d)
  qed
  then have "map undo (map there rest) = rest" by (simp add: map_idI)
  then show ?thesis using node' by (simp add: rename_def entry_name_def node undo_def)
qed

theorem rename_back_witness:
  "\<exists>node'. rename [Atom False ''symbol'', Atom True ''R'', Node [Atom False ''symbol'', Atom True ''R_1_1'']] ''C'' = Inr node'
     \<and> entry_name node' = Inr ''C''
     \<and> rename node' ''R'' = Inr [Atom False ''symbol'', Atom True ''R'', Node [Atom False ''symbol'', Atom True ''R_1_1'']]"
proof -
  let ?unit = "Node [Atom False ''symbol'', Atom True ''R_1_1'']"
  have units: "unit_name ''R'' ?unit = Some ''R_1_1''" "unit_name ''C'' ?unit = None" by code_simp+
  show ?thesis
    using rename_back [of "[Atom False ''symbol'', Atom True ''R'', ?unit]" "''R''" "''C''"] units
    by (auto simp: rename_def entry_name_def)
qed

end
