(* ===== verification/PyUuid.thy ===== *)
theory PyUuid
  imports PyText
begin

text \<open>
  \<open>uuid.UUID(s)\<close> of Python's standard library, and that it reads back what \<open>str\<close> of a UUID writes.
\<close>

section \<open>\<open>uuid.UUID\<close>\<close>

fun remove_word :: "string \<Rightarrow> string \<Rightarrow> string" where
  "remove_word w [] = []"
| "remove_word w (c # cs) =
     (if w \<noteq> [] \<and> take (length w) (c # cs) = w then remove_word w (drop (length w - 1) cs)
      else c # remove_word w cs)"

definition strip_braces :: "string \<Rightarrow> string" where
  "strip_braces s = (let brace = (\<lambda>c. c = CHR ''{'' \<or> c = CHR ''}'') in
     rev (dropWhile brace (rev (dropWhile brace s))))"

definition hex_val :: "char \<Rightarrow> nat option" where
  "hex_val c = (let n = (of_char c :: nat) in
     if 48 \<le> n \<and> n \<le> 57 then Some (n - 48) else if 97 \<le> n \<and> n \<le> 102 then Some (n - 87)
     else if 65 \<le> n \<and> n \<le> 70 then Some (n - 55) else None)"

text \<open>The digits of \<open>int(s, 16)\<close>: single underscores may stand between them.\<close>

fun hex_digits :: "bool \<Rightarrow> nat \<Rightarrow> string \<Rightarrow> nat option" where
  "hex_digits after_digit acc [] = (if after_digit then Some acc else None)"
| "hex_digits after_digit acc (c # cs) =
     (if c = CHR ''_'' then (if after_digit then hex_digits False acc cs else None)
      else case hex_val c of None \<Rightarrow> None | Some v \<Rightarrow> hex_digits True (16 * acc + v) cs)"

text \<open>\<open>int(s, 16)\<close> for a text without a minus sign.\<close>

definition int16 :: "string \<Rightarrow> nat option" where
  "int16 s = (let t = strip s; u = (if take 1 t = ''+'' then drop 1 t else t) in
     if take 2 u = ''0x'' \<or> take 2 u = ''0X''
     then hex_digits False 0 (if take 1 (drop 2 u) = ''_'' then drop 3 u else drop 2 u)
     else hex_digits False 0 u)"

definition uuid_of_str :: "string \<Rightarrow> uuid option" where
  "uuid_of_str s =
     (let h = filter (\<lambda>c. c \<noteq> CHR ''-'') (strip_braces (remove_word ''uuid:'' (remove_word ''urn:'' s))) in
      if length h \<noteq> 32 then None else int16 h)"

section \<open>Reading back\<close>

text \<open>The digits \<open>str\<close> writes; a constant, so that the set is not unfolded into its elements.\<close>

definition hex_chars :: "char set" where
  "hex_chars = set ''0123456789abcdef''"

abbreviation hex_text :: "string \<Rightarrow> bool" where
  "hex_text s \<equiv> set s \<subseteq> hex_chars"

lemma hex_char:
  assumes "c \<in> hex_chars"
  shows "hex_val c \<noteq> None" "c \<noteq> CHR ''_''" "c \<noteq> CHR ''-''" "c \<noteq> CHR ''u''" "c \<noteq> CHR ''x''" "c \<noteq> CHR ''X''" "c \<noteq> CHR ''+''"
    "c \<noteq> CHR ''{''" "c \<noteq> CHR ''}''" "\<not> is_space c"
  using assms by (auto simp: hex_chars_def hex_val_def is_space_def)

lemma not_hex_char [simp]:
  "CHR ''-'' \<notin> hex_chars" "CHR ''u'' \<notin> hex_chars" "CHR ''{'' \<notin> hex_chars" "CHR ''}'' \<notin> hex_chars"
  by (auto dest: hex_char)

lemma hex_digit: "d < 16 \<Longrightarrow> hex_val (''0123456789abcdef'' ! d) = Some d \<and> ''0123456789abcdef'' ! d \<in> hex_chars"
  by (auto simp: hex_val_def hex_chars_def numeral_eq_Suc less_Suc_eq)

lemma hex_fixed_length: "length (hex_fixed k n) = k"
  by (induction k arbitrary: n) auto

lemma hex_fixed_text: "hex_text (hex_fixed k n)"
proof (induction k arbitrary: n)
  case (Suc k)
  then show ?case using hex_digit [of "n mod 16"] by simp
qed simp

lemma hex_digits_text:
  "hex_text s \<Longrightarrow> s \<noteq> [] \<Longrightarrow> hex_digits b acc s = Some (foldl (\<lambda>a c. 16 * a + the (hex_val c)) acc s)"
proof (induction s arbitrary: b acc)
  case (Cons c s)
  have c: "c \<in> hex_chars" and s: "hex_text s" using Cons.prems(1) by auto
  from hex_char(1,2) [OF c] obtain v where "hex_val c = Some v" "c \<noteq> CHR ''_''" by blast
  then show ?case using Cons.IH [OF s] by (cases s) auto
qed simp

lemma hex_fixed_value:
  "foldl (\<lambda>a c. 16 * a + the (hex_val c)) acc (hex_fixed k n) = acc * 16 ^ k + n mod 16 ^ k"
proof (induction k arbitrary: n)
  case (Suc k)
  have "n mod 16 ^ Suc k = 16 * (n div 16 mod 16 ^ k) + n mod 16"
    by (metis mod_mult2_eq power_Suc add.commute)
  then show ?case using Suc [of "n div 16"] hex_digit [of "n mod 16"] by (simp add: algebra_simps)
qed simp

lemma remove_word_absent: "hd w \<notin> set s \<Longrightarrow> remove_word w s = s"
  by (induction w s rule: remove_word.induct) (auto simp: neq_Nil_conv)

lemma dropWhile_absent: "\<forall>c \<in> set s. \<not> P c \<Longrightarrow> dropWhile P s = s"
  by (cases s) auto

lemma strip_absent: "\<forall>c \<in> set s. \<not> is_space c \<Longrightarrow> strip s = s"
  by (simp add: strip_def dropWhile_absent)

lemma strip_braces_absent: "CHR ''{'' \<notin> set s \<Longrightarrow> CHR ''}'' \<notin> set s \<Longrightarrow> strip_braces s = s"
  unfolding strip_braces_def Let_def by (subst dropWhile_absent, force)+ simp

definition dashed :: "string \<Rightarrow> string" where
  "dashed h = take 8 h @ ''-'' @ take 4 (drop 8 h) @ ''-'' @ take 4 (drop 12 h) @ ''-''
     @ take 4 (drop 16 h) @ ''-'' @ drop 20 h"

lemma uuid_str_dashed: "uuid_str u = dashed (hex_fixed 32 u)"
  by (simp only: uuid_str_def dashed_def Let_def)

lemma dashed_set: "hex_text h \<Longrightarrow> set (dashed h) \<subseteq> insert (CHR ''-'') hex_chars"
  unfolding dashed_def by (auto dest!: in_set_takeD in_set_dropD)

lemma take_drop_add: "take m (drop n xs) @ drop (n + m) xs = drop n xs"
  by (metis append_take_drop_id drop_drop add.commute)

lemma pieces: "take 8 h @ take 4 (drop 8 h) @ take 4 (drop 12 h) @ take 4 (drop 16 h) @ drop 20 h = h"
  using take_drop_add [of 4 16 h] take_drop_add [of 4 12 h] take_drop_add [of 4 8 h] by simp

lemma dashed_digits:
  assumes "hex_text h"
  shows "filter (\<lambda>c. c \<noteq> CHR ''-'') (dashed h) = h"
proof -
  have keep: "filter (\<lambda>c. c \<noteq> CHR ''-'') s = s" if "set s \<subseteq> set h" for s
    by (rule filter_True) (use that assms hex_char(3) in blast)
  have sub: "set (take n (drop m h)) \<subseteq> set h" "set (drop m h) \<subseteq> set h" "set (take n h) \<subseteq> set h" for n m
    by (auto dest: in_set_takeD in_set_dropD)
  show ?thesis unfolding dashed_def by (simp add: keep [OF sub(1)] keep [OF sub(2)] keep [OF sub(3)] pieces)
qed

lemma int16_text:
  assumes "hex_text h" "2 \<le> length h"
  shows "int16 h = hex_digits False 0 h"
proof -
  obtain a b t where h: "h = a # b # t" using assms(2) by (cases h; cases "tl h") auto
  have "strip h = h" by (rule strip_absent) (use assms(1) hex_char(10) in blast)
  moreover have "a \<noteq> CHR ''+''" "b \<noteq> CHR ''x''" "b \<noteq> CHR ''X''" using assms(1) hex_char by (auto simp: h)
  ultimately show ?thesis by (simp add: int16_def Let_def h)
qed

lemma uuid_of_uuid_str:
  assumes "u < 2 ^ 128"
  shows "uuid_of_str (uuid_str u) = Some u"
proof -
  define h where "h = hex_fixed 32 u"
  have h: "hex_text h" "length h = 32" by (simp_all only: h_def hex_fixed_text hex_fixed_length)
  have no: "CHR ''u'' \<notin> set (dashed h)" "CHR ''{'' \<notin> set (dashed h)" "CHR ''}'' \<notin> set (dashed h)"
    using dashed_set [OF h(1)] by auto
  have "h \<noteq> []" using h(2) by auto
  then have "int16 h = Some u"
    using int16_text [OF h(1)] hex_digits_text [OF h(1), of False 0] h(2) hex_fixed_value [of 0 32 u] assms
    by (auto simp: h_def)
  then show ?thesis
    by (simp add: uuid_of_str_def uuid_str_dashed remove_word_absent strip_braces_absent no
        dashed_digits [OF h(1)] h flip: h_def)
qed

text \<open>\<open>UUID(u.hex)\<close> is \<open>u\<close>.\<close>

lemma uuid_of_hex:
  assumes "u < 2 ^ 128"
  shows "uuid_of_str (hex_fixed 32 u) = Some u"
proof -
  define h where "h = hex_fixed 32 u"
  have h: "hex_text h" "length h = 32" by (simp_all only: h_def hex_fixed_text hex_fixed_length)
  have no: "CHR ''u'' \<notin> set h" "CHR ''{'' \<notin> set h" "CHR ''}'' \<notin> set h" "CHR ''-'' \<notin> set h"
    using h(1) by auto
  have "filter (\<lambda>c. c \<noteq> CHR ''-'') h = h" by (rule filter_True) (use no(4) in blast)
  moreover have "h \<noteq> []" using h(2) by auto
  then have "int16 h = Some u"
    using int16_text [OF h(1)] hex_digits_text [OF h(1), of False 0] h(2) hex_fixed_value [of 0 32 u] assms
    by (auto simp: h_def)
  ultimately show ?thesis
    by (simp add: uuid_of_str_def remove_word_absent strip_braces_absent no h flip: h_def)
qed

end
