(* ===== verification/Pagination.thy ===== *)
theory Pagination
  imports PyUuid
begin

text \<open>
  \<open>core/pagination.py\<close>: signed cursors and the two keyset paginators. The signer is
  \<open>itsdangerous.URLSafeSerializer\<close>, a parameter (\<open>dumps\<close>, \<open>loads\<close>); a statement is the list of
  rows it selects; sort values are of any linear order \<open>'k\<close> (the column type with its collation),
  \<open>None\<close> is SQL NULL, and how a value is written into a cursor and bound again
  (\<open>str\<close>/\<open>isoformat\<close>, the decoders) is a parameter of the paginators, as it is of the code's.
\<close>

section \<open>Payloads\<close>

text \<open>A JSON value; a number is kept by its text.\<close>

datatype json = J_null | J_bool bool | J_num string | J_str string | J_list "json list"
  | J_obj "(string \<times> json) list"

datatype loads_error = Bad_signature | Loads_failed

datatype page_error =
  Tampered_cursor | Malformed_cursor | Malformed_payload | Wrong_sort  \<comment> \<open>HTTP 400, by detail\<close>
| Attribute_error        \<comment> \<open>an exception the handler does not catch: HTTP 500\<close>
| Bind_error             \<comment> \<open>a value the database cannot compare with the column\<close>

section \<open>Cursors\<close>

record cursor =
  c_id :: uuid
  c_sort_key :: json             \<comment> \<open>\<open>J_null\<close> is None\<close>
  c_sort_keys :: "json list option"
  c_scope :: "string option"

definition max_page_limit :: int where "max_page_limit = 200"

definition cursor_payload :: "cursor \<Rightarrow> (string \<times> json) list" where
  "cursor_payload c =
     [(''id'', J_str (uuid_str (c_id c)))]
     @ (if c_sort_key c \<noteq> J_null then [(''sk'', c_sort_key c)] else [])
     @ (case c_sort_keys c of None \<Rightarrow> [] | Some ks \<Rightarrow> [(''sks'', J_list ks)])
     @ (case c_scope c of None \<Rightarrow> [] | Some s \<Rightarrow> [(''sc'', J_str s)])"

definition encode_cursor :: "(json \<Rightarrow> string) \<Rightarrow> cursor \<Rightarrow> string" where
  "encode_cursor dumps c = dumps (J_obj (cursor_payload c))"

definition is_ascii :: "string \<Rightarrow> bool" where
  "is_ascii s = list_all (\<lambda>c. (of_char c :: nat) < 128) s"

text \<open>\<open>payload.get\<close> on a payload that is not a dict is an \<open>AttributeError\<close>, and so is \<open>UUID\<close> of a
  value that has no \<open>replace\<close>.\<close>

definition dict_get :: "(string \<times> json) list \<Rightarrow> string \<Rightarrow> json" where
  "dict_get m k = (case map_of m k of None \<Rightarrow> J_null | Some v \<Rightarrow> v)"

definition payload_keys :: "(string \<times> json) list \<Rightarrow> page_error + json list option" where
  "payload_keys m = (case dict_get m ''sks'' of J_null \<Rightarrow> Inr None | J_list ks \<Rightarrow> Inr (Some ks)
     | _ \<Rightarrow> Inl Malformed_payload)"

definition payload_scope :: "(string \<times> json) list \<Rightarrow> page_error + string option" where
  "payload_scope m = (case dict_get m ''sc'' of J_null \<Rightarrow> Inr None | J_str s \<Rightarrow> Inr (Some s)
     | _ \<Rightarrow> Inl Malformed_payload)"

definition payload_id :: "(string \<times> json) list \<Rightarrow> page_error + uuid" where
  "payload_id m = (case map_of m ''id'' of None \<Rightarrow> Inl Malformed_payload
     | Some J_null \<Rightarrow> Inl Malformed_payload
     | Some (J_str s) \<Rightarrow> (case uuid_of_str s of None \<Rightarrow> Inl Malformed_payload | Some u \<Rightarrow> Inr u)
     | Some _ \<Rightarrow> Inl Attribute_error)"

definition cursor_of_payload :: "json \<Rightarrow> page_error + cursor" where
  "cursor_of_payload payload = (case payload of
     J_obj m \<Rightarrow>
       bindr (payload_keys m) (\<lambda>raw_keys.
       bindr (payload_scope m) (\<lambda>raw_scope.
       bindr (payload_id m) (\<lambda>u.
       Inr \<lparr>c_id = u, c_sort_key = dict_get m ''sk'', c_sort_keys = raw_keys, c_scope = raw_scope\<rparr>)))
   | _ \<Rightarrow> Inl Attribute_error)"

text \<open>\<open>hmac.compare_digest\<close> raises on a text that is not ASCII, which the handler reports as malformed.\<close>

definition decode_cursor ::
    "(json \<Rightarrow> string) \<Rightarrow> (string \<Rightarrow> loads_error + json) \<Rightarrow> string \<Rightarrow> page_error + cursor" where
  "decode_cursor dumps loads s = (case loads s of
     Inl Bad_signature \<Rightarrow> Inl Tampered_cursor
   | Inl Loads_failed \<Rightarrow> Inl Malformed_cursor
   | Inr payload \<Rightarrow>
       if \<not> (is_ascii s \<and> is_ascii (dumps payload)) then Inl Malformed_cursor
       else if s \<noteq> dumps payload then Inl Tampered_cursor
       else cursor_of_payload payload)"

text \<open>A cursor of the other shape, or of another sort, is refused.\<close>

definition refuse_wrong_cursor :: "cursor option \<Rightarrow> bool \<Rightarrow> string option \<Rightarrow> page_error + unit" where
  "refuse_wrong_cursor cur wants_composite scope = (case cur of None \<Rightarrow> Inr ()
     | Some c \<Rightarrow> if (c_sort_keys c \<noteq> None) \<noteq> wants_composite \<or> c_scope c \<noteq> scope then Inl Wrong_sort
                 else Inr ())"

section \<open>Order\<close>

text \<open>\<open>ORDER BY\<close> with the order \<open>before\<close> of the sort keys.\<close>

fun insert_by :: "('k \<Rightarrow> 'k \<Rightarrow> bool) \<Rightarrow> ('r \<Rightarrow> 'k) \<Rightarrow> 'r \<Rightarrow> 'r list \<Rightarrow> 'r list" where
  "insert_by before key x [] = [x]"
| "insert_by before key x (y # ys) =
     (if before (key y) (key x) then y # insert_by before key x ys else x # y # ys)"

definition order_by :: "('k \<Rightarrow> 'k \<Rightarrow> bool) \<Rightarrow> ('r \<Rightarrow> 'k) \<Rightarrow> 'r list \<Rightarrow> 'r list" where
  "order_by before key rows = foldr (insert_by before key) rows []"

text \<open>\<open>expr ASC/DESC NULLS LAST\<close>.\<close>

fun nulls_last_before :: "bool \<Rightarrow> 'k::linorder option \<Rightarrow> 'k option \<Rightarrow> bool" where
  "nulls_last_before asc (Some a) (Some b) = (if asc then a < b else b < a)"
| "nulls_last_before asc (Some a) None = True"
| "nulls_last_before asc None b = False"

text \<open>\<open>ORDER BY col ASC, id ASC\<close> and \<open>col DESC, id DESC\<close>; ascending sorts NULLs last, descending first.\<close>

definition col_before :: "bool \<Rightarrow> 'k::linorder option \<times> uuid \<Rightarrow> 'k option \<times> uuid \<Rightarrow> bool" where
  "col_before asc a b = (let (v, i) = (if asc then a else b); (w, j) = (if asc then b else a) in
     nulls_last_before True v w \<or> v = w \<and> i < j)"

text \<open>\<open>ORDER BY e1 NULLS LAST, ..., en NULLS LAST, id ASC\<close>.\<close>

fun keys_before :: "bool \<Rightarrow> 'k::linorder option list \<times> uuid \<Rightarrow> 'k option list \<times> uuid \<Rightarrow> bool" where
  "keys_before asc ([], i) ([], j) = (i < j)"
| "keys_before asc ([], i) (y # ys, j) = True"
| "keys_before asc (x # xs, i) ([], j) = False"
| "keys_before asc (x # xs, i) (y # ys, j) =
     (nulls_last_before asc x y \<or> x = y \<and> keys_before asc (xs, i) (ys, j))"

section \<open>\<open>paginate\<close>\<close>

definition clamp_limit :: "int \<Rightarrow> nat" where
  "clamp_limit limit = nat (min (max limit 1) max_page_limit)"

text \<open>The tuple comparison of the seek; comparing with NULL selects nothing, \<open>==\<close> None is IS NULL.\<close>

definition seek_clause :: "bool \<Rightarrow> 'k::linorder option \<Rightarrow> uuid \<Rightarrow> 'k option \<Rightarrow> uuid \<Rightarrow> bool" where
  "seek_clause asc bound cursor_id col i = (case bound of
     None \<Rightarrow> col = None \<and> (if asc then cursor_id < i else i < cursor_id)
   | Some b \<Rightarrow> (case col of None \<Rightarrow> False
       | Some a \<Rightarrow> if asc then b < a \<or> a = b \<and> cursor_id < i else a < b \<or> a = b \<and> i < cursor_id))"

text \<open>One row more than the page is fetched to see whether there is a next page.\<close>

definition cut_page :: "nat \<Rightarrow> 'r list \<Rightarrow> 'r list \<times> 'r option" where
  "cut_page limit hits = (let rows = take (limit + 1) hits; has_more = limit < length rows;
     rows = (if has_more then take limit rows else rows)
     in (rows, if has_more \<and> rows \<noteq> [] then Some (last rows) else None))"

definition bind_sort_key :: "(json \<Rightarrow> 'k option) \<Rightarrow> json \<Rightarrow> page_error + 'k option" where
  "bind_sort_key inflate sk = (if sk = J_null then Inr None
     else case inflate sk of None \<Rightarrow> Inl Bind_error | Some v \<Rightarrow> Inr (Some v))"

definition paginate ::
    "(json \<Rightarrow> string) \<Rightarrow> ('k::linorder \<Rightarrow> string) \<Rightarrow> (json \<Rightarrow> 'k option) \<Rightarrow> 'r list
     \<Rightarrow> ('r \<Rightarrow> 'k option) \<Rightarrow> ('r \<Rightarrow> uuid) \<Rightarrow> cursor option \<Rightarrow> int \<Rightarrow> bool
     \<Rightarrow> page_error + 'r list \<times> string option" where
  "paginate dumps sort_text inflate stmt sort_col id_col cur limit asc =
     (let limit = clamp_limit limit in
      bindr (refuse_wrong_cursor cur False None) (\<lambda>_.
      bindr (case cur of None \<Rightarrow> Inr stmt
        | Some c \<Rightarrow> bindr (bind_sort_key inflate (c_sort_key c)) (\<lambda>bound.
            Inr (filter (\<lambda>r. seek_clause asc bound (c_id c) (sort_col r) (id_col r)) stmt))) (\<lambda>stmt.
      let (rows, last_row) = cut_page limit (order_by (col_before asc) (\<lambda>r. (sort_col r, id_col r)) stmt) in
      Inr (rows, map_option (\<lambda>r. encode_cursor dumps
        \<lparr>c_id = id_col r,
         c_sort_key = (case sort_col r of None \<Rightarrow> J_null | Some v \<Rightarrow> J_str (sort_text v)),
         c_sort_keys = None, c_scope = None\<rparr>) last_row))))"

section \<open>\<open>paginate_keyset\<close>\<close>

text \<open>Cursor strings to bind values; \<open>decode i\<close> is the i-th decoder, \<open>None\<close> where it raises.\<close>

fun decode_items :: "(nat \<Rightarrow> json \<Rightarrow> 'k option) \<Rightarrow> nat \<Rightarrow> json list \<Rightarrow> page_error + 'k option list" where
  "decode_items decode index [] = Inr []"
| "decode_items decode index (item # items) =
     bindr (if item = J_null then Inr None
            else case decode index item of None \<Rightarrow> Inl Malformed_payload | Some v \<Rightarrow> Inr (Some v)) (\<lambda>v.
     bindr (decode_items decode (index + 1) items) (\<lambda>vs. Inr (v # vs)))"

definition decoded_seek :: "json list \<Rightarrow> (nat \<Rightarrow> json \<Rightarrow> 'k option) \<Rightarrow> nat \<Rightarrow> page_error + 'k option list" where
  "decoded_seek raw decode width =
     (if length raw \<noteq> width then Inl Wrong_sort else decode_items decode 0 raw)"

definition strictly_after :: "'k::linorder option \<Rightarrow> 'k option \<Rightarrow> bool \<Rightarrow> bool" where
  "strictly_after e v asc = (case v of None \<Rightarrow> False
     | Some b \<Rightarrow> (case e of None \<Rightarrow> True | Some a \<Rightarrow> if asc then b < a else a < b))"

definition same_as :: "'k option \<Rightarrow> 'k option \<Rightarrow> bool" where
  "same_as e v = (case v of None \<Rightarrow> e = None | Some b \<Rightarrow> e = Some b)"

text \<open>The legs of the seek for one row: its expression values zipped with the seek values.\<close>

fun seek_legs :: "bool \<Rightarrow> ('k::linorder option \<times> 'k option) list \<Rightarrow> bool list \<Rightarrow> bool \<Rightarrow> bool list" where
  "seek_legs asc [] prefix past_id = [list_all (\<lambda>b. b) (prefix @ [past_id])]"
| "seek_legs asc ((e, v) # evs) prefix past_id =
     list_all (\<lambda>b. b) (prefix @ [strictly_after e v asc]) # seek_legs asc evs (prefix @ [same_as e v]) past_id"

definition paginate_keyset ::
    "(json \<Rightarrow> string) \<Rightarrow> ('k::linorder \<Rightarrow> string) \<Rightarrow> 'r list \<Rightarrow> ('r \<Rightarrow> 'k option) list \<Rightarrow> ('r \<Rightarrow> uuid)
     \<Rightarrow> cursor option \<Rightarrow> int \<Rightarrow> bool \<Rightarrow> (nat \<Rightarrow> json \<Rightarrow> 'k option) \<Rightarrow> string option
     \<Rightarrow> page_error + 'r list \<times> string option" where
  "paginate_keyset dumps sort_text stmt sort_exprs id_col cur limit asc decode scope =
     (let limit = clamp_limit limit; values = (\<lambda>r. map (\<lambda>e. e r) sort_exprs) in
      bindr (refuse_wrong_cursor cur True scope) (\<lambda>_.
      bindr (case cur of None \<Rightarrow> Inr stmt
        | Some c \<Rightarrow> (case c_sort_keys c of None \<Rightarrow> Inr stmt
            | Some raw \<Rightarrow> bindr (decoded_seek raw decode (length sort_exprs)) (\<lambda>seek.
                Inr (filter (\<lambda>r. list_ex (\<lambda>b. b)
                  (seek_legs asc (zip (values r) seek) [] (c_id c < id_col r))) stmt)))) (\<lambda>stmt.
      let (rows, last_row) = cut_page limit (order_by (keys_before asc) (\<lambda>r. (values r, id_col r)) stmt) in
      Inr (rows, map_option (\<lambda>r. encode_cursor dumps
        \<lparr>c_id = id_col r, c_sort_key = J_null,
         c_sort_keys = Some (map (\<lambda>v. case v of None \<Rightarrow> J_null | Some v \<Rightarrow> J_str (sort_text v)) (values r)),
         c_scope = scope\<rparr>) last_row))))"

section \<open>Requests\<close>

text \<open>A request decodes its cursor and hands it to the paginator.\<close>

definition page_request ::
    "(json \<Rightarrow> string) \<Rightarrow> (string \<Rightarrow> loads_error + json) \<Rightarrow> (cursor option \<Rightarrow> page_error + 'a)
     \<Rightarrow> string option \<Rightarrow> page_error + 'a" where
  "page_request dumps loads pager tok =
     bindr (case tok of None \<Rightarrow> Inr None | Some s \<Rightarrow> bindr (decode_cursor dumps loads s) (\<lambda>c. Inr (Some c))) pager"

end
