(* ===== verification/PaginationProps.thy ===== *)
theory PaginationProps
  imports Pagination "HOL-Library.List_Lexorder" "HOL-Library.Char_ord" "HOL-Library.Countable"
begin

text \<open>
  Following the cursors enumerates a listing: over a table at rest every row once and in order,
  over a table that changes between the pages no row twice and no row missed that stays. The
  argument is made once, in the locale \<open>seek_order\<close>, for any order of the sort keys; both
  paginators refine its page.
\<close>

section \<open>Pages of an ordered listing\<close>

text \<open>The specification of a page: the first rows past a key, and the key to go on from.\<close>

definition seek_page :: "('k \<Rightarrow> 'k \<Rightarrow> bool) \<Rightarrow> ('r \<Rightarrow> 'k) \<Rightarrow> nat \<Rightarrow> 'k option \<Rightarrow> 'r list \<Rightarrow> 'r list \<times> 'k option" where
  "seek_page before key limit from_key rows =
     (let hits = order_by before key (filter (\<lambda>r. case from_key of None \<Rightarrow> True | Some k \<Rightarrow> before k (key r)) rows)
      in (take limit hits, if limit < length hits then Some (key (last (take limit hits))) else None))"

text \<open>A client that follows the keys; page \<open>n\<close> is served from the rows \<open>snap n\<close>.\<close>

fun seek_walk :: "('k \<Rightarrow> 'k \<Rightarrow> bool) \<Rightarrow> ('r \<Rightarrow> 'k) \<Rightarrow> nat \<Rightarrow> (nat \<Rightarrow> 'r list) \<Rightarrow> nat \<Rightarrow> nat \<Rightarrow> 'k option \<Rightarrow> 'r list option" where
  "seek_walk before key limit snap 0 n from_key = None"
| "seek_walk before key limit snap (Suc fuel) n from_key =
     (case seek_page before key limit from_key (snap n) of
        (rs, None) \<Rightarrow> Some rs
      | (rs, Some k) \<Rightarrow> map_option ((@) rs) (seek_walk before key limit snap fuel (Suc n) (Some k)))"

abbreviation past :: "('k \<Rightarrow> 'k \<Rightarrow> bool) \<Rightarrow> 'k option \<Rightarrow> 'k \<Rightarrow> bool" where
  "past before from_key k \<equiv> (case from_key of None \<Rightarrow> True | Some f \<Rightarrow> before f k)"

lemma mset_insert_by [simp]: "mset (insert_by before key x xs) = add_mset x (mset xs)"
  by (induction xs) auto

lemma mset_order_by [simp]: "mset (order_by before key xs) = mset xs"
  by (induction xs) (auto simp: order_by_def)

lemma set_order_by [simp]: "set (order_by before key xs) = set xs"
  by (metis mset_order_by set_mset_mset)

lemma length_order_by [simp]: "length (order_by before key xs) = length xs"
  by (metis mset_order_by size_mset)

lemma distinct_order_by [simp]: "distinct (order_by before key xs) = distinct xs"
  by (metis mset_order_by mset_eq_imp_distinct_iff)

lemma last_of_page: "0 < limit \<Longrightarrow> limit < length hits \<Longrightarrow> last (take limit hits) = hits ! (limit - 1)"
  by (subst last_conv_nth) auto

lemma in_set_drop: "r \<in> set (drop n xs) \<longleftrightarrow> (\<exists>i. n \<le> i \<and> i < length xs \<and> r = xs ! i)"
proof
  assume "r \<in> set (drop n xs)"
  then obtain j where "j < length xs - n" "r = xs ! (n + j)" by (auto simp: in_set_conv_nth)
  then show "\<exists>i. n \<le> i \<and> i < length xs \<and> r = xs ! i" by (intro exI [of _ "n + j"]) auto
next
  assume "\<exists>i. n \<le> i \<and> i < length xs \<and> r = xs ! i"
  then obtain i where "n \<le> i" "i < length xs" "r = xs ! i" by blast
  then show "r \<in> set (drop n xs)" by (auto simp: in_set_conv_nth intro!: exI [of _ "i - n"])
qed

locale seek_order =
  fixes before :: "'k \<Rightarrow> 'k \<Rightarrow> bool"
  assumes irreflexive: "\<not> before a a"
    and transitive: "before a b \<Longrightarrow> before b c \<Longrightarrow> before a c"
    and connected: "a \<noteq> b \<Longrightarrow> before a b \<or> before b a"
begin

lemma insert_by_sorted:
  "sorted_wrt (\<lambda>a b. before (key a) (key b)) xs \<Longrightarrow> key x \<notin> key ` set xs
   \<Longrightarrow> sorted_wrt (\<lambda>a b. before (key a) (key b)) (insert_by before key x xs)"
proof (induction xs)
  case (Cons y xs)
  have set_ins: "set (insert_by before key x xs) = insert x (set xs)"
    by (metis mset_insert_by set_mset_add_mset_insert set_mset_mset)
  show ?case
  proof (cases "before (key y) (key x)")
    case True
    then show ?thesis using Cons by (auto simp: set_ins)
  next
    case False
    then have "before (key x) (key y)" using connected [of "key x" "key y"] Cons.prems(2) by auto
    then show ?thesis using False Cons.prems by (auto intro: transitive)
  qed
qed simp

lemma order_by_sorted:
  "distinct xs \<Longrightarrow> inj_on key (set xs) \<Longrightarrow> sorted_wrt (\<lambda>a b. before (key a) (key b)) (order_by before key xs)"
proof (induction xs)
  case (Cons x xs)
  have "key x \<notin> key ` set (order_by before key xs)" using Cons.prems by (auto simp: inj_on_def)
  then show ?case using Cons insert_by_sorted by (fastforce simp: order_by_def)
qed (simp add: order_by_def)

lemma sorted_unique:
  "sorted_wrt (\<lambda>a b. before (key a) (key b)) xs \<Longrightarrow> sorted_wrt (\<lambda>a b. before (key a) (key b)) ys
   \<Longrightarrow> set xs = set ys \<Longrightarrow> xs = ys"
proof (induction xs arbitrary: ys)
  case (Cons x xs)
  then obtain y ys' where ys: "ys = y # ys'" by (cases ys) auto
  have "x = y"
  proof (rule ccontr)
    assume "x \<noteq> y"
    then have "x \<in> set ys'" "y \<in> set xs" using Cons.prems(3) by (auto simp: ys)
    then have "before (key y) (key x)" "before (key x) (key y)" using Cons.prems(1,2) by (auto simp: ys)
    then show False using irreflexive transitive by blast
  qed
  have no: "x \<notin> set xs" "x \<notin> set ys'"
    using Cons.prems(1,2) irreflexive [of "key x"] by (force simp: ys \<open>x = y\<close>)+
  then have "set xs = set ys'" using Cons.prems(3) \<open>x = y\<close> by (auto simp: ys)
  then have "xs = ys'" using Cons.IH [of ys'] Cons.prems(1,2) by (simp add: ys)
  then show ?case by (simp add: ys \<open>x = y\<close>)
qed simp

lemma sorted_distinct: "sorted_wrt (\<lambda>a b. before (key a) (key b)) xs \<Longrightarrow> distinct xs"
  by (induction xs) (use irreflexive in auto)

lemma sorted_nth_iff:
  assumes "sorted_wrt (\<lambda>a b. before (key a) (key b)) xs" "i < length xs" "j < length xs"
  shows "before (key (xs ! i)) (key (xs ! j)) \<longleftrightarrow> i < j"
proof (cases i j rule: linorder_cases)
  case less
  then show ?thesis using sorted_wrt_nth_less [OF assms(1)] assms(3) by simp
next
  case greater
  then have "before (key (xs ! j)) (key (xs ! i))" using sorted_wrt_nth_less [OF assms(1)] assms(2) by simp
  then show ?thesis using greater transitive irreflexive by (meson less_asym)
qed (simp add: irreflexive)

text \<open>What lies past the last row of a full page is the rest of the listing.\<close>

lemma rest_of_page:
  assumes "distinct rows" "inj_on key (set rows)" "0 < limit"
    and hits: "hits = order_by before key (filter (\<lambda>r. past before from_key (key r)) rows)"
    and "limit < length hits"
  shows "order_by before key (filter (\<lambda>r. before (key (last (take limit hits))) (key r)) rows) = drop limit hits"
proof (rule sorted_unique)
  have sorted: "sorted_wrt (\<lambda>a b. before (key a) (key b)) hits"
    unfolding hits by (rule order_by_sorted) (use assms(1,2) in \<open>auto intro: inj_on_subset\<close>)
  then show "sorted_wrt (\<lambda>a b. before (key a) (key b)) (drop limit hits)" by (rule sorted_wrt_drop)
  show "sorted_wrt (\<lambda>a b. before (key a) (key b))
      (order_by before key (filter (\<lambda>r. before (key (last (take limit hits))) (key r)) rows))"
    by (rule order_by_sorted) (use assms(1,2) in \<open>auto intro: inj_on_subset\<close>)
  note last = last_of_page [OF assms(3,5)]
  have "last (take limit hits) \<in> set hits" unfolding last using assms(3,5) by (intro nth_mem) simp
  moreover have "set hits = {r \<in> set rows. past before from_key (key r)}" by (simp add: hits)
  ultimately have past_last: "past before from_key (key (last (take limit hits)))" by blast
  have "r \<in> set rows \<and> before (key (last (take limit hits))) (key r) \<longleftrightarrow> r \<in> set (drop limit hits)" for r
  proof
    assume r: "r \<in> set rows \<and> before (key (last (take limit hits))) (key r)"
    then have "past before from_key (key r)" using past_last(1) transitive by (auto split: option.splits)
    then have "r \<in> set hits" using r by (simp add: hits)
    then obtain i where i: "i < length hits" "r = hits ! i" by (auto simp: in_set_conv_nth)
    then have "limit - 1 < i" using r sorted_nth_iff [OF sorted, of "limit - 1" i] assms(5) by (simp add: last)
    then show "r \<in> set (drop limit hits)"
      using i assms(3) by (auto simp: in_set_drop intro!: exI [of _ i])
  next
    assume "r \<in> set (drop limit hits)"
    then obtain i where i: "limit \<le> i" "i < length hits" "r = hits ! i" by (auto simp: in_set_drop)
    then have "r \<in> set rows" using nth_mem [of i hits] by (auto simp: hits)
    moreover have "before (key (last (take limit hits))) (key r)"
      using sorted_nth_iff [OF sorted, of "limit - 1" i] i assms(3) by (simp add: last)
    ultimately show "r \<in> set rows \<and> before (key (last (take limit hits))) (key r)" ..
  qed
  then show "set (order_by before key (filter (\<lambda>r. before (key (last (take limit hits))) (key r)) rows)) = set (drop limit hits)"
    by auto
qed

text \<open>Over rows at rest the walk ends and returns the listing.\<close>

lemma walk_at_rest:
  assumes "distinct rows" "inj_on key (set rows)" "0 < limit"
  shows "length (filter (\<lambda>r. past before from_key (key r)) rows) < fuel
    \<Longrightarrow> seek_walk before key limit (\<lambda>_. rows) fuel n from_key
      = Some (order_by before key (filter (\<lambda>r. past before from_key (key r)) rows))"
proof (induction fuel arbitrary: n from_key)
  case (Suc fuel)
  define hits where "hits = order_by before key (filter (\<lambda>r. past before from_key (key r)) rows)"
  show ?case
  proof (cases "limit < length hits")
    case True
    define k where "k = key (last (take limit hits))"
    have rest: "order_by before key (filter (\<lambda>r. past before (Some k) (key r)) rows) = drop limit hits"
      using rest_of_page [OF assms hits_def True] by (simp add: k_def)
    have "length (filter (\<lambda>r. past before (Some k) (key r)) rows) = length (drop limit hits)"
      using arg_cong [OF rest, of length] by simp
    then have "length (filter (\<lambda>r. past before (Some k) (key r)) rows) < fuel"
      using Suc.prems True assms(3) by (simp add: hits_def)
    from Suc.IH [OF this] rest True show ?thesis by (simp add: seek_page_def Let_def flip: hits_def k_def)
  next
    case False
    then show ?thesis by (simp add: seek_page_def Let_def flip: hits_def)
  qed
qed simp

text \<open>Over rows that come and go between the pages, nothing is served twice and nothing that stays is missed.\<close>

lemma walk_moving:
  assumes "\<And>m. distinct (snap m)" "\<And>m. inj_on key (set (snap m))" "0 < limit"
  shows "seek_walk before key limit snap fuel n from_key = Some rs \<Longrightarrow>
      sorted_wrt (\<lambda>a b. before (key a) (key b)) rs
      \<and> (\<forall>r \<in> set rs. past before from_key (key r) \<and> (\<exists>m. r \<in> set (snap m)))
      \<and> (\<forall>r. (\<forall>m. r \<in> set (snap m)) \<longrightarrow> past before from_key (key r) \<longrightarrow> r \<in> set rs)"
proof (induction fuel arbitrary: n from_key rs)
  case (Suc fuel)
  define hits where "hits = order_by before key (filter (\<lambda>r. past before from_key (key r)) (snap n))"
  have sorted: "sorted_wrt (\<lambda>a b. before (key a) (key b)) hits"
    unfolding hits_def by (rule order_by_sorted) (use assms(1,2) in \<open>auto intro: inj_on_subset\<close>)
  have in_hits: "r \<in> set hits \<longleftrightarrow> r \<in> set (snap n) \<and> past before from_key (key r)" for r
    by (auto simp: hits_def)
  show ?case
  proof (cases "limit < length hits")
    case True
    define k where "k = key (last (take limit hits))"
    from Suc.prems True obtain rest where rest: "seek_walk before key limit snap fuel (Suc n) (Some k) = Some rest"
      and rs: "rs = take limit hits @ rest"
      by (auto simp: seek_page_def Let_def simp flip: hits_def k_def)
    note ih = Suc.IH [OF rest]
    have k_nth: "k = key (hits ! (limit - 1))" unfolding k_def using last_of_page [OF assms(3) True] by simp
    have k_past: "past before from_key k" unfolding k_nth using in_hits nth_mem [of "limit - 1" hits] True by (metis less_imp_diff_less)
    have upto: "key a = k \<or> before (key a) k" if "a \<in> set (take limit hits)" for a
    proof -
      from that obtain i where i: "i < limit" "i < length hits" "a = hits ! i" by (auto simp: in_set_conv_nth)
      show ?thesis
      proof (cases "i = limit - 1")
        case False
        then have "i < limit - 1" using i by simp
        then show ?thesis using i sorted_nth_iff [OF sorted, of i "limit - 1"] True by (simp add: k_nth)
      qed (simp add: k_nth i)
    qed
    have dropped: "before k (key a)" if "a \<in> set (drop limit hits)" for a
    proof -
      from that obtain i where "limit \<le> i" "i < length hits" "a = hits ! i" by (auto simp: in_set_drop)
      then show ?thesis using sorted_nth_iff [OF sorted, of "limit - 1" i] assms(3) by (simp add: k_nth)
    qed
    have "sorted_wrt (\<lambda>a b. before (key a) (key b)) rs"
      unfolding rs sorted_wrt_append using sorted_wrt_take [OF sorted] ih upto transitive by fastforce
    moreover have "past before from_key (key r) \<and> (\<exists>m. r \<in> set (snap m))" if "r \<in> set rs" for r
      using that ih in_hits in_set_takeD [of r limit hits] k_past transitive
      by (auto simp: rs split: option.splits)
    moreover have "r \<in> set rs" if "\<forall>m. r \<in> set (snap m)" "past before from_key (key r)" for r
    proof -
      have "r \<in> set (take limit hits @ drop limit hits)" using that in_hits by simp
      then show ?thesis using ih that(1) dropped by (auto simp: rs simp del: append_take_drop_id)
    qed
    ultimately show ?thesis by blast
  next
    case False
    then have "rs = hits" using Suc.prems by (simp add: seek_page_def Let_def flip: hits_def)
    then show ?thesis using sorted in_hits by auto
  qed
qed simp

end

section \<open>The orders of the two paginators\<close>

lemma nulls_last_order:
  "\<not> nulls_last_before asc x x"
  "nulls_last_before asc x y \<Longrightarrow> nulls_last_before asc y z \<Longrightarrow> nulls_last_before asc x z"
  "x \<noteq> y \<Longrightarrow> nulls_last_before asc x y \<or> nulls_last_before asc y x"
  by (cases x; cases y; cases z; auto split: if_splits)+

interpretation column_order: seek_order "col_before asc" for asc :: bool
proof
  fix a b c :: "'a::linorder option \<times> uuid"
  show "\<not> col_before asc a a" by (cases a rule: prod.exhaust; cases "fst a") (auto simp: col_before_def)
  show "col_before asc a b \<Longrightarrow> col_before asc b c \<Longrightarrow> col_before asc a c"
    using nulls_last_order(2) [of True "fst a" "fst b" "fst c"] nulls_last_order(2) [of True "fst c" "fst b" "fst a"]
    by (cases asc) (auto simp: col_before_def split: prod.splits)
  show "a \<noteq> b \<Longrightarrow> col_before asc a b \<or> col_before asc b a"
    by (cases a; cases b; cases "fst a"; cases "fst b") (auto simp: col_before_def)
qed

interpretation keys_order: seek_order "keys_before asc" for asc :: bool
proof
  fix a b c :: "'a::linorder option list \<times> uuid"
  have "\<not> keys_before asc (xs, i) (xs, i)" for xs :: "'a option list" and i
    by (induction xs) (auto simp: nulls_last_order)
  then show "\<not> keys_before asc a a" by (cases a) simp
  have "keys_before asc (xs, i) (ys, j) \<Longrightarrow> keys_before asc (ys, j) (zs, k) \<Longrightarrow> keys_before asc (xs, i) (zs, k)"
    for xs ys zs :: "'a option list" and i j k
  proof (induction xs arbitrary: ys zs)
    case Nil
    then show ?case by (cases ys; cases zs) auto
  next
    case (Cons x xs)
    then show ?case by (cases ys; cases zs) (auto dest: nulls_last_order(2))
  qed
  then show "keys_before asc a b \<Longrightarrow> keys_before asc b c \<Longrightarrow> keys_before asc a c"
    by (cases a; cases b; cases c) blast
  have "(xs, i) \<noteq> (ys, j) \<Longrightarrow> keys_before asc (xs, i) (ys, j) \<or> keys_before asc (ys, j) (xs, i)"
    for xs ys :: "'a option list" and i j
  proof (induction xs arbitrary: ys)
    case Nil
    then show ?case by (cases ys) auto
  next
    case (Cons x xs)
    then show ?case by (cases ys) (auto dest: nulls_last_order(3))
  qed
  then show "a \<noteq> b \<Longrightarrow> keys_before asc a b \<or> keys_before asc b a"
    by (cases a; cases b) blast
qed

section \<open>Cursors\<close>

text \<open>
  What the code relies on of \<open>itsdangerous\<close>: the token of a cursor's payload is ASCII and
  loads as that payload.
\<close>

definition signer_ok :: "(json \<Rightarrow> string) \<Rightarrow> (string \<Rightarrow> loads_error + json) \<Rightarrow> bool" where
  "signer_ok dumps loads \<longleftrightarrow> (\<forall>c. let p = J_obj (cursor_payload c) in loads (dumps p) = Inr p \<and> is_ascii (dumps p))"

lemma payload_fields:
  "payload_keys (cursor_payload c) = Inr (c_sort_keys c)" "payload_scope (cursor_payload c) = Inr (c_scope c)"
  "dict_get (cursor_payload c) ''sk'' = c_sort_key c"
  "c_id c < 2 ^ 128 \<Longrightarrow> payload_id (cursor_payload c) = Inr (c_id c)"
  by (auto simp: cursor_payload_def payload_keys_def payload_scope_def dict_get_def payload_id_def uuid_of_uuid_str
      split: option.splits)

lemma decode_encode:
  assumes "signer_ok dumps loads" "c_id c < 2 ^ 128"
  shows "decode_cursor dumps loads (encode_cursor dumps c) = Inr c"
  using assms by (simp add: signer_ok_def Let_def decode_cursor_def encode_cursor_def cursor_of_payload_def payload_fields)

section \<open>Following the cursors\<close>

lemma page_request_token:
  "decode_cursor dumps loads tok = Inr c \<Longrightarrow> page_request dumps loads pager (Some tok) = pager (Some c)"
  by (simp add: page_request_def)

text \<open>A client that asks until there is no next cursor; the n-th request is answered by \<open>fetch n\<close>.\<close>

fun walk_pages :: "(nat \<Rightarrow> string option \<Rightarrow> 'e + 'r list \<times> string option) \<Rightarrow> nat \<Rightarrow> nat \<Rightarrow> string option \<Rightarrow> ('e + 'r list) option" where
  "walk_pages fetch 0 n tok = None"
| "walk_pages fetch (Suc fuel) n tok = (case fetch n tok of
       Inl e \<Rightarrow> Some (Inl e)
     | Inr (rs, None) \<Rightarrow> Some (Inr rs)
     | Inr (rs, Some t) \<Rightarrow> map_option (map_sum id ((@) rs)) (walk_pages fetch fuel (Suc n) (Some t)))"

text \<open>Where every request is the specified page, the walk is the specified walk.\<close>

lemma walk_refines:
  assumes page: "\<And>n from_key. P from_key \<Longrightarrow> fetch n (map_option token from_key)
      = Inr (apsnd (map_option token) (seek_page before key limit from_key (snap n)))"
    and keys: "\<And>n r. r \<in> set (snap n) \<Longrightarrow> P (Some (key r))" and "0 < limit"
  shows "P from_key \<Longrightarrow> walk_pages fetch fuel n (map_option token from_key)
      = map_option Inr (seek_walk before key limit snap fuel n from_key)"
proof (induction fuel arbitrary: n from_key)
  case (Suc fuel)
  note ih = Suc.IH [of "Some k" for k, simplified]
  obtain rs next_key where page_n: "seek_page before key limit from_key (snap n) = (rs, next_key)" by fastforce
  show ?case
  proof (cases next_key)
    case None
    then show ?thesis using page [OF Suc.prems] page_n by simp
  next
    case (Some k)
    define hits where "hits = order_by before key (filter (\<lambda>r. past before from_key (key r)) (snap n))"
    from page_n Some have k: "k = key (last (take limit hits))" "limit < length hits"
      by (auto simp: seek_page_def Let_def hits_def split: if_splits)
    then have "last (take limit hits) \<in> set hits"
      using last_of_page [of limit hits] nth_mem [of "limit - 1" hits] \<open>0 < limit\<close> by simp
    then have "last (take limit hits) \<in> set (snap n)" by (simp add: hits_def)
    then have "P (Some k)" unfolding k(1) by (rule keys)
    then show ?thesis
      using page [OF Suc.prems, of n] page_n Some ih [of k "Suc n"]
      by (cases "seek_walk before key limit snap fuel (Suc n) (Some k)") auto
  qed
qed simp

lemma clamp_limit_bounds: "0 < clamp_limit limit" "clamp_limit limit \<le> 200"
  by (auto simp: clamp_limit_def max_page_limit_def)

lemma cut_page_eq:
  "0 < limit \<Longrightarrow> cut_page limit hits = (take limit hits, if limit < length hits then Some (last (take limit hits)) else None)"
  by (auto simp: cut_page_def Let_def min_def)

section \<open>\<open>paginate\<close> refines the page\<close>

definition col_token :: "(json \<Rightarrow> string) \<Rightarrow> ('k \<Rightarrow> string) \<Rightarrow> 'k option \<times> uuid \<Rightarrow> string" where
  "col_token dumps sort_text k = encode_cursor dumps
     \<lparr>c_id = snd k, c_sort_key = (case fst k of None \<Rightarrow> J_null | Some v \<Rightarrow> J_str (sort_text v)),
      c_sort_keys = None, c_scope = None\<rparr>"

lemma seek_clause_before:
  "col \<noteq> None \<Longrightarrow> seek_clause asc (Some b) cid col i \<longleftrightarrow> col_before asc (Some b, cid) (col, i)"
  by (auto simp: seek_clause_def col_before_def)

lemma paginate_refines:
  assumes "signer_ok dumps loads" and inflate: "\<And>v. inflate (J_str (sort_text v)) = Some v"
    and rows: "\<And>r. r \<in> set rows \<Longrightarrow> sort_col r \<noteq> None"
    and from_key: "\<And>k. from_key = Some k \<Longrightarrow> fst k \<noteq> None \<and> snd k < 2 ^ 128"
  shows "page_request dumps loads (\<lambda>cur. paginate dumps sort_text inflate rows sort_col id_col cur limit asc)
        (map_option (col_token dumps sort_text) from_key)
    = Inr (apsnd (map_option (col_token dumps sort_text))
        (seek_page (col_before asc) (\<lambda>r. (sort_col r, id_col r)) (clamp_limit limit) from_key rows))"
proof (cases from_key)
  case None
  then show ?thesis
    by (simp add: page_request_def paginate_def refuse_wrong_cursor_def cut_page_eq clamp_limit_bounds
        seek_page_def Let_def col_token_def)
next
  case (Some k)
  with from_key obtain b i where k: "k = (Some b, i)" and i: "i < 2 ^ 128" by (cases k) auto
  have decode: "decode_cursor dumps loads (col_token dumps sort_text k)
      = Inr \<lparr>c_id = i, c_sort_key = J_str (sort_text b), c_sort_keys = None, c_scope = None\<rparr>"
    using decode_encode [OF assms(1), of "\<lparr>c_id = i, c_sort_key = J_str (sort_text b), c_sort_keys = None, c_scope = None\<rparr>"] i
    by (simp add: col_token_def k)
  have "filter (\<lambda>r. seek_clause asc (Some b) i (sort_col r) (id_col r)) rows
      = filter (\<lambda>r. col_before asc (Some b, i) (sort_col r, id_col r)) rows"
    by (rule filter_cong [OF refl seek_clause_before [OF rows]])
  then show ?thesis
    unfolding Some option.map page_request_token [OF decode]
    by (simp add: paginate_def refuse_wrong_cursor_def cut_page_eq clamp_limit_bounds
        bind_sort_key_def inflate seek_page_def Let_def col_token_def k)
qed

section \<open>\<open>paginate_keyset\<close> refines the page\<close>

definition keys_token :: "(json \<Rightarrow> string) \<Rightarrow> ('k \<Rightarrow> string) \<Rightarrow> string option \<Rightarrow> 'k option list \<times> uuid \<Rightarrow> string" where
  "keys_token dumps sort_text scope k = encode_cursor dumps
     \<lparr>c_id = snd k, c_sort_key = J_null,
      c_sort_keys = Some (map (\<lambda>v. case v of None \<Rightarrow> J_null | Some v \<Rightarrow> J_str (sort_text v)) (fst k)), c_scope = scope\<rparr>"

lemma strictly_after_before: "strictly_after e v asc \<longleftrightarrow> nulls_last_before asc v e"
  by (cases v; cases e) (auto simp: strictly_after_def)

lemma same_as_eq: "same_as e v \<longleftrightarrow> v = e"
  by (cases v) (auto simp: same_as_def)

lemma seek_legs_before:
  "length es = length vs \<Longrightarrow> list_ex (\<lambda>b. b) (seek_legs asc (zip es vs) prefix (cid < i))
    \<longleftrightarrow> list_all (\<lambda>b. b) prefix \<and> keys_before asc (vs, cid) (es, i)"
  by (induction es vs arbitrary: prefix rule: list_induct2) (auto simp: strictly_after_before same_as_eq)

lemma decode_items_text:
  "(\<And>n v. n < length vs \<Longrightarrow> vs ! n = Some v \<Longrightarrow> decode (index + n) (J_str (sort_text v)) = Some v)
   \<Longrightarrow> decode_items decode index (map (\<lambda>v. case v of None \<Rightarrow> J_null | Some v \<Rightarrow> J_str (sort_text v)) vs) = Inr vs"
proof (induction vs arbitrary: index)
  case (Cons v vs)
  have "decode (Suc index + n) (J_str (sort_text w)) = Some w" if "n < length vs" "vs ! n = Some w" for n w
    using Cons.prems [of "Suc n" w] that by simp
  then have "decode_items decode (Suc index) (map (\<lambda>v. case v of None \<Rightarrow> J_null | Some v \<Rightarrow> J_str (sort_text v)) vs) = Inr vs"
    by (rule Cons.IH)
  then show ?case using Cons.prems [of 0] by (cases v) auto
qed simp

lemma paginate_keyset_refines:
  assumes "signer_ok dumps loads"
    and from_key: "\<And>k. from_key = Some k \<Longrightarrow> length (fst k) = length sort_exprs \<and> snd k < 2 ^ 128
      \<and> (\<forall>n < length sort_exprs. \<forall>v. fst k ! n = Some v \<longrightarrow> decode n (J_str (sort_text v)) = Some v)"
  shows "page_request dumps loads (\<lambda>cur. paginate_keyset dumps sort_text rows sort_exprs id_col cur limit asc decode scope)
        (map_option (keys_token dumps sort_text scope) from_key)
    = Inr (apsnd (map_option (keys_token dumps sort_text scope))
        (seek_page (keys_before asc) (\<lambda>r. (map (\<lambda>e. e r) sort_exprs, id_col r)) (clamp_limit limit) from_key rows))"
proof (cases from_key)
  case None
  then show ?thesis
    by (simp add: page_request_def paginate_keyset_def refuse_wrong_cursor_def cut_page_eq clamp_limit_bounds
        seek_page_def Let_def keys_token_def)
next
  case (Some k)
  obtain vs i where k: "k = (vs, i)" by fastforce
  with from_key [OF Some] have len: "length vs = length sort_exprs" and i: "i < 2 ^ 128"
    and codec: "\<And>n v. n < length vs \<Longrightarrow> vs ! n = Some v \<Longrightarrow> decode n (J_str (sort_text v)) = Some v" by auto
  let ?raw = "map (\<lambda>v. case v of None \<Rightarrow> J_null | Some v \<Rightarrow> J_str (sort_text v)) vs"
  have decode: "decode_cursor dumps loads (keys_token dumps sort_text scope k)
      = Inr \<lparr>c_id = i, c_sort_key = J_null, c_sort_keys = Some ?raw, c_scope = scope\<rparr>"
    using decode_encode [OF assms(1), of "\<lparr>c_id = i, c_sort_key = J_null, c_sort_keys = Some ?raw, c_scope = scope\<rparr>"] i
    by (simp add: keys_token_def k)
  have seek: "decoded_seek ?raw decode (length sort_exprs) = Inr vs"
    using decode_items_text [of vs decode 0 sort_text] codec by (simp add: decoded_seek_def len)
  show ?thesis
    unfolding Some option.map page_request_token [OF decode]
    by (simp add: paginate_keyset_def refuse_wrong_cursor_def cut_page_eq
        clamp_limit_bounds seek seek_legs_before len seek_page_def Let_def keys_token_def k)
qed

section \<open>A signer for the examples\<close>

text \<open>A text of as many letters as the number of the payload.\<close>

instance json :: countable by countable_datatype

definition demo_dumps :: "json \<Rightarrow> string" where
  "demo_dumps p = replicate (to_nat p) (CHR ''a'')"

definition demo_loads :: "string \<Rightarrow> loads_error + json" where
  "demo_loads s = (if list_all (\<lambda>c. c = CHR ''a'') s then Inr (from_nat (length s)) else Inl Bad_signature)"

lemma demo_signer: "signer_ok demo_dumps demo_loads"
  by (auto simp: signer_ok_def demo_dumps_def demo_loads_def is_ascii_def list_all_iff)

definition text_of_json :: "json \<Rightarrow> string option" where
  "text_of_json j = (case j of J_str s \<Rightarrow> Some s | _ \<Rightarrow> None)"

section \<open>Properties\<close>

text \<open>
  C16: A cursor the server signed reads back unchanged. A request accepts it exactly when it pages
  by the shape of sort key and under the scope the cursor was written with; under every other sort
  both paginators answer that the cursor is of another sort, whatever rows they would page over.
  And the server accepts a token only in the very form it writes: what decodes is the text its own
  payload is dumped to.
\<close>

theorem cursor_roundtrip:
  fixes sort_exprs :: "('r \<Rightarrow> 'k::linorder option) list" and sort_col :: "'r \<Rightarrow> 'k option"
  assumes "signer_ok dumps loads" "c_id c < 2 ^ 128"
  shows "decode_cursor dumps loads (encode_cursor dumps c) = Inr c
    \<and> (\<forall>wants_composite scope.
         page_request dumps loads (\<lambda>cur. refuse_wrong_cursor cur wants_composite scope) (Some (encode_cursor dumps c))
           = (if wants_composite = (c_sort_keys c \<noteq> None) \<and> scope = c_scope c then Inr () else Inl Wrong_sort))
    \<and> (\<forall>scope. c_sort_keys c = None \<or> scope \<noteq> c_scope c \<longrightarrow>
         page_request dumps loads (\<lambda>cur. paginate_keyset dumps sort_text rows sort_exprs id_col cur limit asc decode scope)
           (Some (encode_cursor dumps c)) = Inl Wrong_sort)
    \<and> (c_sort_keys c \<noteq> None \<or> c_scope c \<noteq> None \<longrightarrow>
         page_request dumps loads (\<lambda>cur. paginate dumps sort_text inflate rows sort_col id_col cur limit asc)
           (Some (encode_cursor dumps c)) = Inl Wrong_sort)
    \<and> (\<forall>s c'. decode_cursor dumps loads s = Inr c' \<longrightarrow>
         (\<exists>payload. s = dumps payload \<and> cursor_of_payload payload = Inr c'))"
proof -
  note token = page_request_token [OF decode_encode [OF assms]]
  have canonical: "\<forall>s c'. decode_cursor dumps loads s = Inr c' \<longrightarrow>
      (\<exists>payload. s = dumps payload \<and> cursor_of_payload payload = Inr c')"
    by (auto simp: decode_cursor_def split: sum.splits loads_error.splits if_splits)
  show ?thesis unfolding token
    using canonical decode_encode [OF assms]
    by (auto simp: refuse_wrong_cursor_def paginate_keyset_def paginate_def Let_def)
qed

theorem cursor_roundtrip_witness:
  "(let c = \<lparr>c_id = 7, c_sort_key = J_null, c_sort_keys = Some [J_str ''10'', J_null], c_scope = Some ''spec''\<rparr> in
    decode_cursor demo_dumps demo_loads (encode_cursor demo_dumps c) = Inr c
    \<and> page_request demo_dumps demo_loads (\<lambda>cur. paginate_keyset demo_dumps (\<lambda>s. s) [(Some ''10'', 1)] [fst, fst] snd cur 1 True
        (\<lambda>_. text_of_json) (Some ''name'')) (Some (encode_cursor demo_dumps c)) = Inl Wrong_sort)"
  using cursor_roundtrip [OF demo_signer, where c = "\<lparr>c_id = 7, c_sort_key = J_null,
      c_sort_keys = Some [J_str ''10'', J_null], c_scope = Some ''spec''\<rparr>" and sort_text = "\<lambda>s. s"
      and rows = "[(Some ''10'', 1)]" and sort_exprs = "[fst, fst]" and id_col = snd and limit = 1 and asc = True
      and decode = "\<lambda>_. text_of_json"] by (simp add: Let_def)

text \<open>
  C13: Over a statement none of whose rows has NULL in the sort column, following the cursors of
  \<open>paginate\<close> from the first page ends, within one request more than there are rows, and returns
  every row exactly once, in the order of the sort column and the id, in either direction and for
  every limit.
\<close>

theorem pages_enumerate_the_listing:
  fixes sort_col :: "'r \<Rightarrow> 'k::linorder option"
  assumes "signer_ok dumps loads" "\<forall>v. inflate (J_str (sort_text v)) = Some v"
    and "distinct (map id_col rows)" "\<forall>r \<in> set rows. id_col r < 2 ^ 128 \<and> sort_col r \<noteq> None"
    and "length rows < fuel"
  shows "\<exists>listing. walk_pages (\<lambda>_. page_request dumps loads
        (\<lambda>cur. paginate dumps sort_text inflate rows sort_col id_col cur limit asc)) fuel 0 None = Some (Inr listing)
    \<and> mset listing = mset rows
    \<and> sorted_wrt (\<lambda>a b. col_before asc (sort_col a, id_col a) (sort_col b, id_col b)) listing"
proof -
  let ?key = "\<lambda>r. (sort_col r, id_col r)"
  have inj: "inj_on ?key (set rows)" "distinct rows"
    using assms(3) by (auto simp: distinct_map inj_on_def)
  have "walk_pages (\<lambda>_. page_request dumps loads (\<lambda>cur. paginate dumps sort_text inflate rows sort_col id_col cur limit asc))
        fuel 0 (map_option (col_token dumps sort_text) None)
      = map_option Inr (seek_walk (col_before asc) ?key (clamp_limit limit) (\<lambda>_. rows) fuel 0 None)"
    by (rule walk_refines [where P = "\<lambda>f. \<forall>k. f = Some k \<longrightarrow> fst k \<noteq> None \<and> snd k < 2 ^ 128"])
      (use assms(1,2,4) in \<open>auto intro!: paginate_refines clamp_limit_bounds\<close>)
  also have "\<dots> = Some (Inr (order_by (col_before asc) ?key rows))"
    using column_order.walk_at_rest [OF inj(2,1) clamp_limit_bounds(1), where from_key = None and fuel = fuel and n = 0] assms(5) by simp
  finally show ?thesis using column_order.order_by_sorted [OF inj(2,1), of asc] by simp
qed

theorem pages_enumerate_the_listing_witness:
  "\<exists>listing. walk_pages (\<lambda>_. page_request demo_dumps demo_loads
        (\<lambda>cur. paginate demo_dumps (\<lambda>s. s) text_of_json [(''b'', 1), (''a'', 3), (''b'', 2)]
           (\<lambda>r. Some (fst r)) snd cur 1 True)) 4 0 None = Some (Inr listing)
    \<and> mset listing = mset [(''b'', 1), (''a'', 3), (''b'', 2)]
    \<and> sorted_wrt (\<lambda>a b. col_before True (Some (fst a), snd a) (Some (fst b), snd b)) listing"
  using pages_enumerate_the_listing [OF demo_signer, where inflate = text_of_json and sort_text = "\<lambda>s. s" and id_col = snd
      and rows = "[(''b'', 1), (''a'', 3), (''b'', 2)]" and sort_col = "\<lambda>r. Some (fst r)" and fuel = 4 and limit = 1 and asc = True] by (simp add: text_of_json_def)

text \<open>
  C19: Following the cursors of \<open>paginate_keyset\<close> while rows come and go between the requests never
  fails, serves no row twice and misses no row that is there all the time, however many sort values
  are NULL; and over rows at rest it ends and returns each row once, in order with NULLs last.
\<close>

theorem keyset_pages_survive_changes:
  fixes sort_exprs :: "('r \<Rightarrow> 'k::linorder option) list" and snap :: "nat \<Rightarrow> 'r list"
    and id_col :: "'r \<Rightarrow> uuid" and limit asc scope decode dumps loads sort_text
  defines "client \<equiv> walk_pages (\<lambda>n. page_request dumps loads
      (\<lambda>cur. paginate_keyset dumps sort_text (snap n) sort_exprs id_col cur limit asc decode scope))"
    and "key \<equiv> \<lambda>r. (map (\<lambda>e. e r) sort_exprs, id_col r)"
  assumes "signer_ok dumps loads"
    and "\<forall>m. distinct (map id_col (snap m)) \<and> (\<forall>r \<in> set (snap m). id_col r < 2 ^ 128 \<and>
      (\<forall>n < length sort_exprs. \<forall>v. (sort_exprs ! n) r = Some v \<longrightarrow> decode n (J_str (sort_text v)) = Some v))"
  shows "(\<forall>res. client fuel 0 None = Some res \<longrightarrow> (\<exists>listing. res = Inr listing
      \<and> sorted_wrt (\<lambda>a b. keys_before asc (key a) (key b)) listing
      \<and> (\<forall>r \<in> set listing. \<exists>m. r \<in> set (snap m))
      \<and> (\<forall>r. (\<forall>m. r \<in> set (snap m)) \<longrightarrow> r \<in> set listing)))
    \<and> ((\<forall>m. snap m = snap 0) \<and> length (snap 0) < fuel \<longrightarrow> (\<exists>listing. client fuel 0 None = Some (Inr listing)
      \<and> mset listing = mset (snap 0) \<and> sorted_wrt (\<lambda>a b. keys_before asc (key a) (key b)) listing))"
proof -
  have inj: "inj_on key (set (snap m))" "distinct (snap m)" for m
    using assms(4) [rule_format, of m] by (auto simp: distinct_map inj_on_def key_def)
  have walk: "client fuel 0 (map_option (keys_token dumps sort_text scope) None)
      = map_option Inr (seek_walk (keys_before asc) key (clamp_limit limit) snap fuel 0 None)"
    unfolding client_def key_def
    by (rule walk_refines [where P = "\<lambda>f. \<forall>k. f = Some k \<longrightarrow> length (fst k) = length sort_exprs \<and> snd k < 2 ^ 128
        \<and> (\<forall>n < length sort_exprs. \<forall>v. fst k ! n = Some v \<longrightarrow> decode n (J_str (sort_text v)) = Some v)"])
      (use assms(3,4) in \<open>auto intro!: paginate_keyset_refines clamp_limit_bounds\<close>)
  show ?thesis
  proof (rule conjI; clarify)
    fix res
    assume "client fuel 0 None = Some res"
    then obtain rs where "res = Inr rs" "seek_walk (keys_before asc) key (clamp_limit limit) snap fuel 0 None = Some rs"
      using walk by (cases "seek_walk (keys_before asc) key (clamp_limit limit) snap fuel 0 None") auto
    then show "\<exists>listing. res = Inr listing
        \<and> sorted_wrt (\<lambda>a b. keys_before asc (key a) (key b)) listing
        \<and> (\<forall>r \<in> set listing. \<exists>m. r \<in> set (snap m)) \<and> (\<forall>r. (\<forall>m. r \<in> set (snap m)) \<longrightarrow> r \<in> set listing)"
      using keys_order.walk_moving [OF inj(2,1) clamp_limit_bounds(1)] by fastforce
  next
    assume rest: "\<forall>m. snap m = snap 0" and "length (snap 0) < fuel"
    then have "snap = (\<lambda>_. snap 0)" by auto
    then have "seek_walk (keys_before asc) key (clamp_limit limit) snap fuel 0 None
        = Some (order_by (keys_before asc) key (snap 0))"
      using keys_order.walk_at_rest [OF inj(2) [of 0] inj(1) [of 0] clamp_limit_bounds(1), where from_key = None and fuel = fuel and n = 0]
        \<open>length (snap 0) < fuel\<close> by simp
    then show "\<exists>listing. client fuel 0 None = Some (Inr listing) \<and> mset listing = mset (snap 0)
        \<and> sorted_wrt (\<lambda>a b. keys_before asc (key a) (key b)) listing"
      using walk keys_order.order_by_sorted [OF inj(2) [of 0] inj(1) [of 0], of asc] by auto
  qed
qed

text \<open>A part appears in the gap before the second page; the walk still meets both others.\<close>

definition demo_snap :: "nat \<Rightarrow> (string option \<times> uuid) list" where
  "demo_snap n = (if n = 0 then [(None, 1), (Some ''10k'', 2)] else [(None, 1), (Some ''10k'', 2), (Some ''4k7'', 3)])"

theorem keyset_pages_survive_changes_witness:
  "(case walk_pages (\<lambda>n. page_request demo_dumps demo_loads
      (\<lambda>cur. paginate_keyset demo_dumps (\<lambda>s. s) (demo_snap n) [fst] snd cur 1 True (\<lambda>_. text_of_json) (Some ''spec'')))
      4 0 None of None \<Rightarrow> True
    | Some res \<Rightarrow> (\<exists>listing. res = Inr listing \<and> (None, 1) \<in> set listing \<and> (Some ''10k'', 2) \<in> set listing))
  \<and> (\<exists>listing. walk_pages (\<lambda>n. page_request demo_dumps demo_loads
      (\<lambda>cur. paginate_keyset demo_dumps (\<lambda>s. s) (demo_snap 1) [fst] snd cur 1 True (\<lambda>_. text_of_json) (Some ''spec'')))
      4 0 None = Some (Inr listing) \<and> mset listing = mset (demo_snap 1))"
proof
  have all: "(None, 1) \<in> set (demo_snap m)" "(Some ''10k'', 2) \<in> set (demo_snap m)" for m
    by (simp_all add: demo_snap_def)
  have ok: "\<forall>m::nat. distinct (map snd (demo_snap (f m))) \<and> (\<forall>r \<in> set (demo_snap (f m)). snd r < 2 ^ 128 \<and>
      (\<forall>n < length [fst :: string option \<times> uuid \<Rightarrow> string option]. \<forall>v. ([fst] ! n) r = Some v \<longrightarrow> text_of_json (J_str v) = Some v))" for f
    by (simp add: demo_snap_def text_of_json_def)
  note walks = keyset_pages_survive_changes [OF demo_signer, where fuel = 4 and limit = 1 and asc = True and scope = "Some ''spec''"]
  show "case walk_pages (\<lambda>n. page_request demo_dumps demo_loads
      (\<lambda>cur. paginate_keyset demo_dumps (\<lambda>s. s) (demo_snap n) [fst] snd cur 1 True (\<lambda>_. text_of_json) (Some ''spec'')))
      4 0 None of None \<Rightarrow> True
    | Some res \<Rightarrow> (\<exists>listing. res = Inr listing \<and> (None, 1) \<in> set listing \<and> (Some ''10k'', 2) \<in> set listing)"
    using conjunct1 [OF walks [OF ok [of "\<lambda>m. m"]]] all by (auto split: option.splits)
  have "length (demo_snap 1) < 4" by (simp add: demo_snap_def)
  then show "\<exists>listing. walk_pages (\<lambda>n. page_request demo_dumps demo_loads
      (\<lambda>cur. paginate_keyset demo_dumps (\<lambda>s. s) (demo_snap 1) [fst] snd cur 1 True (\<lambda>_. text_of_json) (Some ''spec'')))
      4 0 None = Some (Inr listing) \<and> mset listing = mset (demo_snap 1)"
    using conjunct2 [OF walks [OF ok [of "\<lambda>m. 1"]]] by blast
qed

end
