(* ===== verification/Access.thy ===== *)
theory Access
  imports PyUuid
begin

text \<open>
  Who may do what: sessions and API tokens (\<open>core/deps.py\<close>, \<open>domain/tokens/service.py\<close>), the
  workspace a request acts in, roles, members, invitations (\<open>routes/workspaces.py\<close>,
  \<open>routes/invitations.py\<close>, \<open>routes/tokens.py\<close>) and the origin check of \<open>main.py\<close>. Times are
  microseconds; the keyed digest \<open>hmac\<close>, the session digest \<open>sha\<close> and the origin of a URL
  (\<open>urlparse\<close>) are parameters; new row ids and secrets are arguments, a taken id is refused by the
  primary key. Rate limits and the audit log are left out.
\<close>

section \<open>Tables\<close>

datatype role = Viewer | Member | Administrator | Owner

fun role_rank :: "role \<Rightarrow> nat" where
  "role_rank Viewer = 0"
| "role_rank Member = 1"
| "role_rank Administrator = 2"
| "role_rank Owner = 3"

datatype member_status = M_invited | M_active | M_disabled
datatype workspace_kind = Personal | Organization
datatype invitation_status = Inv_pending | Inv_accepted | Inv_revoked

record user =
  u_id :: uuid
  u_email :: string

record user_session =
  us_token_hash :: string
  us_user_id :: uuid
  us_last_used_at :: int
  us_expires_at :: int

record tenant =
  wk_id :: uuid
  wk_kind :: workspace_kind
  wk_owner_user_id :: uuid

record workspace_member =
  wm_id :: uuid
  wm_workspace_id :: uuid
  wm_user_id :: uuid
  wm_role :: role
  wm_status :: member_status

record invitation =
  wi_id :: uuid
  wi_workspace_id :: uuid
  wi_email :: string
  wi_role :: role
  wi_token_hmac :: "string option"
  wi_status :: invitation_status
  wi_expires_at :: int
  wi_accepted_at :: "int option"
  wi_accepted_by :: "uuid option"

record api_token =
  at_id :: uuid
  at_workspace_id :: uuid
  at_user_id :: uuid
  at_token_hmac :: string
  at_read_only :: bool
  at_expires_at :: "int option"
  at_revoked_at :: "int option"
  at_archived_at :: "int option"
  at_last_used_at :: "int option"
  at_last_used_ip :: "string option"

record tenancy =
  td_users :: "user list"
  td_sessions :: "user_session list"
  td_workspaces :: "tenant list"
  td_members :: "workspace_member list"
  td_invitations :: "invitation list"
  td_tokens :: "api_token list"

datatype access_error =
  Invalid_token | Token_read_only | Token_workspace_mismatch | No_token_management
| Not_authenticated | Invalid_session | Session_expired | Session_idle_timeout | User_missing
| No_workspace | Workspace_not_found | Insufficient_role role
| Workspace_owner_cap | Member_not_found | Owner_only | Last_owner | Self_remove
| Already_member | Invitation_not_found | Invitation_not_pending invitation_status
| Invitation_expired | Invitation_email_mismatch | Token_not_found | Email_taken
| Cross_origin_blocked | Reset_link_invalid
| Validation_error       \<comment> \<open>refused by the request schema\<close>
| Null_in_column | Duplicate_key      \<comment> \<open>refused by the database\<close>

datatype http_method = HTTP_get | HTTP_head | HTTP_options | HTTP_post | HTTP_put | HTTP_patch | HTTP_delete

record request =
  rq_method :: http_method
  rq_path :: string
  rq_authorization :: "string option"
  rq_session_cookie :: "string option"
  rq_workspace_header :: "string option"
  rq_workspace_cookie :: "string option"
  rq_origin :: "string option"
  rq_referer :: "string option"
  rq_client_ip :: "string option"

text \<open>Python's truth value of an optional text.\<close>

fun present :: "string option \<Rightarrow> string option" where
  "present (Some (c # cs)) = Some (c # cs)"
| "present _ = None"

definition read_methods :: "http_method list" where
  "read_methods = [HTTP_get, HTTP_head, HTTP_options]"

definition lower :: "string \<Rightarrow> string" where
  "lower s = map lower_char s"

text \<open>\<open>s.partition(c)\<close>.\<close>

definition partition_at :: "char \<Rightarrow> string \<Rightarrow> string \<times> bool \<times> string" where
  "partition_at c s = (let before = takeWhile (\<lambda>x. x \<noteq> c) s; rest = dropWhile (\<lambda>x. x \<noteq> c) s in
     (before, rest \<noteq> [], drop 1 rest))"

section \<open>API tokens\<close>

definition TOKEN_PREFIX :: string where "TOKEN_PREFIX = ''smk_''"

definition TELEMETRY_MIN_INTERVAL_SECONDS :: int where "TELEMETRY_MIN_INTERVAL_SECONDS = 300"

definition parse_plaintext :: "string \<Rightarrow> (uuid \<times> string) option" where
  "parse_plaintext raw =
     (if take (length TOKEN_PREFIX) raw \<noteq> TOKEN_PREFIX then None
      else let (id_hex, sep, secret) = partition_at (CHR ''.'') (drop (length TOKEN_PREFIX) raw) in
        if \<not> sep \<or> secret = [] then None
        else case uuid_of_str id_hex of None \<Rightarrow> None | Some u \<Rightarrow> Some (u, secret))"

definition token_by_id :: "tenancy \<Rightarrow> uuid \<Rightarrow> api_token option" where
  "token_by_id d i = find (\<lambda>t. at_id t = i) (td_tokens d)"

definition resolve_token :: "(string \<Rightarrow> string) \<Rightarrow> int \<Rightarrow> tenancy \<Rightarrow> string \<Rightarrow> api_token option" where
  "resolve_token hmac now d raw = (case parse_plaintext raw of None \<Rightarrow> None
     | Some (token_id, secret) \<Rightarrow> (case token_by_id d token_id of None \<Rightarrow> None
         | Some row \<Rightarrow>
             if hmac secret \<noteq> at_token_hmac row then None
             else if at_revoked_at row \<noteq> None then None
             else if (case at_expires_at row of None \<Rightarrow> False | Some t \<Rightarrow> t \<le> now) then None
             else if at_archived_at row \<noteq> None then None
             else Some row))"

definition update_token :: "uuid \<Rightarrow> (api_token \<Rightarrow> api_token) \<Rightarrow> tenancy \<Rightarrow> tenancy" where
  "update_token i f d = d\<lparr>td_tokens := map (\<lambda>t. if at_id t = i then f t else t) (td_tokens d)\<rparr>"

definition used_token :: "int \<Rightarrow> string option \<Rightarrow> api_token \<Rightarrow> api_token" where
  "used_token now client_ip row =
     (if (case at_last_used_at row of None \<Rightarrow> False | Some t \<Rightarrow> now - t < TELEMETRY_MIN_INTERVAL_SECONDS * 1000000)
      then row
      else row\<lparr>at_last_used_at := Some now,
        at_last_used_ip := (case present client_ip of None \<Rightarrow> at_last_used_ip row | Some ip \<Rightarrow> Some (take 64 ip))\<rparr>)"

definition record_use :: "int \<Rightarrow> string option \<Rightarrow> api_token \<Rightarrow> tenancy \<Rightarrow> tenancy" where
  "record_use now client_ip row d = update_token (at_id row) (used_token now client_ip) d"

definition mint_token :: "(string \<Rightarrow> string) \<Rightarrow> int \<Rightarrow> uuid \<Rightarrow> uuid \<Rightarrow> uuid \<Rightarrow> string \<Rightarrow> bool \<Rightarrow> int option
    \<Rightarrow> tenancy \<Rightarrow> access_error + tenancy \<times> string" where
  "mint_token hmac now ws uid token_id secret read_only expires_in_days d =
     (if token_by_id d token_id \<noteq> None then Inl Duplicate_key
      else Inr (d\<lparr>td_tokens := td_tokens d @ [\<lparr>at_id = token_id, at_workspace_id = ws, at_user_id = uid,
          at_token_hmac = hmac secret, at_read_only = read_only,
          at_expires_at = map_option (\<lambda>days. now + days * 86400 * 1000000) expires_in_days,
          at_revoked_at = None, at_archived_at = None, at_last_used_at = None, at_last_used_ip = None\<rparr>]\<rparr>,
        TOKEN_PREFIX @ hex_fixed 32 token_id @ ''.'' @ secret))"

definition get_in_workspace :: "tenancy \<Rightarrow> uuid \<Rightarrow> uuid \<Rightarrow> api_token option" where
  "get_in_workspace d ws token_id = find (\<lambda>t. at_id t = token_id \<and> at_workspace_id t = ws) (td_tokens d)"

definition revoked :: "int \<Rightarrow> api_token \<Rightarrow> api_token" where
  "revoked now t = (if at_revoked_at t = None then t\<lparr>at_revoked_at := Some now\<rparr> else t)"

definition revoke_all_for_user :: "int \<Rightarrow> uuid \<Rightarrow> uuid \<Rightarrow> tenancy \<Rightarrow> tenancy" where
  "revoke_all_for_user now ws uid d = d\<lparr>td_tokens := map (\<lambda>t.
     if at_workspace_id t = ws \<and> at_user_id t = uid then revoked now t else t) (td_tokens d)\<rparr>"

section \<open>Authentication\<close>

record principal =
  pr_user :: user
  pr_token :: "api_token option"

definition user_by_id :: "tenancy \<Rightarrow> uuid \<Rightarrow> user option" where
  "user_by_id d i = find (\<lambda>u. u_id u = i) (td_users d)"

definition active_membership :: "tenancy \<Rightarrow> uuid \<Rightarrow> uuid \<Rightarrow> workspace_member option" where
  "active_membership d uid ws =
     find (\<lambda>m. wm_user_id m = uid \<and> wm_workspace_id m = ws \<and> wm_status m = M_active) (td_members d)"

text \<open>The telemetry write is committed on its own, whatever the request comes to.\<close>

definition resolve_live_token :: "(string \<Rightarrow> string) \<Rightarrow> int \<Rightarrow> tenancy \<Rightarrow> request \<Rightarrow> string
    \<Rightarrow> tenancy \<times> (access_error + user \<times> api_token)" where
  "resolve_live_token hmac now d rq raw = (case resolve_token hmac now d raw of None \<Rightarrow> (d, Inl Invalid_token)
     | Some row \<Rightarrow> (case user_by_id d (at_user_id row) of None \<Rightarrow> (d, Inl Invalid_token)
         | Some u \<Rightarrow> (case active_membership d (at_user_id row) (at_workspace_id row) of
               None \<Rightarrow> (d, Inl Invalid_token)
             | Some m \<Rightarrow> (record_use now (rq_client_ip rq) row d,
                         Inr (u, used_token now (rq_client_ip rq) row)))))"

definition authenticate_token_value :: "(string \<Rightarrow> string) \<Rightarrow> int \<Rightarrow> tenancy \<Rightarrow> request \<Rightarrow> string
    \<Rightarrow> tenancy \<times> (access_error + principal)" where
  "authenticate_token_value hmac now d rq raw = (case resolve_live_token hmac now d rq raw of
       (d1, Inl e) \<Rightarrow> (d1, Inl e)
     | (d1, Inr (u, row)) \<Rightarrow>
         if at_read_only row \<and> rq_method rq \<notin> set read_methods then (d1, Inl Token_read_only)
         else (d1, Inr \<lparr>pr_user = u, pr_token = Some row\<rparr>))"

definition authenticate_api_token :: "(string \<Rightarrow> string) \<Rightarrow> int \<Rightarrow> tenancy \<Rightarrow> request \<Rightarrow> string
    \<Rightarrow> tenancy \<times> (access_error + principal)" where
  "authenticate_api_token hmac now d rq header = (let (scheme, _, raw) = partition_at (CHR '' '') header in
     if lower scheme \<notin> {''token'', ''bearer''} then (d, Inl Invalid_token)
     else authenticate_token_value hmac now d rq (strip raw))"

definition session_by_hash :: "tenancy \<Rightarrow> string \<Rightarrow> user_session option" where
  "session_by_hash d h = find (\<lambda>s. us_token_hash s = h) (td_sessions d)"

definition delete_session :: "string \<Rightarrow> tenancy \<Rightarrow> tenancy" where
  "delete_session h d = d\<lparr>td_sessions := filter (\<lambda>s. us_token_hash s \<noteq> h) (td_sessions d)\<rparr>"

definition touch_session :: "int \<Rightarrow> string \<Rightarrow> tenancy \<Rightarrow> tenancy" where
  "touch_session now h d = d\<lparr>td_sessions :=
     map (\<lambda>s. if us_token_hash s = h then s\<lparr>us_last_used_at := now\<rparr> else s) (td_sessions d)\<rparr>"

definition authenticate_session :: "(string \<Rightarrow> string) \<Rightarrow> int \<Rightarrow> int \<Rightarrow> tenancy \<Rightarrow> request
    \<Rightarrow> tenancy \<times> (access_error + principal)" where
  "authenticate_session sha idle now d rq = (case present (rq_session_cookie rq) of
       None \<Rightarrow> (d, Inl Not_authenticated)
     | Some token \<Rightarrow> (case session_by_hash d (sha token) of
           None \<Rightarrow> (d, Inl Invalid_session)
         | Some s \<Rightarrow>
             if us_expires_at s < now then (d, Inl Session_expired)
             else if us_last_used_at s < now - idle
             then (delete_session (sha token) d, Inl Session_idle_timeout)
             else case user_by_id d (us_user_id s) of
                 None \<Rightarrow> (d, Inl User_missing)
               | Some u \<Rightarrow> (touch_session now (sha token) d, Inr \<lparr>pr_user = u, pr_token = None\<rparr>)))"

definition get_current_user :: "(string \<Rightarrow> string) \<Rightarrow> (string \<Rightarrow> string) \<Rightarrow> int \<Rightarrow> int \<Rightarrow> tenancy \<Rightarrow> request
    \<Rightarrow> tenancy \<times> (access_error + principal)" where
  "get_current_user hmac sha idle now d rq = (case present (rq_authorization rq) of
       Some header \<Rightarrow> authenticate_api_token hmac now d rq header
     | None \<Rightarrow> authenticate_session sha idle now d rq)"

section \<open>The workspace and the role\<close>

definition workspace_by_id :: "tenancy \<Rightarrow> uuid \<Rightarrow> tenant option" where
  "workspace_by_id d i = find (\<lambda>w. wk_id w = i) (td_workspaces d)"

definition workspace_for_api_token :: "tenancy \<Rightarrow> request \<Rightarrow> api_token \<Rightarrow> access_error + tenant" where
  "workspace_for_api_token d rq t =
     (if (case present (rq_workspace_header rq) of None \<Rightarrow> False
          | Some h \<Rightarrow> uuid_of_str h \<noteq> Some (at_workspace_id t)) then Inl Token_workspace_mismatch
      else case workspace_by_id d (at_workspace_id t) of None \<Rightarrow> Inl Invalid_token | Some w \<Rightarrow> Inr w)"

definition chosen_workspace :: "tenancy \<Rightarrow> request \<Rightarrow> workspace_member list \<Rightarrow> tenant option" where
  "chosen_workspace d rq membership =
     (case (case present (rq_workspace_header rq) of Some h \<Rightarrow> Some h | None \<Rightarrow> present (rq_workspace_cookie rq)) of
        None \<Rightarrow> None
      | Some raw \<Rightarrow> (case uuid_of_str raw of None \<Rightarrow> None
          | Some w \<Rightarrow> if w \<in> wm_workspace_id ` set membership then workspace_by_id d w else None))"

definition get_current_workspace :: "tenancy \<Rightarrow> request \<Rightarrow> principal \<Rightarrow> access_error + tenant" where
  "get_current_workspace d rq p = (case pr_token p of Some t \<Rightarrow> workspace_for_api_token d rq t
     | None \<Rightarrow>
         (case filter (\<lambda>m. wm_user_id m = u_id (pr_user p) \<and> wm_status m = M_active) (td_members d) of
            [] \<Rightarrow> Inl No_workspace
          | m # ms \<Rightarrow> (case chosen_workspace d rq (m # ms) of Some w \<Rightarrow> Inr w
              | None \<Rightarrow> (case workspace_by_id d (wm_workspace_id m) of
                    None \<Rightarrow> Inl Workspace_not_found | Some w \<Rightarrow> Inr w))))"

definition forbid_api_token :: "principal \<Rightarrow> access_error + unit" where
  "forbid_api_token p = (if pr_token p \<noteq> None then Inl No_token_management else Inr ())"

definition membership_role :: "tenancy \<Rightarrow> uuid \<Rightarrow> uuid \<Rightarrow> role" where
  "membership_role d uid ws = (case active_membership d uid ws of None \<Rightarrow> Viewer | Some m \<Rightarrow> wm_role m)"

definition require_role :: "role \<Rightarrow> tenancy \<Rightarrow> uuid \<Rightarrow> uuid \<Rightarrow> access_error + unit" where
  "require_role min_role d uid ws =
     (if role_rank (membership_role d uid ws) < role_rank min_role then Inl (Insufficient_role min_role) else Inr ())"

definition require_member_for_writes :: "request \<Rightarrow> tenancy \<Rightarrow> uuid \<Rightarrow> uuid \<Rightarrow> access_error + unit" where
  "require_member_for_writes rq d uid ws =
     (if rq_method rq \<in> set read_methods then Inr () else require_role Member d uid ws)"

section \<open>The origin check\<close>

definition csrf_protected_methods :: "http_method list" where
  "csrf_protected_methods = [HTTP_post, HTTP_patch, HTTP_put, HTTP_delete]"

definition csrf_exempt_paths :: "string list" where
  "csrf_exempt_paths = [''/api/sentry-tunnel'', ''/api/auth/login'', ''/api/auth/signup'', ''/api/auth/verify'']"

definition header_origin :: "(string \<Rightarrow> string option) \<Rightarrow> request \<Rightarrow> string option" where
  "header_origin origin_host rq =
     (case (case present (rq_origin rq) of None \<Rightarrow> None | Some v \<Rightarrow> origin_host v) of Some h \<Rightarrow> Some h
      | None \<Rightarrow> (case present (rq_referer rq) of None \<Rightarrow> None | Some v \<Rightarrow> origin_host v))"

definition csrf_dispatch :: "(string \<Rightarrow> string option) \<Rightarrow> string list \<Rightarrow> request \<Rightarrow> access_error + unit" where
  "csrf_dispatch origin_host allowed rq =
     (if rq_method rq \<notin> set csrf_protected_methods then Inr ()
      else if rq_path rq \<in> set csrf_exempt_paths then Inr ()
      else if present (rq_authorization rq) \<noteq> None \<and> take 10 (rq_path rq) \<noteq> ''/api/auth/'' then Inr ()
      else case header_origin origin_host rq of None \<Rightarrow> Inl Cross_origin_blocked
        | Some h \<Rightarrow> if h \<in> set (List.map_filter (\<lambda>v. case present (Some v) of None \<Rightarrow> None | Some v \<Rightarrow> origin_host v) allowed)
            then Inr () else Inl Cross_origin_blocked)"

end
