(* ===== verification/AccessRoutes.thy ===== *)
theory AccessRoutes
  imports Access
begin

text \<open>
  The requests that change workspaces, seats and credentials; \<open>perform\<close> is one request against
  the tables. The public ones (login, verified sign-up, password reset) carry the user their
  secret proves; of a reset only the end of the user's sessions is in these tables. Every other
  request runs its dependencies in the order of the route and then its body. What authentication
  commits (telemetry, the sliding session) stays when the body raises, the body's own writes are
  rolled back.
\<close>

section \<open>Sign-up and sessions\<close>

definition revoke_all_user_sessions :: "uuid \<Rightarrow> tenancy \<Rightarrow> tenancy" where
  "revoke_all_user_sessions uid d = d\<lparr>td_sessions := filter (\<lambda>s. us_user_id s \<noteq> uid) (td_sessions d)\<rparr>"

definition create_session_row :: "(string \<Rightarrow> string) \<Rightarrow> int \<Rightarrow> int \<Rightarrow> uuid \<Rightarrow> string \<Rightarrow> tenancy \<Rightarrow> access_error + tenancy" where
  "create_session_row sha lifetime now uid token d =
     (if session_by_hash d (sha token) \<noteq> None then Inl Duplicate_key
      else Inr (d\<lparr>td_sessions := td_sessions d @ [\<lparr>us_token_hash = sha token, us_user_id = uid,
        us_last_used_at = now, us_expires_at = now + lifetime\<rparr>]\<rparr>))"

text \<open>The old sessions are gone for good even when the new one cannot be written.\<close>

definition open_session :: "(string \<Rightarrow> string) \<Rightarrow> int \<Rightarrow> int \<Rightarrow> uuid \<Rightarrow> string \<Rightarrow> tenancy
    \<Rightarrow> tenancy \<times> (access_error + string option)" where
  "open_session sha lifetime now uid token d =
     (let d1 = revoke_all_user_sessions uid d in
      case create_session_row sha lifetime now uid token d1 of
        Inl e \<Rightarrow> (d1, Inl e) | Inr d2 \<Rightarrow> (d2, Inr (Some token)))"

definition new_workspace :: "uuid \<Rightarrow> uuid \<Rightarrow> workspace_kind \<Rightarrow> uuid \<Rightarrow> tenancy \<Rightarrow> access_error + tenancy" where
  "new_workspace ws_id member_id kind owner d =
     (if workspace_by_id d ws_id \<noteq> None \<or> member_id \<in> wm_id ` set (td_members d) then Inl Duplicate_key
      else Inr (d\<lparr>td_workspaces := td_workspaces d @ [\<lparr>wk_id = ws_id, wk_kind = kind, wk_owner_user_id = owner\<rparr>],
        td_members := td_members d @ [\<lparr>wm_id = member_id, wm_workspace_id = ws_id, wm_user_id = owner,
          wm_role = Owner, wm_status = M_active\<rparr>]\<rparr>))"

text \<open>\<open>verify\<close> once the link is accepted: user, personal workspace and membership. They are
  committed when the sessions of the user are cleared, before the new session is written.\<close>

definition promote_signup :: "string \<Rightarrow> uuid \<Rightarrow> uuid \<Rightarrow> uuid \<Rightarrow> tenancy \<Rightarrow> access_error + tenancy" where
  "promote_signup email user_id ws_id member_id d =
     (if email \<in> u_email ` set (td_users d) then Inl Email_taken
      else if user_by_id d user_id \<noteq> None then Inl Duplicate_key
      else new_workspace ws_id member_id Personal user_id
        (d\<lparr>td_users := td_users d @ [\<lparr>u_id = user_id, u_email = email\<rparr>]\<rparr>))"

section \<open>Workspaces and members\<close>

definition OWNED_ORG_WORKSPACE_CAP :: nat where "OWNED_ORG_WORKSPACE_CAP = 5"

definition owned_organizations :: "tenancy \<Rightarrow> uuid \<Rightarrow> nat" where
  "owned_organizations d uid = length (filter (\<lambda>(m, w). wk_id w = wm_workspace_id m \<and> wk_owner_user_id w = uid
     \<and> wk_kind w = Organization \<and> wm_user_id m = uid) (List.product (td_members d) (td_workspaces d)))"

definition create_workspace :: "tenancy \<Rightarrow> principal \<Rightarrow> uuid \<Rightarrow> uuid \<Rightarrow> access_error + tenancy" where
  "create_workspace d p ws_id member_id =
     bindr (forbid_api_token p) (\<lambda>_.
     if OWNED_ORG_WORKSPACE_CAP \<le> owned_organizations d (u_id (pr_user p)) then Inl Workspace_owner_cap
     else new_workspace ws_id member_id Organization (u_id (pr_user p)) d)"

definition member_in_workspace :: "tenancy \<Rightarrow> uuid \<Rightarrow> uuid \<Rightarrow> workspace_member option" where
  "member_in_workspace d ws i = find (\<lambda>m. wm_id m = i \<and> wm_workspace_id m = ws) (td_members d)"

definition seat :: "tenancy \<Rightarrow> uuid \<Rightarrow> uuid \<Rightarrow> workspace_member option" where
  "seat d ws uid = find (\<lambda>m. wm_workspace_id m = ws \<and> wm_user_id m = uid) (td_members d)"

definition active_owner_count :: "tenancy \<Rightarrow> uuid \<Rightarrow> nat" where
  "active_owner_count d ws = length (filter (\<lambda>m. wm_workspace_id m = ws \<and> wm_role m = Owner
     \<and> wm_status m = M_active) (td_members d))"

text \<open>\<open>MemberPatch\<close>: a field is unset, null or a value.\<close>

record member_patch =
  mp_role :: "role option option"
  mp_status :: "member_status option option"

definition patched_member :: "member_patch \<Rightarrow> workspace_member \<Rightarrow> workspace_member" where
  "patched_member pl m = m\<lparr>
     wm_role := (case mp_role pl of Some (Some r) \<Rightarrow> r | _ \<Rightarrow> wm_role m),
     wm_status := (case mp_status pl of Some (Some s) \<Rightarrow> s | _ \<Rightarrow> wm_status m)\<rparr>"

definition update_member :: "uuid \<Rightarrow> (workspace_member \<Rightarrow> workspace_member) \<Rightarrow> tenancy \<Rightarrow> tenancy" where
  "update_member i f d = d\<lparr>td_members := map (\<lambda>m. if wm_id m = i then f m else m) (td_members d)\<rparr>"

text \<open>The gate of the administrative routes: the workspace, admin or owner, a session.\<close>

definition admin_gate :: "tenancy \<Rightarrow> request \<Rightarrow> principal \<Rightarrow> access_error + tenant" where
  "admin_gate d rq p =
     bindr (get_current_workspace d rq p) (\<lambda>ws.
     bindr (require_role Administrator d (u_id (pr_user p)) (wk_id ws)) (\<lambda>_.
     bindr (forbid_api_token p) (\<lambda>_. Inr ws)))"

definition patch_member :: "tenancy \<Rightarrow> uuid \<Rightarrow> uuid \<Rightarrow> uuid \<Rightarrow> member_patch \<Rightarrow> access_error + tenancy" where
  "patch_member d ws uid member_id pl = (case member_in_workspace d ws member_id of
       None \<Rightarrow> Inl Member_not_found
     | Some m \<Rightarrow>
         let wanted = (case mp_role pl of Some r \<Rightarrow> r | None \<Rightarrow> None);
             target_promotion_to_owner = (wanted = Some Owner);
             target_was_owner = (wm_role m = Owner) in
         if (target_promotion_to_owner \<or> target_was_owner)
           \<and> (case seat d ws uid of None \<Rightarrow> True | Some mine \<Rightarrow> wm_role mine \<noteq> Owner)
         then Inl Owner_only
         else if target_was_owner \<and> wanted \<noteq> None \<and> wanted \<noteq> Some Owner \<and> active_owner_count d ws \<le> 1
         then Inl Last_owner
         else if mp_role pl = Some None \<or> mp_status pl = Some None then Inl Null_in_column
         else Inr (update_member (wm_id m) (patched_member pl) d))"

definition patch_member_route :: "tenancy \<Rightarrow> request \<Rightarrow> principal \<Rightarrow> uuid \<Rightarrow> member_patch \<Rightarrow> access_error + tenancy" where
  "patch_member_route d rq p member_id pl =
     bindr (admin_gate d rq p) (\<lambda>ws.
     if mp_status pl = Some (Some M_invited) then Inl Validation_error
     else patch_member d (wk_id ws) (u_id (pr_user p)) member_id pl)"

definition remove_member :: "int \<Rightarrow> tenancy \<Rightarrow> uuid \<Rightarrow> uuid \<Rightarrow> uuid \<Rightarrow> access_error + tenancy" where
  "remove_member now d ws uid member_id = (case member_in_workspace d ws member_id of
       None \<Rightarrow> Inl Member_not_found
     | Some m \<Rightarrow>
         if wm_user_id m = uid then Inl Self_remove
         else if wm_role m = Owner \<and> active_owner_count d ws \<le> 1 then Inl Last_owner
         else let d1 = revoke_all_for_user now ws (wm_user_id m) d
           in Inr (d1\<lparr>td_members := filter (\<lambda>x. wm_id x \<noteq> wm_id m) (td_members d1)\<rparr>))"

definition remove_member_route :: "int \<Rightarrow> tenancy \<Rightarrow> request \<Rightarrow> principal \<Rightarrow> uuid \<Rightarrow> access_error + tenancy" where
  "remove_member_route now d rq p member_id =
     bindr (admin_gate d rq p) (\<lambda>ws. remove_member now d (wk_id ws) (u_id (pr_user p)) member_id)"

text \<open>The workspace cookie is set only for an active member; no table changes.\<close>

definition switch_workspace :: "tenancy \<Rightarrow> principal \<Rightarrow> uuid \<Rightarrow> access_error + string" where
  "switch_workspace d p ws = bindr (forbid_api_token p) (\<lambda>_.
     case active_membership d (u_id (pr_user p)) ws of None \<Rightarrow> Inl Workspace_not_found | Some m \<Rightarrow> Inr (uuid_str ws))"

section \<open>Invitations\<close>

definition email_of_user :: "tenancy \<Rightarrow> uuid \<Rightarrow> string option" where
  "email_of_user d uid = map_option u_email (user_by_id d uid)"

definition member_by_email :: "tenancy \<Rightarrow> uuid \<Rightarrow> string \<Rightarrow> workspace_member option" where
  "member_by_email d ws email = find (\<lambda>m. wm_workspace_id m = ws
     \<and> map_option lower (email_of_user d (wm_user_id m)) = Some email) (td_members d)"

definition pending_invitation :: "tenancy \<Rightarrow> uuid \<Rightarrow> string \<Rightarrow> invitation option" where
  "pending_invitation d ws email = find (\<lambda>i. wi_workspace_id i = ws \<and> wi_email i = email
     \<and> wi_status i = Inv_pending) (td_invitations d)"

definition invitation_by_id :: "tenancy \<Rightarrow> uuid \<Rightarrow> invitation option" where
  "invitation_by_id d i = find (\<lambda>v. wi_id v = i) (td_invitations d)"

text \<open>The plaintext token goes out only with a newly created invitation.\<close>

definition create_invitation :: "(string \<Rightarrow> string) \<Rightarrow> int \<Rightarrow> int \<Rightarrow> tenancy \<Rightarrow> uuid \<Rightarrow> string \<Rightarrow> role \<Rightarrow> uuid \<Rightarrow> string
    \<Rightarrow> access_error + tenancy \<times> string option" where
  "create_invitation hmac ttl now d ws email0 inv_role inv_id plaintext =
     (let email = lower email0 in
      if member_by_email d ws email \<noteq> None then Inl Already_member
      else case pending_invitation d ws email of Some existing \<Rightarrow> Inr (d, None)
      | None \<Rightarrow>
          if invitation_by_id d inv_id \<noteq> None then Inl Duplicate_key
          else Inr (d\<lparr>td_invitations := td_invitations d @ [\<lparr>wi_id = inv_id, wi_workspace_id = ws, wi_email = email,
              wi_role = inv_role, wi_token_hmac = Some (hmac plaintext), wi_status = Inv_pending,
              wi_expires_at = now + ttl, wi_accepted_at = None, wi_accepted_by = None\<rparr>]\<rparr>,
            Some (uuid_str inv_id @ '':'' @ plaintext)))"

definition create_invitation_route :: "(string \<Rightarrow> string) \<Rightarrow> int \<Rightarrow> int \<Rightarrow> tenancy \<Rightarrow> request \<Rightarrow> principal \<Rightarrow> string
    \<Rightarrow> role \<Rightarrow> uuid \<Rightarrow> string \<Rightarrow> access_error + tenancy \<times> string option" where
  "create_invitation_route hmac ttl now d rq p email inv_role inv_id plaintext =
     bindr (admin_gate d rq p) (\<lambda>ws.
     if inv_role = Owner then Inl Validation_error
     else create_invitation hmac ttl now d (wk_id ws) email inv_role inv_id plaintext)"

definition update_invitation :: "uuid \<Rightarrow> (invitation \<Rightarrow> invitation) \<Rightarrow> tenancy \<Rightarrow> tenancy" where
  "update_invitation i f d = d\<lparr>td_invitations := map (\<lambda>v. if wi_id v = i then f v else v) (td_invitations d)\<rparr>"

definition revoke_invitation_route :: "tenancy \<Rightarrow> request \<Rightarrow> principal \<Rightarrow> uuid \<Rightarrow> access_error + tenancy" where
  "revoke_invitation_route d rq p inv_id =
     bindr (admin_gate d rq p) (\<lambda>ws.
     case find (\<lambda>v. wi_id v = inv_id \<and> wi_workspace_id v = wk_id ws) (td_invitations d) of
       None \<Rightarrow> Inl Invitation_not_found
     | Some v \<Rightarrow> if wi_status v \<noteq> Inv_pending then Inl (Invitation_not_pending (wi_status v))
         else Inr (update_invitation inv_id (\<lambda>v. v\<lparr>wi_status := Inv_revoked\<rparr>) d))"

text \<open>The invitation a composite token names, when the secret half is its own.\<close>

definition invitation_for_token :: "(string \<Rightarrow> string) \<Rightarrow> tenancy \<Rightarrow> string \<Rightarrow> invitation option" where
  "invitation_for_token hmac d token = (let (raw_id, sep, plaintext) = partition_at (CHR '':'') token in
     if \<not> sep then None
     else case uuid_of_str raw_id of None \<Rightarrow> None
       | Some i \<Rightarrow> (case invitation_by_id d i of None \<Rightarrow> None
           | Some v \<Rightarrow> if wi_token_hmac v = Some (hmac plaintext) then Some v else None))"

definition new_seat :: "uuid \<Rightarrow> uuid \<Rightarrow> uuid \<Rightarrow> role \<Rightarrow> workspace_member" where
  "new_seat member_id ws uid r = \<lparr>wm_id = member_id, wm_workspace_id = ws, wm_user_id = uid, wm_role = r, wm_status = M_active\<rparr>"

definition accepted :: "int \<Rightarrow> uuid \<Rightarrow> invitation \<Rightarrow> invitation" where
  "accepted now uid v = v\<lparr>wi_status := Inv_accepted, wi_accepted_at := Some now, wi_accepted_by := Some uid\<rparr>"

definition take_seat :: "uuid \<Rightarrow> uuid \<Rightarrow> role \<Rightarrow> uuid \<Rightarrow> tenancy \<Rightarrow> access_error + tenancy" where
  "take_seat ws uid inv_role member_id d = (case seat d ws uid of
       Some m \<Rightarrow> Inr (update_member (wm_id m) (\<lambda>x. x\<lparr>wm_status := M_active, wm_role := inv_role\<rparr>) d)
     | None \<Rightarrow>
         if member_id \<in> wm_id ` set (td_members d) then Inl Duplicate_key
         else Inr (d\<lparr>td_members := td_members d @ [new_seat member_id ws uid inv_role]\<rparr>))"

definition accept_invitation :: "(string \<Rightarrow> string) \<Rightarrow> int \<Rightarrow> tenancy \<Rightarrow> principal \<Rightarrow> string \<Rightarrow> uuid \<Rightarrow> access_error + tenancy" where
  "accept_invitation hmac now d p token member_id =
     bindr (forbid_api_token p) (\<lambda>_.
     case invitation_for_token hmac d token of None \<Rightarrow> Inl Invitation_not_found
     | Some v \<Rightarrow>
         if wi_status v \<noteq> Inv_pending then Inl (Invitation_not_pending (wi_status v))
         else if wi_expires_at v \<le> now then Inl Invitation_expired
         else if lower (wi_email v) \<noteq> lower (u_email (pr_user p)) then Inl Invitation_email_mismatch
         else bindr (take_seat (wi_workspace_id v) (u_id (pr_user p)) (wi_role v) member_id d) (\<lambda>d1.
           Inr (update_invitation (wi_id v) (accepted now (u_id (pr_user p))) d1)))"

section \<open>Token routes\<close>

definition MAX_EXPIRY_DAYS :: int where "MAX_EXPIRY_DAYS = 365"

definition create_token_route :: "(string \<Rightarrow> string) \<Rightarrow> int \<Rightarrow> tenancy \<Rightarrow> request \<Rightarrow> principal \<Rightarrow> uuid \<Rightarrow> string \<Rightarrow> bool
    \<Rightarrow> int option \<Rightarrow> access_error + tenancy \<times> string" where
  "create_token_route hmac now d rq p token_id secret read_only expires_in_days =
     bindr (forbid_api_token p) (\<lambda>_.
     bindr (get_current_workspace d rq p) (\<lambda>ws.
     if (case expires_in_days of None \<Rightarrow> False | Some n \<Rightarrow> n < 1 \<or> MAX_EXPIRY_DAYS < n) then Inl Validation_error
     else mint_token hmac now (wk_id ws) (u_id (pr_user p)) token_id secret read_only expires_in_days d))"

definition revoke_token_route :: "int \<Rightarrow> tenancy \<Rightarrow> request \<Rightarrow> principal \<Rightarrow> uuid \<Rightarrow> access_error + tenancy" where
  "revoke_token_route now d rq p token_id =
     bindr (forbid_api_token p) (\<lambda>_.
     bindr (get_current_workspace d rq p) (\<lambda>ws.
     case get_in_workspace d (wk_id ws) token_id of None \<Rightarrow> Inl Token_not_found
     | Some t \<Rightarrow>
         bindr (if at_user_id t \<noteq> u_id (pr_user p) then require_role Administrator d (u_id (pr_user p)) (wk_id ws) else Inr ()) (\<lambda>_.
         Inr (update_token token_id (revoked now) d))))"

section \<open>Requests\<close>

text \<open>The settings the code reads: session idle window and lifetime, invitation lifetime, as durations.\<close>

record access_settings =
  ac_session_idle :: int
  ac_session_lifetime :: int
  ac_invitation_ttl :: int

datatype operation =
  Sign_up string uuid uuid uuid string        \<comment> \<open>verified email; ids of user, workspace, member; session token\<close>
| Log_in uuid string                          \<comment> \<open>verified user; session token\<close>
| Log_out
| Reset_password uuid                         \<comment> \<open>user of a live reset link\<close>
| Create_workspace uuid uuid
| Create_invitation string role uuid string
| Revoke_invitation uuid
| Accept_invitation string uuid
| Patch_member uuid member_patch
| Remove_member uuid
| Create_token uuid string bool "int option"
| Revoke_token uuid
| Other_request                               \<comment> \<open>any route behind \<open>require_member_for_writes\<close>\<close>

text \<open>The operation's own part, after authentication; the answer is a plaintext shown once.\<close>

fun operate :: "(string \<Rightarrow> string) \<Rightarrow> access_settings \<Rightarrow> int \<Rightarrow> tenancy \<Rightarrow> request \<Rightarrow> principal \<Rightarrow> operation
    \<Rightarrow> access_error + tenancy \<times> string option" where
  "operate hmac cf now d rq p (Create_workspace ws_id member_id) =
     bindr (create_workspace d p ws_id member_id) (\<lambda>d1. Inr (d1, None))"
| "operate hmac cf now d rq p (Create_invitation email inv_role inv_id plaintext) =
     create_invitation_route hmac (ac_invitation_ttl cf) now d rq p email inv_role inv_id plaintext"
| "operate hmac cf now d rq p (Revoke_invitation inv_id) =
     bindr (revoke_invitation_route d rq p inv_id) (\<lambda>d1. Inr (d1, None))"
| "operate hmac cf now d rq p (Accept_invitation token member_id) =
     bindr (accept_invitation hmac now d p token member_id) (\<lambda>d1. Inr (d1, None))"
| "operate hmac cf now d rq p (Patch_member member_id pl) =
     bindr (patch_member_route d rq p member_id pl) (\<lambda>d1. Inr (d1, None))"
| "operate hmac cf now d rq p (Remove_member member_id) =
     bindr (remove_member_route now d rq p member_id) (\<lambda>d1. Inr (d1, None))"
| "operate hmac cf now d rq p (Create_token token_id secret read_only expires_in_days) =
     bindr (create_token_route hmac now d rq p token_id secret read_only expires_in_days) (\<lambda>(d1, plain). Inr (d1, Some plain))"
| "operate hmac cf now d rq p (Revoke_token token_id) =
     bindr (revoke_token_route now d rq p token_id) (\<lambda>d1. Inr (d1, None))"
| "operate hmac cf now d rq p Other_request =
     bindr (get_current_workspace d rq p) (\<lambda>ws.
     bindr (require_member_for_writes rq d (u_id (pr_user p)) (wk_id ws)) (\<lambda>_. Inr (d, None)))"
| "operate hmac cf now d rq p _ = Inr (d, None)"

definition perform :: "(string \<Rightarrow> string) \<Rightarrow> (string \<Rightarrow> string) \<Rightarrow> access_settings \<Rightarrow> int \<Rightarrow> request \<Rightarrow> operation
    \<Rightarrow> tenancy \<Rightarrow> tenancy \<times> (access_error + string option)" where
  "perform hmac sha cf now rq op d = (case op of
       Sign_up email user_id ws_id member_id token \<Rightarrow>
         (case promote_signup email user_id ws_id member_id d of
            Inl e \<Rightarrow> (d, Inl e) | Inr d1 \<Rightarrow> open_session sha (ac_session_lifetime cf) now user_id token d1)
     | Log_in user_id token \<Rightarrow>
         (case user_by_id d user_id of None \<Rightarrow> (d, Inl Not_authenticated)
          | Some u \<Rightarrow> open_session sha (ac_session_lifetime cf) now user_id token d)
     | Log_out \<Rightarrow>
         (case present (rq_session_cookie rq) of None \<Rightarrow> (d, Inr None)
          | Some token \<Rightarrow> (delete_session (sha token) d, Inr None))
     | Reset_password user_id \<Rightarrow>
         (case user_by_id d user_id of None \<Rightarrow> (d, Inl Reset_link_invalid)
          | Some u \<Rightarrow> (revoke_all_user_sessions user_id d, Inr None))
     | _ \<Rightarrow> (case get_current_user hmac sha (ac_session_idle cf) now d rq of
            (d1, Inl e) \<Rightarrow> (d1, Inl e)
          | (d1, Inr p) \<Rightarrow> (case operate hmac cf now d1 rq p op of
                Inl e \<Rightarrow> (d1, Inl e) | Inr (d2, answer) \<Rightarrow> (d2, Inr answer))))"

text \<open>The routes that take no \<open>CurrentUser\<close>: what they do does not depend on who asks.\<close>

fun public_route :: "operation \<Rightarrow> bool" where
  "public_route (Sign_up email user_id ws_id member_id token) \<longleftrightarrow> True"
| "public_route (Log_in user_id token) \<longleftrightarrow> True"
| "public_route Log_out \<longleftrightarrow> True"
| "public_route (Reset_password user_id) \<longleftrightarrow> True"
| "public_route _ \<longleftrightarrow> False"

text \<open>A history of requests; each carries its own time, headers and operation.\<close>

fun serve :: "(string \<Rightarrow> string) \<Rightarrow> (string \<Rightarrow> string) \<Rightarrow> access_settings \<Rightarrow> (int \<times> request \<times> operation) list \<Rightarrow> tenancy \<Rightarrow> tenancy" where
  "serve hmac sha cf [] d = d"
| "serve hmac sha cf ((now, rq, op) # rest) d = serve hmac sha cf rest (fst (perform hmac sha cf now rq op d))"

end
