(* ===== verification/AccessInvariant.thy ===== *)
theory AccessInvariant
  imports AccessRoutes
begin

text \<open>
  The invariant of seats, invitations and tokens, that every request keeps it, that requests keep
  an active owner apart from one unguarded patch, and that a revoked token stays revoked.
\<close>

section \<open>The invariant\<close>

definition seats_ok :: "tenancy \<Rightarrow> bool" where
  "seats_ok d \<longleftrightarrow> distinct (map wm_id (td_members d))
     \<and> distinct (map (\<lambda>m. (wm_workspace_id m, wm_user_id m)) (td_members d))
     \<and> (\<forall>m \<in> set (td_members d). wm_user_id m \<in> u_id ` set (td_users d) \<and> wm_workspace_id m \<in> wk_id ` set (td_workspaces d))"

text \<open>At most one invitation is pending per workspace and address, none for someone seated there.\<close>

definition invitations_ok :: "tenancy \<Rightarrow> bool" where
  "invitations_ok d \<longleftrightarrow> distinct (map wi_id (td_invitations d))
     \<and> distinct (map (\<lambda>v. (wi_workspace_id v, wi_email v)) (filter (\<lambda>v. wi_status v = Inv_pending) (td_invitations d)))
     \<and> (\<forall>v \<in> set (td_invitations d). wi_workspace_id v \<in> wk_id ` set (td_workspaces d) \<and> lower (wi_email v) = wi_email v)
     \<and> (\<forall>v \<in> set (td_invitations d). wi_status v = Inv_pending \<longrightarrow> member_by_email d (wi_workspace_id v) (wi_email v) = None)"

text \<open>A token that is not revoked belongs to someone with a seat in its workspace.\<close>

definition tokens_ok :: "tenancy \<Rightarrow> bool" where
  "tokens_ok d \<longleftrightarrow> distinct (map at_id (td_tokens d))
     \<and> (\<forall>t \<in> set (td_tokens d). at_revoked_at t = None \<longrightarrow> seat d (at_workspace_id t) (at_user_id t) \<noteq> None)"

definition tenancy_ok :: "tenancy \<Rightarrow> bool" where
  "tenancy_ok d \<longleftrightarrow> distinct (map u_id (td_users d)) \<and> distinct (map wk_id (td_workspaces d))
     \<and> seats_ok d \<and> invitations_ok d \<and> tokens_ok d"

section \<open>Lookups\<close>

lemma find_eq_None: "find P xs = None \<longleftrightarrow> (\<forall>x \<in> set xs. \<not> P x)"
  by (auto simp: find_None_iff)

lemma find_SomeD: "find P xs = Some x \<Longrightarrow> x \<in> set xs \<and> P x"
  by (auto simp: find_Some_iff)

lemma find_append: "find P (xs @ ys) = (case find P xs of None \<Rightarrow> find P ys | Some x \<Rightarrow> Some x)"
  by (induction xs) auto

lemma find_map_key: "(\<And>x. x \<in> set xs \<Longrightarrow> P (f x) = P x) \<Longrightarrow> find P (map f xs) = map_option f (find P xs)"
  by (induction xs) auto

lemma seat_None: "seat d ws uid = None \<longleftrightarrow> (ws, uid) \<notin> (\<lambda>m. (wm_workspace_id m, wm_user_id m)) ` set (td_members d)"
  by (auto simp: seat_def find_eq_None)

lemma seat_SomeD: "seat d ws uid = Some m \<Longrightarrow> m \<in> set (td_members d) \<and> wm_workspace_id m = ws \<and> wm_user_id m = uid"
  unfolding seat_def by (drule find_SomeD) simp

lemma member_by_email_None: "member_by_email d ws email = None \<longleftrightarrow>
  (\<forall>m \<in> set (td_members d). wm_workspace_id m = ws \<longrightarrow> map_option lower (email_of_user d (wm_user_id m)) \<noteq> Some email)"
  by (auto simp: member_by_email_def find_eq_None)

lemma lower_char_lower: "lower_char (lower_char c) = lower_char c"
proof -
  define n where "n = (of_char c :: nat)"
  show ?thesis
  proof (cases "65 \<le> n \<and> n \<le> 90 \<or> 192 \<le> n \<and> n \<le> 222 \<and> n \<noteq> 215")
    case True
    then have "lower_char c = char_of (n + 32)" by (simp add: lower_char_def Let_def n_def)
    moreover have "(of_char (char_of (n + 32) :: char) :: nat) = n + 32" using True by auto
    ultimately show ?thesis using True by (auto simp: lower_char_def Let_def)
  next
    case False
    then have "lower_char c = c" unfolding lower_char_def Let_def n_def by (simp only: if_False)
    then show ?thesis by simp
  qed
qed

lemma lower_lower [simp]: "lower (lower s) = lower s"
  by (simp add: lower_def lower_char_lower)

lemma active_seat: "active_membership d uid ws \<noteq> None \<Longrightarrow> seat d ws uid \<noteq> None"
  by (auto simp: active_membership_def seat_def find_eq_None)

section \<open>What authentication may touch\<close>

text \<open>Sessions and the telemetry of tokens, nothing the invariant speaks of.\<close>

definition token_core :: "api_token \<Rightarrow> uuid \<times> uuid \<times> uuid \<times> string \<times> bool \<times> int option \<times> int option \<times> int option" where
  "token_core t = (at_id t, at_workspace_id t, at_user_id t, at_token_hmac t, at_read_only t, at_expires_at t,
     at_revoked_at t, at_archived_at t)"

definition same_tenancy :: "tenancy \<Rightarrow> tenancy \<Rightarrow> bool" where
  "same_tenancy d d' \<longleftrightarrow> td_users d' = td_users d \<and> td_workspaces d' = td_workspaces d \<and> td_members d' = td_members d
     \<and> td_invitations d' = td_invitations d \<and> map token_core (td_tokens d') = map token_core (td_tokens d)"

lemma same_tenancy_refl [simp]: "same_tenancy d d"
  by (simp add: same_tenancy_def)

lemma same_tenancy_trans: "same_tenancy a b \<Longrightarrow> same_tenancy b c \<Longrightarrow> same_tenancy a c"
  by (simp add: same_tenancy_def)

lemma same_tenancy_sessions [simp]:
  "same_tenancy d (touch_session now h d)" "same_tenancy d (delete_session h d)"
  "same_tenancy d (revoke_all_user_sessions uid d)"
  by (simp_all add: same_tenancy_def touch_session_def delete_session_def revoke_all_user_sessions_def)

lemma used_token_core [simp]: "token_core (used_token now ip t) = token_core t"
  by (simp add: used_token_def token_core_def)

lemma same_tenancy_record_use [simp]: "same_tenancy d (record_use now ip row d)"
  by (simp add: same_tenancy_def record_use_def update_token_def comp_def if_distrib [of token_core] cong: if_cong)

lemma resolve_live_token_cases:
  "resolve_live_token hmac now d rq raw = (d1, r) \<Longrightarrow>
     (d1 = d \<and> r = Inl Invalid_token) \<or>
     (\<exists>row u. resolve_token hmac now d raw = Some row \<and> user_by_id d (at_user_id row) = Some u
        \<and> active_membership d (at_user_id row) (at_workspace_id row) \<noteq> None
        \<and> d1 = record_use now (rq_client_ip rq) row d \<and> r = Inr (u, used_token now (rq_client_ip rq) row))"
  by (auto simp: resolve_live_token_def split: option.splits)

lemma authenticate_token_cases:
  "authenticate_api_token hmac now d rq header = (d1, r) \<Longrightarrow>
     (d1 = d \<and> r = Inl Invalid_token) \<or>
     (\<exists>raw row u. resolve_token hmac now d raw = Some row \<and> user_by_id d (at_user_id row) = Some u
        \<and> active_membership d (at_user_id row) (at_workspace_id row) \<noteq> None
        \<and> d1 = record_use now (rq_client_ip rq) row d
        \<and> r = (if at_read_only row \<and> rq_method rq \<notin> set read_methods then Inl Token_read_only
               else Inr \<lparr>pr_user = u, pr_token = Some (used_token now (rq_client_ip rq) row)\<rparr>))"
proof -
  have ro: "at_read_only (used_token now ip row) = at_read_only row" for ip row
    by (simp add: used_token_def)
  assume auth: "authenticate_api_token hmac now d rq header = (d1, r)"
  obtain scheme sep raw0 where parts: "partition_at (CHR '' '') header = (scheme, sep, raw0)" by (metis prod_cases3)
  obtain d2 r2 where live: "resolve_live_token hmac now d rq (strip raw0) = (d2, r2)" by fastforce
  show ?thesis
  proof (cases "lower scheme \<in> {''token'', ''bearer''}")
    case True
    then have token: "authenticate_token_value hmac now d rq (strip raw0) = (d1, r)"
      using auth by (auto simp: authenticate_api_token_def parts Let_def)
    from resolve_live_token_cases [OF live] show ?thesis
    proof (elim disjE exE conjE)
      fix row u
      assume "resolve_token hmac now d (strip raw0) = Some row" "user_by_id d (at_user_id row) = Some u"
        "active_membership d (at_user_id row) (at_workspace_id row) \<noteq> None"
        "d2 = record_use now (rq_client_ip rq) row d" "r2 = Inr (u, used_token now (rq_client_ip rq) row)"
      then show ?thesis using token live ro
        by (intro disjI2 exI [of _ "strip raw0"] exI [of _ row] exI [of _ u])
          (auto simp: authenticate_token_value_def split: if_splits)
    qed (use token live in \<open>simp add: authenticate_token_value_def\<close>)
  qed (use auth in \<open>simp add: authenticate_api_token_def parts Let_def\<close>)
qed

lemma authenticate_session_cases:
  "authenticate_session sha idle now d rq = (d1, r) \<Longrightarrow>
     (same_tenancy d d1 \<and> (\<exists>e. r = Inl e)) \<or>
     (\<exists>u h. same_tenancy d d1 \<and> u \<in> set (td_users d) \<and> r = Inr \<lparr>pr_user = u, pr_token = None\<rparr>)"
  by (auto simp: authenticate_session_def user_by_id_def dest!: find_SomeD split: option.splits if_splits)

lemma authenticate_same:
  assumes "get_current_user hmac sha idle now d rq = (d1, r)"
  shows "same_tenancy d d1"
proof (cases "present (rq_authorization rq)")
  case None
  then have "authenticate_session sha idle now d rq = (d1, r)" using assms by (simp add: get_current_user_def)
  from authenticate_session_cases [OF this] show ?thesis by auto
next
  case (Some header)
  then have "authenticate_api_token hmac now d rq header = (d1, r)" using assms by (simp add: get_current_user_def)
  from authenticate_token_cases [OF this] show ?thesis by auto
qed

lemma same_tenancy_new_sessions [simp]: "same_tenancy d (d1\<lparr>td_sessions := x\<rparr>) = same_tenancy d d1"
  by (simp add: same_tenancy_def)

lemma open_session_same: "same_tenancy d (fst (open_session sha lt now uid token d))"
  by (simp add: open_session_def create_session_row_def Let_def)

lemma same_tenancy_lookups:
  assumes "same_tenancy d d'"
  shows "seat d' ws uid = seat d ws uid" "member_by_email d' ws email = member_by_email d ws email"
    "active_membership d' uid ws = active_membership d uid ws" "user_by_id d' i = user_by_id d i"
    "workspace_by_id d' i = workspace_by_id d i" "membership_role d' uid ws = membership_role d uid ws"
proof -
  have eq: "td_users d' = td_users d" "td_workspaces d' = td_workspaces d" "td_members d' = td_members d"
    using assms by (simp_all add: same_tenancy_def)
  show "seat d' ws uid = seat d ws uid" "member_by_email d' ws email = member_by_email d ws email"
    "active_membership d' uid ws = active_membership d uid ws" "user_by_id d' i = user_by_id d i"
    "workspace_by_id d' i = workspace_by_id d i" "membership_role d' uid ws = membership_role d uid ws"
    by (simp_all only: seat_def member_by_email_def email_of_user_def active_membership_def user_by_id_def
        workspace_by_id_def membership_role_def eq)
qed

lemma core_projections:
  assumes "map token_core ts' = map token_core ts"
  shows "map at_id ts' = map at_id ts"
    "(\<forall>t \<in> set ts'. Q (token_core t)) \<longleftrightarrow> (\<forall>t \<in> set ts. Q (token_core t))"
proof -
  show "map at_id ts' = map at_id ts"
    using arg_cong [OF assms, of "map fst"] by (simp add: comp_def token_core_def)
  show "(\<forall>t \<in> set ts'. Q (token_core t)) \<longleftrightarrow> (\<forall>t \<in> set ts. Q (token_core t))"
    using arg_cong [OF assms, of "list_all Q"] by (simp add: list_all_iff)
qed

lemma tokens_ok_core: "tokens_ok d \<longleftrightarrow> distinct (map at_id (td_tokens d)) \<and> (\<forall>t \<in> set (td_tokens d).
    (\<lambda>(i, ws, uid, h, ro, ex, rv, ar). rv = None \<longrightarrow> seat d ws uid \<noteq> None) (token_core t))"
  by (simp add: tokens_ok_def token_core_def)

lemma same_tenancy_ok:
  assumes "same_tenancy d d'" "tenancy_ok d"
  shows "tenancy_ok d'"
proof -
  have core: "map token_core (td_tokens d') = map token_core (td_tokens d)"
    using assms(1) by (simp only: same_tenancy_def)
  have "tokens_ok d" using assms(2) by (simp only: tenancy_ok_def)
  then have "tokens_ok d'"
    unfolding tokens_ok_core same_tenancy_lookups [OF assms(1)] core_projections [OF core] .
  then show ?thesis
    using assms same_tenancy_lookups [OF assms(1)]
    by (simp add: tenancy_ok_def seats_ok_def invitations_ok_def same_tenancy_def)
qed

section \<open>Every write keeps the invariant\<close>

text \<open>Seats enter the other parts of the invariant only through who sits where.\<close>

lemma seat_append: "seat (d\<lparr>td_members := td_members d @ [m]\<rparr>) ws uid =
    (case seat d ws uid of Some x \<Rightarrow> Some x | None \<Rightarrow> if wm_workspace_id m = ws \<and> wm_user_id m = uid then Some m else None)"
  by (auto simp: seat_def find_append split: option.split)

lemma email_of_user_members [simp]: "email_of_user (d\<lparr>td_members := ms\<rparr>) uid = email_of_user d uid"
  by (simp add: email_of_user_def user_by_id_def)

lemma add_member_ok:
  assumes "tenancy_ok d" "wm_id m \<notin> wm_id ` set (td_members d)" "seat d (wm_workspace_id m) (wm_user_id m) = None"
    and "wm_user_id m \<in> u_id ` set (td_users d)" "wm_workspace_id m \<in> wk_id ` set (td_workspaces d)"
    and "\<And>v. v \<in> set (td_invitations d) \<Longrightarrow> wi_status v = Inv_pending \<Longrightarrow> wi_workspace_id v = wm_workspace_id m
      \<Longrightarrow> map_option lower (email_of_user d (wm_user_id m)) \<noteq> Some (wi_email v)"
  shows "tenancy_ok (d\<lparr>td_members := td_members d @ [m]\<rparr>)"
proof -
  let ?d = "d\<lparr>td_members := td_members d @ [m]\<rparr>"
  have "seats_ok ?d" using assms(1-5) by (auto simp: tenancy_ok_def seats_ok_def seat_None)
  moreover have "invitations_ok ?d"
    using assms(1,6) by (auto simp: tenancy_ok_def invitations_ok_def member_by_email_None)
  moreover have "tokens_ok ?d"
    using assms(1) by (auto simp: tenancy_ok_def tokens_ok_def seat_append split: option.splits)
  ultimately show ?thesis using assms(1) by (simp add: tenancy_ok_def)
qed

lemma update_member_ok:
  assumes "tenancy_ok d"
    and f: "\<And>m. wm_id (f m) = wm_id m" "\<And>m. wm_workspace_id (f m) = wm_workspace_id m" "\<And>m. wm_user_id (f m) = wm_user_id m"
  shows "tenancy_ok (update_member i f d)"
proof -
  let ?g = "\<lambda>m. if wm_id m = i then f m else m"
  have keys: "map wm_id (map ?g ms) = map wm_id ms"
    "map (\<lambda>m. (wm_workspace_id m, wm_user_id m)) (map ?g ms) = map (\<lambda>m. (wm_workspace_id m, wm_user_id m)) ms" for ms
    using f by auto
  have seats: "seat (update_member i f d) ws uid = map_option ?g (seat d ws uid)" for ws uid
    unfolding seat_def update_member_def by (simp add: find_map_key f)
  have emails: "member_by_email (update_member i f d) ws e = map_option ?g (member_by_email d ws e)" for ws e
    unfolding member_by_email_def update_member_def by (simp add: find_map_key f email_of_user_def user_by_id_def)
  show ?thesis
    using assms(1) f unfolding tenancy_ok_def seats_ok_def invitations_ok_def tokens_ok_def seats emails
    by (simp add: update_member_def keys del: map_map) (auto split: if_splits)
qed

lemma revoke_all_seats: "seat (revoke_all_for_user now ws uid d) = seat d"
  by (simp add: fun_eq_iff seat_def revoke_all_for_user_def)

lemma revoked_core [simp]: "at_id (revoked now t) = at_id t" "at_workspace_id (revoked now t) = at_workspace_id t"
  "at_user_id (revoked now t) = at_user_id t" "at_revoked_at (revoked now t) \<noteq> None"
  "\<exists>s. at_revoked_at (revoked now t) = Some s"
  "at_token_hmac (revoked now t) = at_token_hmac t"
  by (auto simp: revoked_def)

lemma remove_seat_ok:
  fixes now
  assumes "tenancy_ok d" "m \<in> set (td_members d)"
  defines "d1 \<equiv> revoke_all_for_user now (wm_workspace_id m) (wm_user_id m) d"
  shows "tenancy_ok (d1\<lparr>td_members := filter (\<lambda>x. wm_id x \<noteq> wm_id m) (td_members d1)\<rparr>)"
proof -
  let ?d = "d1\<lparr>td_members := filter (\<lambda>x. wm_id x \<noteq> wm_id m) (td_members d1)\<rparr>"
  have same: "td_members d1 = td_members d" "td_users d1 = td_users d" "td_workspaces d1 = td_workspaces d"
    "td_invitations d1 = td_invitations d" by (simp_all add: d1_def revoke_all_for_user_def)
  have "seats_ok ?d"
    using assms(1) by (auto simp: tenancy_ok_def seats_ok_def same distinct_map_filter)
  moreover have "member_by_email ?d ws e = None" if "member_by_email d ws e = None" for ws e
    using that by (auto simp: member_by_email_None same email_of_user_def user_by_id_def)
  then have "invitations_ok ?d" using assms(1) by (simp add: tenancy_ok_def invitations_ok_def same)
  moreover have "tokens_ok ?d"
  proof -
    have ids: "map at_id (td_tokens ?d) = map at_id (td_tokens d)"
      by (simp add: d1_def revoke_all_for_user_def)
    moreover have "seat ?d (at_workspace_id t) (at_user_id t) \<noteq> None"
      if t: "t \<in> set (td_tokens ?d)" "at_revoked_at t = None" for t
    proof -
      from t obtain t0 where t0: "t0 \<in> set (td_tokens d)" "\<not> (at_workspace_id t0 = wm_workspace_id m \<and> at_user_id t0 = wm_user_id m)"
        "t = t0" by (auto simp: d1_def revoke_all_for_user_def split: if_splits)
      obtain x where "seat d (at_workspace_id t0) (at_user_id t0) = Some x"
        using assms(1) t0(1,3) t(2) by (auto simp: tenancy_ok_def tokens_ok_def)
      then have x: "x \<in> set (td_members d)" "wm_workspace_id x = at_workspace_id t" "wm_user_id x = at_user_id t"
        using seat_SomeD t0(3) by auto
      then have "wm_id x \<noteq> wm_id m"
        using assms(1,2) t0(2,3) by (auto simp: tenancy_ok_def seats_ok_def distinct_map dest: inj_onD)
      then show ?thesis using x unfolding seat_None by (auto simp: same intro!: image_eqI [of _ _ x])
    qed
    ultimately show ?thesis using assms(1) by (simp add: tokens_ok_def tenancy_ok_def)
  qed
  ultimately show ?thesis using assms(1) by (simp add: tenancy_ok_def same)
qed

lemma add_invitation_ok:
  assumes "tenancy_ok d" "wi_id v \<notin> wi_id ` set (td_invitations d)" "wi_workspace_id v \<in> wk_id ` set (td_workspaces d)"
    and "lower (wi_email v) = wi_email v" "member_by_email d (wi_workspace_id v) (wi_email v) = None"
    and "pending_invitation d (wi_workspace_id v) (wi_email v) = None"
  shows "tenancy_ok (d\<lparr>td_invitations := td_invitations d @ [v]\<rparr>)"
proof -
  have "member_by_email (d\<lparr>td_invitations := is\<rparr>) = member_by_email d" "seat (d\<lparr>td_invitations := is\<rparr>) = seat d" for "is"
    by (simp_all add: fun_eq_iff member_by_email_def email_of_user_def user_by_id_def seat_def)
  then show ?thesis
    using assms by (auto simp: tenancy_ok_def seats_ok_def tokens_ok_def invitations_ok_def pending_invitation_def find_eq_None)
qed

lemma update_invitation_ok:
  assumes "tenancy_ok d"
    and f: "\<And>v. wi_id (f v) = wi_id v" "\<And>v. wi_workspace_id (f v) = wi_workspace_id v" "\<And>v. wi_email (f v) = wi_email v"
      "\<And>v. wi_status (f v) \<noteq> Inv_pending"
  shows "tenancy_ok (update_invitation i f d)"
proof -
  let ?g = "\<lambda>v. if wi_id v = i then f v else v"
  have same: "member_by_email (update_invitation i f d) = member_by_email d" "seat (update_invitation i f d) = seat d"
    by (simp_all add: fun_eq_iff member_by_email_def email_of_user_def user_by_id_def seat_def update_invitation_def)
  have "filter (\<lambda>v. wi_status v = Inv_pending) (map ?g vs)
      = filter (\<lambda>v. wi_id v \<noteq> i) (filter (\<lambda>v. wi_status v = Inv_pending) vs)" for vs
    using f(4) by (induction vs) auto
  then have "invitations_ok (update_invitation i f d)"
    using assms(1) f unfolding tenancy_ok_def invitations_ok_def same
    by (auto simp: update_invitation_def comp_def if_distrib [of wi_id] distinct_map_filter simp del: filter_filter cong: if_cong)
  then show ?thesis using assms(1)
    by (simp add: tenancy_ok_def seats_ok_def tokens_ok_def same) (simp add: update_invitation_def)
qed

lemma tokens_only_ok:
  assumes "tenancy_ok d" "distinct (map at_id ts)"
    and "\<And>t. t \<in> set ts \<Longrightarrow> at_revoked_at t = None \<Longrightarrow> seat d (at_workspace_id t) (at_user_id t) \<noteq> None"
  shows "tenancy_ok (d\<lparr>td_tokens := ts\<rparr>)"
proof -
  have "member_by_email (d\<lparr>td_tokens := ts\<rparr>) = member_by_email d" "seat (d\<lparr>td_tokens := ts\<rparr>) = seat d"
    by (simp_all add: fun_eq_iff member_by_email_def email_of_user_def user_by_id_def seat_def)
  then show ?thesis using assms by (auto simp: tenancy_ok_def seats_ok_def tokens_ok_def invitations_ok_def)
qed

lemma add_user_ok:
  assumes "tenancy_ok d" "user_by_id d (u_id u) = None"
  shows "tenancy_ok (d\<lparr>td_users := td_users d @ [u]\<rparr>)"
proof -
  let ?d = "d\<lparr>td_users := td_users d @ [u]\<rparr>"
  have "email_of_user ?d (wm_user_id m) = email_of_user d (wm_user_id m)" if "m \<in> set (td_members d)" for m
    using that assms by (fastforce simp: tenancy_ok_def seats_ok_def email_of_user_def user_by_id_def find_append find_eq_None
        split: option.split)
  then have "member_by_email ?d ws e = None \<longleftrightarrow> member_by_email d ws e = None" for ws e
    by (simp add: member_by_email_None cong: ball_cong)
  moreover have "seat ?d = seat d" by (simp add: fun_eq_iff seat_def)
  ultimately show ?thesis
    using assms by (auto simp: tenancy_ok_def seats_ok_def tokens_ok_def invitations_ok_def user_by_id_def find_eq_None)
qed

lemma new_workspace_ok:
  assumes "new_workspace ws_id member_id kind uid d = Inr d1" "tenancy_ok d" "uid \<in> u_id ` set (td_users d)"
  shows "tenancy_ok d1"
proof -
  let ?m = "\<lparr>wm_id = member_id, wm_workspace_id = ws_id, wm_user_id = uid, wm_role = Owner, wm_status = M_active\<rparr>"
  let ?d = "d\<lparr>td_workspaces := td_workspaces d @ [\<lparr>wk_id = ws_id, wk_kind = kind, wk_owner_user_id = uid\<rparr>]\<rparr>"
  from assms(1) have fresh: "workspace_by_id d ws_id = None" "member_id \<notin> wm_id ` set (td_members d)"
    and d1: "d1 = ?d\<lparr>td_members := td_members ?d @ [?m]\<rparr>"
    by (auto simp: new_workspace_def split: if_splits)
  have new: "ws_id \<notin> wk_id ` set (td_workspaces d)" using fresh(1) by (auto simp: workspace_by_id_def find_eq_None)
  have same: "member_by_email ?d = member_by_email d" "seat ?d = seat d"
    by (simp_all add: fun_eq_iff member_by_email_def email_of_user_def user_by_id_def seat_def)
  have "tenancy_ok ?d"
    using assms(2) new by (auto simp: tenancy_ok_def seats_ok_def tokens_ok_def invitations_ok_def same)
  moreover have "seat ?d ws_id uid = None"
    using assms(2) new by (auto simp: seat_None tenancy_ok_def seats_ok_def)
  ultimately show ?thesis
    unfolding d1 using fresh assms(2,3) new
    by (intro add_member_ok) (auto simp: tenancy_ok_def invitations_ok_def)
qed

section \<open>Principals\<close>

definition pr_ok :: "tenancy \<Rightarrow> principal \<Rightarrow> bool" where
  "pr_ok d p \<longleftrightarrow> pr_user p \<in> set (td_users d) \<and> (\<forall>t. pr_token p = Some t \<longrightarrow>
     at_user_id t = u_id (pr_user p) \<and> active_membership d (at_user_id t) (at_workspace_id t) \<noteq> None)"

lemma used_token_fields [simp]: "at_id (used_token now ip t) = at_id t" "at_user_id (used_token now ip t) = at_user_id t"
  "at_workspace_id (used_token now ip t) = at_workspace_id t" "at_read_only (used_token now ip t) = at_read_only t"
  by (auto simp: used_token_def)

lemma authenticate_pr_ok:
  assumes "get_current_user hmac sha idle now d rq = (d1, Inr p)"
  shows "pr_ok d1 p"
proof -
  note same = authenticate_same [OF assms]
  show ?thesis
  proof (cases "present (rq_authorization rq)")
    case None
    then have "authenticate_session sha idle now d rq = (d1, Inr p)" using assms by (simp add: get_current_user_def)
    from authenticate_session_cases [OF this] same show ?thesis by (auto simp: pr_ok_def same_tenancy_def)
  next
    case (Some header)
    then have "authenticate_api_token hmac now d rq header = (d1, Inr p)" using assms by (simp add: get_current_user_def)
    from authenticate_token_cases [OF this] obtain row u where
      "user_by_id d (at_user_id row) = Some u" "active_membership d (at_user_id row) (at_workspace_id row) \<noteq> None"
      "p = \<lparr>pr_user = u, pr_token = Some (used_token now (rq_client_ip rq) row)\<rparr>"
      by (auto split: if_splits)
    then show ?thesis using same_tenancy_lookups [OF same] same
      by (auto simp: pr_ok_def user_by_id_def same_tenancy_def dest!: find_SomeD)
  qed
qed

lemma workspace_by_id_SomeD: "workspace_by_id d i = Some w \<Longrightarrow> w \<in> set (td_workspaces d) \<and> wk_id w = i"
  unfolding workspace_by_id_def by (drule find_SomeD) simp

lemma current_workspace_member:
  assumes "get_current_workspace d rq p = Inr ws" "pr_ok d p"
  shows "ws \<in> set (td_workspaces d)" "active_membership d (u_id (pr_user p)) (wk_id ws) \<noteq> None"
    "\<And>t. pr_token p = Some t \<Longrightarrow> wk_id ws = at_workspace_id t"
proof -
  have "ws \<in> set (td_workspaces d) \<and> active_membership d (u_id (pr_user p)) (wk_id ws) \<noteq> None
    \<and> (\<forall>t. pr_token p = Some t \<longrightarrow> wk_id ws = at_workspace_id t)"
  proof (cases "pr_token p")
    case (Some t)
    with assms have "workspace_by_id d (at_workspace_id t) = Some ws"
      by (auto simp: get_current_workspace_def workspace_for_api_token_def split: if_splits option.splits)
    then show ?thesis using assms(2) Some by (auto simp: pr_ok_def dest!: workspace_by_id_SomeD)
  next
    case None
    define ms where "ms = filter (\<lambda>m. wm_user_id m = u_id (pr_user p) \<and> wm_status m = M_active) (td_members d)"
    from assms(1) None have "\<exists>m \<in> set ms. workspace_by_id d (wm_workspace_id m) = Some ws"
      unfolding get_current_workspace_def ms_def [symmetric]
      by (cases ms) (auto simp: chosen_workspace_def split: option.splits if_splits)
    then obtain m where m: "m \<in> set ms" "workspace_by_id d (wm_workspace_id m) = Some ws" by blast
    then have "ws \<in> set (td_workspaces d)" "wk_id ws = wm_workspace_id m" using workspace_by_id_SomeD by auto
    then show ?thesis using m(1) None by (auto simp: ms_def active_membership_def find_eq_None)
  qed
  then show "ws \<in> set (td_workspaces d)" "active_membership d (u_id (pr_user p)) (wk_id ws) \<noteq> None"
    "\<And>t. pr_token p = Some t \<Longrightarrow> wk_id ws = at_workspace_id t" by auto
qed

lemma admin_gate_InrD:
  assumes "admin_gate d rq p = Inr ws" "pr_ok d p"
  shows "ws \<in> set (td_workspaces d)" "role_rank Administrator \<le> role_rank (membership_role d (u_id (pr_user p)) (wk_id ws))"
    "pr_token p = None" "active_membership d (u_id (pr_user p)) (wk_id ws) \<noteq> None"
  using assms current_workspace_member [of d rq p ws]
  by (auto simp: admin_gate_def bindr_Inr require_role_def forbid_api_token_def split: if_splits)

section \<open>Every request keeps the invariant\<close>

lemma patch_member_ok: "patch_member d ws uid i pl = Inr d1 \<Longrightarrow> tenancy_ok d \<Longrightarrow> tenancy_ok d1"
  by (auto simp: patch_member_def Let_def patched_member_def intro!: update_member_ok split: option.splits if_splits)

lemma remove_member_ok: "remove_member now d ws uid i = Inr d1 \<Longrightarrow> tenancy_ok d \<Longrightarrow> tenancy_ok d1"
  unfolding remove_member_def member_in_workspace_def Let_def
  by (auto dest!: find_SomeD intro: remove_seat_ok split: option.splits if_splits)

lemma create_invitation_ok:
  "create_invitation hmac ttl now d ws email r i plain = Inr (d1, answer) \<Longrightarrow> tenancy_ok d
   \<Longrightarrow> ws \<in> wk_id ` set (td_workspaces d) \<Longrightarrow> tenancy_ok d1"
  by (auto simp: create_invitation_def Let_def invitation_by_id_def find_eq_None intro!: add_invitation_ok
      split: option.splits if_splits)

lemma update_invitation_members:
  "update_invitation i f (d\<lparr>td_members := ms\<rparr>) = (update_invitation i f d)\<lparr>td_members := ms\<rparr>"
  by (simp add: update_invitation_def)

lemma invitation_for_token_SomeD:
  "invitation_for_token hmac d token = Some v \<Longrightarrow> v \<in> set (td_invitations d)"
  by (auto simp: invitation_for_token_def Let_def invitation_by_id_def dest!: find_SomeD
      split: option.splits if_splits prod.splits)

text \<open>Whoever accepts a pending invitation has no seat yet: the seat is always a new one.\<close>

lemma accept_invitation_cases:
  assumes "accept_invitation hmac now d p token member_id = Inr d1" "tenancy_ok d" "pr_user p \<in> set (td_users d)"
  obtains v where "v \<in> set (td_invitations d)" "wi_status v = Inv_pending" "seat d (wi_workspace_id v) (u_id (pr_user p)) = None"
    "lower (u_email (pr_user p)) = wi_email v" "pr_token p = None" "member_id \<notin> wm_id ` set (td_members d)"
    "d1 = (update_invitation (wi_id v) (accepted now (u_id (pr_user p))) d)\<lparr>td_members := td_members d @ [new_seat member_id (wi_workspace_id v) (u_id (pr_user p)) (wi_role v)]\<rparr>"
proof -
  from assms(1) obtain v where v: "invitation_for_token hmac d token = Some v" "wi_status v = Inv_pending"
    "lower (wi_email v) = lower (u_email (pr_user p))" "pr_token p = None"
    and rest: "bindr (take_seat (wi_workspace_id v) (u_id (pr_user p)) (wi_role v) member_id d) (\<lambda>d1.
           Inr (update_invitation (wi_id v) (accepted now (u_id (pr_user p))) d1)) = Inr d1"
    by (auto simp: accept_invitation_def bindr_Inr forbid_api_token_def split: option.splits if_splits)
  have mem: "v \<in> set (td_invitations d)" using v(1) by (rule invitation_for_token_SomeD)
  have email: "lower (u_email (pr_user p)) = wi_email v" using assms(2) mem v(3)
    by (auto simp: tenancy_ok_def invitations_ok_def)
  have "email_of_user d (u_id (pr_user p)) = Some (u_email (pr_user p))"
  proof -
    obtain u where u: "user_by_id d (u_id (pr_user p)) = Some u"
      using assms(3) by (cases "user_by_id d (u_id (pr_user p))") (auto simp: user_by_id_def find_eq_None)
    then have "u = pr_user p" using assms(2,3)
      by (auto simp: tenancy_ok_def user_by_id_def distinct_map dest!: find_SomeD dest: inj_onD)
    then show ?thesis using u by (simp add: email_of_user_def)
  qed
  moreover have "member_by_email d (wi_workspace_id v) (wi_email v) = None"
    using assms(2) mem v(2) by (auto simp: tenancy_ok_def invitations_ok_def)
  ultimately have none: "seat d (wi_workspace_id v) (u_id (pr_user p)) = None"
    using email by (force simp: member_by_email_None seat_None)
  from rest none have "member_id \<notin> wm_id ` set (td_members d)" "d1 = (update_invitation (wi_id v) (accepted now (u_id (pr_user p))) d)\<lparr>td_members := td_members d @ [new_seat member_id (wi_workspace_id v) (u_id (pr_user p)) (wi_role v)]\<rparr>"
    by (auto simp: take_seat_def update_invitation_members split: if_splits)
  then show ?thesis using that mem v(2,4) none email by blast
qed

lemma accept_invitation_ok:
  assumes "accept_invitation hmac now d p token member_id = Inr d1" "tenancy_ok d" "pr_user p \<in> set (td_users d)"
  shows "tenancy_ok d1"
proof -
  obtain v where v: "v \<in> set (td_invitations d)" "wi_status v = Inv_pending" "seat d (wi_workspace_id v) (u_id (pr_user p)) = None"
    "lower (u_email (pr_user p)) = wi_email v" "member_id \<notin> wm_id ` set (td_members d)"
    and d1: "d1 = (update_invitation (wi_id v) (accepted now (u_id (pr_user p))) d)\<lparr>td_members := td_members d @ [new_seat member_id (wi_workspace_id v) (u_id (pr_user p)) (wi_role v)]\<rparr>"
    using accept_invitation_cases [OF assms] by metis
  define d0 where "d0 = update_invitation (wi_id v) (accepted now (u_id (pr_user p))) d"
  have d0: "tenancy_ok d0" unfolding d0_def by (rule update_invitation_ok [OF assms(2)]) (simp_all add: accepted_def)
  have same: "td_members d0 = td_members d" "td_users d0 = td_users d" "td_workspaces d0 = td_workspaces d"
    "seat d0 = seat d" "email_of_user d0 = email_of_user d"
    by (simp_all add: d0_def update_invitation_def fun_eq_iff seat_def email_of_user_def user_by_id_def)
  have other: "map_option lower (email_of_user d (u_id (pr_user p))) \<noteq> Some (wi_email w)"
    if w: "w \<in> set (td_invitations d0)" "wi_status w = Inv_pending" "wi_workspace_id w = wi_workspace_id v" for w
  proof
    assume e: "map_option lower (email_of_user d (u_id (pr_user p))) = Some (wi_email w)"
    from w obtain w0 where w0: "w0 \<in> set (td_invitations d)" "wi_id w0 \<noteq> wi_id v" "w = w0"
      by (auto simp: d0_def update_invitation_def accepted_def split: if_splits)
    obtain u where u: "user_by_id d (u_id (pr_user p)) = Some u" "wi_email w = lower (u_email u)"
      using e by (auto simp: email_of_user_def)
    then have "u = pr_user p" using assms(2,3)
      by (auto simp: tenancy_ok_def user_by_id_def distinct_map dest!: find_SomeD dest: inj_onD)
    then have "wi_email w = wi_email v" using u(2) v(4) by simp
    then have "w0 = v" using assms(2) v(1,2) w0 w(2,3)
      by (auto simp: tenancy_ok_def invitations_ok_def distinct_map dest: inj_onD)
    then show False using w0 by simp
  qed
  have "tenancy_ok (d0\<lparr>td_members := td_members d0 @ [new_seat member_id (wi_workspace_id v) (u_id (pr_user p)) (wi_role v)]\<rparr>)"
  proof (rule add_member_ok [OF d0])
    show "wm_workspace_id (new_seat member_id (wi_workspace_id v) (u_id (pr_user p)) (wi_role v)) \<in> wk_id ` set (td_workspaces d0)"
      using assms(2) v(1) by (auto simp: same tenancy_ok_def invitations_ok_def new_seat_def)
  qed (use v(3,5) assms(3) other in \<open>auto simp: same new_seat_def\<close>)
  then show ?thesis by (simp only: d1 d0_def [symmetric] same)
qed

lemma update_token_ok:
  assumes "tenancy_ok d" and f: "\<And>t. at_id (f t) = at_id t" "\<And>t. at_workspace_id (f t) = at_workspace_id t"
    "\<And>t. at_user_id (f t) = at_user_id t" "\<And>t. at_revoked_at (f t) = None \<Longrightarrow> at_revoked_at t = None"
  shows "tenancy_ok (update_token i f d)"
  unfolding update_token_def
proof (rule tokens_only_ok [OF assms(1)])
  have "map at_id (map (\<lambda>t. if at_id t = i then f t else t) ts) = map at_id ts" for ts using f(1) by auto
  then show "distinct (map at_id (map (\<lambda>t. if at_id t = i then f t else t) (td_tokens d)))"
    using assms(1) by (simp only: tenancy_ok_def tokens_ok_def)
qed (use assms(1) f in \<open>fastforce simp: tenancy_ok_def tokens_ok_def split: if_splits\<close>)

lemma mint_token_ok:
  assumes "mint_token hmac now ws uid i secret ro ex d = Inr (d1, plain)" "tenancy_ok d" "seat d ws uid \<noteq> None"
  shows "tenancy_ok d1"
proof -
  from assms(1) obtain t where t: "d1 = d\<lparr>td_tokens := td_tokens d @ [t]\<rparr>" "at_id t = i" "at_workspace_id t = ws"
    "at_user_id t = uid" and fresh: "token_by_id d i = None"
    by (auto simp: mint_token_def split: if_splits)
  show ?thesis
    unfolding t(1) by (rule tokens_only_ok [OF assms(2)])
      (use assms(2,3) fresh t in \<open>auto simp: tenancy_ok_def tokens_ok_def token_by_id_def find_eq_None\<close>)
qed

lemma operate_ok:
  assumes "operate hmac cf now d rq p op = Inr (d1, answer)" "tenancy_ok d" "pr_ok d p"
  shows "tenancy_ok d1"
proof (cases op)
  case (Create_workspace w m)
  then show ?thesis using assms new_workspace_ok [of w m Organization "u_id (pr_user p)" d d1]
    by (auto simp: bindr_Inr create_workspace_def pr_ok_def split: if_splits)
next
  case (Create_invitation email r i plain)
  then obtain ws where "admin_gate d rq p = Inr ws"
    "create_invitation hmac (ac_invitation_ttl cf) now d (wk_id ws) email r i plain = Inr (d1, answer)"
    using assms(1) by (auto simp: create_invitation_route_def bindr_Inr split: if_splits)
  then show ?thesis using create_invitation_ok assms(2) admin_gate_InrD(1) [OF _ assms(3)] by blast
next
  case (Revoke_invitation i)
  then show ?thesis using assms
    by (auto simp: revoke_invitation_route_def bindr_Inr intro!: update_invitation_ok split: option.splits if_splits)
next
  case (Accept_invitation token m)
  then show ?thesis using assms accept_invitation_ok by (auto simp: bindr_Inr pr_ok_def)
next
  case (Patch_member m pl)
  then show ?thesis using assms patch_member_ok
    by (auto simp: bindr_Inr patch_member_route_def split: if_splits)
next
  case (Remove_member m)
  then show ?thesis using assms remove_member_ok by (auto simp: bindr_Inr remove_member_route_def)
next
  case (Create_token i secret ro ex)
  then obtain ws plain where ws: "get_current_workspace d rq p = Inr ws"
    "mint_token hmac now (wk_id ws) (u_id (pr_user p)) i secret ro ex d = Inr (d1, plain)"
    using assms(1) by (auto simp: create_token_route_def bindr_Inr split: if_splits prod.splits)
  show ?thesis
    by (rule mint_token_ok [OF ws(2) assms(2)]) (rule active_seat [OF current_workspace_member(2) [OF ws(1) assms(3)]])
next
  case (Revoke_token i)
  then have "d1 = update_token i (revoked now) d" using assms(1)
    by (auto simp: bindr_Inr revoke_token_route_def split: option.splits)
  then show ?thesis using update_token_ok [OF assms(2), of "revoked now" i] by simp
qed (use assms in \<open>auto simp: bindr_Inr\<close>)

lemma promote_signup_ok:
  assumes "promote_signup email u w m d = Inr d1" "tenancy_ok d"
  shows "tenancy_ok d1"
proof -
  let ?u = "\<lparr>u_id = u, u_email = email\<rparr>"
  from assms(1) have new: "new_workspace w m Personal u (d\<lparr>td_users := td_users d @ [?u]\<rparr>) = Inr d1"
    and fresh: "user_by_id d (u_id ?u) = None"
    by (auto simp: promote_signup_def split: if_splits)
  show ?thesis by (rule new_workspace_ok [OF new add_user_ok [OF assms(2) fresh]]) simp
qed

text \<open>A request leaves the tables as they were, signs someone up, or does what its operation does.\<close>

lemma perform_cases:
  obtains (same) "same_tenancy d (fst (perform hmac sha cf now rq op d))"
  | (signup) email u w m token d1 where "op = Sign_up email u w m token" "promote_signup email u w m d = Inr d1"
      "same_tenancy d1 (fst (perform hmac sha cf now rq op d))"
  | (operated) d1 p d2 answer where "get_current_user hmac sha (ac_session_idle cf) now d rq = (d1, Inr p)"
      "operate hmac cf now d1 rq p op = Inr (d2, answer)" "perform hmac sha cf now rq op d = (d2, Inr answer)"
proof -
  obtain d1 r where auth: "get_current_user hmac sha (ac_session_idle cf) now d rq = (d1, r)" by fastforce
  define body where "body = (case r of Inl e \<Rightarrow> (d1, Inl e) | Inr p \<Rightarrow> (case operate hmac cf now d1 rq p op of
                Inl e \<Rightarrow> (d1, Inl e) | Inr (d2, answer) \<Rightarrow> (d2, Inr answer)))"
  have other: thesis if "perform hmac sha cf now rq op d = body"
  proof (cases r)
    case (Inl e)
    then show thesis using same that authenticate_same [OF auth] by (simp add: body_def)
  next
    case (Inr p)
    show thesis
    proof (cases "operate hmac cf now d1 rq p op")
      case (Inl e)
      then show thesis using same that authenticate_same [OF auth] by (simp add: body_def \<open>r = Inr p\<close>)
    next
      case (Inr res)
      then show thesis using operated auth that \<open>r = Inr p\<close> by (cases res) (simp add: body_def)
    qed
  qed
  show thesis
  proof (cases op)
    case (Sign_up email u w m token)
    show thesis
    proof (cases "promote_signup email u w m d")
      case (Inl e)
      then show thesis using same Sign_up by (simp add: perform_def)
    next
      case (Inr d0)
      then show thesis using signup [OF Sign_up Inr] Sign_up open_session_same by (simp add: perform_def)
    qed
  next
    case (Log_in u token)
    then show thesis using same open_session_same by (auto simp: perform_def split: option.splits)
  next
    case Log_out
    then show thesis using same by (auto simp: perform_def split: option.splits)
  next
    case (Reset_password u)
    then show thesis using same by (auto simp: perform_def split: option.splits)
  qed (rule other, simp add: perform_def auth body_def split: sum.split)+
qed

lemma perform_ok:
  assumes "tenancy_ok d"
  shows "tenancy_ok (fst (perform hmac sha cf now rq op d))"
proof (cases rule: perform_cases [of d hmac sha cf now rq op])
  case same
  then show ?thesis using same_tenancy_ok assms by blast
next
  case (signup email u w m token d1)
  then show ?thesis using promote_signup_ok same_tenancy_ok assms by blast
next
  case (operated d1 p d2 answer)
  then show ?thesis
    using operate_ok [OF operated(2) same_tenancy_ok [OF authenticate_same [OF operated(1)] assms] authenticate_pr_ok [OF operated(1)]]
    by simp
qed

text \<open>What every request keeps, every history keeps.\<close>

locale kept_by_requests =
  fixes kept :: "tenancy \<Rightarrow> bool"
  assumes perform_keeps: "kept d \<Longrightarrow> kept (fst (perform hmac sha cf now rq op d))"
begin

lemma serve_keeps: "kept d \<Longrightarrow> kept (serve hmac sha cf hist d)"
  by (induction hist arbitrary: d) (auto simp: perform_keeps)

end

interpretation consistent: kept_by_requests tenancy_ok
  by unfold_locales (rule perform_ok)

section \<open>Owners\<close>

definition has_owner :: "tenancy \<Rightarrow> uuid \<Rightarrow> bool" where
  "has_owner d ws \<longleftrightarrow> (\<exists>m \<in> set (td_members d). wm_workspace_id m = ws \<and> wm_role m = Owner \<and> wm_status m = M_active)"

definition owned :: "tenancy \<Rightarrow> bool" where
  "owned d \<longleftrightarrow> (\<forall>w \<in> set (td_workspaces d). has_owner d (wk_id w))"

text \<open>The one request that can leave a workspace without an active owner.\<close>

fun disables_owner :: "tenancy \<Rightarrow> operation \<Rightarrow> bool" where
  "disables_owner d (Patch_member i pl) \<longleftrightarrow> mp_status pl = Some (Some M_disabled)
     \<and> (\<exists>m \<in> set (td_members d). wm_id m = i \<and> wm_role m = Owner)"
| "disables_owner d _ \<longleftrightarrow> False"

fun no_owner_disabled :: "(string \<Rightarrow> string) \<Rightarrow> (string \<Rightarrow> string) \<Rightarrow> access_settings \<Rightarrow> (int \<times> request \<times> operation) list \<Rightarrow> tenancy \<Rightarrow> bool" where
  "no_owner_disabled hmac sha cf [] d \<longleftrightarrow> True"
| "no_owner_disabled hmac sha cf ((now, rq, op) # rest) d \<longleftrightarrow>
     \<not> disables_owner d op \<and> no_owner_disabled hmac sha cf rest (fst (perform hmac sha cf now rq op d))"

lemma other_owner:
  assumes "tenancy_ok d" "\<not> active_owner_count d ws \<le> 1"
  shows "\<exists>x \<in> set (td_members d). wm_workspace_id x = ws \<and> wm_role x = Owner \<and> wm_status x = M_active \<and> wm_id x \<noteq> i"
proof (rule ccontr)
  define os where "os = filter (\<lambda>m. wm_workspace_id m = ws \<and> wm_role m = Owner \<and> wm_status m = M_active) (td_members d)"
  assume "\<not> ?thesis"
  then have "set (map wm_id os) \<subseteq> {i}" by (auto simp: os_def)
  moreover have "distinct (map wm_id os)"
    using assms(1) by (simp add: os_def tenancy_ok_def seats_ok_def distinct_map_filter)
  ultimately have "length os \<le> 1" by (metis card_mono card.empty card_insert_disjoint distinct_card empty_iff finite.intros length_map One_nat_def)
  then show False using assms(2) by (simp add: active_owner_count_def os_def)
qed

lemma member_by_id_unique: "tenancy_ok d \<Longrightarrow> x \<in> set (td_members d) \<Longrightarrow> y \<in> set (td_members d) \<Longrightarrow> wm_id x = wm_id y \<Longrightarrow> x = y"
  by (auto simp: tenancy_ok_def seats_ok_def distinct_map dest: inj_onD)

lemma member_in_workspace_SomeD:
  "member_in_workspace d ws i = Some m \<Longrightarrow> m \<in> set (td_members d) \<and> wm_id m = i \<and> wm_workspace_id m = ws"
  unfolding member_in_workspace_def by (drule find_SomeD) simp

lemma patch_keeps_owner:
  assumes "patch_member d ws uid i pl = Inr d1" "tenancy_ok d" "has_owner d w"
    and "mp_status pl \<noteq> Some (Some M_invited)" "\<not> disables_owner d (Patch_member i pl)"
  shows "has_owner d1 w"
proof -
  from assms(1) obtain m where m: "member_in_workspace d ws i = Some m"
    and d1: "d1 = update_member i (patched_member pl) d"
    and guard: "wm_role m = Owner \<Longrightarrow> (case mp_role pl of Some r \<Rightarrow> r | None \<Rightarrow> None) \<notin> {None, Some Owner}
        \<Longrightarrow> \<not> active_owner_count d ws \<le> 1"
    and nulls: "mp_role pl \<noteq> Some None" "mp_status pl \<noteq> Some None"
    by (auto simp: patch_member_def Let_def member_in_workspace_SomeD split: option.splits if_splits)
  note m' = member_in_workspace_SomeD [OF m]
  from assms(3) obtain x where x: "x \<in> set (td_members d)" "wm_workspace_id x = w" "wm_role x = Owner" "wm_status x = M_active"
    by (auto simp: has_owner_def)
  have keep: "has_owner d1 w" if "y \<in> set (td_members d)" "wm_workspace_id y = w" "wm_role y = Owner" "wm_status y = M_active" "wm_id y \<noteq> i" for y
    using that by (force simp: has_owner_def d1 update_member_def)
  show ?thesis
  proof (cases "wm_id x = i")
    case False
    then show ?thesis using keep x by blast
  next
    case True
    then have "x = m" using member_by_id_unique [OF assms(2)] x(1) m' by blast
    show ?thesis
    proof (cases "wm_role (patched_member pl m) = Owner")
      case True
      have "wm_status (patched_member pl m) = M_active"
        using assms(4,5) nulls x \<open>x = m\<close> m' by (auto simp: patched_member_def split: option.splits) (metis member_status.exhaust)+
      moreover have "patched_member pl m \<in> set (td_members d1)" using m' by (force simp: d1 update_member_def)
      moreover have "wm_workspace_id (patched_member pl m) = w" using x \<open>x = m\<close> by (simp add: patched_member_def)
      ultimately show ?thesis using True by (auto simp: has_owner_def)
    next
      case False
      then have "\<not> active_owner_count d ws \<le> 1"
        using guard x \<open>x = m\<close> nulls by (auto simp: patched_member_def split: option.splits)
      then show ?thesis using other_owner [OF assms(2), of ws i] keep m' x(2) \<open>x = m\<close> by auto
    qed
  qed
qed

lemma remove_keeps_owner:
  assumes "remove_member now d ws uid i = Inr d1" "tenancy_ok d" "has_owner d w"
  shows "has_owner d1 w"
proof -
  from assms(1) obtain m where m: "member_in_workspace d ws i = Some m"
    and guard: "wm_role m = Owner \<Longrightarrow> \<not> active_owner_count d ws \<le> 1"
    and d1: "td_members d1 = filter (\<lambda>x. wm_id x \<noteq> i) (td_members d)"
    by (auto simp: remove_member_def Let_def revoke_all_for_user_def dest: member_in_workspace_SomeD split: option.splits if_splits)
  note m' = member_in_workspace_SomeD [OF m]
  from assms(3) obtain x where x: "x \<in> set (td_members d)" "wm_workspace_id x = w" "wm_role x = Owner" "wm_status x = M_active"
    by (auto simp: has_owner_def)
  show ?thesis
  proof (cases "wm_id x = i")
    case True
    then have "x = m" using member_by_id_unique [OF assms(2)] x(1) m' by blast
    then show ?thesis using guard other_owner [OF assms(2), of ws i] x m' by (auto simp: has_owner_def d1)
  qed (use x in \<open>auto simp: has_owner_def d1\<close>)
qed

lemma has_owner_append: "has_owner d w \<Longrightarrow> td_members d1 = td_members d @ ms \<Longrightarrow> has_owner d1 w"
  by (auto simp: has_owner_def)

lemma new_workspace_owned:
  assumes "new_workspace ws_id m kind uid d = Inr d1" "owned d"
  shows "owned d1"
proof -
  have "td_members d1 = td_members d @ [new_seat m ws_id uid Owner]"
    "td_workspaces d1 = td_workspaces d @ [\<lparr>wk_id = ws_id, wk_kind = kind, wk_owner_user_id = uid\<rparr>]"
    using assms(1) by (auto simp: new_workspace_def new_seat_def split: if_splits)
  then show ?thesis using assms(2) has_owner_append [of d _ d1 "[new_seat m ws_id uid Owner]"]
    by (auto simp: owned_def) (auto simp: has_owner_def new_seat_def)
qed

lemma operate_owned:
  assumes "operate hmac cf now d rq p op = Inr (d1, answer)" "tenancy_ok d" "pr_ok d p" "owned d" "\<not> disables_owner d op"
  shows "owned d1"
proof (cases op)
  case (Create_workspace w m)
  then show ?thesis using assms new_workspace_owned [of w m Organization "u_id (pr_user p)" d d1]
    by (auto simp: bindr_Inr create_workspace_def split: if_splits)
next
  case (Create_invitation email r i plain)
  then have "td_members d1 = td_members d" "td_workspaces d1 = td_workspaces d"
    using assms(1) by (auto simp: create_invitation_route_def create_invitation_def bindr_Inr Let_def split: if_splits option.splits)
  then show ?thesis using assms(4) by (simp add: owned_def has_owner_def)
next
  case (Revoke_invitation i)
  then show ?thesis using assms(1,4)
    by (auto simp: revoke_invitation_route_def bindr_Inr update_invitation_def owned_def has_owner_def split: option.splits if_splits)
next
  case (Accept_invitation token m)
  then have acc: "accept_invitation hmac now d p token m = Inr d1" using assms(1) by (auto simp: bindr_Inr)
  obtain v where "td_members d1 = td_members d @ [v]" "td_workspaces d1 = td_workspaces d"
    by (rule accept_invitation_cases [OF acc assms(2)]) (use assms(3) in \<open>auto simp: pr_ok_def update_invitation_def\<close>)
  then show ?thesis using assms(4) has_owner_append by (auto simp: owned_def)
next
  case (Patch_member i pl)
  then obtain ws :: tenant where "patch_member d (wk_id ws) (u_id (pr_user p)) i pl = Inr d1" "mp_status pl \<noteq> Some (Some M_invited)"
    using assms(1) by (auto simp: bindr_Inr patch_member_route_def split: if_splits)
  moreover from this have "td_workspaces d1 = td_workspaces d"
    by (auto simp: patch_member_def Let_def update_member_def split: option.splits if_splits)
  ultimately show ?thesis using assms(2,4,5) patch_keeps_owner Patch_member unfolding owned_def by metis
next
  case (Remove_member i)
  then obtain ws :: tenant where rm: "remove_member now d (wk_id ws) (u_id (pr_user p)) i = Inr d1"
    using assms(1) by (auto simp: bindr_Inr remove_member_route_def)
  moreover from this have "td_workspaces d1 = td_workspaces d"
    by (auto simp: remove_member_def Let_def revoke_all_for_user_def split: option.splits if_splits)
  ultimately show ?thesis using assms(2,4) remove_keeps_owner by (auto simp: owned_def)
next
  case (Create_token i secret ro ex)
  then show ?thesis using assms(1,4)
    by (auto simp: create_token_route_def mint_token_def bindr_Inr owned_def has_owner_def split: if_splits prod.splits)
next
  case (Revoke_token i)
  then show ?thesis using assms(1,4)
    by (auto simp: bindr_Inr revoke_token_route_def update_token_def owned_def has_owner_def split: option.splits)
qed (use assms in \<open>auto simp: bindr_Inr\<close>)

lemma same_tenancy_owned: "same_tenancy d d1 \<Longrightarrow> owned d \<Longrightarrow> owned d1"
  by (simp add: same_tenancy_def owned_def has_owner_def)

lemma same_tenancy_disables: "same_tenancy d d1 \<Longrightarrow> disables_owner d1 op = disables_owner d op"
  by (cases op) (auto simp: same_tenancy_def)

lemma promote_signup_owned:
  assumes "promote_signup email u w m d = Inr d1" "owned d"
  shows "owned d1"
proof -
  let ?d = "d\<lparr>td_users := td_users d @ [\<lparr>u_id = u, u_email = email\<rparr>]\<rparr>"
  have "new_workspace w m Personal u ?d = Inr d1" using assms(1) by (auto simp: promote_signup_def split: if_splits)
  moreover have "owned ?d" using assms(2) by (simp add: owned_def has_owner_def)
  ultimately show ?thesis by (rule new_workspace_owned)
qed

lemma perform_owned:
  assumes "tenancy_ok d" "owned d" "\<not> disables_owner d op"
  shows "owned (fst (perform hmac sha cf now rq op d))"
proof (cases rule: perform_cases [of d hmac sha cf now rq op])
  case same
  then show ?thesis using same_tenancy_owned assms by blast
next
  case (signup email u w m token d1)
  then show ?thesis using promote_signup_owned same_tenancy_owned assms by blast
next
  case (operated d1 p d2 answer)
  note auth = authenticate_same [OF operated(1)]
  show ?thesis
    using operate_owned [OF operated(2) same_tenancy_ok [OF auth assms(1)] authenticate_pr_ok [OF operated(1)]
        same_tenancy_owned [OF auth assms(2)]] same_tenancy_disables [OF auth] assms(3) operated(3) by simp
qed

lemma serve_owned:
  "tenancy_ok d \<Longrightarrow> owned d \<Longrightarrow> no_owner_disabled hmac sha cf hist d \<Longrightarrow> owned (serve hmac sha cf hist d)"
proof (induction hist arbitrary: d)
  case (Cons event hist)
  obtain now rq op where e: "event = (now, rq, op)" by (cases event)
  show ?case using Cons.IH [OF perform_ok [OF Cons.prems(1)] perform_owned [OF Cons.prems(1,2)]] Cons.prems(3) by (simp add: e)
qed simp

section \<open>Invitations never carry the owner role\<close>

definition no_owner_invitations :: "tenancy \<Rightarrow> bool" where
  "no_owner_invitations d \<longleftrightarrow> (\<forall>v \<in> set (td_invitations d). wi_role v \<noteq> Owner)"

lemma no_owner_invitations_update:
  "no_owner_invitations d \<Longrightarrow> (\<And>v. wi_role (f v) = wi_role v) \<Longrightarrow> td_invitations d1 = map (\<lambda>v. if wi_id v = i then f v else v) (td_invitations d)
    \<Longrightarrow> no_owner_invitations d1"
  by (auto simp: no_owner_invitations_def)

lemma take_seat_invitations: "take_seat ws uid r i d = Inr d1 \<Longrightarrow> td_invitations d1 = td_invitations d"
  by (auto simp: take_seat_def update_member_def split: option.splits if_splits)

lemma operate_no_owner_invitations:
  assumes "operate hmac cf now d rq p op = Inr (d1, answer)" "no_owner_invitations d"
  shows "no_owner_invitations d1"
proof (cases op)
  case (Create_invitation email r i plain)
  then show ?thesis using assms
    by (auto simp: create_invitation_route_def create_invitation_def bindr_Inr Let_def no_owner_invitations_def
        split: if_splits option.splits)
next
  case (Revoke_invitation i)
  then have "d1 = update_invitation i (\<lambda>v. v\<lparr>wi_status := Inv_revoked\<rparr>) d" using assms(1)
    by (auto simp: revoke_invitation_route_def bindr_Inr split: option.splits if_splits)
  then show ?thesis
    using no_owner_invitations_update [OF assms(2), of "\<lambda>v. v\<lparr>wi_status := Inv_revoked\<rparr>" d1 i]
    by (simp add: update_invitation_def)
next
  case (Accept_invitation token m)
  then have "accept_invitation hmac now d p token m = Inr d1" using assms(1) by (auto simp: bindr_Inr)
  then obtain v :: invitation and d2 uid where "take_seat (wi_workspace_id v) uid (wi_role v) m d = Inr d2"
    and d1: "d1 = update_invitation (wi_id v) (accepted now uid) d2"
    by (auto simp: accept_invitation_def bindr_Inr split: option.splits if_splits)
  from take_seat_invitations [OF this(1)] show ?thesis
    using no_owner_invitations_update [OF assms(2), of "accepted now uid" d1 "wi_id v"]
    by (simp add: d1 update_invitation_def accepted_def)
next
  case (Patch_member i pl)
  then show ?thesis using assms
    by (auto simp: bindr_Inr patch_member_route_def patch_member_def Let_def update_member_def no_owner_invitations_def
        split: option.splits if_splits)
next
  case (Remove_member i)
  then show ?thesis using assms
    by (auto simp: bindr_Inr remove_member_route_def remove_member_def Let_def revoke_all_for_user_def no_owner_invitations_def
        split: option.splits if_splits)
next
  case (Create_token i secret ro ex)
  then show ?thesis using assms
    by (auto simp: create_token_route_def mint_token_def bindr_Inr no_owner_invitations_def split: if_splits prod.splits)
next
  case (Revoke_token i)
  then show ?thesis using assms
    by (auto simp: bindr_Inr revoke_token_route_def update_token_def no_owner_invitations_def split: option.splits)
qed (use assms in \<open>auto simp: bindr_Inr create_workspace_def new_workspace_def no_owner_invitations_def split: if_splits\<close>)

lemma same_tenancy_no_owner_invitations: "same_tenancy d d1 \<Longrightarrow> no_owner_invitations d1 \<longleftrightarrow> no_owner_invitations d"
  by (simp add: same_tenancy_def no_owner_invitations_def)

lemma perform_no_owner_invitations:
  assumes "no_owner_invitations d"
  shows "no_owner_invitations (fst (perform hmac sha cf now rq op d))"
proof (cases rule: perform_cases [of d hmac sha cf now rq op])
  case same
  then show ?thesis using same_tenancy_no_owner_invitations assms by blast
next
  case (signup email u w m token d1)
  then have "no_owner_invitations d1" using assms
    by (auto simp: promote_signup_def new_workspace_def no_owner_invitations_def split: if_splits)
  then show ?thesis using same_tenancy_no_owner_invitations [OF signup(3)] by blast
next
  case (operated d1 p d2 answer)
  then show ?thesis
    using operate_no_owner_invitations same_tenancy_no_owner_invitations [OF authenticate_same [OF operated(1)]] assms
    by simp
qed

interpretation owner_not_invited: kept_by_requests no_owner_invitations
  by unfold_locales (rule perform_no_owner_invitations)

text \<open>So an owner's seat is new only together with its workspace.\<close>

lemma new_workspace_seats:
  assumes "new_workspace w i kind uid d = Inr d1" "y \<in> set (td_members d1)" "wm_id y \<notin> wm_id ` set (td_members d)"
  shows "workspace_by_id d (wm_workspace_id y) = None
    \<and> (\<exists>w \<in> set (td_workspaces d1). wk_id w = wm_workspace_id y \<and> wk_owner_user_id w = wm_user_id y)"
  using assms by (auto simp: new_workspace_def split: if_splits)

lemma patch_member_ids:
  assumes "patch_member d ws uid i pl = Inr d1"
  shows "wm_id ` set (td_members d1) = wm_id ` set (td_members d)"
proof -
  from assms obtain k where d1: "d1 = update_member k (patched_member pl) d"
    by (auto simp: patch_member_def Let_def split: option.splits if_splits)
  have "map wm_id (td_members d1) = map wm_id (td_members d)"
    by (simp add: d1 update_member_def patched_member_def)
  then show ?thesis by (metis set_map)
qed

lemma operate_new_owner:
  assumes "operate hmac cf now d rq p op = Inr (d1, answer)" "tenancy_ok d" "pr_ok d p" "no_owner_invitations d"
    and "y \<in> set (td_members d1)" "wm_id y \<notin> wm_id ` set (td_members d)" "wm_role y = Owner"
  shows "workspace_by_id d (wm_workspace_id y) = None
    \<and> (\<exists>w \<in> set (td_workspaces d1). wk_id w = wm_workspace_id y \<and> wk_owner_user_id w = wm_user_id y)"
proof (cases op)
  case (Create_workspace w m)
  then show ?thesis using assms(1) new_workspace_seats [OF _ assms(5,6)]
    by (auto simp: bindr_Inr create_workspace_def split: if_splits)
next
  case (Accept_invitation token i)
  then have acc: "accept_invitation hmac now d p token i = Inr d1" using assms(1) by (auto simp: bindr_Inr)
  show ?thesis
    by (rule accept_invitation_cases [OF acc assms(2)])
      (use assms(3-7) in \<open>auto simp: pr_ok_def no_owner_invitations_def new_seat_def\<close>)
next
  case (Patch_member i pl)
  then obtain ws :: tenant where "patch_member d (wk_id ws) (u_id (pr_user p)) i pl = Inr d1" using assms(1)
    by (auto simp: bindr_Inr patch_member_route_def split: if_splits)
  from patch_member_ids [OF this] show ?thesis using assms(5,6) by blast
next
  case (Remove_member i)
  then have "set (td_members d1) \<subseteq> set (td_members d)" using assms(1)
    by (auto simp: bindr_Inr remove_member_route_def remove_member_def Let_def revoke_all_for_user_def
        split: option.splits if_splits)
  then show ?thesis using assms(5,6) by blast
next
  case (Create_invitation email r i plain)
  then show ?thesis using assms(1,5,6)
    by (auto simp: create_invitation_route_def create_invitation_def bindr_Inr Let_def split: if_splits option.splits)
next
  case (Revoke_invitation i)
  then show ?thesis using assms(1,5,6)
    by (auto simp: revoke_invitation_route_def bindr_Inr update_invitation_def split: option.splits if_splits)
next
  case (Create_token i secret ro ex)
  then show ?thesis using assms(1,5,6)
    by (auto simp: create_token_route_def mint_token_def bindr_Inr split: if_splits prod.splits)
next
  case (Revoke_token i)
  then show ?thesis using assms(1,5,6)
    by (auto simp: bindr_Inr revoke_token_route_def update_token_def split: option.splits)
qed (use assms(1,5,6) in \<open>auto simp: bindr_Inr\<close>)

section \<open>Tokens that are revoked\<close>

definition dead :: "tenancy \<Rightarrow> uuid \<Rightarrow> bool" where
  "dead d i \<longleftrightarrow> (\<exists>t. token_by_id d i = Some t \<and> at_revoked_at t \<noteq> None)"

lemma dead_resolves_not: "dead d i \<Longrightarrow> parse_plaintext raw = Some (i, secret) \<Longrightarrow> resolve_token hmac now d raw = None"
  by (auto simp: dead_def resolve_token_def)

lemma dead_map:
  assumes "dead d i" "td_tokens d1 = map f (td_tokens d)" "\<And>t. at_id (f t) = at_id t"
    "\<And>t. at_revoked_at t \<noteq> None \<Longrightarrow> at_revoked_at (f t) \<noteq> None"
  shows "dead d1 i"
  using assms by (auto simp: dead_def token_by_id_def find_map_key)

lemma dead_append: "dead d i \<Longrightarrow> td_tokens d1 = td_tokens d @ ts \<Longrightarrow> dead d1 i"
  by (auto simp: dead_def token_by_id_def find_append)

lemma dead_same_tokens: "dead d i \<Longrightarrow> td_tokens d1 = td_tokens d \<Longrightarrow> dead d1 i"
  by (auto simp: dead_def token_by_id_def)

lemma token_core_by_id:
  "find (\<lambda>c. fst c = i) (map token_core ts) = map_option token_core (find (\<lambda>t. at_id t = i) ts)"
  by (induction ts) (auto simp: token_core_def)

lemma same_tenancy_token:
  assumes "same_tenancy d d1"
  shows "map_option token_core (token_by_id d1 i) = map_option token_core (token_by_id d i)"
  using assms unfolding same_tenancy_def token_by_id_def by (metis token_core_by_id)

lemma dead_same:
  assumes "same_tenancy d d1" "dead d i"
  shows "dead d1 i"
proof -
  from assms(2) obtain t where t: "token_by_id d i = Some t" "at_revoked_at t \<noteq> None" by (auto simp: dead_def)
  with same_tenancy_token [OF assms(1), of i] obtain s where "token_by_id d1 i = Some s" "token_core s = token_core t"
    by (cases "token_by_id d1 i") auto
  then show ?thesis using t by (auto simp: dead_def token_core_def)
qed

lemma remove_member_tokens:
  "remove_member now d ws uid k = Inr d1 \<Longrightarrow> \<exists>m. member_in_workspace d ws k = Some m
     \<and> td_tokens d1 = td_tokens (revoke_all_for_user now ws (wm_user_id m) d)"
  by (auto simp: remove_member_def Let_def split: option.splits if_splits)

lemma operate_dead:
  assumes "operate hmac cf now d rq p op = Inr (d1, answer)" "dead d i"
  shows "dead d1 i"
proof -
  have "(\<exists>f. td_tokens d1 = map f (td_tokens d) \<and> (\<forall>t. at_id (f t) = at_id t)
      \<and> (\<forall>t. at_revoked_at t \<noteq> None \<longrightarrow> at_revoked_at (f t) \<noteq> None)) \<or> (\<exists>ts. td_tokens d1 = td_tokens d @ ts)"
  proof (cases op)
    case (Create_token k secret ro ex)
    then show ?thesis using assms(1)
      by (auto simp: create_token_route_def mint_token_def bindr_Inr split: if_splits prod.splits)
  next
    case (Revoke_token k)
    then have "td_tokens d1 = map (\<lambda>t. if at_id t = k then revoked now t else t) (td_tokens d)"
      using assms(1) by (auto simp: bindr_Inr revoke_token_route_def update_token_def split: option.splits)
    then show ?thesis by (intro disjI1 exI [of _ "\<lambda>t. if at_id t = k then revoked now t else t"]) auto
  next
    case (Remove_member k)
    then obtain ws :: tenant where "remove_member now d (wk_id ws) (u_id (pr_user p)) k = Inr d1"
      using assms(1) by (auto simp: bindr_Inr remove_member_route_def)
    then obtain uid where "td_tokens d1 = map (\<lambda>t. if at_workspace_id t = wk_id ws \<and> at_user_id t = uid then revoked now t else t) (td_tokens d)"
      using remove_member_tokens by (force simp: revoke_all_for_user_def)
    then show ?thesis
      by (intro disjI1 exI [of _ "\<lambda>t. if at_workspace_id t = wk_id ws \<and> at_user_id t = uid then revoked now t else t"]) auto
  next
    case (Accept_invitation token m)
    then have "td_tokens d1 = td_tokens d" using assms(1)
      by (auto simp: bindr_Inr accept_invitation_def take_seat_def update_member_def update_invitation_def
          split: option.splits if_splits)
    then show ?thesis by simp
  next
    case (Create_invitation email r k plain)
    then have "td_tokens d1 = td_tokens d" using assms(1)
      by (auto simp: bindr_Inr create_invitation_route_def create_invitation_def Let_def split: option.splits if_splits)
    then show ?thesis by simp
  next
    case (Patch_member k pl)
    then have "td_tokens d1 = td_tokens d" using assms(1)
      by (auto simp: bindr_Inr patch_member_route_def patch_member_def Let_def update_member_def split: option.splits if_splits)
    then show ?thesis by simp
  next
    case (Revoke_invitation k)
    then have "td_tokens d1 = td_tokens d" using assms(1)
      by (auto simp: bindr_Inr revoke_invitation_route_def update_invitation_def split: option.splits if_splits)
    then show ?thesis by simp
  qed (use assms(1) in \<open>auto simp: bindr_Inr create_workspace_def new_workspace_def split: if_splits\<close>)
  then show ?thesis
  proof (elim disjE exE conjE)
    fix f
    assume "td_tokens d1 = map f (td_tokens d)" "\<forall>t. at_id (f t) = at_id t"
      "\<forall>t. at_revoked_at t \<noteq> None \<longrightarrow> at_revoked_at (f t) \<noteq> None"
    then show ?thesis using dead_map [OF assms(2)] by blast
  qed (rule dead_append [OF assms(2)])
qed

lemma perform_dead:
  assumes "dead d i"
  shows "dead (fst (perform hmac sha cf now rq op d)) i"
proof (cases rule: perform_cases [of d hmac sha cf now rq op])
  case same
  then show ?thesis using dead_same assms by blast
next
  case (signup email u w m token d1)
  then have "td_tokens d1 = td_tokens d" by (auto simp: promote_signup_def new_workspace_def split: if_splits)
  then show ?thesis using dead_same [OF signup(3)] dead_same_tokens [OF assms] by blast
next
  case (operated d1 p d2 answer)
  then show ?thesis using operate_dead dead_same [OF authenticate_same [OF operated(1)] assms] by simp
qed

interpretation dead_tokens: kept_by_requests "\<lambda>d. dead d i" for i
  by unfold_locales (rule perform_dead)

end
