(* ===== verification/AccessProps.thy ===== *)
theory AccessProps
  imports AccessInvariant
begin

text \<open>
  The properties of the access control: what a history of requests keeps, which credentials are
  accepted, and who can have caused a change. The witnesses run on the small tenancy at the end.
\<close>

section \<open>Minted tokens\<close>

lemma partition_at_append: "c \<notin> set a \<Longrightarrow> partition_at c (a @ c # b) = (a, True, b)"
  by (induction a) (auto simp: partition_at_def)

lemma dot_not_hex [simp]: "CHR ''.'' \<notin> hex_chars"
  using hex_char(1) [of "CHR ''.''"] by (auto simp: hex_val_def)

lemma parse_minted:
  assumes "i < 2 ^ 128" "secret \<noteq> []"
  shows "parse_plaintext (TOKEN_PREFIX @ hex_fixed 32 i @ ''.'' @ secret) = Some (i, secret)"
proof -
  have "CHR ''.'' \<notin> set (hex_fixed 32 i)" using hex_fixed_text [of 32 i] dot_not_hex by blast
  then have "partition_at (CHR ''.'') (hex_fixed 32 i @ CHR ''.'' # secret) = (hex_fixed 32 i, True, secret)"
    by (rule partition_at_append)
  then show ?thesis using assms(2) uuid_of_hex [OF assms(1)]
    by (simp add: parse_plaintext_def del: hex_fixed.simps)
qed

section \<open>Properties\<close>

text \<open>
  C6: Over every history of requests (sign-up, login, logout, workspaces, invitations, seats and
  API tokens) the tables stay consistent: one seat per user and workspace, at most one pending
  invitation per workspace and address and none for someone who has a seat there, and every token
  that is not revoked belongs to someone with a seat in the token's workspace.
\<close>

theorem tenancy_invariant:
  assumes "tenancy_ok d"
  shows "tenancy_ok (serve hmac sha cf hist d)"
  using assms by (rule consistent.serve_keeps)

text \<open>
  C20: Every workspace keeps an active owner over every history of requests in which no owner's seat
  is set to disabled; that one request is not guarded, so the last owner can lock the workspace.
\<close>

theorem owners_stay_unless_disabled:
  assumes "tenancy_ok d" "owned d" "no_owner_disabled hmac sha cf hist d"
  shows "owned (serve hmac sha cf hist d)"
  using assms by (rule serve_owned)

text \<open>
  C8: A member who is removed loses every API token of the workspace for good: whatever requests
  follow, a new invitation included, no plaintext that was that member's token is accepted again.
\<close>

theorem removed_members_tokens_stay_dead:
  assumes "perform hmac sha cf now rq (Remove_member i) d = (d1, Inr answer)"
    and "m \<in> set (td_members d)" "wm_id m = i" "tenancy_ok d"
    and "resolve_token hmac before d raw = Some t" "at_user_id t = wm_user_id m" "at_workspace_id t = wm_workspace_id m"
  shows "resolve_token hmac later (serve hmac sha cf hist d1) raw = None"
proof -
  obtain d0 p where auth: "get_current_user hmac sha (ac_session_idle cf) now d rq = (d0, Inr p)"
    and op: "operate hmac cf now d0 rq p (Remove_member i) = Inr (d1, answer)"
    using assms(1) by (auto simp: perform_def split: prod.splits sum.splits)
  note same = authenticate_same [OF auth]
  from op obtain ws :: tenant where "remove_member now d0 (wk_id ws) (u_id (pr_user p)) i = Inr d1"
    by (auto simp: bindr_Inr remove_member_route_def)
  from remove_member_tokens [OF this] obtain x where x: "member_in_workspace d0 (wk_id ws) i = Some x"
    and tokens: "td_tokens d1 = td_tokens (revoke_all_for_user now (wk_id ws) (wm_user_id x) d0)" by blast
  have "x = m" using member_in_workspace_SomeD [OF x] assms(2,3) member_by_id_unique [OF assms(4)] same
    by (auto simp: same_tenancy_def)
  then have ws: "wk_id ws = wm_workspace_id m" using member_in_workspace_SomeD [OF x] by simp
  from assms(5) obtain k secret where "parse_plaintext raw = Some (k, secret)" "token_by_id d k = Some t"
    by (auto simp: resolve_token_def split: option.splits if_splits)
  moreover from this(2) have "k = at_id t" unfolding token_by_id_def by (auto dest: find_SomeD)
  ultimately have parse: "parse_plaintext raw = Some (at_id t, secret)" and t: "token_by_id d (at_id t) = Some t" by simp_all
  from same_tenancy_token [OF same, of "at_id t"] t obtain s where s: "token_by_id d0 (at_id t) = Some s" "token_core s = token_core t"
    by (cases "token_by_id d0 (at_id t)") auto
  then have "token_by_id d1 (at_id t) = Some (revoked now s)"
    using assms(6,7) ws \<open>x = m\<close>
    by (simp add: token_by_id_def tokens revoke_all_for_user_def find_map_key token_core_def)
  then have "dead d1 (at_id t)" by (auto simp: dead_def)
  from dead_resolves_not [OF dead_tokens.serve_keeps [OF this] parse] show ?thesis .
qed

text \<open>
  C17: A minted token works: the plaintext a mint answers with authenticates, as a bearer header, the
  user who minted it, inside the workspace it was minted in, until it expires; with a read-only token
  every method that can write is refused.
\<close>

theorem minted_token_authenticates:
  assumes "mint_token hmac now ws uid i secret ro days d = Inr (d1, plain)"
    and "i < 2 ^ 128" "secret \<noteq> []" "\<forall>c \<in> set secret. \<not> is_space c"
    and "user_by_id d uid = Some u" "active_membership d uid ws \<noteq> None"
    and "\<forall>n. days = Some n \<longrightarrow> later < now + n * 86400 * 1000000"
    and "rq_authorization rq = Some (''Bearer '' @ plain)"
  shows "\<exists>d2 t. get_current_user hmac sha idle later d1 rq =
      (d2, if ro \<and> rq_method rq \<notin> set read_methods then Inl Token_read_only else Inr \<lparr>pr_user = u, pr_token = Some t\<rparr>)
    \<and> at_user_id t = uid \<and> at_workspace_id t = ws"
proof -
  from assms(1) obtain t where plain: "plain = TOKEN_PREFIX @ hex_fixed 32 i @ ''.'' @ secret"
    and d1: "d1 = d\<lparr>td_tokens := td_tokens d @ [t]\<rparr>" and fresh: "token_by_id d i = None"
    and t: "at_id t = i" "at_workspace_id t = ws" "at_user_id t = uid" "at_token_hmac t = hmac secret" "at_read_only t = ro"
      "at_expires_at t = map_option (\<lambda>n. now + n * 86400 * 1000000) days" "at_revoked_at t = None" "at_archived_at t = None"
    by (auto simp: mint_token_def split: if_splits)
  have "token_by_id d1 i = Some t" using fresh by (simp add: d1 token_by_id_def find_append t)
  then have resolve: "resolve_token hmac later d1 plain = Some t"
    using parse_minted [OF assms(2,3)] assms(7) t by (auto simp: resolve_token_def plain split: option.splits)
  have lookups: "user_by_id d1 uid = Some u" "active_membership d1 uid ws \<noteq> None"
    using assms(5,6) by (simp_all add: d1 user_by_id_def active_membership_def)
  have live: "resolve_live_token hmac later d1 rq plain
      = (record_use later (rq_client_ip rq) t d1, Inr (u, used_token later (rq_client_ip rq) t))"
    using lookups t by (auto simp: resolve_live_token_def resolve)
  have "\<forall>c \<in> set plain. \<not> is_space c"
    using hex_fixed_text [of 32 i] hex_char(10) assms(4) by (auto simp: plain TOKEN_PREFIX_def is_space_def simp del: hex_fixed.simps)
  then have strip: "strip plain = plain" by (rule strip_absent)
  have "partition_at (CHR '' '') (''Bearer'' @ CHR '' '' # plain) = (''Bearer'', True, plain)"
    by (rule partition_at_append) simp
  then have "partition_at (CHR '' '') (''Bearer '' @ plain) = (''Bearer'', True, plain)" by simp
  moreover have "lower ''Bearer'' = ''bearer''" by code_simp
  ultimately have "get_current_user hmac sha idle later d1 rq = authenticate_token_value hmac later d1 rq plain"
    using assms(8) by (simp add: get_current_user_def authenticate_api_token_def strip Let_def)
  then show ?thesis using t by (auto simp: authenticate_token_value_def live)
qed

section \<open>Who acts\<close>

lemma authenticated_user:
  assumes "get_current_user hmac sha idle now d rq = (d1, Inr p)"
  shows "case present (rq_authorization rq) of
      None \<Rightarrow> pr_token p = None
    | Some header \<Rightarrow> (\<exists>raw t. resolve_token hmac now d raw = Some t \<and> pr_token p = Some (used_token now (rq_client_ip rq) t)
        \<and> u_id (pr_user p) = at_user_id t \<and> (at_read_only t \<longrightarrow> rq_method rq \<in> set read_methods))"
proof (cases "present (rq_authorization rq)")
  case None
  then have "authenticate_session sha idle now d rq = (d1, Inr p)" using assms by (simp add: get_current_user_def)
  from authenticate_session_cases [OF this] None show ?thesis by auto
next
  case (Some header)
  then have "authenticate_api_token hmac now d rq header = (d1, Inr p)" using assms by (simp add: get_current_user_def)
  from authenticate_token_cases [OF this] obtain raw row u where
    "resolve_token hmac now d raw = Some row" "user_by_id d (at_user_id row) = Some u"
    "p = \<lparr>pr_user = u, pr_token = Some (used_token now (rq_client_ip rq) row)\<rparr>"
    "at_read_only row \<longrightarrow> rq_method rq \<in> set read_methods"
    by (auto split: if_splits)
  then show ?thesis using Some by (auto simp: user_by_id_def dest: find_SomeD)
qed

lemma gate_role: "require_role r d uid ws = Inr () \<longleftrightarrow> role_rank r \<le> role_rank (membership_role d uid ws)"
  by (simp add: require_role_def not_less)

text \<open>A request with an API token changes no seat, invitation or credential.\<close>

lemma token_operate_same:
  assumes "operate hmac cf now d rq p op = Inr (d1, answer)" "pr_token p \<noteq> None"
  shows "d1 = d"
  using assms by (cases op)
    (auto simp: bindr_Inr create_workspace_def forbid_api_token_def create_invitation_route_def admin_gate_def
      revoke_invitation_route_def accept_invitation_def patch_member_route_def remove_member_route_def
      create_token_route_def revoke_token_route_def)




lemma token_auth_ignores_cookies:
  "authenticate_api_token hmac now d (rq\<lparr>rq_session_cookie := c, rq_workspace_cookie := w\<rparr>) header
    = authenticate_api_token hmac now d rq header"
proof -
  have fields: "rq_client_ip (rq\<lparr>rq_session_cookie := c, rq_workspace_cookie := w\<rparr>) = rq_client_ip rq"
    "rq_method (rq\<lparr>rq_session_cookie := c, rq_workspace_cookie := w\<rparr>) = rq_method rq" by simp_all
  show ?thesis
    unfolding authenticate_api_token_def authenticate_token_value_def resolve_live_token_def fields ..
qed

text \<open>
  C7: A request acts inside a workspace only for an active member of it. An API token acts as its
  owner and in its own workspace only, whatever workspace or cookie the request names, and a
  read-only token only with methods that read; behind the member gate a write needs the role
  member or more.
\<close>

theorem requests_act_for_active_members:
  assumes "get_current_user hmac sha idle now d rq = (d1, Inr p)" "get_current_workspace d1 rq p = Inr ws"
  shows "active_membership d (u_id (pr_user p)) (wk_id ws) \<noteq> None
    \<and> (\<forall>header. present (rq_authorization rq) = Some header \<longrightarrow>
        (\<exists>raw t. resolve_token hmac now d raw = Some t \<and> u_id (pr_user p) = at_user_id t \<and> wk_id ws = at_workspace_id t
          \<and> (at_read_only t \<longrightarrow> rq_method rq \<in> set read_methods))
        \<and> (\<forall>c w. get_current_user hmac sha idle now d (rq\<lparr>rq_session_cookie := c, rq_workspace_cookie := w\<rparr>) = (d1, Inr p)))
    \<and> (require_member_for_writes rq d1 (u_id (pr_user p)) (wk_id ws) = Inr () \<and> rq_method rq \<notin> set read_methods
        \<longrightarrow> role_rank Member \<le> role_rank (membership_role d (u_id (pr_user p)) (wk_id ws)))"
proof (intro conjI allI impI)
  note same = same_tenancy_lookups [OF authenticate_same [OF assms(1)]]
  note ws = current_workspace_member [OF assms(2) authenticate_pr_ok [OF assms(1)]]
  show "active_membership d (u_id (pr_user p)) (wk_id ws) \<noteq> None" using ws(2) unfolding same .
  show "role_rank Member \<le> role_rank (membership_role d (u_id (pr_user p)) (wk_id ws))"
    if "require_member_for_writes rq d1 (u_id (pr_user p)) (wk_id ws) = Inr () \<and> rq_method rq \<notin> set read_methods"
  proof -
    from that have "require_role Member d1 (u_id (pr_user p)) (wk_id ws) = Inr ()"
      by (auto simp: require_member_for_writes_def split: if_splits)
    then show ?thesis unfolding gate_role same .
  qed
  fix header
  assume header: "present (rq_authorization rq) = Some header"
  then show "\<exists>raw t. resolve_token hmac now d raw = Some t \<and> u_id (pr_user p) = at_user_id t \<and> wk_id ws = at_workspace_id t
      \<and> (at_read_only t \<longrightarrow> rq_method rq \<in> set read_methods)"
    using authenticated_user [OF assms(1)] ws(3) by fastforce
  fix c w
  show "get_current_user hmac sha idle now d (rq\<lparr>rq_session_cookie := c, rq_workspace_cookie := w\<rparr>) = (d1, Inr p)"
    using assms(1) header by (simp add: get_current_user_def token_auth_ignores_cookies)
qed

text \<open>What a token's authentication writes: at most the last-used columns of the token.\<close>

lemma token_auth_writes:
  assumes "present (rq_authorization rq) \<noteq> None" "get_current_user hmac sha idle now d rq = (d1, r)"
  shows "\<exists>ts. d1 = d\<lparr>td_tokens := ts\<rparr> \<and> map token_core ts = map token_core (td_tokens d)"
proof -
  from assms obtain header where "authenticate_api_token hmac now d rq header = (d1, r)"
    by (auto simp: get_current_user_def)
  from authenticate_token_cases [OF this] consider "d1 = d" | row where "d1 = record_use now (rq_client_ip rq) row d" by blast
  then show ?thesis
  proof cases
    case 1
    then show ?thesis by (intro exI [of _ "td_tokens d"]) simp
  next
    case 2
    have "map token_core (td_tokens d1) = map token_core (td_tokens d)"
      using same_tenancy_record_use [of d now "rq_client_ip rq" row] by (simp add: 2 same_tenancy_def)
    then show ?thesis by (intro exI [of _ "td_tokens d1"]) (simp add: 2 record_use_def update_token_def)
  qed
qed

lemma perform_authenticated:
  assumes "\<not> public_route op" "get_current_user hmac sha (ac_session_idle cf) now d rq = (d1, r)"
  shows "perform hmac sha cf now rq op d = (case r of Inl e \<Rightarrow> (d1, Inl e)
    | Inr p \<Rightarrow> (case operate hmac cf now d1 rq p op of Inl e \<Rightarrow> (d1, Inl e) | Inr (d2, answer) \<Rightarrow> (d2, Inr answer)))"
  using assms by (cases op) (auto simp: perform_def split: sum.split)

text \<open>
  C18: A request that carries an API token administers nothing: on every route that authenticates it
  the tables come out exactly as they were, users, sessions, workspaces, seats, invitations and
  tokens, but for the last-used columns of tokens. On the routes that authenticate nobody (sign-up,
  login, logout, password reset) the token counts for nothing: the request does what it does without it.
\<close>

theorem api_tokens_administer_nothing:
  assumes "present (rq_authorization rq) \<noteq> None"
  shows "if public_route op
    then perform hmac sha cf now rq op d = perform hmac sha cf now (rq\<lparr>rq_authorization := None\<rparr>) op d
    else \<exists>ts. fst (perform hmac sha cf now rq op d) = d\<lparr>td_tokens := ts\<rparr> \<and> map token_core ts = map token_core (td_tokens d)"
proof (cases "public_route op")
  case True
  then show ?thesis by (cases op) (simp_all add: perform_def)
next
  case False
  obtain d1 r where auth: "get_current_user hmac sha (ac_session_idle cf) now d rq = (d1, r)" by fastforce
  have "fst (perform hmac sha cf now rq op d) = d1"
  proof (cases r)
    case (Inr p)
    then have "pr_token p \<noteq> None" using authenticated_user auth assms by (fastforce split: option.splits)
    then have "operate hmac cf now d1 rq p op = Inr (d2, answer) \<Longrightarrow> d2 = d1" for d2 answer
      using token_operate_same by blast
    then show ?thesis using perform_authenticated [OF False auth] Inr by (auto split: sum.split)
  qed (use perform_authenticated [OF False auth] in simp)
  then show ?thesis using token_auth_writes [OF assms auth] False by simp
qed



lemma present_cases: obtains "s = []" "present (Some s) = None" | "s \<noteq> []" "present (Some s) = Some s"
  by (cases s) auto

text \<open>
  C21: A request that can change something and acts through the session cookie has passed the origin
  check: its Origin header, or else its Referer, is of an allowed origin (the exempt paths apart).
\<close>

theorem cookie_writes_come_from_allowed_origins:
  assumes "csrf_dispatch origin_host allowed rq = Inr ()" "get_current_user hmac sha idle now d rq = (d1, Inr p)"
    and "pr_token p = None" "rq_method rq \<notin> set read_methods" "rq_path rq \<notin> set csrf_exempt_paths"
  shows "\<exists>v h. (rq_origin rq = Some v \<or> rq_referer rq = Some v) \<and> origin_host v = Some h
    \<and> (\<exists>a \<in> set allowed. origin_host a = Some h)"
proof -
  have no_header: "present (rq_authorization rq) = None"
    using authenticated_user [OF assms(2)] assms(3) by (auto split: option.splits)
  have "rq_method rq \<in> set csrf_protected_methods"
    using assms(4) by (cases "rq_method rq") (auto simp: read_methods_def csrf_protected_methods_def)
  with assms(1,5) no_header obtain h where h: "header_origin origin_host rq = Some h"
    and allowed: "h \<in> set (List.map_filter (\<lambda>v. case present (Some v) of None \<Rightarrow> None | Some v \<Rightarrow> origin_host v) allowed)"
    by (auto simp: csrf_dispatch_def split: option.splits if_splits)
  have present: "present x = Some v \<Longrightarrow> x = Some v" for x v by (cases x rule: present.cases) auto
  from h have "\<exists>v. (rq_origin rq = Some v \<or> rq_referer rq = Some v) \<and> origin_host v = Some h"
    by (auto simp: header_origin_def dest!: present split: option.splits)
  moreover from allowed have "\<exists>a \<in> set allowed. origin_host a = Some h"
  proof (clarsimp simp: set_map_filter)
    fix y
    assume "y \<in> set allowed" "(case present (Some y) of None \<Rightarrow> None | Some x \<Rightarrow> origin_host x) = Some h"
    then show ?thesis by (cases y rule: present_cases) auto
  qed
  ultimately show ?thesis by blast
qed

section \<open>A small tenancy for the witnesses\<close>

definition demo_user :: "uuid \<Rightarrow> user" where "demo_user i = \<lparr>u_id = i, u_email = ''u@x''\<rparr>"

definition demo_token :: api_token where
  "demo_token = \<lparr>at_id = 5, at_workspace_id = 10, at_user_id = 2, at_token_hmac = ''sec'', at_read_only = True,
     at_expires_at = None, at_revoked_at = None, at_archived_at = None, at_last_used_at = None, at_last_used_ip = None\<rparr>"

definition demo_tenancy :: tenancy where
  "demo_tenancy = \<lparr>td_users = [\<lparr>u_id = 1, u_email = ''a@x''\<rparr>, \<lparr>u_id = 2, u_email = ''b@x''\<rparr>],
     td_sessions = [\<lparr>us_token_hash = ''cookie'', us_user_id = 1, us_last_used_at = 0, us_expires_at = 1000\<rparr>],
     td_workspaces = [\<lparr>wk_id = 10, wk_kind = Organization, wk_owner_user_id = 1\<rparr>],
     td_members = [\<lparr>wm_id = 20, wm_workspace_id = 10, wm_user_id = 1, wm_role = Owner, wm_status = M_active\<rparr>,
       \<lparr>wm_id = 21, wm_workspace_id = 10, wm_user_id = 2, wm_role = Member, wm_status = M_active\<rparr>],
     td_invitations = [], td_tokens = [demo_token]\<rparr>"

definition demo_request :: request where
  "demo_request = \<lparr>rq_method = HTTP_delete, rq_path = ''/api/workspaces'', rq_authorization = None,
     rq_session_cookie = Some ''cookie'', rq_workspace_header = None, rq_workspace_cookie = None,
     rq_origin = Some ''http://x'', rq_referer = None, rq_client_ip = None\<rparr>"

definition demo_settings :: access_settings where
  "demo_settings = \<lparr>ac_session_idle = 100, ac_session_lifetime = 100, ac_invitation_ttl = 100\<rparr>"

lemma demo_ok: "tenancy_ok demo_tenancy"
  by (simp add: tenancy_ok_def seats_ok_def invitations_ok_def tokens_ok_def demo_tenancy_def demo_token_def seat_def)

lemma demo_owned: "owned demo_tenancy"
  by (simp add: owned_def has_owner_def demo_tenancy_def)

definition demo_owner :: principal where "demo_owner = \<lparr>pr_user = \<lparr>u_id = 1, u_email = ''a@x''\<rparr>, pr_token = None\<rparr>"

lemma demo_login: "get_current_user id id 100 10 demo_tenancy demo_request
    = (touch_session 10 ''cookie'' demo_tenancy, Inr demo_owner)"
  by (simp add: get_current_user_def authenticate_session_def demo_request_def demo_tenancy_def session_by_hash_def
      user_by_id_def demo_owner_def)

lemma demo_gate: "admin_gate (touch_session 10 ''cookie'' demo_tenancy) demo_request demo_owner
    = Inr \<lparr>wk_id = 10, wk_kind = Organization, wk_owner_user_id = 1\<rparr>"
  by (simp add: admin_gate_def bindr_def get_current_workspace_def chosen_workspace_def demo_request_def demo_tenancy_def
      demo_owner_def touch_session_def workspace_by_id_def require_role_def membership_role_def active_membership_def forbid_api_token_def)

definition demo_after_removal :: tenancy where
  "demo_after_removal = fst (perform id id demo_settings 10 demo_request (Remove_member 21) demo_tenancy)"

lemma demo_removal: "perform id id demo_settings 10 demo_request (Remove_member 21) demo_tenancy = (demo_after_removal, Inr None)"
  "td_members demo_after_removal = [\<lparr>wm_id = 20, wm_workspace_id = 10, wm_user_id = 1, wm_role = Owner, wm_status = M_active\<rparr>]"
proof -
  have r: "remove_member_route 10 (touch_session 10 ''cookie'' demo_tenancy) demo_request demo_owner 21
      = Inr ((revoke_all_for_user 10 10 2 (touch_session 10 ''cookie'' demo_tenancy))\<lparr>td_members := [hd (td_members demo_tenancy)]\<rparr>)"
    unfolding remove_member_route_def demo_gate
    by (simp add: bindr_def remove_member_def member_in_workspace_def demo_tenancy_def touch_session_def revoke_all_for_user_def
        demo_owner_def Let_def)
  have "perform id id demo_settings 10 demo_request (Remove_member 21) demo_tenancy
      = ((revoke_all_for_user 10 10 2 (touch_session 10 ''cookie'' demo_tenancy))\<lparr>td_members := [hd (td_members demo_tenancy)]\<rparr>, Inr None)"
    using demo_login r by (simp add: perform_def demo_settings_def bindr_def)
  then show "perform id id demo_settings 10 demo_request (Remove_member 21) demo_tenancy = (demo_after_removal, Inr None)"
    "td_members demo_after_removal = [\<lparr>wm_id = 20, wm_workspace_id = 10, wm_user_id = 1, wm_role = Owner, wm_status = M_active\<rparr>]"
    by (simp_all add: demo_after_removal_def demo_tenancy_def)
qed

definition demo_plain :: string where "demo_plain = TOKEN_PREFIX @ hex_fixed 32 5 @ ''.'' @ ''sec''"

lemma demo_resolves: "resolve_token id now demo_tenancy demo_plain = Some demo_token"
proof -
  have "parse_plaintext demo_plain = Some (5, ''sec'')" unfolding demo_plain_def by (rule parse_minted) simp_all
  then show ?thesis by (simp add: resolve_token_def token_by_id_def demo_tenancy_def demo_token_def)
qed

theorem tenancy_invariant_witness:
  "tenancy_ok (serve id id demo_settings [(10, demo_request, Remove_member 21)] demo_tenancy)"
  by (rule tenancy_invariant [OF demo_ok])

theorem owners_stay_unless_disabled_witness:
  "owned (serve id id demo_settings [(10, demo_request, Remove_member 21)] demo_tenancy)"
  by (rule owners_stay_unless_disabled [OF demo_ok demo_owned]) simp

theorem removed_members_tokens_stay_dead_witness:
  "resolve_token id 20 (serve id id demo_settings [] demo_after_removal) demo_plain = None"
  by (rule removed_members_tokens_stay_dead [OF demo_removal(1), of "\<lparr>wm_id = 21, wm_workspace_id = 10, wm_user_id = 2, wm_role = Member, wm_status = M_active\<rparr>"
      _ _ demo_token]) (simp_all add: demo_ok demo_resolves, simp_all add: demo_tenancy_def demo_token_def)


theorem api_tokens_administer_nothing_witness:
  "\<exists>ts. fst (perform id id demo_settings 10 (demo_request\<lparr>rq_authorization := Some (''Bearer '' @ demo_plain)\<rparr>)
     (Remove_member 21) demo_tenancy) = demo_tenancy\<lparr>td_tokens := ts\<rparr>"
proof -
  have "present (rq_authorization (demo_request\<lparr>rq_authorization := Some (''Bearer '' @ demo_plain)\<rparr>)) \<noteq> None" by simp
  from api_tokens_administer_nothing [OF this, where op = "Remove_member 21" and d = demo_tenancy and hmac = id and sha = id
      and cf = demo_settings and now = 10] show ?thesis by auto
qed

theorem requests_act_for_active_members_witness:
  "active_membership demo_tenancy 1 10 \<noteq> None"
proof -
  have "get_current_workspace (touch_session 10 ''cookie'' demo_tenancy) demo_request demo_owner
      = Inr \<lparr>wk_id = 10, wk_kind = Organization, wk_owner_user_id = 1\<rparr>"
    using demo_gate by (auto simp: admin_gate_def bindr_Inr)
  from requests_act_for_active_members [OF demo_login this] show ?thesis by (simp add: demo_owner_def)
qed

theorem cookie_writes_come_from_allowed_origins_witness:
  "\<exists>v h. (rq_origin demo_request = Some v \<or> rq_referer demo_request = Some v) \<and> Some v = Some h
    \<and> (\<exists>a \<in> set [''http://x'']. Some a = Some h)"
  by (rule cookie_writes_come_from_allowed_origins [OF _ demo_login, of Some])
    (simp_all add: csrf_dispatch_def header_origin_def demo_owner_def demo_request_def read_methods_def csrf_exempt_paths_def
      csrf_protected_methods_def map_filter_simps)

definition demo_minted :: "tenancy \<times> string" where
  "demo_minted = (case mint_token id 10 10 2 6 ''key'' True (Some 1) demo_tenancy of Inr r \<Rightarrow> r)"

theorem minted_token_authenticates_witness:
  "\<exists>d2. get_current_user id id 100 20 (fst demo_minted) (demo_request\<lparr>rq_authorization := Some (''Bearer '' @ snd demo_minted)\<rparr>)
     = (d2, Inl Token_read_only)"
proof -
  have m: "mint_token id 10 10 2 6 ''key'' True (Some 1) demo_tenancy = Inr (fst demo_minted, snd demo_minted)"
    by (simp add: demo_minted_def mint_token_def token_by_id_def demo_tenancy_def demo_token_def)
  have "\<exists>d2 t. get_current_user id id 100 20 (fst demo_minted) (demo_request\<lparr>rq_authorization := Some (''Bearer '' @ snd demo_minted)\<rparr>)
     = (d2, if True \<and> rq_method (demo_request\<lparr>rq_authorization := Some (''Bearer '' @ snd demo_minted)\<rparr>) \<notin> set read_methods
         then Inl Token_read_only else Inr \<lparr>pr_user = \<lparr>u_id = 2, u_email = ''b@x''\<rparr>, pr_token = Some t\<rparr>)
     \<and> at_user_id t = 2 \<and> at_workspace_id t = 10"
    by (rule minted_token_authenticates [OF m])
      (simp_all add: is_space_def demo_tenancy_def user_by_id_def active_membership_def)
  then show ?thesis by (auto simp: demo_request_def read_methods_def)
qed

text \<open>The unguarded request: the only owner of a workspace disables the own seat.\<close>

lemma last_owner_can_disable_the_own_seat:
  "owned demo_tenancy \<and> \<not> owned (fst (perform id id demo_settings 10 demo_request
     (Patch_member 20 \<lparr>mp_role = None, mp_status = Some (Some M_disabled)\<rparr>) demo_tenancy))"
proof -
  have "patch_member_route (touch_session 10 ''cookie'' demo_tenancy) demo_request demo_owner 20
      \<lparr>mp_role = None, mp_status = Some (Some M_disabled)\<rparr>
    = Inr (update_member 20 (patched_member \<lparr>mp_role = None, mp_status = Some (Some M_disabled)\<rparr>) (touch_session 10 ''cookie'' demo_tenancy))"
    unfolding patch_member_route_def demo_gate
    by (simp add: bindr_def patch_member_def member_in_workspace_def seat_def demo_tenancy_def touch_session_def demo_owner_def)
  then have "perform id id demo_settings 10 demo_request (Patch_member 20 \<lparr>mp_role = None, mp_status = Some (Some M_disabled)\<rparr>) demo_tenancy
    = (update_member 20 (patched_member \<lparr>mp_role = None, mp_status = Some (Some M_disabled)\<rparr>) (touch_session 10 ''cookie'' demo_tenancy), Inr None)"
    using demo_login by (simp add: perform_def demo_settings_def bindr_def)
  then show ?thesis
    by (simp add: demo_owned owned_def has_owner_def update_member_def patched_member_def touch_session_def demo_tenancy_def)
qed

end
