(* ===== verification/Spec2Isabelle.thy ===== *)
theory Spec2Isabelle
  imports OrderRoutes PicklistProps CoverageProps SexprProps PaginationProps AccessProps
begin

text \<open>
  A verification development for the inventory backend under \<open>src/backend/app\<close>: stock, orders,
  builds, categories, sourcing plans, KiCad library files, listings and access control. Paths
  below are relative to that directory.

  \<^bold>\<open>The program.\<close> Stock is an append-only ledger of signed rows (\<open>stock_entries\<close>); every balance is a
  sum over it, and PostgreSQL triggers refuse a row that takes a bucket below zero. Services under
  \<open>domain\<close> write the ledger inside one database transaction and serialise with advisory locks;
  the routes under \<open>api/routes\<close> look rows up in the caller's workspace, call the services and
  commit. Orders add stock, builds reserve and consume it, kits move it to a staging shelf, pick
  lists plan its collection. Categories form a tree beside the parts. The sourcing code chooses
  offers for missing parts. Every request first passes authentication, the workspace gate and the
  role gate; every long listing is cut into pages by a signed cursor.

  \<^bold>\<open>How it is modelled.\<close> A table is a list of records in insertion order (\<open>Schema.db\<close>, \<open>cat_db\<close>,
  \<open>tenancy\<close>), an operation a function from the old state to an error or the new state: an error
  rolls the transaction back, so the state it leaves is the old one. What the code commits before
  it raises (token telemetry, the end of an idle session) is returned beside the error. Row ids
  are numbers; where the code draws a random id, the id is the next free one or an argument that
  the primary key may refuse. Quantities and prices are rationals, rounded as Python's \<open>decimal\<close>
  does (28 digits, half even) or as the column does (\<open>NUMERIC(18,6)\<close>); on the grid of six places
  below \<open>10^22\<close> the arithmetic is exact (\<open>Decimal28.dec_grid\<close>), and the properties that add
  quantities carry that bound through \<open>ledger_ok\<close>. Characters are 8 bit. The text columns of
  stock, lots, orders, builds and stages refuse NUL and what is longer than their type
  (\<open>Schema.fits_varchar\<close>), as a data error of the database; the names of categories and the texts
  of the access tables are taken to fit.

  \<^bold>\<open>Theories.\<close>
  \<^item> \<open>Prelude\<close>, \<open>Decimal28\<close>, \<open>PyText\<close>, \<open>PyUuid\<close>: the error sum with \<open>bindr\<close>, sums over rows,
    decimal arithmetic, the string and UUID functions the services use.
  \<^item> \<open>Schema\<close> (\<open>domain/*/models.py\<close>), \<open>Ledger\<close> (the triggers of \<open>alembic/versions\<close> 0013, 0064,
    0076, 0077; locale \<open>stock_ledger\<close> with what every insert keeps), \<open>Locks\<close> (advisory locks as a
    step relation; locale \<open>lock_discipline\<close>: sorted programs never deadlock), \<open>Rollups\<close>,
    \<open>StockRules\<close>, \<open>StockOps\<close>, \<open>StockProps\<close> (\<open>domain/stock/service.py\<close>).
  \<^item> \<open>Builds\<close>, \<open>BuildProps\<close> (\<open>domain/builds/service.py\<close>), \<open>Stages\<close> (\<open>stages.py\<close>), \<open>BuildRoutes\<close>
    (\<open>api/routes/builds.py\<close>, \<open>build_stages.py\<close>), \<open>Kitting\<close> (\<open>kitting.py\<close>, \<open>build_kits.py\<close>),
    \<open>Picklist\<close>, \<open>PicklistProps\<close> (\<open>picklist.py\<close>, \<open>build_picklist.py\<close>).
  \<^item> \<open>Orders\<close> (\<open>domain/orders/service.py\<close>), \<open>OrderRoutes\<close> (\<open>api/routes/orders.py\<close>).
  \<^item> \<open>Categories\<close>, \<open>CategoryProps\<close>, \<open>CategoryPaths\<close> (\<open>domain/categories/tree.py\<close>, \<open>service.py\<close>).
  \<^item> \<open>Optimizer\<close>, \<open>OptimizerProps\<close> (\<open>domain/sourcing/pricing.py\<close>, \<open>optimizer.py\<close>; locale
    \<open>line_strategy\<close> for what the per-line strategies share), \<open>Coverage\<close>, \<open>CoverageProps\<close>
    (\<open>coverage.py\<close>: who can deliver what, and how many builds the stock supports).
  \<^item> \<open>Sexpr\<close>, \<open>SexprProps\<close> (\<open>domain/eda/sexpr.py\<close>, against an inductive grammar).
  \<^item> \<open>Pagination\<close>, \<open>PaginationProps\<close> (\<open>core/pagination.py\<close>; locale \<open>seek_order\<close>, interpreted for
    the one-column and the multi-key order).
  \<^item> \<open>Access\<close>, \<open>AccessRoutes\<close>, \<open>AccessInvariant\<close>, \<open>AccessProps\<close> (\<open>core/deps.py\<close>, \<open>core/auth.py\<close>,
    \<open>domain/tokens\<close>, \<open>api/routes/tokens.py\<close>, \<open>invitations.py\<close>, \<open>workspaces.py\<close>, \<open>auth.py\<close>, the
    origin check of \<open>main.py\<close>; locale \<open>kept_by_requests\<close> from one request to every history).
  \<^item> \<open>Demo\<close>: the small database on which the witnesses evaluate.
  \<^bold>\<open>What is shown.\<close> Invariants: no bucket is negative and the catalog stays well formed under every
  stock, build and order operation; the order book, the category tree and the access tables stay
  consistent over every sequence of requests. Functional behaviour: what each writer adds to and
  takes from every bucket, error branches included, and when it succeeds. Refinement and
  equivalence: received quantities agree with the ledger, pages enumerate the sorted listing, the
  reader of s-expressions accepts exactly its grammar, a re-parenting is refused exactly when the
  tree would break. Errors: exactly which withdrawals and moves the database refuses. Optimality:
  the cheapest plan, the best pair and the smallest set of distributors, the most builds the stock
  supports. Safety of access: who can act where, who can change a seat, what a token can do, that a
  removed member's tokens stay dead. Liveness: stock transactions never deadlock, receipts can.

  \<^bold>\<open>Bounds and fuel.\<close> Recursions terminate by measures: the category walks by the categories not
  yet seen, the reader by the text left (nesting at most \<open>MAX_NESTING\<close> = 32), the optimizer's
  rounds by the distributors left. The only fuel is that of the client that follows page cursors,
  one request more than the listing has rows, and the property states that it is enough.

  \<^bold>\<open>Parameters.\<close> What lies outside the sources is an argument: the cursor signer (with the
  hypothesis that it reads back what it signed), the keyed digests, the origin of a URL, the
  iteration order of a Python set, the text form of a sort value. Witnesses instantiate each.

  \<^bold>\<open>Not modelled.\<close> Races between two requests apart from the stock locks (a request runs alone on
  the state it finds); PostgreSQL collation (names compare by code point); rendering to JSON, CSV
  and labels; the network (distributor search, FX download, mail, KiCad downloads); passwords,
  lockout, rate limits, login times and the audit log; how a login, an email link or a reset link is
  checked (the requests carry the user it proves, and a password reset ends that user's sessions);
  the immediate sign-up of development settings; the reports, which are SQL aggregations;
  the background jobs that call providers; the web client, which is not Python.
\<close>

end
